(* ===== verification/Web_Prelude.thy ===== *)
theory Web_Prelude
  imports Main "HOL-Library.Word"
begin

text \<open>
  Shared vocabulary of the development: the widths of the machine integers, the faults a C++
  operation can end in, the state-and-fault type of the stateful operations with its sequencing
  operator, the collections of rewrite rules the component proofs use, and the generic lemmas on
  lists (overwriting a segment, blocks of equal length) that several components share.
\<close>

unbundle bit_operations_syntax

named_theorems op_simps \<open>unfolding of the sequencing operators\<close>
named_theorems ba_simps \<open>rewrite rules of the byte array\<close>
named_theorems inv_intros \<open>preservation of component invariants\<close>

section \<open>Machine integers\<close>

type_synonym u8 = "8 word"
type_synonym u16 = "16 word"
type_synonym u32 = "32 word"
type_synonym u64 = "64 word"

text \<open>
  Sizes and offsets (\<open>size_t\<close>, \<open>uint64_t\<close>) are natural numbers; a subtraction that the source
  performs on unsigned operands is written with its wrap-around.
\<close>

definition sub64 :: "nat \<Rightarrow> nat \<Rightarrow> nat" where
  "sub64 a b = (if b \<le> a then a - b else 2 ^ 64 + a - b)"

lemma sub64_le [simp]: "b \<le> a \<Longrightarrow> sub64 a b = a - b"
  by (simp add: sub64_def)

section \<open>Faults and stateful operations\<close>

text \<open>
  How an operation can fail: by a C++ exception, by a failed \<open>SYLAR_ASSERT\<close> (which aborts), or by
  undefined behaviour that the model makes explicit (a null dereference, an access outside a
  block, a division by zero) or a loop that never ends.
\<close>

datatype fault =
    Out_Of_Range
  | Invalid_Argument
  | Assert_Failed string
  | Null_Deref
  | Buffer_Overflow
  | Div_By_Zero
  | Invalid_Iterator
  | Bad_Function_Call
  | Bad_Shift
  | Logic_Error
  | Diverges

text \<open>
  A stateful operation maps a state to its result and the state it leaves behind. An exception
  keeps the changes made before it was thrown, as in the source.
\<close>

type_synonym ('s, 'a) sop = "'s \<Rightarrow> (fault + 'a) \<times> 's"

definition ret :: "'a \<Rightarrow> ('s, 'a) sop" where
  "ret v s = (Inr v, s)"

definition throw :: "fault \<Rightarrow> ('s, 'a) sop" where
  "throw e s = (Inl e, s)"

definition and_then :: "('s, 'a) sop \<Rightarrow> ('a \<Rightarrow> ('s, 'b) sop) \<Rightarrow> ('s, 'b) sop" where
  "and_then m f s = (case m s of (Inl e, s') \<Rightarrow> (Inl e, s') | (Inr v, s') \<Rightarrow> f v s')"

lemma ret_app [op_simps]: "ret v s = (Inr v, s)"
  by (simp add: ret_def)

lemma throw_app [op_simps]: "throw e s = (Inl e, s)"
  by (simp add: throw_def)

lemma and_then_Inr [op_simps]: "m s = (Inr v, s') \<Longrightarrow> and_then m f s = f v s'"
  by (simp add: and_then_def)

lemma and_then_Inl [op_simps]: "m s = (Inl e, s') \<Longrightarrow> and_then m f s = (Inl e, s')"
  by (simp add: and_then_def)

lemma and_then_InrE:
  assumes "and_then m f s = (Inr w, t)"
  obtains v s' where "m s = (Inr v, s')" and "f v s' = (Inr w, t)"
  using assms by (auto simp: and_then_def split: prod.splits sum.splits)

lemma and_then_assoc:
  "and_then (and_then m f) g = and_then m (\<lambda>v. and_then (f v) g)"
  by (auto simp: and_then_def fun_eq_iff split: prod.splits sum.splits)

text \<open>Results without state: the same sequencing on \<open>fault + 'a\<close>.\<close>

definition bindE :: "fault + 'a \<Rightarrow> ('a \<Rightarrow> fault + 'b) \<Rightarrow> fault + 'b" where
  "bindE m f = (case m of Inl e \<Rightarrow> Inl e | Inr v \<Rightarrow> f v)"

lemma bindE_simps [simp]:
  "bindE (Inl e) f = Inl e"
  "bindE (Inr v) f = f v"
  by (simp_all add: bindE_def)

lemma bindE_InrE:
  assumes "bindE m f = Inr w"
  obtains v where "m = Inr v" and "f v = Inr w"
  using assms by (cases m) auto

section \<open>Overwriting a segment of a list\<close>

definition overwrite :: "nat \<Rightarrow> 'a list \<Rightarrow> 'a list \<Rightarrow> 'a list" where
  "overwrite p xs ys = take p ys @ xs @ drop (p + length xs) ys"

lemma overwrite_Nil [simp]: "overwrite p [] ys = ys"
  by (simp add: overwrite_def)

lemma length_overwrite [simp]:
  "p + length xs \<le> length ys \<Longrightarrow> length (overwrite p xs ys) = length ys"
  by (simp add: overwrite_def)

lemma take_overwrite:
  "p \<le> length ys \<Longrightarrow> take p (overwrite p xs ys) = take p ys"
  by (simp add: overwrite_def)

lemma overwrite_segment:
  "p \<le> length ys \<Longrightarrow> take (length xs) (drop p (overwrite p xs ys)) = xs"
  by (simp add: overwrite_def min_absorb2)

lemma drop_overwrite:
  "p + length xs \<le> length ys \<Longrightarrow>
     drop (p + length xs) (overwrite p xs ys) = drop (p + length xs) ys"
  by (simp add: overwrite_def min_absorb2)

lemma overwrite_append:
  assumes "p + length xs + length zs \<le> length ys"
  shows "overwrite (p + length xs) zs (overwrite p xs ys) = overwrite p (xs @ zs) ys"
  using assms by (simp add: overwrite_def min_absorb2 ac_simps)

lemma overwrite_in_left:
  "p + length xs \<le> length ys \<Longrightarrow> overwrite p xs (ys @ zs) = overwrite p xs ys @ zs"
  by (simp add: overwrite_def)

lemma overwrite_in_right:
  "length ys \<le> p \<Longrightarrow> overwrite p xs (ys @ zs) = ys @ overwrite (p - length ys) xs zs"
  by (simp add: overwrite_def)

lemma overwrite_grow:
  "p \<le> length ys \<Longrightarrow> length ys \<le> p + length xs \<Longrightarrow> take (p + length xs) (overwrite p xs (ys @ zs)) = take p ys @ xs"
  by (simp add: overwrite_def)

section \<open>Blocks of equal length\<close>

lemma length_concat_blocks:
  "\<forall>b \<in> set bs. length b = k \<Longrightarrow> length (concat bs) = k * length bs"
  by (induction bs) auto

lemma concat_split_at:
  assumes "\<forall>b \<in> set bs. length b = k" and "i < length bs"
  shows "concat bs = concat (take i bs) @ bs ! i @ concat (drop (Suc i) bs)"
  using assms by (metis concat.simps(2) concat_append id_take_nth_drop)

lemma length_concat_take_blocks:
  assumes "\<forall>b \<in> set bs. length b = k" and "i \<le> length bs"
  shows "length (concat (take i bs)) = k * i"
proof -
  have "\<forall>b \<in> set (take i bs). length b = k"
    using assms(1) by (meson in_set_takeD)
  then have "length (concat (take i bs)) = k * length (take i bs)"
    by (rule length_concat_blocks)
  with assms(2) show ?thesis by simp
qed

lemma concat_block_segment:
  assumes "\<forall>b \<in> set bs. length b = k" and "i < length bs" and "o' + n \<le> k"
  shows "take n (drop o' (bs ! i)) = take n (drop (i * k + o') (concat bs))"
proof -
  have len: "length (concat (take i bs)) = k * i"
    using assms(1,2) by (simp add: length_concat_take_blocks)
  have blk: "length (bs ! i) = k"
    using assms(1,2) by simp
  have "drop (i * k + o') (concat bs) = drop o' (bs ! i @ concat (drop (Suc i) bs))"
    by (subst concat_split_at [OF assms(1,2)])
       (simp add: len mult.commute)
  then show ?thesis
    using assms(3) blk by simp
qed

lemma concat_block_overwrite:
  assumes "\<forall>b \<in> set bs. length b = k" and "i < length bs" and "o' + length xs \<le> k"
  shows "concat (bs[i := overwrite o' xs (bs ! i)]) = overwrite (i * k + o') xs (concat bs)"
proof -
  have len: "length (concat (take i bs)) = k * i"
    using assms(1,2) by (simp add: length_concat_take_blocks)
  have blk: "length (bs ! i) = k"
    using assms(1,2) by simp
  have "overwrite (i * k + o') xs (concat bs)
      = overwrite (i * k + o') xs (concat (take i bs) @ bs ! i @ concat (drop (Suc i) bs))"
    by (subst concat_split_at [OF assms(1,2)]) simp
  also have "\<dots> = concat (take i bs) @ overwrite o' xs (bs ! i) @ concat (drop (Suc i) bs)"
    using assms(3) blk len by (simp add: overwrite_in_right overwrite_in_left mult.commute)
  also have "\<dots> = concat (bs[i := overwrite o' xs (bs ! i)])"
    using assms(2) by (simp add: upd_conv_take_nth_drop)
  finally show ?thesis by simp
qed

end
