(* ===== verification/Byte_Store.thy ===== *)
theory Byte_Store
  imports Web_Prelude
begin

text \<open>
  What a growing byte buffer promises its clients: an abstract buffer (a list of bytes and a
  position) and an interface, the locale \<open>byte_store\<close>, whose laws say how writing, reading and
  seeking act on it. The serialisation of integers and strings is proved correct against the
  interface; \<open>Byte_Array\<close> provides it.
\<close>

section \<open>The abstract buffer\<close>

text \<open>
  A list of bytes and a position in it. Writing replaces the bytes from the position on, extending
  the list at its end; reading returns the bytes at the position; both advance it.
\<close>

type_synonym flat_buf = "u8 list \<times> nat"

definition buf_write :: "u8 list \<Rightarrow> flat_buf \<Rightarrow> flat_buf" where
  "buf_write bs = (\<lambda>(d, p). (overwrite p bs d, p + length bs))"

definition buf_read :: "nat \<Rightarrow> flat_buf \<Rightarrow> u8 list \<times> flat_buf" where
  "buf_read n = (\<lambda>(d, p). (take n (drop p d), (d, p + n)))"

definition buf_ok :: "flat_buf \<Rightarrow> bool" where
  "buf_ok = (\<lambda>(d, p). p \<le> length d)"

lemma buf_write_ok: "buf_ok a \<Longrightarrow> buf_ok (buf_write bs a)"
  by (auto simp: buf_ok_def buf_write_def overwrite_def split: prod.splits)

lemma overwrite_overwrite:
  assumes "p \<le> length d"
  shows "overwrite (p + length xs) ys (overwrite p xs d) = overwrite p (xs @ ys) d"
  using assms by (simp add: overwrite_def min_absorb2 ac_simps)

lemma buf_write_append:
  "buf_ok a \<Longrightarrow> buf_write ys (buf_write xs a) = buf_write (xs @ ys) a"
  by (auto simp: buf_ok_def buf_write_def overwrite_overwrite split: prod.splits)

section \<open>The interface\<close>

locale byte_store =
  fixes inv :: "'s \<Rightarrow> bool"
    and abs :: "'s \<Rightarrow> flat_buf"
    and room :: "nat \<Rightarrow> 's \<Rightarrow> bool"
    and put :: "u8 list \<Rightarrow> ('s, unit) sop"
    and get :: "nat \<Rightarrow> ('s, u8 list) sop"
    and seek :: "nat \<Rightarrow> ('s, unit) sop"
  assumes abs_ok: "inv s \<Longrightarrow> buf_ok (abs s)"
    and put_total: "inv s \<Longrightarrow> room (length bs) s \<Longrightarrow> \<exists>s'. put bs s = (Inr (), s')"
    and put_law: "inv s \<Longrightarrow> put bs s = (Inr (), s') \<Longrightarrow> inv s' \<and> abs s' = buf_write bs (abs s)"
    and get_law: "inv s \<Longrightarrow> abs s = (d, p) \<Longrightarrow> p + n \<le> length d \<Longrightarrow> 0 < n \<Longrightarrow>
       \<exists>s'. get n s = (Inr (take n (drop p d)), s') \<and> inv s' \<and> abs s' = (d, p + n)"
    and get_short: "inv s \<Longrightarrow> abs s = (d, p) \<Longrightarrow> length d < p + n \<Longrightarrow> get n s = (Inl Out_Of_Range, s)"
    and seek_law: "inv s \<Longrightarrow> abs s = (d, p) \<Longrightarrow> q \<le> length d \<Longrightarrow>
       \<exists>s'. seek q s = (Inr (), s') \<and> inv s' \<and> abs s' = (d, q)"
begin

lemma get_prefix:
  assumes "inv s" and "abs s = (d, p)" and "drop p d = xs @ rest" and "xs \<noteq> []"
  shows "\<exists>s'. get (length xs) s = (Inr xs, s') \<and> inv s' \<and> abs s' = (d, p + length xs)"
proof -
  have "p \<le> length d" using abs_ok [OF assms(1)] assms(2) by (simp add: buf_ok_def)
  moreover have "length d - p = length (xs @ rest)"
    using assms(3) by (metis length_drop)
  ultimately have "p + length xs \<le> length d" by simp
  moreover have "take (length xs) (drop p d) = xs" using assms(3) by simp
  ultimately show ?thesis
    using get_law [OF assms(1,2), of "length xs"] assms(4) by auto
qed

text \<open>Two writes in a row leave what one write of the joined bytes leaves.\<close>

lemma put_put:
  assumes "inv s" and "put xs s = (Inr (), s1)" and "put ys s1 = (Inr (), s2)"
  shows "inv s2 \<and> abs s2 = buf_write (xs @ ys) (abs s)"
proof -
  note 1 = put_law [OF assms(1,2)]
  note 2 = put_law [OF conjunct1 [OF 1] assms(3)]
  from 1 2 show ?thesis by (simp add: buf_write_append abs_ok assms(1))
qed

text \<open>After a write and a seek back to where it began, the written bytes are next to be read.\<close>

lemma put_seek:
  assumes "inv s" and "abs s = (d, p)" and "inv s'" and "abs s' = buf_write bs (abs s)"
  shows "\<exists>s2 d' rest. seek p s' = (Inr (), s2) \<and> inv s2 \<and> abs s2 = (d', p) \<and> drop p d' = bs @ rest
           \<and> abs s' = (d', p + length bs)"
proof -
  have p: "p \<le> length d" using abs_ok [OF assms(1)] assms(2) by (simp add: buf_ok_def)
  have abs': "abs s' = (overwrite p bs d, p + length bs)"
    using assms(2,4) by (simp add: buf_write_def)
  have "p \<le> length (overwrite p bs d)" using p by (simp add: overwrite_def)
  from seek_law [OF assms(3) abs' this] obtain s2 where
    "seek p s' = (Inr (), s2)" "inv s2" "abs s2 = (overwrite p bs d, p)" by auto
  moreover have "drop p (overwrite p bs d) = bs @ drop (p + length bs) d"
    using p by (simp add: overwrite_def)
  ultimately show ?thesis using abs' by blast
qed

lemma put_get_roundtrip:
  assumes "inv s" and "abs s = (d, p)" and "put bs s = (Inr (), s')" and "bs \<noteq> []"
  shows "\<exists>s2 s3. seek p s' = (Inr (), s2) \<and> get (length bs) s2 = (Inr bs, s3) \<and> inv s3 \<and> abs s3 = abs s'"
proof -
  note w = put_law [OF assms(1,3)]
  from put_seek [OF assms(1,2) conjunct1 [OF w] conjunct2 [OF w]] obtain s2 d' rest where
    s2: "seek p s' = (Inr (), s2)" "inv s2" "abs s2 = (d', p)" "drop p d' = bs @ rest"
      "abs s' = (d', p + length bs)" by blast
  from get_prefix [OF s2(2-4) assms(4)] s2 show ?thesis by auto
qed

end

end
