(* ===== verification/Byte_Array.thy ===== *)
theory Byte_Array
  imports Byte_Store
begin

text \<open>
  The storage layer of \<open>ByteArray\<close> (\<open>webserve/bytearray.h\<close>, \<open>webserve/bytearray.cc\<close>): a linked list
  of memory blocks of one size, a cursor into it and the operations that move bytes in and out.

  The list of nodes reachable from \<open>m_root\<close> is a list of records; a \<open>Node*\<close> is the index of the
  node in that list, and the null pointer is \<open>None\<close>, so that \<open>m_cur->size\<close> on a null \<open>m_cur\<close> is the
  fault \<open>Null_Deref\<close>. The bytes of a fresh block are indeterminate in C++: they are a component of
  the state that nothing constrains. The theory proves the well-formedness invariant, that every
  operation keeps it, and that each operation refines an operation on one flat list of bytes.
\<close>

section \<open>State\<close>

record node =
  nd_ptr :: "u8 list"
  nd_size :: nat

datatype byte_order = SYLAR_LITTLE_ENDIAN | SYLAR_BIG_ENDIAN

record byte_array =
  m_baseSize :: nat
  m_position :: nat
  m_capacity :: nat
  m_size :: nat
  m_endian :: byte_order
  m_root :: "node list"
  m_cur :: "nat option"
  m_fresh :: "nat \<Rightarrow> u8"

definition new_Node :: "(nat \<Rightarrow> u8) \<Rightarrow> nat \<Rightarrow> node" where
  "new_Node fresh s = \<lparr>nd_ptr = map fresh [0..<s], nd_size = s\<rparr>"

definition ByteArray :: "(nat \<Rightarrow> u8) \<Rightarrow> nat \<Rightarrow> byte_array" where
  "ByteArray fresh base_size =
     \<lparr>m_baseSize = base_size, m_position = 0, m_capacity = base_size, m_size = 0,
      m_endian = SYLAR_BIG_ENDIAN, m_root = [new_Node fresh base_size], m_cur = Some 0,
      m_fresh = fresh\<rparr>"

definition isLittleEndian :: "byte_array \<Rightarrow> bool" where
  "isLittleEndian b = (m_endian b = SYLAR_LITTLE_ENDIAN)"

definition setIsLittleEndian :: "bool \<Rightarrow> byte_array \<Rightarrow> byte_array" where
  "setIsLittleEndian val b =
     (if val then b\<lparr>m_endian := SYLAR_LITTLE_ENDIAN\<rparr> else b\<lparr>m_endian := SYLAR_BIG_ENDIAN\<rparr>)"

definition getPosition :: "byte_array \<Rightarrow> nat" where
  "getPosition b = m_position b"

definition getBaseSize :: "byte_array \<Rightarrow> nat" where
  "getBaseSize b = m_baseSize b"

definition getSize :: "byte_array \<Rightarrow> nat" where
  "getSize b = m_size b"

definition getReadSize :: "byte_array \<Rightarrow> nat" where
  "getReadSize b = sub64 (m_size b) (m_position b)"

definition getCapacity :: "byte_array \<Rightarrow> nat" where
  "getCapacity b = sub64 (m_capacity b) (m_position b)"

text \<open>Pointer accesses: the node a pointer refers to, its successor, and \<open>memcpy\<close> into and out of
  its block.\<close>

definition deref :: "node list \<Rightarrow> nat option \<Rightarrow> fault + node" where
  "deref ns p = (case p of None \<Rightarrow> Inl Null_Deref
                 | Some i \<Rightarrow> if i < length ns then Inr (ns ! i) else Inl Null_Deref)"

definition next_of :: "node list \<Rightarrow> nat \<Rightarrow> nat option" where
  "next_of ns i = (if Suc i < length ns then Some (Suc i) else None)"

definition node_put :: "node \<Rightarrow> nat \<Rightarrow> u8 list \<Rightarrow> fault + node" where
  "node_put nd off bs =
     (if off + length bs \<le> nd_size nd then Inr (nd\<lparr>nd_ptr := overwrite off bs (nd_ptr nd)\<rparr>)
      else Inl Buffer_Overflow)"

definition node_get :: "node \<Rightarrow> nat \<Rightarrow> nat \<Rightarrow> fault + u8 list" where
  "node_get nd off n =
     (if off + n \<le> nd_size nd then Inr (take n (drop off (nd_ptr nd))) else Inl Buffer_Overflow)"

section \<open>Growing\<close>

definition addCapacity :: "nat \<Rightarrow> (byte_array, unit) sop" where
  "addCapacity sz b =
     (if sz = 0 then (Inr (), b)
      else let old_cap = getCapacity b in
      if old_cap \<ge> sz then (Inr (), b)
      else if m_baseSize b = 0 then (Inl Div_By_Zero, b)
      else let sz' = sz - old_cap;
               count = sz' div m_baseSize b + (if sz' mod m_baseSize b > old_cap then 1 else 0);
               first = (if count = 0 then None else Some (length (m_root b)))
           in (Inr (), b\<lparr>m_root := m_root b @ replicate count (new_Node (m_fresh b) (m_baseSize b)),
                         m_capacity := m_capacity b + count * m_baseSize b,
                         m_cur := (if old_cap = 0 then first else m_cur b)\<rparr>))"

section \<open>Writing and reading\<close>

function write_loop ::
  "node list \<Rightarrow> nat option \<Rightarrow> nat \<Rightarrow> nat \<Rightarrow> nat \<Rightarrow> u8 list \<Rightarrow>
     fault + (node list \<times> nat option \<times> nat)" where
  "write_loop ns cur position npos ncap buf =
     (if buf = [] then Inr (ns, cur, position)
      else case deref ns cur of Inl e \<Rightarrow> Inl e
      | Inr nd \<Rightarrow>
        (let i = the cur; sz = length buf in
         if ncap \<ge> sz then
           bindE (node_put nd npos buf) (\<lambda>nd'.
             Inr (ns[i := nd'], if nd_size nd = npos + sz then next_of ns i else cur,
                  position + sz))
         else
           bindE (node_put nd npos (take ncap buf)) (\<lambda>nd'.
             let ns' = ns[i := nd']; cur' = next_of ns i in
             bindE (deref ns' cur') (\<lambda>nx.
               write_loop ns' cur' (position + ncap) 0 (nd_size nx) (drop ncap buf)))))"
  by pat_completeness auto
termination
  by (relation "measure (\<lambda>(ns, cur, _). case cur of None \<Rightarrow> 0 | Some i \<Rightarrow> length ns - i)")
     (auto simp: deref_def next_of_def split: option.splits if_splits)

declare write_loop.simps [simp del]

definition write_nodes :: "u8 list \<Rightarrow> (byte_array, unit) sop" where
  "write_nodes buf b =
     (if m_baseSize b = 0 then (Inl Div_By_Zero, b)
      else let npos = m_position b mod m_baseSize b in
        (case bindE (deref (m_root b) (m_cur b)) (\<lambda>nd.
                write_loop (m_root b) (m_cur b) (m_position b) npos (sub64 (nd_size nd) npos) buf) of
           Inl e \<Rightarrow> (Inl e, b)
         | Inr (ns, cur, position) \<Rightarrow>
             (Inr (), b\<lparr>m_root := ns, m_cur := cur, m_position := position,
                       m_size := (if position > m_size b then position else m_size b)\<rparr>)))"

definition ba_write :: "u8 list \<Rightarrow> (byte_array, unit) sop" where
  "ba_write buf =
     (if length buf = 0 then ret ()
      else and_then (addCapacity (length buf)) (\<lambda>_. write_nodes buf))"

function read_loop ::
  "node list \<Rightarrow> nat option \<Rightarrow> nat \<Rightarrow> nat \<Rightarrow> nat \<Rightarrow> nat \<Rightarrow> u8 list \<Rightarrow>
     fault + (u8 list \<times> nat option \<times> nat)" where
  "read_loop ns cur position npos ncap sz buf =
     (if sz = 0 then Inr (buf, cur, position)
      else case deref ns cur of Inl e \<Rightarrow> Inl e
      | Inr nd \<Rightarrow>
        (let i = the cur in
         if ncap \<ge> sz then
           bindE (node_get nd npos sz) (\<lambda>bs.
             Inr (buf @ bs, if nd_size nd = npos + sz then next_of ns i else cur,
                  position + sz))
         else
           bindE (node_get nd npos ncap) (\<lambda>bs.
             let cur' = next_of ns i in
             bindE (deref ns cur') (\<lambda>nx.
               read_loop ns cur' (position + ncap) 0 (nd_size nx) (sz - ncap) (buf @ bs)))))"
  by pat_completeness auto
termination
  by (relation "measure (\<lambda>(ns, cur, _). case cur of None \<Rightarrow> 0 | Some i \<Rightarrow> length ns - i)")
     (auto simp: deref_def next_of_def split: option.splits if_splits)

declare read_loop.simps [simp del]

definition ba_read :: "nat \<Rightarrow> (byte_array, u8 list) sop" where
  "ba_read sz b =
     (if sz > getReadSize b then (Inl Out_Of_Range, b)
      else if m_baseSize b = 0 then (Inl Div_By_Zero, b)
      else let npos = m_position b mod m_baseSize b in
        (case bindE (deref (m_root b) (m_cur b)) (\<lambda>nd.
                read_loop (m_root b) (m_cur b) (m_position b) npos (sub64 (nd_size nd) npos) sz []) of
           Inl e \<Rightarrow> (Inl e, b)
         | Inr (bs, cur, position) \<Rightarrow> (Inr bs, b\<lparr>m_cur := cur, m_position := position\<rparr>)))"

text \<open>The overload that reads at a given position and leaves the object unchanged.\<close>

definition ba_read_at :: "nat \<Rightarrow> nat \<Rightarrow> byte_array \<Rightarrow> fault + u8 list" where
  "ba_read_at sz position b =
     (if sz > sub64 (m_size b) position then Inl Out_Of_Range
      else if m_baseSize b = 0 then Inl Div_By_Zero
      else let npos = position mod m_baseSize b in
        bindE (deref (m_root b) (m_cur b)) (\<lambda>nd.
          bindE (read_loop (m_root b) (m_cur b) position npos (sub64 (nd_size nd) npos) sz [])
            (\<lambda>(bs, _, _). Inr bs)))"

section \<open>Positioning and clearing\<close>

function seek_loop :: "node list \<Rightarrow> nat option \<Rightarrow> nat \<Rightarrow> fault + (nat option \<times> nat)" where
  "seek_loop ns cur v =
     (case deref ns cur of Inl e \<Rightarrow> Inl e
      | Inr nd \<Rightarrow> if v > nd_size nd then seek_loop ns (next_of ns (the cur)) (v - nd_size nd)
                  else Inr (cur, v))"
  by pat_completeness auto
termination
  by (relation "measure (\<lambda>(ns, cur, _). case cur of None \<Rightarrow> 0 | Some i \<Rightarrow> length ns - i)")
     (auto simp: deref_def next_of_def split: option.splits if_splits)

declare seek_loop.simps [simp del]

definition setPosition :: "nat \<Rightarrow> (byte_array, unit) sop" where
  "setPosition v b =
     (if v > m_capacity b then (Inl Out_Of_Range, b)
      else let b = b\<lparr>m_position := v, m_size := (if v > m_size b then v else m_size b)\<rparr> in
        (case bindE (seek_loop (m_root b) (Some 0) v) (\<lambda>(cur, v').
                bindE (deref (m_root b) cur) (\<lambda>nd.
                  Inr (if v' = nd_size nd then next_of (m_root b) (the cur) else cur))) of
           Inl e \<Rightarrow> (Inl e, b)
         | Inr cur \<Rightarrow> (Inr (), b\<lparr>m_cur := cur\<rparr>)))"

definition clear :: "byte_array \<Rightarrow> byte_array" where
  "clear b = b\<lparr>m_position := 0, m_size := 0, m_capacity := m_baseSize b,
               m_root := take 1 (m_root b), m_cur := Some 0\<rparr>"

section \<open>Well-formedness\<close>

definition blocks_ok :: "nat \<Rightarrow> node list \<Rightarrow> bool" where
  "blocks_ok k ns = (\<forall>nd \<in> set ns. nd_size nd = k \<and> length (nd_ptr nd) = k)"

definition flat :: "node list \<Rightarrow> u8 list" where
  "flat ns = concat (map nd_ptr ns)"

definition cur_at :: "nat \<Rightarrow> nat \<Rightarrow> nat \<Rightarrow> nat option" where
  "cur_at k n p = (if p < k * n then Some (p div k) else None)"

text \<open>
  The invariant: blocks of the base size, a capacity that counts them, the position inside the
  data and the data inside the capacity, and a cursor that is the block of the position (null
  exactly when the position is the capacity).
\<close>

definition ba_inv :: "byte_array \<Rightarrow> bool" where
  "ba_inv b \<longleftrightarrow> 0 < m_baseSize b \<and> m_root b \<noteq> [] \<and> blocks_ok (m_baseSize b) (m_root b)
     \<and> m_capacity b = m_baseSize b * length (m_root b)
     \<and> m_position b \<le> m_size b \<and> m_size b \<le> m_capacity b
     \<and> m_cur b = cur_at (m_baseSize b) (length (m_root b)) (m_position b)"

text \<open>What a byte array stores: all its memory as one list, and the data written so far.\<close>

definition memory :: "byte_array \<Rightarrow> u8 list" where
  "memory b = flat (m_root b)"

definition contents :: "byte_array \<Rightarrow> u8 list" where
  "contents b = take (m_size b) (memory b)"

lemma blocks_ok_nth: "blocks_ok k ns \<Longrightarrow> i < length ns \<Longrightarrow> nd_size (ns ! i) = k \<and> length (nd_ptr (ns ! i)) = k"
  by (simp add: blocks_ok_def)

lemma length_flat: "blocks_ok k ns \<Longrightarrow> length (flat ns) = k * length ns"
  unfolding flat_def by (subst length_concat_blocks [where k = k]) (auto simp: blocks_ok_def)

lemma blocks_ok_append [simp]: "blocks_ok k (xs @ ys) \<longleftrightarrow> blocks_ok k xs \<and> blocks_ok k ys"
  by (auto simp: blocks_ok_def)

lemma blocks_ok_new [simp]: "blocks_ok k (replicate n (new_Node f k))"
  by (auto simp: blocks_ok_def new_Node_def)

lemma node_put_block:
  assumes "blocks_ok k ns" and "i < length ns" and "off + length bs \<le> k"
  shows "\<exists>nd'. node_put (ns ! i) off bs = Inr nd' \<and> blocks_ok k (ns[i := nd'])
           \<and> flat (ns[i := nd']) = overwrite (i * k + off) bs (flat ns)"
proof -
  let ?nd' = "(ns ! i)\<lparr>nd_ptr := overwrite off bs (nd_ptr (ns ! i))\<rparr>"
  note nd = blocks_ok_nth [OF assms(1,2)]
  have put: "node_put (ns ! i) off bs = Inr ?nd'"
    using assms(3) nd by (simp add: node_put_def)
  have blocks: "\<forall>x \<in> set (map nd_ptr ns). length x = k"
    using assms(1) by (simp add: blocks_ok_def)
  have "flat (ns[i := ?nd']) = concat ((map nd_ptr ns)[i := overwrite off bs (map nd_ptr ns ! i)])"
    using assms(2) by (simp add: flat_def map_update)
  also have "\<dots> = overwrite (i * k + off) bs (flat ns)"
    unfolding flat_def using assms(2,3) by (intro concat_block_overwrite [OF blocks]) simp_all
  finally have flat: "flat (ns[i := ?nd']) = overwrite (i * k + off) bs (flat ns)" .
  have ok: "blocks_ok k (ns[i := ?nd'])"
    using assms nd unfolding blocks_ok_def by (auto dest!: set_update_subset_insert [THEN subsetD])
  from put ok flat show ?thesis by blast
qed

lemma node_get_block:
  assumes "blocks_ok k ns" and "i < length ns" and "off + n \<le> k"
  shows "node_get (ns ! i) off n = Inr (take n (drop (i * k + off) (flat ns)))"
proof -
  have "\<forall>x \<in> set (map nd_ptr ns). length x = k"
    using assms(1) by (simp add: blocks_ok_def)
  from concat_block_segment [OF this, of i off n] show ?thesis
    using assms blocks_ok_nth [OF assms(1,2)] by (simp add: node_get_def flat_def)
qed

lemma block_bound: "npos < k \<Longrightarrow> i < n \<Longrightarrow> i * k + npos < k * (n :: nat)"
proof -
  assume "npos < k" and "i < n"
  then have "i * k + npos < Suc i * k" and "Suc i * k \<le> n * k"
    by (simp, intro mult_le_mono1, simp)
  then show ?thesis by (simp add: mult.commute)
qed

lemma cur_at_inside: "npos < k \<Longrightarrow> i < n \<Longrightarrow> cur_at k n (i * k + npos) = Some i"
  by (simp add: cur_at_def block_bound)

lemma cur_at_block_end: "0 < k \<Longrightarrow> i < n \<Longrightarrow> length ns = n \<Longrightarrow> cur_at k n (i * k + k) = next_of ns i"
proof -
  assume a: "0 < k" "i < n" "length ns = n"
  have "i * k + k < k * n \<longleftrightarrow> Suc i < n"
    using a(1) by (metis add.commute mult.commute mult_Suc mult_less_cancel2)
  with a show ?thesis by (simp add: cur_at_def next_of_def div_add_self2)
qed

lemma deref_Some [simp]: "i < length ns \<Longrightarrow> deref ns (Some i) = Inr (ns ! i)"
  by (simp add: deref_def)

lemma deref_None [simp]: "deref ns None = Inl Null_Deref"
  by (simp add: deref_def)

text \<open>Where the cursor stands after moving \<open>v\<close> bytes into block \<open>j\<close>: the next block if the block
  is full, else the block itself.\<close>

lemma cursor_move:
  assumes "0 < k" and "j < length ns" and "v \<le> k"
  shows "(if k = v then next_of ns j else Some j) = cur_at k (length ns) (j * k + v)"
  using assms cur_at_block_end [OF assms(1,2) refl] cur_at_inside [of v k j "length ns"] by auto

section \<open>The copy loops\<close>

text \<open>The last iteration: the rest of the data fits into the current block.\<close>

lemma write_loop_fits:
  assumes ok: "blocks_ok k ns" and k: "0 < k" and i: "i < length ns"
    and np: "npos < k" and fits: "npos + length buf \<le> k"
  shows "\<exists>ns'. write_loop ns (Some i) (i * k + npos) npos (k - npos) buf
           = Inr (ns', cur_at k (length ns) (i * k + npos + length buf), i * k + npos + length buf)
         \<and> blocks_ok k ns' \<and> length ns' = length ns
         \<and> flat ns' = overwrite (i * k + npos) buf (flat ns)"
proof (cases "buf = []")
  case True
  then show ?thesis
    using ok i np by (auto simp: write_loop.simps cur_at_inside)
next
  case False
  from node_put_block [OF ok i fits] obtain nd' where nd':
      "node_put (ns ! i) npos buf = Inr nd'" "blocks_ok k (ns[i := nd'])"
      "flat (ns[i := nd']) = overwrite (i * k + npos) buf (flat ns)" by blast
  have cur: "(if nd_size (ns ! i) = npos + length buf then next_of ns i else Some i)
      = cur_at k (length ns) (i * k + npos + length buf)"
    using blocks_ok_nth [OF ok i] cursor_move [OF k i fits] by (simp add: add.assoc)
  have "write_loop ns (Some i) (i * k + npos) npos (k - npos) buf
      = Inr (ns[i := nd'], cur_at k (length ns) (i * k + npos + length buf), i * k + npos + length buf)"
    using False fits i nd'(1) cur by (subst write_loop.simps) (auto simp: Let_def)
  with nd' show ?thesis by auto
qed

text \<open>One iteration that fills the current block and moves on to the next.\<close>

lemma write_loop_step:
  assumes ok: "blocks_ok k ns" and i: "i < length ns" and np: "npos < k"
    and long: "k < npos + length buf"
    and nd': "node_put (ns ! i) npos (take (k - npos) buf) = Inr nd'"
  shows "write_loop ns (Some i) position npos (k - npos) buf
       = (if Suc i < length ns
          then write_loop (ns[i := nd']) (Some (Suc i)) (position + (k - npos)) 0 k (drop (k - npos) buf)
          else Inl Null_Deref)"
proof -
  have "buf \<noteq> []" and "\<not> length buf \<le> k - npos"
    using long np by auto
  with i nd' ok show ?thesis
    by (subst write_loop.simps) (auto simp: Let_def next_of_def blocks_ok_def)
qed

lemma write_loop_spec:
  assumes "blocks_ok k ns" and "0 < k" and "i < length ns" and "npos < k"
    and "i * k + npos + length buf \<le> k * length ns"
  shows "\<exists>ns'. write_loop ns (Some i) (i * k + npos) npos (k - npos) buf
           = Inr (ns', cur_at k (length ns) (i * k + npos + length buf), i * k + npos + length buf)
         \<and> blocks_ok k ns' \<and> length ns' = length ns
         \<and> flat ns' = overwrite (i * k + npos) buf (flat ns)"
  using assms
proof (induction "length buf" arbitrary: ns i npos buf rule: less_induct)
  case less
  show ?case
  proof (cases "npos + length buf \<le> k")
    case True
    with less.prems show ?thesis by (intro write_loop_fits)
  next
    case False
    let ?h = "take (k - npos) buf" and ?t = "drop (k - npos) buf"
    have lens: "length ?h = k - npos" "length ?t = length buf - (k - npos)" "length ?t < length buf"
      using False less.prems(4) by auto
    from node_put_block [OF less.prems(1,3), of npos ?h] lens less.prems(4)
    obtain nd' where nd': "node_put (ns ! i) npos ?h = Inr nd'" "blocks_ok k (ns[i := nd'])"
      "flat (ns[i := nd']) = overwrite (i * k + npos) ?h (flat ns)" by auto
    have more: "Suc i < length ns"
    proof (rule ccontr)
      assume "\<not> Suc i < length ns"
      then have "length ns = Suc i" using less.prems(3) by simp
      with less.prems(5) have "i * k + npos + length buf \<le> i * k + k" by (simp add: mult.commute)
      with False show False by simp
    qed
    have pos: "i * k + npos + (k - npos) = Suc i * k + 0"
      using less.prems(4) by simp
    have fitsT: "Suc i * k + 0 + length ?t \<le> k * length (ns[i := nd'])"
      using less.prems(4,5) False lens by simp
    have sum: "Suc i * k + length ?t = i * k + npos + length buf"
      using less.prems(4) False lens by simp
    from less.hyps [OF lens(3) nd'(2) less.prems(2) _ less.prems(2) fitsT] more
    obtain ns' where ns': "write_loop (ns[i := nd']) (Some (Suc i)) (Suc i * k + 0) 0 (k - 0) ?t
        = Inr (ns', cur_at k (length ns) (i * k + npos + length buf), i * k + npos + length buf)"
      "blocks_ok k ns'" "length ns' = length ns"
      "flat ns' = overwrite (Suc i * k) ?t (flat (ns[i := nd']))"
      using sum by (auto simp: ac_simps)
    have "write_loop ns (Some i) (i * k + npos) npos (k - npos) buf
        = write_loop (ns[i := nd']) (Some (Suc i)) (i * k + npos + (k - npos)) 0 k ?t"
      using write_loop_step [OF less.prems(1,3,4) _ nd'(1)] False more by simp
    also have "\<dots> = Inr (ns', cur_at k (length ns) (i * k + npos + length buf), i * k + npos + length buf)"
      unfolding pos using ns'(1) by simp
    finally have res: "write_loop ns (Some i) (i * k + npos) npos (k - npos) buf = \<dots>" .
    have "flat ns' = overwrite (i * k + npos + length ?h) ?t (overwrite (i * k + npos) ?h (flat ns))"
      unfolding lens(1) pos using ns'(4) nd'(3) by simp
    also have "\<dots> = overwrite (i * k + npos) (?h @ ?t) (flat ns)"
      by (rule overwrite_append) (use lens less.prems(5) length_flat [OF less.prems(1)] False in simp)
    finally show ?thesis using res ns' by simp
  qed
qed

text \<open>Data that runs past the last block makes the loop follow a null \<open>next\<close> pointer.\<close>

lemma write_loop_overrun:
  assumes "blocks_ok k ns" and "0 < k" and "i < length ns" and "npos < k"
    and "k * length ns < i * k + npos + length buf"
  shows "write_loop ns (Some i) position npos (k - npos) buf = Inl Null_Deref"
  using assms
proof (induction "length buf" arbitrary: ns i npos buf position rule: less_induct)
  case less
  have "Suc i * k \<le> k * length ns"
    using less.prems(3) by (metis Suc_leI mult.commute mult_le_mono2)
  with less.prems have long: "k < npos + length buf" by simp
  let ?h = "take (k - npos) buf" and ?t = "drop (k - npos) buf"
  have lens: "length ?h = k - npos" "length ?t = length buf - (k - npos)" "length ?t < length buf"
    using long less.prems(4) by auto
  from node_put_block [OF less.prems(1,3), of npos ?h] lens less.prems(4)
  obtain nd' where nd': "node_put (ns ! i) npos ?h = Inr nd'" "blocks_ok k (ns[i := nd'])" by auto
  have "Suc i < length ns \<Longrightarrow>
      write_loop (ns[i := nd']) (Some (Suc i)) (position + (k - npos)) 0 (k - 0) ?t = Inl Null_Deref"
    using less.prems lens long by (intro less.hyps nd'(2)) auto
  with write_loop_step [OF less.prems(1,3,4) long nd'(1)] show ?case by simp
qed

lemma read_loop_spec:
  assumes ok: "blocks_ok k ns" and "0 < k" and "i < length ns" and "npos < k"
    and "i * k + npos + sz \<le> k * length ns"
  shows "read_loop ns (Some i) (i * k + npos) npos (k - npos) sz buf
       = Inr (buf @ take sz (drop (i * k + npos) (flat ns)),
              cur_at k (length ns) (i * k + npos + sz), i * k + npos + sz)"
  using assms(2-)
proof (induction sz arbitrary: i npos buf rule: less_induct)
  case (less sz)
  note nd = blocks_ok_nth [OF ok less.prems(2)]
  consider "sz = 0" | "sz > 0" "npos + sz \<le> k" | "k < npos + sz" by linarith
  then show ?case
  proof cases
    case 1
    then show ?thesis
      using less.prems by (simp add: read_loop.simps cur_at_inside)
  next
    case 2
    then show ?thesis
      using less.prems nd node_get_block [OF ok less.prems(2) 2(2)]
        cursor_move [OF less.prems(1,2) 2(2)]
      by (subst read_loop.simps) (auto simp: Let_def add.assoc)
  next
    case 3
    have more: "Suc i < length ns"
    proof (rule ccontr)
      assume "\<not> Suc i < length ns"
      then have "length ns = Suc i" using less.prems(2) by simp
      with less.prems(4) 3 show False by (simp add: mult.commute)
    qed
    let ?c = "k - npos"
    have get: "node_get (ns ! i) npos ?c = Inr (take ?c (drop (i * k + npos) (flat ns)))"
      using less.prems(3) by (intro node_get_block [OF ok less.prems(2)]) simp
    have pos: "i * k + npos + ?c = Suc i * k + 0"
      using less.prems(3) by simp
    have "read_loop ns (Some i) (i * k + npos) npos ?c sz buf
        = read_loop ns (Some (Suc i)) (i * k + npos + ?c) 0 (k - 0) (sz - ?c)
            (buf @ take ?c (drop (i * k + npos) (flat ns)))"
      using 3 more get less.prems(2,3) blocks_ok_nth [OF ok more]
      by (subst read_loop.simps) (auto simp: Let_def next_of_def)
    also have "\<dots> = Inr ((buf @ take ?c (drop (i * k + npos) (flat ns)))
          @ take (sz - ?c) (drop (Suc i * k + 0) (flat ns)),
          cur_at k (length ns) (Suc i * k + 0 + (sz - ?c)), Suc i * k + 0 + (sz - ?c))"
      unfolding pos using 3 less.prems more by (intro less.IH) auto
    also have "Suc i * k + 0 + (sz - ?c) = i * k + npos + sz"
      using 3 less.prems(3) by simp
    also have "(buf @ take ?c (drop (i * k + npos) (flat ns))) @ take (sz - ?c) (drop (Suc i * k + 0) (flat ns))
        = buf @ take sz (drop (i * k + npos) (flat ns))"
    proof -
      have "take sz (drop (i * k + npos) (flat ns))
          = take (?c + (sz - ?c)) (drop (i * k + npos) (flat ns))" using 3 less.prems(3) by simp
      also have "\<dots> = take ?c (drop (i * k + npos) (flat ns))
          @ take (sz - ?c) (drop (?c + (i * k + npos)) (flat ns))"
        by (simp only: take_add drop_drop)
      also have "?c + (i * k + npos) = Suc i * k + 0"
        using pos by (simp add: add.commute)
      finally show ?thesis by simp
    qed
    finally show ?thesis .
  qed
qed

lemma seek_loop_spec:
  assumes ok: "blocks_ok k ns" and "0 < k" and "i < length ns" and "i * k + v \<le> k * length ns"
  shows "\<exists>j v'. seek_loop ns (Some i) v = Inr (Some j, v') \<and> j < length ns \<and> v' \<le> k
           \<and> j * k + v' = i * k + v"
  using assms(2-)
proof (induction v arbitrary: i rule: less_induct)
  case (less v)
  note nd = blocks_ok_nth [OF ok less.prems(2)]
  show ?case
  proof (cases "k < v")
    case False
    with less.prems nd show ?thesis
      by (intro exI [of _ i] exI [of _ v]) (subst seek_loop.simps, auto)
  next
    case True
    have more: "Suc i < length ns"
    proof (rule ccontr)
      assume "\<not> Suc i < length ns"
      then have "length ns = Suc i" using less.prems(2) by simp
      with less.prems(3) True show False by (simp add: mult.commute)
    qed
    have "seek_loop ns (Some i) v = seek_loop ns (Some (Suc i)) (v - k)"
      using True nd less.prems(2) more by (subst seek_loop.simps) (auto simp: next_of_def)
    moreover have "\<exists>j v'. seek_loop ns (Some (Suc i)) (v - k) = Inr (Some j, v') \<and> j < length ns
        \<and> v' \<le> k \<and> j * k + v' = Suc i * k + (v - k)"
      using True less.prems more by (intro less.IH) auto
    ultimately show ?thesis using True by auto
  qed
qed

section \<open>The operations on the whole object\<close>

lemma ba_invD:
  assumes "ba_inv b"
  shows "0 < m_baseSize b" "m_root b \<noteq> []" "blocks_ok (m_baseSize b) (m_root b)"
    "m_capacity b = m_baseSize b * length (m_root b)" "m_position b \<le> m_size b"
    "m_size b \<le> m_capacity b" "m_cur b = cur_at (m_baseSize b) (length (m_root b)) (m_position b)"
  using assms by (simp_all add: ba_inv_def)

lemma length_memory: "ba_inv b \<Longrightarrow> length (memory b) = m_capacity b"
  by (simp add: memory_def length_flat [OF ba_invD(3)] ba_invD(4))

lemma length_contents: "ba_inv b \<Longrightarrow> length (contents b) = m_size b"
  by (simp add: contents_def length_memory ba_invD(6))

text \<open>The block of a position below the capacity.\<close>

lemma position_block:
  assumes "ba_inv b" and "m_position b < m_capacity b"
  obtains i npos where "m_cur b = Some i" "i < length (m_root b)" "npos < m_baseSize b"
    "m_position b = i * m_baseSize b + npos" "m_position b mod m_baseSize b = npos"
    "deref (m_root b) (m_cur b) = Inr (m_root b ! i)" "nd_size (m_root b ! i) = m_baseSize b"
proof -
  let ?k = "m_baseSize b" and ?p = "m_position b"
  have lt: "?p < ?k * length (m_root b)" using assms ba_invD(4) by simp
  then have i: "?p div ?k < length (m_root b)"
    by (metis less_mult_imp_div_less mult.commute)
  have cur: "m_cur b = Some (?p div ?k)"
    using lt ba_invD(7) [OF assms(1)] by (simp add: cur_at_def)
  have "?p mod ?k < ?k" using ba_invD(1) [OF assms(1)] by simp
  then show thesis
    using that [of "?p div ?k" "?p mod ?k"] cur i blocks_ok_nth [OF ba_invD(3) [OF assms(1)] i]
    by simp
qed

lemma ByteArray_inv: "0 < k \<Longrightarrow> ba_inv (ByteArray f k)"
  by (simp add: ba_inv_def ByteArray_def blocks_ok_def new_Node_def cur_at_def)

lemma clear_inv: "ba_inv b \<Longrightarrow> ba_inv (clear b) \<and> contents (clear b) = []"
  by (cases "m_root b")
     (auto simp: ba_inv_def clear_def blocks_ok_def cur_at_def contents_def)

text \<open>
  When growing makes enough room. The number of new blocks is computed from the remainder of the
  missing size and the old room, so one block is missing when the remainder is positive and does
  not exceed the old room.
\<close>

definition grows_enough :: "nat \<Rightarrow> byte_array \<Rightarrow> bool" where
  "grows_enough n b =
     (let old_cap = m_capacity b - m_position b; missing = n - old_cap in
      n \<le> old_cap \<or> old_cap = 0 \<or> missing mod m_baseSize b = 0 \<or> old_cap < missing mod m_baseSize b)"

lemma blocks_suffice:
  assumes "0 < (k :: nat)"
  shows "m \<le> (m div k + (if r < m mod k then 1 else 0)) * k \<longleftrightarrow> m mod k = 0 \<or> r < m mod k"
proof -
  have m: "m = m div k * k + m mod k" by simp
  have lt: "m mod k < k" using assms by simp
  show ?thesis
  proof (cases "r < m mod k")
    case True
    have "m \<le> m div k * k + k" using m lt by linarith
    with True show ?thesis by (simp add: algebra_simps)
  next
    case False
    have "m \<le> m div k * k \<longleftrightarrow> m mod k = 0" using m by linarith
    with False show ?thesis by simp
  qed
qed

lemma addCapacity_spec:
  assumes inv: "ba_inv b"
  obtains b' extra where "addCapacity n b = (Inr (), b')" "ba_inv b'" "memory b' = memory b @ extra"
    "m_position b' = m_position b" "m_size b' = m_size b" "m_baseSize b' = m_baseSize b"
    "m_endian b' = m_endian b" "m_fresh b' = m_fresh b"
    "m_position b' + n \<le> m_capacity b' \<longleftrightarrow> grows_enough n b"
    "0 < n \<Longrightarrow> m_position b' < m_capacity b'"
proof -
  note D = ba_invD [OF inv]
  let ?old = "m_capacity b - m_position b" and ?k = "m_baseSize b"
  have old: "getCapacity b = ?old" and pc: "m_position b \<le> m_capacity b"
    using D(5,6) by (simp_all add: getCapacity_def)
  show thesis
  proof (cases "n \<le> ?old")
    case True
    then have "addCapacity n b = (Inr (), b)" using old by (simp add: addCapacity_def)
    then show thesis using True inv pc by (intro that [of b "[]"]) (auto simp: grows_enough_def)
  next
    case False
    let ?m = "n - ?old"
    let ?count = "?m div ?k + (if ?m mod ?k > ?old then 1 else 0)"
    let ?new = "replicate ?count (new_Node (m_fresh b) ?k)"
    let ?b' = "b\<lparr>m_root := m_root b @ ?new, m_capacity := m_capacity b + ?count * ?k,
                 m_cur := (if ?old = 0 then if ?count = 0 then None else Some (length (m_root b))
                           else m_cur b)\<rparr>"
    have run: "addCapacity n b = (Inr (), ?b')"
      using False old D(1) by (simp add: addCapacity_def Let_def)
    have grown: "?old = 0 \<Longrightarrow> 0 < ?count"
      using False D(1) by (metis add_gr_0 div_greater_zero_iff gr0I less_one minus_nat.diff_0 mod_less not_le)
    have full: "m_position b div ?k = length (m_root b)" if "?old = 0"
      using that D(1,4) pc by simp
    have cur: "m_cur ?b' = cur_at ?k (length (m_root ?b')) (m_position b)"
      using D(1,4,7) pc grown full by (auto simp: cur_at_def algebra_simps)
    have inv': "ba_inv ?b'"
      using D cur by (simp add: ba_inv_def algebra_simps)
    have room: "m_position b + n \<le> m_capacity b + ?count * ?k \<longleftrightarrow> grows_enough n b"
      using False D(1) pc blocks_suffice [OF D(1), of ?m ?old] unfolding grows_enough_def Let_def by auto
    have "memory ?b' = memory b @ flat ?new" by (simp add: memory_def flat_def)
    moreover have "m_position ?b' < m_capacity ?b'"
      using pc grown D(1) by (cases "?old = 0") auto
    ultimately show thesis
      using run inv' room by (intro that [of ?b' "flat ?new"]) auto
  qed
qed

section \<open>The abstract buffer and the refinement\<close>

text \<open>The abstraction: the data written so far and the position in it.\<close>

definition ba_abs :: "byte_array \<Rightarrow> flat_buf" where
  "ba_abs b = (contents b, m_position b)"

text \<open>Fields that no read or write changes.\<close>

definition same_setup :: "byte_array \<Rightarrow> byte_array \<Rightarrow> bool" where
  "same_setup b b' \<longleftrightarrow> m_baseSize b' = m_baseSize b \<and> m_endian b' = m_endian b \<and> m_fresh b' = m_fresh b"

lemma same_setup_refl [simp]: "same_setup b b"
  by (simp add: same_setup_def)

lemma same_setup_trans: "same_setup a b \<Longrightarrow> same_setup b c \<Longrightarrow> same_setup a c"
  by (simp add: same_setup_def)

lemma contents_overwrite:
  assumes "p \<le> s" "s \<le> length mem" "p + length bs \<le> length mem"
  shows "take (max s (p + length bs)) (overwrite p bs mem) = overwrite p bs (take s mem)"
  using assms by (auto simp: overwrite_def max_def min_def take_drop)

lemma write_nodes_spec:
  assumes inv: "ba_inv b" and room: "m_position b + length buf \<le> m_capacity b"
    and lt: "m_position b < m_capacity b"
  shows "\<exists>b'. write_nodes buf b = (Inr (), b') \<and> ba_inv b' \<and> same_setup b b'
           \<and> m_capacity b' = m_capacity b \<and> ba_abs b' = buf_write buf (ba_abs b)"
proof -
  note D = ba_invD [OF inv]
  from position_block [OF inv lt] obtain i npos where P: "m_cur b = Some i" "i < length (m_root b)"
    "npos < m_baseSize b" "m_position b = i * m_baseSize b + npos" "m_position b mod m_baseSize b = npos"
    "deref (m_root b) (m_cur b) = Inr (m_root b ! i)" "nd_size (m_root b ! i) = m_baseSize b" by metis
  from write_loop_spec [OF D(3,1) P(2,3), of buf] room D(4) P(4)
  obtain ns where ns: "write_loop (m_root b) (Some i) (m_position b) npos (m_baseSize b - npos) buf
      = Inr (ns, cur_at (m_baseSize b) (length (m_root b)) (m_position b + length buf), m_position b + length buf)"
    "blocks_ok (m_baseSize b) ns" "length ns = length (m_root b)"
    "flat ns = overwrite (m_position b) buf (memory b)"
    by (auto simp: memory_def)
  let ?b' = "b\<lparr>m_root := ns, m_cur := cur_at (m_baseSize b) (length (m_root b)) (m_position b + length buf),
               m_position := m_position b + length buf,
               m_size := (if m_position b + length buf > m_size b then m_position b + length buf else m_size b)\<rparr>"
  have run: "write_nodes buf b = (Inr (), ?b')"
    using ns(1) P D(1) by (simp add: write_nodes_def)
  have inv': "ba_inv ?b'"
    using D ns(2,3) room by (auto simp: ba_inv_def)
  have "contents ?b' = take (max (m_size b) (m_position b + length buf)) (overwrite (m_position b) buf (memory b))"
    by (simp add: contents_def memory_def [of ?b'] ns(4) max_def)
  also have "\<dots> = overwrite (m_position b) buf (contents b)"
    unfolding contents_def using D room by (intro contents_overwrite) (simp_all add: length_memory inv)
  finally show ?thesis
    using run inv' by (auto simp: same_setup_def ba_abs_def buf_write_def)
qed

lemma ba_write_spec:
  assumes inv: "ba_inv b" and room: "grows_enough (length buf) b"
  shows "\<exists>b'. ba_write buf b = (Inr (), b') \<and> ba_inv b' \<and> same_setup b b'
           \<and> ba_abs b' = buf_write buf (ba_abs b)"
proof (cases "buf = []")
  case True
  then show ?thesis
    using inv by (auto simp: ba_write_def ret_def buf_write_def split: prod.splits)
next
  case False
  from addCapacity_spec [OF inv, of "length buf"] obtain b1 extra where b1:
    "addCapacity (length buf) b = (Inr (), b1)" "ba_inv b1" "memory b1 = memory b @ extra"
    "m_position b1 = m_position b" "m_size b1 = m_size b" "m_baseSize b1 = m_baseSize b"
    "m_endian b1 = m_endian b" "m_fresh b1 = m_fresh b"
    "m_position b1 + length buf \<le> m_capacity b1 \<longleftrightarrow> grows_enough (length buf) b"
    "0 < length buf \<Longrightarrow> m_position b1 < m_capacity b1" by metis
  from write_nodes_spec [OF b1(2)] b1 room False obtain b' where
    "write_nodes buf b1 = (Inr (), b')" "ba_inv b'" "same_setup b1 b'" "ba_abs b' = buf_write buf (ba_abs b1)"
    by auto
  moreover have "ba_abs b1 = ba_abs b"
    using b1 ba_invD(6) [OF inv] length_memory [OF inv] by (simp add: ba_abs_def contents_def)
  ultimately show ?thesis
    using b1 False by (auto simp: ba_write_def op_simps same_setup_def)
qed

lemma ba_write_null:
  assumes inv: "ba_inv b" and short: "\<not> grows_enough (length buf) b"
  shows "\<exists>b'. ba_write buf b = (Inl Null_Deref, b')"
proof -
  from short have ne: "buf \<noteq> []" by (auto simp: grows_enough_def)
  from addCapacity_spec [OF inv, of "length buf"] obtain b1 where b1:
    "addCapacity (length buf) b = (Inr (), b1)" "ba_inv b1"
    "m_position b1 + length buf \<le> m_capacity b1 \<longleftrightarrow> grows_enough (length buf) b"
    "0 < length buf \<Longrightarrow> m_position b1 < m_capacity b1" by metis
  note D = ba_invD [OF b1(2)]
  have lt: "m_position b1 < m_capacity b1" using b1(4) ne by simp
  from position_block [OF b1(2) lt] obtain i npos where P: "m_cur b1 = Some i" "i < length (m_root b1)"
    "npos < m_baseSize b1" "m_position b1 = i * m_baseSize b1 + npos" "m_position b1 mod m_baseSize b1 = npos"
    "deref (m_root b1) (m_cur b1) = Inr (m_root b1 ! i)" "nd_size (m_root b1 ! i) = m_baseSize b1" by metis
  have "write_loop (m_root b1) (Some i) (m_position b1) npos (m_baseSize b1 - npos) buf = Inl Null_Deref"
    using D P b1(3) short by (intro write_loop_overrun [OF D(3,1) P(2,3)]) simp
  then have "write_nodes buf b1 = (Inl Null_Deref, b1)"
    using P D(1) by (simp add: write_nodes_def)
  then show ?thesis
    using b1(1) ne by (simp add: ba_write_def op_simps)
qed

lemma ba_read_spec:
  assumes inv: "ba_inv b" and enough: "m_position b + n \<le> m_size b" and lt: "m_position b < m_capacity b"
  shows "\<exists>b'. ba_read n b = (Inr (fst (buf_read n (ba_abs b))), b') \<and> ba_inv b' \<and> same_setup b b'
           \<and> m_capacity b' = m_capacity b \<and> ba_abs b' = snd (buf_read n (ba_abs b))"
proof -
  note D = ba_invD [OF inv]
  from position_block [OF inv lt] obtain i npos where P: "m_cur b = Some i" "i < length (m_root b)"
    "npos < m_baseSize b" "m_position b = i * m_baseSize b + npos" "m_position b mod m_baseSize b = npos"
    "deref (m_root b) (m_cur b) = Inr (m_root b ! i)" "nd_size (m_root b ! i) = m_baseSize b" by metis
  have "read_loop (m_root b) (Some i) (m_position b) npos (m_baseSize b - npos) n []
      = Inr (take n (drop (m_position b) (memory b)),
             cur_at (m_baseSize b) (length (m_root b)) (m_position b + n), m_position b + n)"
    using read_loop_spec [OF D(3,1) P(2,3), of n "[]"] P(4) D enough by (simp add: memory_def)
  then have "ba_read n b = (Inr (take n (drop (m_position b) (memory b))),
      b\<lparr>m_cur := cur_at (m_baseSize b) (length (m_root b)) (m_position b + n), m_position := m_position b + n\<rparr>)"
    using P D enough by (simp add: ba_read_def getReadSize_def)
  moreover have "take n (drop (m_position b) (memory b)) = take n (drop (m_position b) (contents b))"
    using enough by (simp add: contents_def drop_take)
  ultimately show ?thesis
    using D enough by (auto simp: ba_inv_def same_setup_def ba_abs_def buf_read_def contents_def memory_def)
qed

lemma ba_read_setup: "ba_read n b = (r, b') \<Longrightarrow> same_setup b b'"
  by (auto simp: ba_read_def Let_def same_setup_def split: if_splits sum.splits prod.splits)

lemma ba_read_short:
  "ba_inv b \<Longrightarrow> m_size b < m_position b + n \<Longrightarrow> ba_read n b = (Inl Out_Of_Range, b)"
  using ba_invD(5) [of b] less_diff_conv2 [of "m_position b" "m_size b" n]
  by (simp add: ba_read_def getReadSize_def add.commute)

lemma ba_read_at_capacity:
  assumes "ba_inv b" and "m_position b = m_capacity b"
  shows "ba_read 0 b = (Inl Null_Deref, b)"
  using assms ba_invD [OF assms(1)] by (simp add: ba_read_def cur_at_def)

lemma setPosition_spec:
  assumes inv: "ba_inv b" and le: "v \<le> m_capacity b"
  shows "\<exists>b'. setPosition v b = (Inr (), b') \<and> ba_inv b' \<and> same_setup b b' \<and> m_position b' = v
           \<and> m_size b' = max v (m_size b) \<and> memory b' = memory b \<and> m_capacity b' = m_capacity b"
proof -
  note D = ba_invD [OF inv]
  from seek_loop_spec [OF D(3,1), of 0 v] D(2,4) le obtain j v' where j:
    "seek_loop (m_root b) (Some 0) v = Inr (Some j, v')" "j < length (m_root b)" "v' \<le> m_baseSize b"
    "j * m_baseSize b + v' = v" by auto
  have cur: "(if v' = nd_size (m_root b ! j) then next_of (m_root b) j else Some j)
      = cur_at (m_baseSize b) (length (m_root b)) v"
    using cursor_move [OF D(1) j(2,3)] blocks_ok_nth [OF D(3) j(2)] j(4) by auto
  have "setPosition v b = (Inr (), b\<lparr>m_position := v, m_size := (if v > m_size b then v else m_size b),
      m_cur := (if v' = nd_size (m_root b ! j) then next_of (m_root b) j else Some j)\<rparr>)"
    using le j by (simp add: setPosition_def Let_def)
  then have "setPosition v b = (Inr (), b\<lparr>m_position := v, m_size := (if v > m_size b then v else m_size b),
      m_cur := cur_at (m_baseSize b) (length (m_root b)) v\<rparr>)"
    unfolding cur .
  then show ?thesis
    using D le by (auto simp: ba_inv_def same_setup_def memory_def max_def)
qed

lemma setPosition_fail: "m_capacity b < v \<Longrightarrow> setPosition v b = (Inl Out_Of_Range, b)"
  by (simp add: setPosition_def)

lemma setPosition_back:
  assumes "ba_inv b" and "v \<le> m_size b"
  shows "\<exists>b'. setPosition v b = (Inr (), b') \<and> ba_inv b' \<and> same_setup b b' \<and> ba_abs b' = (contents b, v)"
  using setPosition_spec [OF assms(1), of v] assms ba_invD(6) [OF assms(1)]
  by (auto simp: ba_abs_def contents_def max_absorb2)

lemma ba_write_law:
  assumes "ba_inv b" and "ba_write bs b = (Inr (), b')"
  shows "ba_inv b' \<and> same_setup b b' \<and> ba_abs b' = buf_write bs (ba_abs b)"
proof (cases "grows_enough (length bs) b")
  case True
  from ba_write_spec [OF assms(1) this] assms(2) show ?thesis by auto
next
  case False
  from ba_write_null [OF assms(1) this] assms(2) show ?thesis by auto
qed

interpretation ba: byte_store ba_inv ba_abs grows_enough ba_write ba_read setPosition
proof (unfold_locales, goal_cases)
  case (1 s)
  then show ?case by (simp add: buf_ok_def ba_abs_def length_contents ba_invD(5))
next
  case (2 s bs)
  then show ?case using ba_write_spec by blast
next
  case (3 s bs s')
  then show ?case using ba_write_law by blast
next
  case (4 s d p n)
  then have "m_position s + n \<le> m_size s" and "m_position s < m_capacity s"
    using length_contents [OF 4(1)] ba_invD(6) [OF 4(1)] by (auto simp: ba_abs_def)
  from ba_read_spec [OF 4(1) this] 4(2) show ?case by (auto simp: buf_read_def)
next
  case (5 s d p n)
  then show ?case using length_contents [OF 5(1)] by (auto simp: ba_abs_def intro!: ba_read_short)
next
  case (6 s d p q)
  then show ?case
    using setPosition_back [OF 6(1), of q] length_contents [OF 6(1)] by (auto simp: ba_abs_def)
qed

section \<open>Properties\<close>

text \<open>A byte array with three bytes in a block of four, standing at its start.\<close>

definition example_array :: byte_array where
  "example_array =
     \<lparr>m_baseSize = 4, m_position = 0, m_capacity = 4, m_size = 3, m_endian = SYLAR_BIG_ENDIAN,
      m_root = [\<lparr>nd_ptr = [1, 2, 3, 0], nd_size = 4\<rparr>], m_cur = Some 0, m_fresh = (\<lambda>_. 0)\<rparr>"

lemma example_array_inv: "ba_inv example_array"
  by (simp add: ba_inv_def example_array_def blocks_ok_def cur_at_def)

lemma example_array_contents: "contents example_array = [1, 2, 3]"
  by (simp add: contents_def memory_def flat_def example_array_def numeral_eq_Suc)

text \<open>
  C1: writing refines the abstract buffer. On a well-formed byte array whose growth suffices,
  \<open>write\<close> succeeds, keeps well-formedness and acts on the data and the position as replacing the
  bytes from the position on.
\<close>

theorem ba_write_refines:
  assumes "ba_inv b" and "grows_enough (length buf) b"
  shows "\<exists>b'. ba_write buf b = (Inr (), b') \<and> ba_inv b' \<and> ba_abs b' = buf_write buf (ba_abs b)"
  using ba_write_spec [OF assms] by blast

theorem ba_write_refines_witness:
  "\<exists>b'. ba_write [7, 8] example_array = (Inr (), b') \<and> ba_inv b'
     \<and> ba_abs b' = buf_write [7, 8] (ba_abs example_array)"
  by (rule ba_write_refines [OF example_array_inv]) (simp add: grows_enough_def example_array_def)

text \<open>
  When \<open>write\<close> fails. On a well-formed byte array it succeeds exactly when the number of blocks
  \<open>addCapacity\<close> computes is enough, and otherwise it runs off the block list through a null
  pointer. The computation is one block short whenever the missing size modulo the block size is
  positive and at most the room that was left.
\<close>

theorem ba_write_success_iff:
  assumes "ba_inv b"
  shows "fst (ba_write buf b) = (if grows_enough (length buf) b then Inr () else Inl Null_Deref)"
  using ba_write_spec [OF assms, of buf] ba_write_null [OF assms, of buf] by auto

theorem ba_write_success_iff_witness:
  "fst (ba_write [1, 2, 3] (example_array\<lparr>m_position := 2\<rparr>)) = Inl Null_Deref"
proof -
  have "ba_inv (example_array\<lparr>m_position := 2\<rparr>)"
    by (simp add: ba_inv_def example_array_def blocks_ok_def cur_at_def)
  from ba_write_success_iff [OF this, of "[1, 2, 3]"] show ?thesis
    by (simp add: grows_enough_def example_array_def)
qed

text \<open>
  C2: every branch of \<open>read\<close>. Asking for more than is unread throws \<open>std::out_of_range\<close> and changes
  nothing; a read below the capacity returns the next bytes and advances; a read of nothing at the
  very end of the capacity dereferences the null cursor.
\<close>

theorem ba_read_cases:
  assumes "ba_inv b"
  shows "if m_size b < m_position b + n then ba_read n b = (Inl Out_Of_Range, b)
         else if m_position b < m_capacity b
         then \<exists>b'. ba_read n b = (Inr (fst (buf_read n (ba_abs b))), b') \<and> ba_inv b'
                \<and> ba_abs b' = snd (buf_read n (ba_abs b))
         else ba_read n b = (Inl Null_Deref, b)"
proof -
  have "n = 0 \<and> m_position b = m_capacity b"
    if "\<not> m_size b < m_position b + n" and "\<not> m_position b < m_capacity b"
    using that ba_invD(5,6) [OF assms] by linarith
  then show ?thesis
    using ba_read_short [OF assms] ba_read_spec [OF assms, of n] ba_read_at_capacity [OF assms] by auto
qed

theorem ba_read_cases_witness:
  "\<exists>b'. ba_read 2 example_array = (Inr [1, 2], b') \<and> ba_inv b' \<and> ba_abs b' = ([1, 2, 3], 2)"
proof -
  have "ba_abs example_array = ([1, 2, 3], 0)" "m_position example_array = 0"
    "m_capacity example_array = 4" "m_size example_array = 3"
    by (simp_all add: ba_abs_def example_array_contents) (simp_all add: example_array_def)
  with ba_read_cases [OF example_array_inv, of 2] show ?thesis
    by (simp add: buf_read_def numeral_eq_Suc)
qed

text \<open>
  \<open>setPosition\<close> within the capacity moves there, extends the data up to the new position and
  keeps well-formedness and memory; beyond the capacity it throws and changes nothing.
\<close>

theorem setPosition_cases:
  assumes "ba_inv b"
  shows "if v \<le> m_capacity b
         then \<exists>b'. setPosition v b = (Inr (), b') \<and> ba_inv b' \<and> m_position b' = v
                \<and> m_size b' = max v (m_size b) \<and> memory b' = memory b
         else setPosition v b = (Inl Out_Of_Range, b)"
  using setPosition_spec [OF assms, of v] setPosition_fail [of b v] by auto

theorem setPosition_cases_witness:
  "\<exists>b'. setPosition 4 example_array = (Inr (), b') \<and> ba_inv b' \<and> m_position b' = 4 \<and> m_size b' = 4
     \<and> memory b' = memory example_array"
proof -
  have "m_capacity example_array = 4" "m_size example_array = 3" by (simp_all add: example_array_def)
  with setPosition_cases [OF example_array_inv, of 4] show ?thesis by (simp add: max_def)
qed

end
