(* ===== verification/Byte_Codec.thy ===== *)
theory Byte_Codec
  imports Byte_Array
begin

text \<open>
  Serialisation on top of the byte array: fixed-width integers in either byte order
  (\<open>webserve/endian.h\<close> and the \<open>writeF\<close>/\<open>readF\<close> family of \<open>webserve/bytearray.cc\<close>), zigzag and varint
  integers, floats by their bit patterns, and length-prefixed strings.

  A C++ integer of \<open>w\<close> bits, signed or not, is a \<open>w word\<close>; a \<open>float\<close> or \<open>double\<close> is the word of its
  bits, since the code only copies them; a \<open>std::string\<close> is its list of bytes. The byte order of the
  host (\<open>SYLAR_BYTE_ORDER\<close>, fixed by the compiler) is the parameter \<open>host\<close>.
\<close>

section \<open>Words as bytes in memory\<close>

definition le_bytes :: "'a::len word \<Rightarrow> u8 list" where
  "le_bytes w = map (\<lambda>i. ucast (drop_bit (8 * i) w)) [0..<LENGTH('a) div 8]"

fun of_le_bytes :: "u8 list \<Rightarrow> 'a::len word" where
  "of_le_bytes [] = 0"
| "of_le_bytes (b # bs) = ucast b OR push_bit 8 (of_le_bytes bs)"

text \<open>The object representation of an integer on the host, and the integer of a representation
  (\<open>write(&value, sizeof(value))\<close> and \<open>read(&v, sizeof(v))\<close>).\<close>

definition mem_of :: "byte_order \<Rightarrow> 'a::len word \<Rightarrow> u8 list" where
  "mem_of host w = (if host = SYLAR_LITTLE_ENDIAN then le_bytes w else rev (le_bytes w))"

definition of_mem :: "byte_order \<Rightarrow> u8 list \<Rightarrow> 'a::len word" where
  "of_mem host bs = of_le_bytes (if host = SYLAR_LITTLE_ENDIAN then bs else rev bs)"

definition byteswap :: "'a::len word \<Rightarrow> 'a word" where
  "byteswap v = of_le_bytes (rev (le_bytes v))"

definition byteswapOnLittleEndian :: "byte_order \<Rightarrow> 'a::len word \<Rightarrow> 'a word" where
  "byteswapOnLittleEndian host t = (if host = SYLAR_BIG_ENDIAN then t else byteswap t)"

definition byteswapOnBigEndian :: "byte_order \<Rightarrow> 'a::len word \<Rightarrow> 'a word" where
  "byteswapOnBigEndian host t = (if host = SYLAR_BIG_ENDIAN then byteswap t else t)"

section \<open>Fixed-width integers\<close>

definition writeFint8 :: "byte_order \<Rightarrow> u8 \<Rightarrow> (byte_array, unit) sop" where
  "writeFint8 host value = ba_write (mem_of host value)"

definition writeFuint8 :: "byte_order \<Rightarrow> u8 \<Rightarrow> (byte_array, unit) sop" where
  "writeFuint8 host value = ba_write (mem_of host value)"

definition writeFint16 :: "byte_order \<Rightarrow> u16 \<Rightarrow> (byte_array, unit) sop" where
  "writeFint16 host value b =
     ba_write (mem_of host (if m_endian b \<noteq> host then byteswap value else value)) b"

definition writeFuint16 :: "byte_order \<Rightarrow> u16 \<Rightarrow> (byte_array, unit) sop" where
  "writeFuint16 host value b =
     ba_write (mem_of host (if m_endian b \<noteq> host then byteswap value else value)) b"

definition writeFint32 :: "byte_order \<Rightarrow> u32 \<Rightarrow> (byte_array, unit) sop" where
  "writeFint32 host value b =
     ba_write (mem_of host (if m_endian b \<noteq> host then byteswap value else value)) b"

definition writeFuint32 :: "byte_order \<Rightarrow> u32 \<Rightarrow> (byte_array, unit) sop" where
  "writeFuint32 host value b =
     ba_write (mem_of host (if m_endian b \<noteq> host then byteswap value else value)) b"

definition writeFint64 :: "byte_order \<Rightarrow> u64 \<Rightarrow> (byte_array, unit) sop" where
  "writeFint64 host value b =
     ba_write (mem_of host (if m_endian b \<noteq> host then byteswap value else value)) b"

definition writeFuint64 :: "byte_order \<Rightarrow> u64 \<Rightarrow> (byte_array, unit) sop" where
  "writeFuint64 host value b =
     ba_write (mem_of host (if m_endian b \<noteq> host then byteswap value else value)) b"

definition readFint8 :: "byte_order \<Rightarrow> (byte_array, u8) sop" where
  "readFint8 host = and_then (ba_read 1) (\<lambda>bs. ret (of_mem host bs))"

definition readFuint8 :: "byte_order \<Rightarrow> (byte_array, u8) sop" where
  "readFuint8 host = and_then (ba_read 1) (\<lambda>bs. ret (of_mem host bs))"

text \<open>The macro \<open>XX(type)\<close> that the six wider readers expand to: \<open>n\<close> is \<open>sizeof(v)\<close>.\<close>

definition read_XX :: "nat \<Rightarrow> byte_order \<Rightarrow> (byte_array, 'a::len word) sop" where
  "read_XX n host = and_then (ba_read n) (\<lambda>bs b.
     let v = of_mem host bs in
     ret (if m_endian b = host then v else byteswap v) b)"

definition readFint16 :: "byte_order \<Rightarrow> (byte_array, u16) sop" where
  "readFint16 host = read_XX 2 host"

definition readFuint16 :: "byte_order \<Rightarrow> (byte_array, u16) sop" where
  "readFuint16 host = read_XX 2 host"

definition readFint32 :: "byte_order \<Rightarrow> (byte_array, u32) sop" where
  "readFint32 host = read_XX 4 host"

definition readFuint32 :: "byte_order \<Rightarrow> (byte_array, u32) sop" where
  "readFuint32 host = read_XX 4 host"

definition readFint64 :: "byte_order \<Rightarrow> (byte_array, u64) sop" where
  "readFint64 host = read_XX 8 host"

definition readFuint64 :: "byte_order \<Rightarrow> (byte_array, u64) sop" where
  "readFuint64 host = read_XX 8 host"

section \<open>Zigzag and varint integers\<close>

text \<open>
  Signed arithmetic is two's complement on the word, which is what the compiled code computes; the
  source's \<open>-v\<close> and \<open>v * 2\<close> on \<open>int32_t\<close> overflow for the extreme values.
\<close>

definition EncodeZigzag :: "'a::len word \<Rightarrow> 'a word" where
  "EncodeZigzag v = (if sint v < 0 then (- v) * 2 - 1 else v * 2)"

definition DecodeZigzag :: "'a::len word \<Rightarrow> 'a word" where
  "DecodeZigzag v = (drop_bit 1 v) XOR (- (v AND 1))"

definition EncodeZigzag32 :: "u32 \<Rightarrow> u32" where
  "EncodeZigzag32 v = EncodeZigzag v"

definition EncodeZigzag64 :: "u64 \<Rightarrow> u64" where
  "EncodeZigzag64 v = EncodeZigzag v"

definition DecodeZigzag32 :: "u32 \<Rightarrow> u32" where
  "DecodeZigzag32 v = DecodeZigzag v"

definition DecodeZigzag64 :: "u64 \<Rightarrow> u64" where
  "DecodeZigzag64 v = DecodeZigzag v"

text \<open>The loop of \<open>writeUint32\<close> and \<open>writeUint64\<close>: the bytes it puts into \<open>tmp\<close>.\<close>

function varint_bytes :: "'a::len word \<Rightarrow> u8 list" where
  "varint_bytes value =
     (if unat value \<ge> 128 then ucast ((value AND 127) OR 128) # varint_bytes (drop_bit 7 value)
      else [ucast value])"
  by pat_completeness auto
termination
  by (relation "measure unat") (auto simp: unat_drop_bit_eq drop_bit_nat_def)

declare varint_bytes.simps [simp del]

definition tmp_write :: "nat \<Rightarrow> u8 list \<Rightarrow> (byte_array, unit) sop" where
  "tmp_write n bs = (if length bs \<le> n then ba_write bs else throw Buffer_Overflow)"

definition writeUint32 :: "u32 \<Rightarrow> (byte_array, unit) sop" where
  "writeUint32 value = tmp_write 5 (varint_bytes value)"

definition writeUint64 :: "u64 \<Rightarrow> (byte_array, unit) sop" where
  "writeUint64 value = tmp_write 10 (varint_bytes value)"

definition writeInt32 :: "u32 \<Rightarrow> (byte_array, unit) sop" where
  "writeInt32 value = writeUint32 (EncodeZigzag32 value)"

definition writeInt64 :: "u64 \<Rightarrow> (byte_array, unit) sop" where
  "writeInt64 value = writeUint64 (EncodeZigzag64 value)"

text \<open>The loop of \<open>readUint32\<close> and \<open>readUint64\<close>; \<open>rd\<close> reads one byte.\<close>

function varint_loop :: "('s, u8) sop \<Rightarrow> nat \<Rightarrow> nat \<Rightarrow> 'a::len word \<Rightarrow> ('s, 'a word) sop" where
  "varint_loop rd bits i result =
     (if i < bits then
        and_then rd (\<lambda>b.
          if unat b < 128 then ret (result OR push_bit i (ucast b))
          else varint_loop rd bits (i + 7) (result OR push_bit i (ucast (b AND 127))))
      else ret result)"
  by pat_completeness auto
termination
  by (relation "measure (\<lambda>(_, bits, i, _). bits - i)") auto

declare varint_loop.simps [simp del]

definition readUint32 :: "byte_order \<Rightarrow> (byte_array, u32) sop" where
  "readUint32 host = varint_loop (readFuint8 host) 32 0 0"

definition readUint64 :: "byte_order \<Rightarrow> (byte_array, u64) sop" where
  "readUint64 host = varint_loop (readFuint8 host) 64 0 0"

definition readInt32 :: "byte_order \<Rightarrow> (byte_array, u32) sop" where
  "readInt32 host = and_then (readUint32 host) (\<lambda>v. ret (DecodeZigzag32 v))"

definition readInt64 :: "byte_order \<Rightarrow> (byte_array, u64) sop" where
  "readInt64 host = and_then (readUint64 host) (\<lambda>v. ret (DecodeZigzag64 v))"

section \<open>Floats and strings\<close>

definition writeFloat :: "byte_order \<Rightarrow> u32 \<Rightarrow> (byte_array, unit) sop" where
  "writeFloat host value = writeFuint32 host value"

definition writeDouble :: "byte_order \<Rightarrow> u64 \<Rightarrow> (byte_array, unit) sop" where
  "writeDouble host value = writeFuint64 host value"

definition readFloat :: "byte_order \<Rightarrow> (byte_array, u32) sop" where
  "readFloat host = readFuint32 host"

definition readDouble :: "byte_order \<Rightarrow> (byte_array, u64) sop" where
  "readDouble host = readFuint64 host"

definition writeStringF16 :: "byte_order \<Rightarrow> u8 list \<Rightarrow> (byte_array, unit) sop" where
  "writeStringF16 host value =
     and_then (writeFuint16 host (of_nat (length value))) (\<lambda>_. ba_write value)"

definition writeStringF32 :: "byte_order \<Rightarrow> u8 list \<Rightarrow> (byte_array, unit) sop" where
  "writeStringF32 host value =
     and_then (writeFuint32 host (of_nat (length value))) (\<lambda>_. ba_write value)"

definition writeStringF64 :: "byte_order \<Rightarrow> u8 list \<Rightarrow> (byte_array, unit) sop" where
  "writeStringF64 host value =
     and_then (writeFuint64 host (of_nat (length value))) (\<lambda>_. ba_write value)"

definition writeStringVint :: "u8 list \<Rightarrow> (byte_array, unit) sop" where
  "writeStringVint value =
     and_then (writeUint64 (of_nat (length value))) (\<lambda>_. ba_write value)"

definition writeStringWithoutLength :: "u8 list \<Rightarrow> (byte_array, unit) sop" where
  "writeStringWithoutLength value = ba_write value"

definition readStringF16 :: "byte_order \<Rightarrow> (byte_array, u8 list) sop" where
  "readStringF16 host = and_then (readFuint16 host) (\<lambda>len. ba_read (unat len))"

definition readStringF32 :: "byte_order \<Rightarrow> (byte_array, u8 list) sop" where
  "readStringF32 host = and_then (readFuint32 host) (\<lambda>len. ba_read (unat len))"

definition readStringF64 :: "byte_order \<Rightarrow> (byte_array, u8 list) sop" where
  "readStringF64 host = and_then (readFuint64 host) (\<lambda>len. ba_read (unat len))"

definition readStringVint :: "byte_order \<Rightarrow> (byte_array, u8 list) sop" where
  "readStringVint host = and_then (readUint64 host) (\<lambda>len. ba_read (unat len))"

section \<open>Bytes and words\<close>

lemma length_le_bytes [simp]: "length (le_bytes (w :: 'a::len word)) = LENGTH('a) div 8"
  by (simp add: le_bytes_def)

lemma bit_of_le_bytes:
  "bit (of_le_bytes bs :: 'a::len word) n \<longleftrightarrow>
     n < LENGTH('a) \<and> n div 8 < length bs \<and> bit (bs ! (n div 8)) (n mod 8)"
proof (induction bs arbitrary: n)
  case Nil
  then show ?case by simp
next
  case (Cons b bs)
  show ?case
  proof (cases "n < 8")
    case True
    then show ?thesis
      by (auto simp: bit_simps dest: bit_imp_le_length)
  next
    case False
    then have "n div 8 = Suc ((n - 8) div 8)" "n mod 8 = (n - 8) mod 8"
      by (simp_all add: le_div_geq le_mod_geq)
    moreover have "\<not> bit b n" using False bit_imp_le_length [of b n] by auto
    ultimately show ?thesis
      using False Cons.IH [of "n - 8"] by (auto simp: bit_simps)
  qed
qed

lemma le_bytes_nth_bit:
  assumes "i < LENGTH('a) div 8" and "j < 8"
  shows "bit (le_bytes (w :: 'a::len word) ! i) j = bit w (8 * i + j)"
  using assms by (simp add: le_bytes_def bit_simps add.commute)

lemma of_le_bytes_le_bytes [simp]:
  assumes "8 dvd LENGTH('a)"
  shows "of_le_bytes (le_bytes w) = (w :: 'a::len word)"
proof (rule bit_word_eqI)
  fix n assume n: "n < LENGTH('a)"
  with assms have "n div 8 < LENGTH('a) div 8"
    by (metis div_less_iff_less_mult dvd_div_mult_self zero_less_numeral)
  then show "bit (of_le_bytes (le_bytes w) :: 'a word) n = bit w n"
    using n by (simp add: bit_of_le_bytes le_bytes_nth_bit)
qed

lemma le_bytes_of_le_bytes [simp]:
  assumes "length bs = LENGTH('a) div 8"
  shows "le_bytes (of_le_bytes bs :: 'a::len word) = bs"
proof (rule nth_equalityI)
  show "length (le_bytes (of_le_bytes bs :: 'a word)) = length bs" using assms by simp
next
  fix i assume i: "i < length (le_bytes (of_le_bytes bs :: 'a word))"
  show "le_bytes (of_le_bytes bs :: 'a word) ! i = bs ! i"
  proof (rule bit_word_eqI)
    fix j assume j: "j < LENGTH(8)"
    have "8 * i + j < LENGTH('a)" using i j by simp
    then show "bit (le_bytes (of_le_bytes bs :: 'a word) ! i) j = bit (bs ! i) j"
      using i j assms by (simp add: le_bytes_nth_bit bit_of_le_bytes)
  qed
qed

text \<open>The bytes on the wire: the byte array's own order, whatever the host's.\<close>

definition wire :: "byte_order \<Rightarrow> 'a::len word \<Rightarrow> u8 list" where
  "wire order v = (if order = SYLAR_LITTLE_ENDIAN then le_bytes v else rev (le_bytes v))"

lemma length_wire [simp]: "length (wire order (w :: 'a::len word)) = LENGTH('a) div 8"
  by (simp add: wire_def)

lemma wire_not_Nil: "8 \<le> LENGTH('a) \<Longrightarrow> wire order (w :: 'a::len word) \<noteq> []"
  by (metis div_greater_zero_iff length_greater_0_conv length_wire zero_less_numeral)

lemma byteswap_byteswap: "8 dvd LENGTH('a) \<Longrightarrow> byteswap (byteswap v) = (v :: 'a::len word)"
  by (simp add: byteswap_def)

lemma mem_of_wire:
  "mem_of host (if order \<noteq> host then byteswap v else v) = wire order v"
  by (cases host; cases order) (simp_all add: mem_of_def wire_def byteswap_def)

lemma of_mem_wire:
  assumes "8 dvd LENGTH('a)"
  shows "(if order = host then of_mem host (wire order v)
          else byteswap (of_mem host (wire order v))) = (v :: 'a::len word)"
  using assms by (cases host; cases order) (simp_all add: of_mem_def wire_def byteswap_def)

lemma le_bytes_byte [simp]: "le_bytes (v :: u8) = [v]"
  by (simp add: le_bytes_def)

lemma mem_of_byte [simp]: "mem_of host (v :: u8) = [v]"
  by (simp add: mem_of_def)

lemma of_mem_byte [simp]: "of_mem host [v] = (v :: u8)"
  by (simp add: of_mem_def)

lemmas writeF_defs = writeFint8_def writeFuint8_def writeFint16_def writeFuint16_def
  writeFint32_def writeFuint32_def writeFint64_def writeFuint64_def writeFloat_def writeDouble_def

lemmas readF_defs = readFint16_def readFuint16_def readFint32_def readFuint32_def
  readFint64_def readFuint64_def readFloat_def readDouble_def

text \<open>Every fixed-width writer writes the wire bytes.\<close>

lemma writeF_wire:
  "writeFint16 host v b = ba_write (wire (m_endian b) v) b"
  "writeFuint16 host v b = ba_write (wire (m_endian b) v) b"
  "writeFint32 host w b = ba_write (wire (m_endian b) w) b"
  "writeFuint32 host w b = ba_write (wire (m_endian b) w) b"
  "writeFint64 host x b = ba_write (wire (m_endian b) x) b"
  "writeFuint64 host x b = ba_write (wire (m_endian b) x) b"
  by (simp_all only: writeF_defs mem_of_wire)

text \<open>Every fixed-width reader reads a value off the wire bytes at the position.\<close>

lemma read_XX_wire:
  assumes inv: "ba_inv b" and a: "ba_abs b = (d, p)" and dr: "drop p d = wire (m_endian b) v @ rest"
    and len: "8 dvd LENGTH('a)" and len8: "8 \<le> LENGTH('a)" and n: "n = LENGTH('a) div 8"
  shows "\<exists>b'. read_XX n host b = (Inr (v :: 'a::len word), b') \<and> ba_inv b' \<and> same_setup b b'
           \<and> ba_abs b' = (d, p + n)"
proof -
  have ne: "wire (m_endian b) v \<noteq> []" using len8 by (rule wire_not_Nil)
  from ba.get_prefix [OF inv a dr ne] obtain b' where
    b': "ba_read n b = (Inr (wire (m_endian b) v), b')" "ba_inv b'" "ba_abs b' = (d, p + n)"
    using n by auto
  have same: "same_setup b b'" by (rule ba_read_setup [OF b'(1)])
  then have "m_endian b' = m_endian b" by (simp add: same_setup_def)
  then have "(if m_endian b' = host then of_mem host (wire (m_endian b) v)
      else byteswap (of_mem host (wire (m_endian b) v))) = v"
    using of_mem_wire [OF len, of "m_endian b" host v] by simp
  then show ?thesis
    using b' same by (auto simp: read_XX_def op_simps Let_def)
qed

section \<open>Varint integers\<close>

lemma byte_high_bit: "unat (b :: u8) < 128 \<longleftrightarrow> \<not> bit b 7"
proof -
  have "bit b 7 \<longleftrightarrow> bit (unat b) 7" by (simp add: bit_unsigned_iff)
  also have "\<dots> \<longleftrightarrow> odd (unat b div 2 ^ 7)" by (rule bit_iff_odd)
  finally have b7: "bit b 7 \<longleftrightarrow> odd (unat b div 128)" by simp
  have "unat b < 2 ^ LENGTH(8)" by (rule unsigned_less)
  then have "unat b div 128 < 2" by (simp add: less_mult_imp_div_less)
  then have "odd (unat b div 128) \<longleftrightarrow> unat b div 128 \<noteq> 0" by (auto elim: oddE)
  also have "\<dots> \<longleftrightarrow> \<not> unat b < 128" by (simp add: div_eq_0_iff)
  finally show ?thesis using b7 by simp
qed

lemma bit_127: "bit (127 :: int) n \<longleftrightarrow> n < 7"
proof -
  have e: "(127 :: int) = mask 7" by (simp add: mask_eq_exp_minus_1)
  show ?thesis unfolding e bit_mask_iff by simp
qed

lemma bit_128: "bit (128 :: int) n \<longleftrightarrow> n = 7"
proof -
  have e: "(128 :: int) = 2 ^ 7" by simp
  show ?thesis unfolding e bit_exp_iff by auto
qed

lemma varint_last_byte:
  assumes "unat (v :: 'a::len word) < 128" and "8 \<le> LENGTH('a)"
  shows "unat (ucast v :: u8) < 128" and "ucast (ucast v :: u8) = v"
proof -
  have small: "unat (ucast v :: u8) = unat v"
    using assms by (simp add: unsigned_ucast_eq take_bit_eq_mod)
  then show "unat (ucast v :: u8) < 128" using assms by simp
  have "unat v < 2 ^ LENGTH('a)" by (rule unsigned_less)
  then have "unat (ucast (ucast v :: u8) :: 'a word) = unat v"
    by (subst unsigned_ucast_eq) (simp only: small take_bit_nat_eq_self)
  then show "ucast (ucast v :: u8) = v" by (simp add: word_unat_eq_iff)
qed

lemma varint_more_byte:
  fixes v :: "'a::len word"
  assumes "8 \<le> LENGTH('a)"
  defines "b \<equiv> ucast ((v AND 127) OR 128) :: u8"
  shows "\<not> unat b < 128" and "ucast (b AND 127) = v AND 127"
proof -
  show "\<not> unat b < 128"
    using assms(1) unfolding byte_high_bit b_def by (simp add: bit_simps bit_128)
  show "ucast (b AND 127) = v AND 127"
    using assms(1) unfolding b_def
    by (intro bit_word_eqI) (auto simp: bit_simps bit_127 bit_128)
qed

lemma varint_split:
  "acc OR push_bit i (v AND 127) OR push_bit (i + 7) (drop_bit 7 v) = acc OR push_bit i (v :: 'a::len word)"
proof (rule bit_word_eqI)
  fix n assume n: "n < LENGTH('a)"
  have "7 + (n - (i + 7)) = n - i" if "i + 7 \<le> n" using that by simp
  then show "bit (acc OR push_bit i (v AND 127) OR push_bit (i + 7) (drop_bit 7 v)) n
      = bit (acc OR push_bit i v) n"
    using n by (cases "i + 7 \<le> n") (auto simp: bit_simps bit_127)
qed

lemma unat_drop_bit_div: "unat (drop_bit 7 (v :: 'a::len word)) = unat v div 128"
proof -
  have "unat (drop_bit 7 v) = drop_bit 7 (unat v)" by (rule unat_drop_bit_eq)
  then show ?thesis by (simp only: drop_bit_eq_div) simp
qed

lemma varint_bytes_length:
  "unat v < 2 ^ (7 * n) \<Longrightarrow> 0 < n \<Longrightarrow> length (varint_bytes v) \<le> n"
proof (induction v arbitrary: n rule: varint_bytes.induct)
  case (1 v)
  show ?case
  proof (cases "unat v \<ge> 128")
    case True
    obtain m where n: "n = Suc m" using 1(3) by (cases n) auto
    have m: "0 < m" using True 1(2) n by (cases m) auto
    have "unat v < 128 * 2 ^ (7 * m)" using 1(2) n by (simp add: power_add)
    then have "unat (drop_bit 7 v) < 2 ^ (7 * m)"
      by (simp add: unat_drop_bit_div less_mult_imp_div_less mult.commute)
    from 1(1) [OF True this m] True n show ?thesis by (subst varint_bytes.simps) simp
  next
    case False
    with 1(3) show ?thesis by (subst varint_bytes.simps) simp
  qed
qed

lemma varint_bytes_not_Nil: "varint_bytes v \<noteq> []"
  by (subst varint_bytes.simps) simp

lemma varint32_length: "length (varint_bytes (v :: u32)) \<le> 5"
  by (rule varint_bytes_length) (use unsigned_less [of v, where 'a = nat] in simp_all)

lemma varint64_length: "length (varint_bytes (v :: u64)) \<le> 10"
  by (rule varint_bytes_length) (use unsigned_less [of v, where 'a = nat] in simp_all)

text \<open>Reading a varint through any byte store: the loop returns the value written.\<close>

context byte_store
begin

lemma varint_loop_reads:
  fixes v :: "'a::len word"
  assumes rd: "\<And>s d p x rest. inv s \<Longrightarrow> abs s = (d, p) \<Longrightarrow> drop p d = x # rest \<Longrightarrow>
      \<exists>s'. rd s = (Inr x, s') \<and> inv s' \<and> abs s' = (d, Suc p)"
    and len: "8 \<le> LENGTH('a)"
  shows "inv s \<Longrightarrow> abs s = (d, p) \<Longrightarrow> drop p d = varint_bytes v @ rest \<Longrightarrow> i < LENGTH('a) \<Longrightarrow>
    unat v < 2 ^ (LENGTH('a) - i) \<Longrightarrow>
    \<exists>s'. varint_loop rd LENGTH('a) i acc s = (Inr (acc OR push_bit i v), s') \<and> inv s'
       \<and> abs s' = (d, p + length (varint_bytes v))"
proof (induction v arbitrary: s p i acc rule: varint_bytes.induct)
  case (1 v)
  show ?case
  proof (cases "unat v \<ge> 128")
    case True
    let ?b = "ucast ((v AND 127) OR 128) :: u8"
    have vb: "varint_bytes v = ?b # varint_bytes (drop_bit 7 v)"
      using True by (subst varint_bytes.simps) simp
    from rd [OF 1(2,3)] 1(4) vb obtain s1 where
      s1: "rd s = (Inr ?b, s1)" "inv s1" "abs s1 = (d, Suc p)" by fastforce
    have dr: "drop (Suc p) d = varint_bytes (drop_bit 7 v) @ rest"
      using 1(4) vb by (metis append_Cons list.sel(3) drop_Suc tl_drop)
    have more: "7 < LENGTH('a) - i"
    proof (rule ccontr)
      assume "\<not> 7 < LENGTH('a) - i"
      then have "(2 :: nat) ^ (LENGTH('a) - i) \<le> 2 ^ 7" by (intro power_increasing) auto
      with True 1(6) show False by simp
    qed
    have "LENGTH('a) - i = (LENGTH('a) - (i + 7)) + 7" using more by simp
    then have "(2 :: nat) ^ (LENGTH('a) - i) = 2 ^ (LENGTH('a) - (i + 7)) * 2 ^ 7"
      by (metis power_add)
    then have "unat (drop_bit 7 v) < 2 ^ (LENGTH('a) - (i + 7))"
      using 1(6) by (simp add: unat_drop_bit_div less_mult_imp_div_less)
    note IH = 1(1) [OF True s1(2,3) dr _ this]
    define acc' where "acc' = acc OR push_bit i (v AND 127)"
    have split: "acc' OR push_bit (i + 7) (drop_bit 7 v) = acc OR push_bit i v"
      unfolding acc'_def by (simp only: or.assoc varint_split)
    have "i + 7 < LENGTH('a)" using more by simp
    from IH [OF this, of acc', unfolded split]
    obtain s2 where s2: "varint_loop rd LENGTH('a) (i + 7) acc' s1 = (Inr (acc OR push_bit i v), s2)"
      "inv s2" "abs s2 = (d, Suc p + length (varint_bytes (drop_bit 7 v)))"
      by blast
    have "varint_loop rd LENGTH('a) i acc s = varint_loop rd LENGTH('a) (i + 7) acc' s1"
      using 1(5) s1(1) varint_more_byte [OF len, of v] unfolding acc'_def
      by (subst varint_loop.simps) (simp add: op_simps)
    with s2 vb show ?thesis by auto
  next
    case False
    then have vb: "varint_bytes v = [ucast v]" by (subst varint_bytes.simps) simp
    from rd [OF 1(2,3)] 1(4) vb obtain s1 where
      s1: "rd s = (Inr (ucast v), s1)" "inv s1" "abs s1 = (d, Suc p)" by fastforce
    with 1(5) False varint_last_byte [OF _ len, of v] vb show ?thesis
      by (subst varint_loop.simps) (simp add: op_simps)
  qed
qed

end

section \<open>Zigzag integers\<close>

lemma drop_double:
  assumes "\<not> bit (x :: 'a::len word) (LENGTH('a) - 1)"
  shows "drop_bit 1 (2 * x) = x" and "drop_bit 1 (1 + 2 * x) = x"
proof -
  have "drop_bit 1 (2 * x) = x \<and> drop_bit 1 (1 + 2 * x) = x"
  proof (intro conjI; rule bit_word_eqI)
    fix n assume "n < LENGTH('a)"
    then have "Suc n < LENGTH('a) \<or> n = LENGTH('a) - 1" by auto
    moreover have "\<not> bit (2 * x) LENGTH('a)" and "\<not> bit (1 + 2 * x) LENGTH('a)"
      by (auto dest: bit_imp_le_length)
    ultimately show "bit (drop_bit 1 (2 * x)) n = bit x n" "bit (drop_bit 1 (1 + 2 * x)) n = bit x n"
      using assms by (auto simp: bit_drop_bit_eq bit_double_iff even_bit_succ_iff)
  qed
  then show "drop_bit 1 (2 * x) = x" "drop_bit 1 (1 + 2 * x) = x" by auto
qed

lemma low_bit_double: "(2 * x) AND 1 = (0 :: 'a::len word)" "(1 + 2 * x) AND 1 = (1 :: 'a::len word)"
  by (simp_all add: and_one_eq odd_iff_mod_2_eq_one [symmetric] mod_2_eq_odd)

lemma zigzag_roundtrip: "DecodeZigzag (EncodeZigzag v) = v"
proof (cases "sint v < 0")
  case True
  then have "bit v (LENGTH('a) - 1)" by (simp add: bit_last_iff)
  then have msb: "\<not> bit (NOT v) (LENGTH('a) - 1)"
    by (simp only: bit_not_iff possible_bit_word) simp
  have "(- v) * 2 - 1 = 1 + 2 * (NOT v)"
    by (simp add: not_eq_complement algebra_simps)
  with True show ?thesis
    unfolding EncodeZigzag_def DecodeZigzag_def
    by (simp only: if_True drop_double [OF msb] low_bit_double) simp
next
  case False
  then have msb: "\<not> bit v (LENGTH('a) - 1)" by (simp add: bit_last_iff)
  have "v * 2 = 2 * v" by simp
  with False show ?thesis
    unfolding EncodeZigzag_def DecodeZigzag_def
    by (simp only: if_False drop_double [OF msb] low_bit_double) simp
qed

section \<open>Round trips\<close>

text \<open>
  A writer and a reader fit: whenever the writer succeeds, going back to where it began and reading
  gives the value back and leaves the byte array where the writer left it.
\<close>

definition reads_back ::
  "(byte_array, unit) sop \<Rightarrow> (byte_array, 'a) sop \<Rightarrow> 'a \<Rightarrow> byte_array \<Rightarrow> bool" where
  "reads_back wr rd v b \<longleftrightarrow> (\<forall>b'. wr b = (Inr (), b') \<longrightarrow>
     (\<exists>b2 b3. setPosition (m_position b) b' = (Inr (), b2) \<and> rd b2 = (Inr v, b3) \<and> ba_inv b3
        \<and> ba_abs b3 = ba_abs b'))"

text \<open>A reader decodes given bytes, on every byte array of the same byte order.\<close>

definition decodes :: "byte_order \<Rightarrow> u8 list \<Rightarrow> (byte_array, 'a) sop \<Rightarrow> 'a \<Rightarrow> bool" where
  "decodes order enc rd v \<longleftrightarrow> (\<forall>b d p rest. ba_inv b \<longrightarrow> m_endian b = order \<longrightarrow> ba_abs b = (d, p) \<longrightarrow>
     drop p d = enc @ rest \<longrightarrow>
     (\<exists>b'. rd b = (Inr v, b') \<and> ba_inv b' \<and> ba_abs b' = (d, p + length enc)))"

lemma setPosition_setup: "setPosition v b = (r, b') \<Longrightarrow> same_setup b b'"
  by (auto simp: setPosition_def Let_def same_setup_def split: if_splits sum.splits)

lemma write_decodes:
  assumes "ba_inv b" and "ba_inv b'" and "same_setup b b'" and "ba_abs b' = buf_write enc (ba_abs b)"
    and "decodes (m_endian b) enc rd v"
  shows "\<exists>b2 b3. setPosition (m_position b) b' = (Inr (), b2) \<and> rd b2 = (Inr v, b3) \<and> ba_inv b3
           \<and> ba_abs b3 = ba_abs b'"
proof -
  have "ba_abs b = (contents b, m_position b)" by (simp add: ba_abs_def)
  from ba.put_seek [OF assms(1) this assms(2,4)] obtain b2 d' rest where
    b2: "setPosition (m_position b) b' = (Inr (), b2)" "ba_inv b2" "ba_abs b2 = (d', m_position b)"
      "drop (m_position b) d' = enc @ rest" "ba_abs b' = (d', m_position b + length enc)" by blast
  have "m_endian b2 = m_endian b"
    using setPosition_setup [OF b2(1)] assms(3) by (simp add: same_setup_def)
  with b2 assms(5) show ?thesis unfolding decodes_def by metis
qed

lemma reads_backI:
  assumes "ba_inv b" and "\<And>b'. wr b = (Inr (), b') \<Longrightarrow> ba_write enc b = (Inr (), b')"
    and "decodes (m_endian b) enc rd v"
  shows "reads_back wr rd v b"
  unfolding reads_back_def
proof (intro allI impI)
  fix b' assume "wr b = (Inr (), b')"
  then have "ba_write enc b = (Inr (), b')" by (rule assms(2))
  from ba_write_law [OF assms(1) this]
  show "\<exists>b2 b3. setPosition (m_position b) b' = (Inr (), b2) \<and> rd b2 = (Inr v, b3) \<and> ba_inv b3
      \<and> ba_abs b3 = ba_abs b'"
    by (intro write_decodes [OF assms(1) _ _ _ assms(3)]) simp_all
qed

lemma decodes_then: "decodes order enc rd v \<Longrightarrow> decodes order enc (and_then rd (\<lambda>v. ret (f v))) (f v)"
  unfolding decodes_def by (metis and_then_Inr ret_app)

lemma decodes_bytes: "enc \<noteq> [] \<Longrightarrow> decodes order enc (ba_read (length enc)) enc"
  unfolding decodes_def using ba.get_prefix by blast

lemma decodes_byte: "decodes order [v] (readFuint8 host) v" "decodes order [v] (readFint8 host) v"
  using decodes_then [OF decodes_bytes [of "[v]"], of order "of_mem host :: u8 list \<Rightarrow> u8"]
  by (simp_all add: readFuint8_def readFint8_def)

lemma decodes_wire:
  assumes "8 dvd LENGTH('a)" and "8 \<le> LENGTH('a)" and "n = LENGTH('a) div 8"
  shows "decodes order (wire order v) (read_XX n host) (v :: 'a::len word)"
  unfolding decodes_def using read_XX_wire [OF _ _ _ assms] assms(3) by fastforce

lemma decodes_varint:
  assumes "8 \<le> LENGTH('a)"
  shows "decodes order (varint_bytes v) (varint_loop (readFuint8 host) LENGTH('a) 0 0) (v :: 'a::len word)"
proof -
  have rd: "\<exists>s'. readFuint8 host s = (Inr x, s') \<and> ba_inv s' \<and> ba_abs s' = (d, Suc p)"
    if "ba_inv s" "ba_abs s = (d, p)" "drop p d = x # rest" for s d p x rest
    using decodes_byte(1) [of "m_endian s" x host] that unfolding decodes_def by auto
  have "unat v < 2 ^ (LENGTH('a) - 0)" using unsigned_less [of v, where 'a = nat] by simp
  then show ?thesis
    unfolding decodes_def
    using ba.varint_loop_reads [OF rd assms, where i = 0 and acc = 0 and v = v] by simp
qed

text \<open>A length prefix followed by the bytes.\<close>

lemma decodes_prefixed:
  assumes "decodes order enc rd len" and "unat len = length s" and "s \<noteq> []"
  shows "decodes order (enc @ s) (and_then rd (\<lambda>l. ba_read (unat l))) s"
  unfolding decodes_def
proof (intro allI impI)
  fix b d p rest
  assume b: "ba_inv b" "m_endian b = order" "ba_abs b = (d, p)" "drop p d = (enc @ s) @ rest"
  then have "drop p d = enc @ (s @ rest)" by simp
  with b assms(1) obtain b1 where b1: "rd b = (Inr len, b1)" "ba_inv b1" "ba_abs b1 = (d, p + length enc)"
    unfolding decodes_def by blast
  have "drop (p + length enc) d = s @ rest"
    using b(4) by (metis add.commute append.assoc append_eq_conv_conj drop_drop)
  from ba.get_prefix [OF b1(2,3) this assms(3)] b1 assms(2)
  show "\<exists>b'. and_then rd (\<lambda>l. ba_read (unat l)) b = (Inr s, b') \<and> ba_inv b'
      \<and> ba_abs b' = (d, p + length (enc @ s))"
    by (auto simp: op_simps)
qed

lemma reads_back_prefixed:
  assumes inv: "ba_inv b"
    and wr: "\<And>b'. wrlen b = (Inr (), b') \<Longrightarrow> ba_write enc b = (Inr (), b')"
    and dec: "decodes (m_endian b) enc rd len" "unat len = length s" "s \<noteq> []"
  shows "reads_back (and_then wrlen (\<lambda>_. ba_write s)) (and_then rd (\<lambda>l. ba_read (unat l))) s b"
  unfolding reads_back_def
proof (intro allI impI)
  fix b' assume "and_then wrlen (\<lambda>_. ba_write s) b = (Inr (), b')"
  then obtain b1 where b1: "wrlen b = (Inr (), b1)" "ba_write s b1 = (Inr (), b')"
    by (elim and_then_InrE) simp
  note w = wr [OF b1(1)]
  have "same_setup b b'"
    using ba_write_law [OF inv w] ba_write_law [OF _ b1(2)] same_setup_trans by blast
  moreover note ba.put_put [OF inv w b1(2)]
  ultimately show "\<exists>b2 b3. setPosition (m_position b) b' = (Inr (), b2)
      \<and> and_then rd (\<lambda>l. ba_read (unat l)) b2 = (Inr s, b3) \<and> ba_inv b3 \<and> ba_abs b3 = ba_abs b'"
    using write_decodes [OF inv _ _ _ decodes_prefixed [OF dec]] by blast
qed

section \<open>Properties\<close>

text \<open>
  C3: fixed-width integers and floats survive the trip. Whatever a writer stored, reading it back
  from the same position gives the same value, for every width and either byte order of the
  array, also when the writing and the reading host have different byte orders.
\<close>

theorem fixed_width_roundtrip:
  assumes "ba_inv b"
  shows "reads_back (writeFint8 h v8) (readFint8 h') v8 b \<and> reads_back (writeFuint8 h v8) (readFuint8 h') v8 b
    \<and> reads_back (writeFint16 h v16) (readFint16 h') v16 b \<and> reads_back (writeFuint16 h v16) (readFuint16 h') v16 b
    \<and> reads_back (writeFint32 h v32) (readFint32 h') v32 b \<and> reads_back (writeFuint32 h v32) (readFuint32 h') v32 b
    \<and> reads_back (writeFint64 h v64) (readFint64 h') v64 b \<and> reads_back (writeFuint64 h v64) (readFuint64 h') v64 b
    \<and> reads_back (writeFloat h v32) (readFloat h') v32 b \<and> reads_back (writeDouble h v64) (readDouble h') v64 b"
  unfolding readF_defs
  by (intro conjI reads_backI [OF assms _ decodes_byte(1)] reads_backI [OF assms _ decodes_byte(2)]
        reads_backI [OF assms _ decodes_wire])
     (simp_all add: writeFint8_def writeFuint8_def writeFloat_def writeDouble_def writeF_wire)

theorem fixed_width_roundtrip_witness:
  "reads_back (writeFint32 SYLAR_LITTLE_ENDIAN 305419896) (readFint32 SYLAR_BIG_ENDIAN) 305419896 example_array
   \<and> fst (writeFint32 SYLAR_LITTLE_ENDIAN 305419896 example_array) = Inr ()"
proof -
  have "grows_enough (length (wire SYLAR_BIG_ENDIAN (305419896 :: u32))) example_array"
    by (simp add: grows_enough_def example_array_def)
  with ba_write_spec [OF example_array_inv, of "wire SYLAR_BIG_ENDIAN (305419896 :: u32)"]
  have "fst (writeFint32 SYLAR_LITTLE_ENDIAN 305419896 example_array) = Inr ()"
    unfolding writeF_wire by (auto simp: example_array_def)
  with fixed_width_roundtrip [OF example_array_inv, of SYLAR_LITTLE_ENDIAN 0 SYLAR_BIG_ENDIAN 0 305419896 0]
  show ?thesis by blast
qed

text \<open>
  C4: varint integers survive the trip, unsigned and signed (through zigzag), for every value of
  32 and 64 bits.
\<close>

theorem varint_roundtrip:
  assumes "ba_inv b"
  shows "reads_back (writeUint32 v32) (readUint32 h) v32 b \<and> reads_back (writeUint64 v64) (readUint64 h) v64 b
    \<and> reads_back (writeInt32 v32) (readInt32 h) v32 b \<and> reads_back (writeInt64 v64) (readInt64 h) v64 b"
proof (intro conjI)
  have d32: "decodes (m_endian b) (varint_bytes v) (readUint32 h) v" for v :: u32
    using decodes_varint [of "m_endian b" v h] by (simp add: readUint32_def)
  have d64: "decodes (m_endian b) (varint_bytes v) (readUint64 h) v" for v :: u64
    using decodes_varint [of "m_endian b" v h] by (simp add: readUint64_def)
  have w32: "writeUint32 v = ba_write (varint_bytes v)" for v
    using varint32_length by (simp add: writeUint32_def tmp_write_def)
  have w64: "writeUint64 v = ba_write (varint_bytes v)" for v
    using varint64_length by (simp add: writeUint64_def tmp_write_def)
  show "reads_back (writeUint32 v32) (readUint32 h) v32 b"
    by (rule reads_backI [OF assms _ d32]) (simp add: w32)
  show "reads_back (writeUint64 v64) (readUint64 h) v64 b"
    by (rule reads_backI [OF assms _ d64]) (simp add: w64)
  show "reads_back (writeInt32 v32) (readInt32 h) v32 b"
    using reads_backI [OF assms _ decodes_then [OF d32, of "EncodeZigzag32 v32" DecodeZigzag32], of "writeInt32 v32"]
    by (simp add: writeInt32_def readInt32_def w32 EncodeZigzag32_def DecodeZigzag32_def zigzag_roundtrip)
  show "reads_back (writeInt64 v64) (readInt64 h) v64 b"
    using reads_backI [OF assms _ decodes_then [OF d64, of "EncodeZigzag64 v64" DecodeZigzag64], of "writeInt64 v64"]
    by (simp add: writeInt64_def readInt64_def w64 EncodeZigzag64_def DecodeZigzag64_def zigzag_roundtrip)
qed

theorem varint_roundtrip_witness:
  "reads_back (writeInt32 (- 5)) (readInt32 SYLAR_LITTLE_ENDIAN) (- 5) example_array"
  using varint_roundtrip [OF example_array_inv] by blast

text \<open>
  The varint writers stay inside their stack buffers: at most 5 bytes for 32 bits and 10 for 64,
  so they write exactly the encoded bytes and never overrun \<open>tmp\<close>.
\<close>

theorem varint_no_overflow:
  "writeUint32 v = ba_write (varint_bytes v) \<and> length (varint_bytes v) \<in> {1..5}
   \<and> writeUint64 w = ba_write (varint_bytes w) \<and> length (varint_bytes w) \<in> {1..10}"
  using varint32_length [of v] varint64_length [of w] varint_bytes_not_Nil [of v] varint_bytes_not_Nil [of w]
  by (simp add: writeUint32_def writeUint64_def tmp_write_def Suc_le_eq)

text \<open>
  Non-empty strings survive the trip in each of the length-prefixed formats, as long as the
  length fits the prefix.
\<close>

theorem string_roundtrip:
  assumes "ba_inv b" and "s \<noteq> []"
  shows "(length s < 2 ^ 16 \<longrightarrow> reads_back (writeStringF16 h s) (readStringF16 h') s b)
    \<and> (length s < 2 ^ 32 \<longrightarrow> reads_back (writeStringF32 h s) (readStringF32 h') s b)
    \<and> (length s < 2 ^ 64 \<longrightarrow> reads_back (writeStringF64 h s) (readStringF64 h') s b)
    \<and> (length s < 2 ^ 64 \<longrightarrow> reads_back (writeStringVint s) (readStringVint h') s b)"
proof (intro conjI impI)
  have fits: "unat (of_nat n :: 'a::len word) = n" if "n < 2 ^ LENGTH('a)" for n
    using that by (simp add: unat_of_nat)
  show "reads_back (writeStringF16 h s) (readStringF16 h') s b" if "length s < 2 ^ 16"
    unfolding writeStringF16_def readStringF16_def readFuint16_def
    by (rule reads_back_prefixed [OF assms(1) _ decodes_wire _ assms(2), where len = "of_nat (length s)"])
       (use that in \<open>simp_all add: writeF_wire fits\<close>)
  show "reads_back (writeStringF32 h s) (readStringF32 h') s b" if "length s < 2 ^ 32"
    unfolding writeStringF32_def readStringF32_def readFuint32_def
    by (rule reads_back_prefixed [OF assms(1) _ decodes_wire _ assms(2), where len = "of_nat (length s)"])
       (use that in \<open>simp_all add: writeF_wire fits\<close>)
  show "reads_back (writeStringF64 h s) (readStringF64 h') s b" if "length s < 2 ^ 64"
    unfolding writeStringF64_def readStringF64_def readFuint64_def
    by (rule reads_back_prefixed [OF assms(1) _ decodes_wire _ assms(2), where len = "of_nat (length s)"])
       (use that in \<open>simp_all add: writeF_wire fits\<close>)
  have d64: "decodes (m_endian b) (varint_bytes v) (readUint64 h') v" for v :: u64
    using decodes_varint [of "m_endian b" v h'] by (simp add: readUint64_def)
  show "reads_back (writeStringVint s) (readStringVint h') s b" if "length s < 2 ^ 64"
    unfolding writeStringVint_def readStringVint_def
    by (rule reads_back_prefixed [OF assms(1) _ d64 _ assms(2), where len = "of_nat (length s)"])
       (use that varint64_length in \<open>simp_all add: writeUint64_def tmp_write_def fits\<close>)
qed

theorem string_roundtrip_witness:
  "reads_back (writeStringF16 SYLAR_LITTLE_ENDIAN [104, 105]) (readStringF16 SYLAR_LITTLE_ENDIAN) [104, 105] example_array"
  using string_roundtrip [OF example_array_inv, of "[104, 105]" SYLAR_LITTLE_ENDIAN SYLAR_LITTLE_ENDIAN] by simp

text \<open>
  The empty string does not survive the trip when its length prefix ends exactly at the
  capacity: writing it succeeds, and reading it back dereferences the null cursor.
\<close>

theorem empty_string_crash:
  assumes "ba_inv b" and "m_position b + 2 = m_capacity b"
  shows "\<exists>b' b2 b3. writeStringF16 h [] b = (Inr (), b') \<and> setPosition (m_position b) b' = (Inr (), b2)
           \<and> readStringF16 h' b2 = (Inl Null_Deref, b3)"
proof -
  let ?enc = "wire (m_endian b) (0 :: u16)"
  have g: "grows_enough (length ?enc) b" using assms(2) by (simp add: grows_enough_def)
  have room: "m_position b + length ?enc \<le> m_capacity b" "m_position b < m_capacity b"
    using assms(2) by simp_all
  from write_nodes_spec [OF assms(1) room] obtain b' where
    b': "write_nodes ?enc b = (Inr (), b')" "ba_inv b'" "same_setup b b'" "m_capacity b' = m_capacity b"
      "ba_abs b' = buf_write ?enc (ba_abs b)" by blast
  have "getCapacity b = length ?enc" using assms(2) by (simp add: getCapacity_def)
  then have "addCapacity (length ?enc) b = (Inr (), b)" by (simp add: addCapacity_def)
  then have wr: "ba_write ?enc b = (Inr (), b')"
    using b'(1) by (simp add: ba_write_def op_simps)
  have dec: "decodes (m_endian b) ?enc (readFuint16 h') 0"
    unfolding readFuint16_def by (rule decodes_wire) simp_all
  from write_decodes [OF assms(1) b'(2,3,5) dec] obtain b2 b3 where
    b2: "setPosition (m_position b) b' = (Inr (), b2)" "readFuint16 h' b2 = (Inr 0, b3)" "ba_inv b3"
      "ba_abs b3 = ba_abs b'" by blast
  have "m_capacity b2 = m_capacity b'"
    using b2(1) by (auto simp: setPosition_def Let_def split: if_splits sum.splits)
  moreover have "m_capacity b3 = m_capacity b2"
    using b2(2) by (auto simp: readFuint16_def read_XX_def and_then_def ret_def ba_read_def Let_def
        split: prod.splits sum.splits if_splits)
  moreover have "m_position b3 = m_position b + 2"
    using b2(4) b'(5) by (simp add: ba_abs_def buf_write_def)
  ultimately have "ba_read 0 b3 = (Inl Null_Deref, b3)"
    using assms(2) b'(4) by (intro ba_read_at_capacity [OF b2(3)]) simp
  then have "readStringF16 h' b2 = (Inl Null_Deref, b3)"
    using b2(2) by (simp add: readStringF16_def op_simps)
  moreover have "writeStringF16 h [] b = (Inr (), b')"
    using wr by (simp add: writeStringF16_def writeF_wire and_then_def ba_write_def ret_def)
  ultimately show ?thesis using b2(1) by blast
qed

theorem empty_string_crash_witness:
  "\<exists>b' b2 b3. writeStringF16 SYLAR_LITTLE_ENDIAN [] (ByteArray (\<lambda>_. 0) 2) = (Inr (), b')
     \<and> setPosition 0 b' = (Inr (), b2) \<and> readStringF16 SYLAR_LITTLE_ENDIAN b2 = (Inl Null_Deref, b3)"
  using empty_string_crash [OF ByteArray_inv [of 2 "\<lambda>_. 0"], of SYLAR_LITTLE_ENDIAN SYLAR_LITTLE_ENDIAN]
  by (simp add: ByteArray_def)

end
