(* ===== verification/Byte_Buffers.thy ===== *)
theory Byte_Buffers
  imports Byte_Array
begin

text \<open>
  The operations of \<open>ByteArray\<close> that hand its memory to others: the scatter/gather vectors for
  \<open>readv\<close>/\<open>writev\<close> style calls (\<open>getReadBuffers\<close>, \<open>getWriteBuffers\<close>), the conversions to text
  (\<open>toString\<close>, \<open>toHexString\<close>) and the file operations (\<open>writeToFile\<close>, \<open>readFromFile\<close>).

  An \<open>iovec\<close> points into a block: its base is a node and an offset. A file is its list of bytes;
  whether it could be opened is an argument.
\<close>

section \<open>Definitions\<close>

record iovec =
  iov_node :: nat
  iov_off :: nat
  iov_len :: nat

function iov_loop ::
  "node list \<Rightarrow> nat option \<Rightarrow> nat \<Rightarrow> nat \<Rightarrow> nat \<Rightarrow> iovec list \<Rightarrow> fault + iovec list" where
  "iov_loop ns cur npos ncap len buffers =
     (if len = 0 then Inr buffers
      else case deref ns cur of Inl e \<Rightarrow> Inl e
      | Inr nd \<Rightarrow>
        (let i = the cur in
         if ncap \<ge> len then Inr (buffers @ [\<lparr>iov_node = i, iov_off = npos, iov_len = len\<rparr>])
         else let cur' = next_of ns i in
           bindE (deref ns cur') (\<lambda>nx.
             iov_loop ns cur' 0 (nd_size nx) (len - ncap)
               (buffers @ [\<lparr>iov_node = i, iov_off = npos, iov_len = ncap\<rparr>]))))"
  by pat_completeness auto
termination
  by (relation "measure (\<lambda>(ns, cur, _). case cur of None \<Rightarrow> 0 | Some i \<Rightarrow> length ns - i)")
     (auto simp: deref_def next_of_def split: option.splits if_splits)

declare iov_loop.simps [simp del]

definition iov_from :: "byte_array \<Rightarrow> nat option \<Rightarrow> nat \<Rightarrow> nat \<Rightarrow> fault + iovec list" where
  "iov_from b cur npos len =
     bindE (deref (m_root b) cur) (\<lambda>nd. iov_loop (m_root b) cur npos (sub64 (nd_size nd) npos) len [])"

definition getReadBuffers :: "nat \<Rightarrow> byte_array \<Rightarrow> fault + (nat \<times> iovec list)" where
  "getReadBuffers len b =
     (let len = (if len > getReadSize b then getReadSize b else len) in
      if len = 0 then Inr (0, [])
      else if m_baseSize b = 0 then Inl Div_By_Zero
      else bindE (iov_from b (m_cur b) (m_position b mod m_baseSize b) len) (\<lambda>iovs. Inr (len, iovs)))"

primrec walk :: "node list \<Rightarrow> nat \<Rightarrow> nat option \<Rightarrow> fault + nat option" where
  "walk ns 0 cur = Inr cur"
| "walk ns (Suc count) cur = bindE (deref ns cur) (\<lambda>_. walk ns count (next_of ns (the cur)))"

definition getReadBuffers_at :: "nat \<Rightarrow> nat \<Rightarrow> byte_array \<Rightarrow> fault + (nat \<times> iovec list)" where
  "getReadBuffers_at len position b =
     (let len = (if len > getReadSize b then getReadSize b else len) in
      if len = 0 then Inr (0, [])
      else if m_baseSize b = 0 then Inl Div_By_Zero
      else bindE (walk (m_root b) (position div m_baseSize b) (Some 0)) (\<lambda>cur.
             bindE (iov_from b cur (position mod m_baseSize b) len) (\<lambda>iovs. Inr (len, iovs))))"

definition getWriteBuffers :: "nat \<Rightarrow> (byte_array, nat \<times> iovec list) sop" where
  "getWriteBuffers len =
     (if len = 0 then ret (0, [])
      else and_then (addCapacity len) (\<lambda>_ b.
        if m_baseSize b = 0 then (Inl Div_By_Zero, b)
        else case iov_from b (m_cur b) (m_position b mod m_baseSize b) len of
            Inl e \<Rightarrow> (Inl e, b) | Inr iovs \<Rightarrow> (Inr (len, iovs), b)))"

definition ba_toString :: "byte_array \<Rightarrow> fault + u8 list" where
  "ba_toString b =
     (if getReadSize b = 0 then Inr [] else ba_read_at (getReadSize b) (m_position b) b)"

definition hex_digit :: "nat \<Rightarrow> char" where
  "hex_digit n = ''0123456789abcdef'' ! n"

fun hex_dump :: "nat \<Rightarrow> u8 list \<Rightarrow> string" where
  "hex_dump i [] = ''''"
| "hex_dump i (c # cs) =
     (if i > 0 \<and> i mod 32 = 0 then [CHR 0x0A] else [])
     @ [hex_digit (unat c div 16), hex_digit (unat c mod 16), CHR '' ''] @ hex_dump (Suc i) cs"

definition ba_toHexString :: "byte_array \<Rightarrow> fault + string" where
  "ba_toHexString b = bindE (ba_toString b) (\<lambda>str. Inr (hex_dump 0 str))"

text \<open>The copy loop of \<open>writeToFile\<close>, with the signed \<open>len\<close> of the source; a negative count is an
  access outside the block.\<close>

function file_loop ::
  "nat \<Rightarrow> node list \<Rightarrow> nat option \<Rightarrow> int \<Rightarrow> int \<Rightarrow> u8 list \<Rightarrow> fault + u8 list" where
  "file_loop k ns cur pos read_size out =
     (if read_size > 0 then
        (case deref ns cur of Inl e \<Rightarrow> Inl e
         | Inr nd \<Rightarrow>
           (let diff = pos mod int k;
                len = (if read_size > int k then int k else read_size) - diff in
            if len < 0 then Inl Buffer_Overflow
            else bindE (node_get nd (nat diff) (nat len)) (\<lambda>bs.
              file_loop k ns (next_of ns (the cur)) (pos + len) (read_size - len) (out @ bs))))
      else Inr out)"
  by pat_completeness auto
termination
  by (relation "measure (\<lambda>(_, ns, cur, _). case cur of None \<Rightarrow> 0 | Some i \<Rightarrow> length ns - i)")
     (auto simp: deref_def next_of_def split: option.splits if_splits)

declare file_loop.simps [simp del]

definition writeToFile :: "bool \<Rightarrow> byte_array \<Rightarrow> fault + (bool \<times> u8 list)" where
  "writeToFile opened b =
     (if \<not> opened then Inr (False, [])
      else bindE (file_loop (m_baseSize b) (m_root b) (m_cur b) (int (m_position b)) (int (getReadSize b)) [])
             (\<lambda>out. Inr (True, out)))"

text \<open>\<open>readFromFile\<close>: \<open>read\<close> sets the end-of-file flag when it gets fewer bytes than asked for.\<close>

function read_file_loop :: "nat \<Rightarrow> u8 list \<Rightarrow> (byte_array, unit) sop" where
  "read_file_loop k content =
     (if k = 0 then throw Diverges
      else and_then (ba_write (take k content)) (\<lambda>_.
        if length content < k then ret () else read_file_loop k (drop k content)))"
  by pat_completeness auto
termination
  by (relation "measure (\<lambda>(k, content). length content)") auto

declare read_file_loop.simps [simp del]

definition readFromFile :: "u8 list option \<Rightarrow> (byte_array, bool) sop" where
  "readFromFile file b =
     (case file of None \<Rightarrow> (Inr False, b)
      | Some content \<Rightarrow> and_then (read_file_loop (m_baseSize b) content) (\<lambda>_. ret True) b)"

section \<open>Scatter/gather vectors\<close>

definition gather :: "node list \<Rightarrow> iovec \<Rightarrow> u8 list" where
  "gather ns v = take (iov_len v) (drop (iov_off v) (nd_ptr (ns ! iov_node v)))"

text \<open>A vector that stays inside one allocated block and is not empty.\<close>

definition iov_ok :: "nat \<Rightarrow> node list \<Rightarrow> iovec \<Rightarrow> bool" where
  "iov_ok k ns v \<longleftrightarrow> iov_node v < length ns \<and> 0 < iov_len v \<and> iov_off v + iov_len v \<le> k"

lemma gather_flat:
  assumes "blocks_ok k ns" and "iov_ok k ns v"
  shows "gather ns v = take (iov_len v) (drop (iov_node v * k + iov_off v) (flat ns))"
  using node_get_block [OF assms(1), of "iov_node v" "iov_off v" "iov_len v"] assms
    blocks_ok_nth [OF assms(1), of "iov_node v"]
  by (simp add: gather_def iov_ok_def node_get_def)

lemma iov_loop_spec:
  assumes ok: "blocks_ok k ns" and "i < length ns" and "npos < k"
    and "i * k + npos + len \<le> k * length ns"
  shows "\<exists>iovs. iov_loop ns (Some i) npos (k - npos) len acc = Inr (acc @ iovs)
           \<and> concat (map (gather ns) iovs) = take len (drop (i * k + npos) (flat ns))
           \<and> (\<forall>v \<in> set iovs. iov_ok k ns v) \<and> sum_list (map iov_len iovs) = len"
  using assms(2-)
proof (induction len arbitrary: i npos acc rule: less_induct)
  case (less len)
  note nd = blocks_ok_nth [OF ok less.prems(1)]
  consider "len = 0" | "len > 0" "npos + len \<le> k" | "k < npos + len" by linarith
  then show ?case
  proof cases
    case 1
    then show ?thesis by (auto simp: iov_loop.simps)
  next
    case 2
    let ?v = "\<lparr>iov_node = i, iov_off = npos, iov_len = len\<rparr>"
    have "iov_ok k ns ?v" using 2 less.prems by (simp add: iov_ok_def)
    moreover from gather_flat [OF ok this] have "gather ns ?v = take len (drop (i * k + npos) (flat ns))"
      by simp
    moreover have "len \<le> k - npos" using 2 by simp
    then have "iov_loop ns (Some i) npos (k - npos) len acc = Inr (acc @ [?v])"
      using 2 less.prems by (subst iov_loop.simps) (simp add: Let_def)
    ultimately show ?thesis by (intro exI [of _ "[?v]"]) simp
  next
    case 3
    have more: "Suc i < length ns"
    proof (rule ccontr)
      assume "\<not> Suc i < length ns"
      then have "length ns = Suc i" using less.prems(1) by simp
      with less.prems(3) 3 show False by (simp add: mult.commute)
    qed
    let ?c = "k - npos" and ?v = "\<lparr>iov_node = i, iov_off = npos, iov_len = k - npos\<rparr>"
    have v: "iov_ok k ns ?v" using less.prems by (simp add: iov_ok_def)
    have pos: "?c + (i * k + npos) = Suc i * k + 0" using less.prems(2) by simp
    have "\<exists>iovs. iov_loop ns (Some (Suc i)) 0 (k - 0) (len - ?c) (acc @ [?v]) = Inr ((acc @ [?v]) @ iovs)
        \<and> concat (map (gather ns) iovs) = take (len - ?c) (drop (Suc i * k + 0) (flat ns))
        \<and> (\<forall>v \<in> set iovs. iov_ok k ns v) \<and> sum_list (map iov_len iovs) = len - ?c"
      using 3 less.prems more by (intro less.IH) auto
    then obtain iovs where iovs: "iov_loop ns (Some (Suc i)) 0 k (len - ?c) (acc @ [?v]) = Inr (acc @ ?v # iovs)"
      "concat (map (gather ns) iovs) = take (len - ?c) (drop (?c + (i * k + npos)) (flat ns))"
      "\<forall>v \<in> set iovs. iov_ok k ns v" "sum_list (map iov_len iovs) = len - ?c"
      unfolding pos by auto
    have run: "iov_loop ns (Some i) npos ?c len acc = Inr (acc @ ?v # iovs)"
      using 3 more less.prems blocks_ok_nth [OF ok more] iovs(1)
      by (subst iov_loop.simps) (auto simp: Let_def next_of_def)
    have "take len (drop (i * k + npos) (flat ns)) = take (?c + (len - ?c)) (drop (i * k + npos) (flat ns))"
      using 3 less.prems(2) by simp
    also have "\<dots> = gather ns ?v @ concat (map (gather ns) iovs)"
      using gather_flat [OF ok v] iovs(2) by (simp only: take_add drop_drop) simp
    finally have "concat (map (gather ns) (?v # iovs)) = take len (drop (i * k + npos) (flat ns))" by simp
    with run v iovs(3,4) 3 less.prems(2) show ?thesis
      by (intro exI [of _ "?v # iovs"]) auto
  qed
qed

lemma iov_from_spec:
  assumes ok: "blocks_ok (m_baseSize b) (m_root b)" and i: "i < length (m_root b)"
    and np: "npos < m_baseSize b"
    and le: "i * m_baseSize b + npos + len \<le> m_baseSize b * length (m_root b)"
  shows "\<exists>iovs. iov_from b (Some i) npos len = Inr iovs
           \<and> concat (map (gather (m_root b)) iovs) = take len (drop (i * m_baseSize b + npos) (memory b))
           \<and> (\<forall>v \<in> set iovs. iov_ok (m_baseSize b) (m_root b) v) \<and> sum_list (map iov_len iovs) = len"
  using iov_loop_spec [OF ok i np le, of "[]"] i np blocks_ok_nth [OF ok i]
  by (simp add: iov_from_def memory_def)

lemma walk_spec: "i + count < length ns \<Longrightarrow> walk ns count (Some i) = Inr (Some (i + count))"
  by (induction count arbitrary: i) (auto simp: next_of_def)

lemma getReadBuffers_spec:
  assumes inv: "ba_inv b"
  shows "\<exists>iovs. getReadBuffers len b = Inr (min len (m_size b - m_position b), iovs)
           \<and> concat (map (gather (m_root b)) iovs) = take len (drop (m_position b) (contents b))
           \<and> (\<forall>v \<in> set iovs. iov_ok (m_baseSize b) (m_root b) v)"
proof -
  note D = ba_invD [OF inv]
  let ?n = "min len (m_size b - m_position b)"
  have n: "(if len > getReadSize b then getReadSize b else len) = ?n"
    using D(5) by (auto simp: getReadSize_def)
  have data: "take ?n (drop (m_position b) (memory b)) = take len (drop (m_position b) (contents b))"
    by (simp add: contents_def drop_take min.commute)
  show ?thesis
  proof (cases "?n = 0")
    case True
    then have "take len (drop (m_position b) (contents b)) = []"
      using length_contents [OF inv] by auto
    with True n show ?thesis
      by (intro exI [of _ "[]"]) (simp add: getReadBuffers_def Let_def)
  next
    case False
    then have "m_position b < m_capacity b" using D(6) by auto
    from position_block [OF inv this] obtain i npos where P: "m_cur b = Some i" "i < length (m_root b)"
      "npos < m_baseSize b" "m_position b = i * m_baseSize b + npos" "m_position b mod m_baseSize b = npos"
      by metis
    have "i * m_baseSize b + npos + ?n \<le> m_baseSize b * length (m_root b)"
      using D(4,5,6) P(4) by simp
    from iov_from_spec [OF D(3) P(2,3) this] P data n False D(1) show ?thesis
      by (auto simp: getReadBuffers_def Let_def)
  qed
qed

lemma getWriteBuffers_spec:
  assumes inv: "ba_inv b" and room: "grows_enough len b"
  shows "\<exists>b' iovs. getWriteBuffers len b = (Inr (len, iovs), b') \<and> ba_inv b' \<and> ba_abs b' = ba_abs b
           \<and> m_position b' + len \<le> m_capacity b'
           \<and> concat (map (gather (m_root b')) iovs) = take len (drop (m_position b') (memory b'))
           \<and> (\<forall>v \<in> set iovs. iov_ok (m_baseSize b') (m_root b') v)"
proof (cases "len = 0")
  case True
  then show ?thesis
    using inv ba_invD(5,6) [OF inv] by (auto simp: getWriteBuffers_def ret_def)
next
  case False
  from addCapacity_spec [OF inv, of len] obtain b' extra where b':
    "addCapacity len b = (Inr (), b')" "ba_inv b'" "memory b' = memory b @ extra"
    "m_position b' = m_position b" "m_size b' = m_size b"
    "m_position b' + len \<le> m_capacity b' \<longleftrightarrow> grows_enough len b" "0 < len \<Longrightarrow> m_position b' < m_capacity b'"
    by metis
  note D = ba_invD [OF b'(2)]
  from position_block [OF b'(2)] b'(7) False obtain i npos where P: "m_cur b' = Some i" "i < length (m_root b')"
    "npos < m_baseSize b'" "m_position b' = i * m_baseSize b' + npos" "m_position b' mod m_baseSize b' = npos"
    by (metis neq0_conv)
  have abs: "ba_abs b' = ba_abs b"
    using b' ba_invD(6) [OF inv] length_memory [OF inv] by (simp add: ba_abs_def contents_def)
  have "i * m_baseSize b' + npos + len \<le> m_baseSize b' * length (m_root b')"
    using D(4) P(4) b'(6) room by simp
  from iov_from_spec [OF D(3) P(2,3) this] P b' room False D(1) abs show ?thesis
    by (auto simp: getWriteBuffers_def op_simps)
qed

section \<open>Text\<close>

lemma ba_toString_spec:
  assumes inv: "ba_inv b"
  shows "ba_toString b = Inr (drop (m_position b) (contents b))"
proof (cases "m_position b = m_size b")
  case True
  then show ?thesis
    using length_contents [OF inv] by (simp add: ba_toString_def getReadSize_def)
next
  case False
  note D = ba_invD [OF inv]
  let ?n = "m_size b - m_position b"
  have n: "getReadSize b = ?n" "?n > 0" "m_position b + ?n \<le> m_size b" "m_position b < m_capacity b"
    using False D(5,6) by (simp_all add: getReadSize_def)
  from ba_read_spec [OF inv n(3,4)] obtain b' where
    "ba_read ?n b = (Inr (take ?n (drop (m_position b) (contents b))), b')"
    by (auto simp: buf_read_def ba_abs_def)
  then have "ba_read_at ?n (m_position b) b = Inr (take ?n (drop (m_position b) (contents b)))"
    using n D(5) by (auto simp: ba_read_def ba_read_at_def Let_def bindE_def split: sum.splits if_splits prod.splits)
  moreover have "take ?n (drop (m_position b) (contents b)) = drop (m_position b) (contents b)"
    using length_contents [OF inv] by simp
  ultimately show ?thesis using n by (simp add: ba_toString_def)
qed

section \<open>Files\<close>

lemma file_loop_step:
  assumes ok: "blocks_ok k ns" and i: "i < length ns" and np: "npos < k" and r: "0 < r"
    and fit: "npos \<le> min r k"
  shows "file_loop k ns (Some i) (int (i * k + npos)) (int r) out
       = file_loop k ns (next_of ns i) (int (i * k + min r k)) (int (r - (min r k - npos)))
           (out @ take (min r k - npos) (drop (i * k + npos) (flat ns)))"
proof -
  have diff: "int (i * k + npos) mod int k = int npos"
    using np by (simp flip: of_nat_mult of_nat_add of_nat_mod)
  have len: "(if int r > int k then int k else int r) - int npos = int (min r k - npos)"
    using fit by (auto simp: min_def)
  have get: "node_get (ns ! i) npos (min r k - npos)
      = Inr (take (min r k - npos) (drop (i * k + npos) (flat ns)))"
    using fit by (intro node_get_block [OF ok i]) auto
  have pos: "int (i * k + npos) + int (min r k - npos) = int (i * k + min r k)"
    using fit by simp
  have rest: "int r - int (min r k - npos) = int (r - (min r k - npos))" by simp
  show ?thesis
    by (subst file_loop.simps)
       (use r i get in \<open>simp only: diff len pos rest deref_Some sum.case Let_def nat_int bindE_simps
          option.sel of_nat_0_less_iff of_nat_less_0_iff if_True if_False\<close>)
qed

lemma file_loop_stop: "file_loop k ns cur pos 0 out = Inr out"
  by (subst file_loop.simps) simp

lemma file_loop_aligned:
  assumes ok: "blocks_ok k ns" and k: "0 < k"
  shows "i * k + r \<le> k * length ns \<Longrightarrow>
    file_loop k ns (cur_at k (length ns) (i * k)) (int (i * k)) (int r) out
      = Inr (out @ take r (drop (i * k) (flat ns)))"
proof (induction r arbitrary: i out rule: less_induct)
  case (less r)
  show ?case
  proof (cases "r = 0")
    case True
    then show ?thesis by (simp add: file_loop_stop)
  next
    case False
    then have i: "i < length ns"
      using less.prems k by (metis add_gr_0 mult.commute mult_less_cancel2 nat_less_le neq0_conv
          add_lessD1 le_neq_implies_less less_add_same_cancel1 order_less_le_trans)
    then have cur: "cur_at k (length ns) (i * k) = Some i"
      using cur_at_inside [OF k i] by simp
    have step: "file_loop k ns (Some i) (int (i * k + 0)) (int r) out
       = file_loop k ns (next_of ns i) (int (i * k + min r k)) (int (r - (min r k - 0)))
           (out @ take (min r k - 0) (drop (i * k + 0) (flat ns)))"
      using False by (intro file_loop_step [OF ok i k]) auto
    show ?thesis
    proof (cases "r \<le> k")
      case True
      with step cur show ?thesis by (simp add: file_loop_stop)
    next
      case False
      have nxt: "next_of ns i = cur_at k (length ns) (Suc i * k)"
        using cur_at_block_end [OF k i refl] by (simp add: add.commute)
      have "file_loop k ns (cur_at k (length ns) (Suc i * k)) (int (Suc i * k)) (int (r - k))
          (out @ take k (drop (i * k) (flat ns)))
        = Inr ((out @ take k (drop (i * k) (flat ns))) @ take (r - k) (drop (Suc i * k) (flat ns)))"
        using False k less.prems by (intro less.IH) auto
      moreover have "take r (drop (i * k) (flat ns))
          = take k (drop (i * k) (flat ns)) @ take (r - k) (drop (Suc i * k) (flat ns))"
        using take_add [of k "r - k" "drop (i * k) (flat ns)"] False by (simp add: add.commute)
      ultimately show ?thesis
        using step cur nxt False by (simp add: min_def add.commute)
    qed
  qed
qed

lemma file_loop_unaligned:
  assumes ok: "blocks_ok k ns" and i: "i < length ns" and np: "npos < k" and r: "k \<le> r"
    and le: "i * k + npos + r \<le> k * length ns"
  shows "file_loop k ns (Some i) (int (i * k + npos)) (int r) []
      = Inr (take r (drop (i * k + npos) (flat ns)))"
proof -
  have k: "0 < k" using np by simp
  have nxt: "next_of ns i = cur_at k (length ns) (Suc i * k)"
    using cur_at_block_end [OF k i refl] by (simp add: add.commute)
  have "file_loop k ns (Some i) (int (i * k + npos)) (int r) []
      = file_loop k ns (next_of ns i) (int (i * k + min r k)) (int (r - (min r k - npos)))
          ([] @ take (min r k - npos) (drop (i * k + npos) (flat ns)))"
    using np r k by (intro file_loop_step [OF ok i np]) auto
  also have "\<dots> = file_loop k ns (cur_at k (length ns) (Suc i * k)) (int (Suc i * k))
      (int (r - (k - npos))) (take (k - npos) (drop (i * k + npos) (flat ns)))"
    using r nxt by (simp add: min_absorb2 add.commute)
  also have "\<dots> = Inr (take (k - npos) (drop (i * k + npos) (flat ns))
      @ take (r - (k - npos)) (drop (Suc i * k) (flat ns)))"
    using np r le by (intro file_loop_aligned [OF ok k]) auto
  also have "take (k - npos) (drop (i * k + npos) (flat ns)) @ take (r - (k - npos)) (drop (Suc i * k) (flat ns))
      = take r (drop (i * k + npos) (flat ns))"
  proof -
    have "drop (Suc i * k) (flat ns) = drop (k - npos) (drop (i * k + npos) (flat ns))"
      using np by (simp add: add.commute)
    then show ?thesis
      using take_add [of "k - npos" "r - (k - npos)" "drop (i * k + npos) (flat ns)"] np r by simp
  qed
  finally show ?thesis .
qed

text \<open>From the middle of a block, with less than a block to write, the signed length goes wrong.\<close>

lemma file_loop_stuck:
  assumes ok: "blocks_ok k ns" and "0 < r" and "r < k" and "pos mod int k = int r"
  shows "file_loop k ns cur pos (int r) out = Inl Null_Deref"
proof (induction "case cur of None \<Rightarrow> 0 | Some i \<Rightarrow> length ns - i" arbitrary: cur out rule: less_induct)
  case less
  show ?case
  proof (cases "\<exists>i < length ns. cur = Some i")
    case True
    then obtain i where i: "i < length ns" "cur = Some i" by blast
    have "file_loop k ns (next_of ns i) pos (int r) (out @ []) = Inl Null_Deref"
      using i by (intro less.hyps) (auto simp: next_of_def)
    with i assms blocks_ok_nth [OF ok i(1)] show ?thesis
      by (subst file_loop.simps) (auto simp: Let_def node_get_def)
  next
    case False
    then have "deref ns cur = Inl Null_Deref" by (auto simp: deref_def split: option.splits)
    then show ?thesis using assms(2) by (subst file_loop.simps) simp
  qed
qed

lemma file_loop_negative:
  assumes "0 < r" and "int r < pos mod int k" and "r < k"
  shows "\<exists>e. file_loop k ns cur pos (int r) out = Inl e"
  using assms by (subst file_loop.simps) (auto simp: Let_def split: sum.splits)

lemma file_loop_short:
  assumes ok: "blocks_ok k ns" and i: "i < length ns" and np: "0 < npos" "npos < k" and r: "0 < r" "r < k"
  shows "\<exists>e. file_loop k ns (Some i) (int (i * k + npos)) (int r) out = Inl e"
proof -
  have diff: "int (i * k + npos) mod int k = int npos"
    using np by (simp flip: of_nat_mult of_nat_add of_nat_mod)
  consider "r < npos" | "r = npos" | "npos < r" by linarith
  then show ?thesis
  proof cases
    case 1
    with diff r show ?thesis by (intro file_loop_negative) auto
  next
    case 2
    with diff r file_loop_stuck [OF ok r] show ?thesis by auto
  next
    case 3
    have "int (i * k + r) mod int k = int r"
      using r by (simp flip: of_nat_mult of_nat_add of_nat_mod)
    then have "\<exists>e. file_loop k ns (next_of ns i) (int (i * k + r)) (int npos)
        (out @ take (r - npos) (drop (i * k + npos) (flat ns))) = Inl e"
      using 3 np by (intro file_loop_negative) auto
    with file_loop_step [OF ok i np(2) r(1), of out] 3 r np show ?thesis by (simp add: min_absorb1)
  qed
qed

lemma writeToFile_spec:
  assumes inv: "ba_inv b" and "m_position b < m_size b"
    and "m_position b mod m_baseSize b = 0 \<or> m_baseSize b \<le> m_size b - m_position b"
  shows "writeToFile True b = Inr (True, drop (m_position b) (contents b))"
proof -
  note D = ba_invD [OF inv]
  let ?r = "m_size b - m_position b"
  have r: "getReadSize b = ?r" using D(5) by (simp add: getReadSize_def)
  have lt: "m_position b < m_capacity b" using assms(2) D(6) by simp
  from position_block [OF inv lt] obtain i npos where P: "m_cur b = Some i" "i < length (m_root b)"
    "npos < m_baseSize b" "m_position b = i * m_baseSize b + npos" "m_position b mod m_baseSize b = npos"
    by metis
  have le: "i * m_baseSize b + npos + ?r \<le> m_baseSize b * length (m_root b)" using D P(4) by simp
  have data: "take ?r (drop (m_position b) (memory b)) = drop (m_position b) (contents b)"
    by (simp add: contents_def drop_take)
  have "file_loop (m_baseSize b) (m_root b) (m_cur b) (int (m_position b)) (int ?r) []
      = Inr (take ?r (drop (m_position b) (memory b)))"
  proof (cases "npos = 0")
    case True
    then have "m_position b = i * m_baseSize b" and "m_cur b = cur_at (m_baseSize b) (length (m_root b)) (i * m_baseSize b)"
      using P D(7) by simp_all
    then show ?thesis
      using file_loop_aligned [OF D(3,1), of i ?r "[]"] le True by (simp add: memory_def)
  next
    case False
    with assms(3) P(5) have "m_baseSize b \<le> ?r" by simp
    from file_loop_unaligned [OF D(3) P(2,3) this le] P show ?thesis by (simp add: memory_def)
  qed
  then show ?thesis using r data by (simp add: writeToFile_def)
qed

lemma writeToFile_fault:
  assumes inv: "ba_inv b" and "m_position b < m_size b"
    and "m_position b mod m_baseSize b \<noteq> 0" and "m_size b - m_position b < m_baseSize b"
  shows "\<exists>e. writeToFile True b = Inl e"
proof -
  note D = ba_invD [OF inv]
  have lt: "m_position b < m_capacity b" using assms(2) D(6) by simp
  from position_block [OF inv lt] obtain i npos where P: "m_cur b = Some i" "i < length (m_root b)"
    "npos < m_baseSize b" "m_position b = i * m_baseSize b + npos" "m_position b mod m_baseSize b = npos"
    by metis
  from file_loop_short [OF D(3) P(2), of npos "m_size b - m_position b" "[]"] P assms D(5)
  show ?thesis by (auto simp: writeToFile_def getReadSize_def)
qed

text \<open>Writing whole blocks from a block boundary always grows enough.\<close>

lemma grows_enough_aligned:
  assumes inv: "ba_inv b" and "m_position b mod m_baseSize b = 0" and "n \<le> m_baseSize b"
  shows "grows_enough n b"
proof -
  note D = ba_invD [OF inv]
  from assms(2) obtain q where q: "m_position b = m_baseSize b * q" by (metis mod_0_imp_dvd dvdE)
  have "m_position b \<le> m_capacity b" using D(5,6) by simp
  then have "m_baseSize b * q \<le> m_baseSize b * length (m_root b)" using D(4) q by simp
  then have "q \<le> length (m_root b)" using D(1) by simp
  then have "m_capacity b - m_position b = m_baseSize b * (length (m_root b) - q)"
    using D(4) q by (simp add: diff_mult_distrib2)
  then show ?thesis
    using assms(3) by (cases "length (m_root b) - q") (auto simp: grows_enough_def)
qed

lemma read_file_loop_spec:
  assumes "ba_inv b" and "m_baseSize b = k" and "m_position b mod k = 0"
  shows "\<exists>b'. read_file_loop k content b = (Inr (), b') \<and> ba_inv b' \<and> ba_abs b' = buf_write content (ba_abs b)"
  using assms
proof (induction "length content" arbitrary: content b rule: less_induct)
  case less
  have k: "0 < k" using ba_invD(1) [OF less.prems(1)] less.prems(2) by simp
  have "grows_enough (length (take k content)) b"
    using less.prems by (intro grows_enough_aligned) auto
  from ba_write_spec [OF less.prems(1) this] obtain b1 where
    b1: "ba_write (take k content) b = (Inr (), b1)" "ba_inv b1" "same_setup b b1"
      "ba_abs b1 = buf_write (take k content) (ba_abs b)" by blast
  show ?case
  proof (cases "length content < k")
    case True
    with b1 k show ?thesis
      by (subst read_file_loop.simps) (auto simp: op_simps)
  next
    case False
    have pos: "m_position b1 = m_position b + k"
      using b1(4) False by (simp add: ba_abs_def buf_write_def)
    have "length (drop k content) < length content" using False k by simp
    from less.hyps [OF this b1(2)] b1(3) less.prems pos obtain b' where
      b': "read_file_loop k (drop k content) b1 = (Inr (), b')" "ba_inv b'"
        "ba_abs b' = buf_write (drop k content) (ba_abs b1)"
      by (auto simp: same_setup_def)
    have "ba_abs b' = buf_write content (ba_abs b)"
      using b'(3) b1(4) buf_write_append [OF ba.abs_ok [OF less.prems(1)], of "drop k content" "take k content"] by simp
    with b' b1 k False show ?thesis
      by (subst read_file_loop.simps) (auto simp: op_simps)
  qed
qed

section \<open>Reachable byte arrays\<close>

text \<open>The byte arrays a program can build from a new one of block size \<open>k\<close>.\<close>

inductive ba_reach :: "(nat \<Rightarrow> u8) \<Rightarrow> nat \<Rightarrow> byte_array \<Rightarrow> bool" for f k where
  do_new: "ba_reach f k (ByteArray f k)"
| do_write: "ba_reach f k b \<Longrightarrow> ba_write bs b = (Inr (), b') \<Longrightarrow> ba_reach f k b'"
| do_read: "ba_reach f k b \<Longrightarrow> ba_read n b = (Inr bs, b') \<Longrightarrow> ba_reach f k b'"
| do_read_throw: "ba_reach f k b \<Longrightarrow> ba_read n b = (Inl Out_Of_Range, b') \<Longrightarrow> ba_reach f k b'"
| do_seek: "ba_reach f k b \<Longrightarrow> setPosition v b = (Inr (), b') \<Longrightarrow> ba_reach f k b'"
| do_seek_throw: "ba_reach f k b \<Longrightarrow> setPosition v b = (Inl Out_Of_Range, b') \<Longrightarrow> ba_reach f k b'"
| do_buffers: "ba_reach f k b \<Longrightarrow> getWriteBuffers len b = (Inr r, b') \<Longrightarrow> ba_reach f k b'"
| do_clear: "ba_reach f k b \<Longrightarrow> ba_reach f k (clear b)"
| do_endian: "ba_reach f k b \<Longrightarrow> ba_reach f k (setIsLittleEndian v b)"

lemma ba_read_inv:
  assumes inv: "ba_inv b" and run: "ba_read n b = (Inr bs, b')"
  shows "ba_inv b'"
proof -
  have "m_position b + n \<le> m_size b"
    using ba_read_short [OF inv, of n] run by (cases "m_size b < m_position b + n") auto
  moreover have "m_position b < m_capacity b"
  proof (rule ccontr)
    assume "\<not> m_position b < m_capacity b"
    then have "m_position b = m_capacity b" "n = 0"
      using ba_invD(5,6) [OF inv] calculation by auto
    with ba_read_at_capacity [OF inv] run show False by simp
  qed
  ultimately show ?thesis using ba_read_spec [OF inv] run by fastforce
qed

lemma setPosition_inv: "ba_inv b \<Longrightarrow> setPosition v b = (Inr (), b') \<Longrightarrow> ba_inv b'"
  using setPosition_spec [of b v] setPosition_fail [of b v] by (cases "v \<le> m_capacity b") auto

lemma getWriteBuffers_inv:
  assumes inv: "ba_inv b" and run: "getWriteBuffers len b = (Inr r, b')"
  shows "ba_inv b'"
proof -
  from addCapacity_spec [OF inv, of len] obtain b1 where "addCapacity len b = (Inr (), b1)" "ba_inv b1"
    by metis
  with inv run show ?thesis
    by (auto simp: getWriteBuffers_def op_simps split: if_splits sum.splits)
qed

section \<open>Properties\<close>

text \<open>
  C5: whatever sequence of operations a program runs on a new byte array of positive block size,
  well-formedness holds after each: blocks of the base size, capacity counting them, position
  within the data, data within the capacity, and the cursor on the block of the position.
\<close>

theorem ba_reach_inv:
  assumes "ba_reach f k b" and "0 < k"
  shows "ba_inv b"
  using assms(1)
proof (induction rule: ba_reach.induct)
  case do_new
  show ?case using assms(2) by (rule ByteArray_inv)
next
  case (do_write b bs b')
  then show ?case using ba_write_law by blast
next
  case (do_read_throw b n b')
  then show ?case by (auto simp: ba_read_def Let_def split: if_splits sum.splits prod.splits)
next
  case (do_seek_throw b v b')
  then show ?case
    using setPosition_fail [of b v] setPosition_spec [of b v] by (cases "v \<le> m_capacity b") auto
next
  case (do_endian b v)
  then show ?case by (simp add: setIsLittleEndian_def ba_inv_def)
qed (auto intro: ba_read_inv setPosition_inv getWriteBuffers_inv dest: clear_inv)

theorem ba_reach_inv_witness:
  "ba_inv (clear (setIsLittleEndian True (ByteArray (\<lambda>_. 0) 4)))"
  by (rule ba_reach_inv [of "\<lambda>_. 0" 4]) (auto intro: ba_reach.intros)

text \<open>
  \<open>writeToFile\<close> copies the unread data to the file exactly when the position is on a block
  boundary or at least a block of data is left; in every other case with data left (inside a
  block, less than a block to go) its signed length computation ends in an invalid access.
\<close>

theorem writeToFile_exact:
  assumes "ba_inv b" and "m_position b < m_size b"
  shows "if m_position b mod m_baseSize b = 0 \<or> m_baseSize b \<le> m_size b - m_position b
         then writeToFile True b = Inr (True, drop (m_position b) (contents b))
         else \<exists>e. writeToFile True b = Inl e"
  using assms writeToFile_spec writeToFile_fault by (simp add: not_le)

theorem writeToFile_exact_witness:
  "writeToFile True example_array = Inr (True, [1, 2, 3])"
proof -
  have "m_position example_array = 0" "m_size example_array = 3" by (simp_all add: example_array_def)
  with writeToFile_exact [OF example_array_inv] show ?thesis
    by (simp add: example_array_contents)
qed

text \<open>
  What \<open>writeToFile\<close> stored, \<open>readFromFile\<close> loads into a new byte array of any block size: the
  new array holds the same bytes and stands at their end.
\<close>

theorem file_roundtrip:
  assumes "ba_inv b" and "writeToFile True b = Inr (True, out)" and "0 < k"
  shows "\<exists>b'. readFromFile (Some out) (ByteArray f k) = (Inr True, b') \<and> ba_inv b'
           \<and> ba_abs b' = (drop (m_position b) (contents b), length out)"
proof -
  have out: "out = drop (m_position b) (contents b)"
  proof (cases "m_position b < m_size b")
    case True
    with writeToFile_spec [OF assms(1) True] writeToFile_fault [OF assms(1) True] assms(2) show ?thesis
      by (metis Inl_Inr_False Inr_inject not_le prod.inject)
  next
    case False
    then have "m_position b = m_size b" using ba_invD(5) [OF assms(1)] by simp
    with assms(2) length_contents [OF assms(1)] show ?thesis
      by (simp add: writeToFile_def getReadSize_def file_loop_stop)
  qed
  have new: "m_baseSize (ByteArray f k) = k" "m_position (ByteArray f k) = 0"
    "ba_abs (ByteArray f k) = ([], 0)"
    by (simp_all add: ByteArray_def ba_abs_def contents_def)
  from read_file_loop_spec [OF ByteArray_inv [OF assms(3)] new(1), of out] new obtain b' where
    "read_file_loop k out (ByteArray f k) = (Inr (), b')" "ba_inv b'" "ba_abs b' = buf_write out ([], 0)"
    by auto
  with new out show ?thesis
    by (auto simp: readFromFile_def op_simps buf_write_def overwrite_def)
qed

theorem file_roundtrip_witness:
  "\<exists>b'. readFromFile (Some [1, 2, 3]) (ByteArray (\<lambda>_. 0) 2) = (Inr True, b') \<and> ba_inv b'
     \<and> ba_abs b' = ([1, 2, 3], 3)"
proof -
  have pos: "m_position example_array = 0" "m_size example_array = 3" by (simp_all add: example_array_def)
  then have "writeToFile True example_array = Inr (True, [1, 2, 3])"
    using writeToFile_spec [OF example_array_inv] by (simp add: example_array_contents)
  from file_roundtrip [OF example_array_inv this, of 2 "\<lambda>_. 0"] pos show ?thesis
    by (simp add: example_array_contents numeral_eq_Suc)
qed

text \<open>
  The vectors \<open>getReadBuffers\<close> returns lie inside allocated blocks and their bytes, in order,
  are the next \<open>len\<close> unread bytes (all of them when fewer are left).
\<close>

theorem getReadBuffers_gather:
  assumes "ba_inv b"
  shows "\<exists>n iovs. getReadBuffers len b = Inr (n, iovs) \<and> n = min len (m_size b - m_position b)
           \<and> concat (map (gather (m_root b)) iovs) = take len (drop (m_position b) (contents b))
           \<and> list_all (iov_ok (m_baseSize b) (m_root b)) iovs"
  using getReadBuffers_spec [OF assms, of len] by (auto simp: list_all_iff)

theorem getReadBuffers_gather_witness:
  "\<exists>n iovs. getReadBuffers 2 example_array = Inr (n, iovs) \<and> n = 2
     \<and> concat (map (gather (m_root example_array)) iovs) = [1, 2]
     \<and> list_all (iov_ok 4 (m_root example_array)) iovs"
proof -
  have "m_position example_array = 0" "m_size example_array = 3" "m_baseSize example_array = 4"
    by (simp_all add: example_array_def)
  with getReadBuffers_gather [OF example_array_inv, of 2] show ?thesis
    by (simp add: example_array_contents)
qed

text \<open>
  \<open>getWriteBuffers\<close> keeps the data and the position, makes room for \<open>len\<close> bytes when growing
  suffices, and returns vectors inside allocated blocks that cover exactly those \<open>len\<close> bytes.
\<close>

theorem getWriteBuffers_room:
  assumes "ba_inv b" and "grows_enough len b"
  shows "\<exists>b' iovs. getWriteBuffers len b = (Inr (len, iovs), b') \<and> ba_inv b' \<and> ba_abs b' = ba_abs b
           \<and> m_position b' + len \<le> m_capacity b'
           \<and> concat (map (gather (m_root b')) iovs) = take len (drop (m_position b') (memory b'))
           \<and> list_all (iov_ok (m_baseSize b') (m_root b')) iovs"
  using getWriteBuffers_spec [OF assms] by (simp add: list_all_iff)

theorem getWriteBuffers_room_witness:
  "\<exists>b' iovs. getWriteBuffers 2 example_array = (Inr (2, iovs), b') \<and> ba_inv b'
     \<and> ba_abs b' = ba_abs example_array \<and> m_position b' + 2 \<le> m_capacity b'
     \<and> concat (map (gather (m_root b')) iovs) = take 2 (drop (m_position b') (memory b'))
     \<and> list_all (iov_ok (m_baseSize b') (m_root b')) iovs"
  by (rule getWriteBuffers_room [OF example_array_inv]) (simp add: grows_enough_def example_array_def)

end
