(* ===== verification/Fiber.thy ===== *)
theory Fiber
  imports Web_Prelude
begin

text \<open>
  Coroutines (\<open>fiber.h\<close>, \<open>fiber.cc\<close>). Fiber objects live in a heap shared by all threads; a thread has
  its pointers \<open>t_fiber\<close>, \<open>t_threadFiber\<close>, \<open>t_scheduler_fiber\<close> and executes on some stack. A saved
  context is represented by the stack it belongs to, so that storing the running context into the
  wrong object is visible: stack 0 is the thread's own, a fiber at address \<open>a\<close> with a stack of its
  own has stack \<open>a\<close>. The functions entered by \<open>makecontext\<close> run to the end in one step, given how the
  callback ends; after their last switch, resuming them is the source's \<open>never reach\<close> assertion.
\<close>

section \<open>Fibers and threads\<close>

datatype fiber_state = INIT | HOLD | EXEC | TERM_STATE | READY | EXCEPT

datatype entry = Thread_Stack | Enter_MainFunc | Enter_CallerMainFunc | Never_Reach

record 'cb fiber =
  m_id :: nat
  m_stacksize :: int
  m_state :: fiber_state
  m_ctx :: nat
  m_entry :: entry
  m_stack :: bool
  fb_cb :: "'cb option"

record 'cb fworld =
  fibers :: "nat \<Rightarrow> 'cb fiber"
  s_fiber_id :: nat
  s_fiber_count :: nat
  t_fiber :: "nat option"
  t_threadFiber :: "nat option"
  t_scheduler_fiber :: "nat option"
  cpu :: nat

definition upd_fiber :: "nat \<Rightarrow> ('cb fiber \<Rightarrow> 'cb fiber) \<Rightarrow> 'cb fworld \<Rightarrow> 'cb fworld" where
  "upd_fiber a f w = w\<lparr>fibers := (fibers w)(a := f (fibers w a))\<rparr>"

definition assert :: "bool \<Rightarrow> string \<Rightarrow> ('s, unit) sop" where
  "assert x msg s = (if x then (Inr (), s) else (Inl (Assert_Failed msg), s))"

definition SetThis :: "nat option \<Rightarrow> 'cb fworld \<Rightarrow> 'cb fworld" where
  "SetThis f w = w\<lparr>t_fiber := f\<rparr>"

section \<open>Construction and destruction\<close>

text \<open>
  \<open>ok\<close> says whether \<open>getcontext\<close> or \<open>swapcontext\<close> succeeds. The private constructor makes the main
  fiber of a thread out of what is running.
\<close>

definition Fiber_main :: "bool \<Rightarrow> nat \<Rightarrow> ('cb fworld, unit) sop" where
  "Fiber_main ok a w =
     (let w1 = SetThis (Some a) (w\<lparr>fibers := (fibers w)(a :=
                 \<lparr>m_id = 0, m_stacksize = 0, m_state = EXEC, m_ctx = cpu w, m_entry = Thread_Stack,
                  m_stack = False, fb_cb = None\<rparr>)\<rparr>) in
      if ok then (Inr (), w1\<lparr>s_fiber_count := s_fiber_count w1 + 1\<rparr>)
      else (Inl (Assert_Failed ''getcontext''), w1))"

definition Fiber_new :: "bool \<Rightarrow> int \<Rightarrow> nat \<Rightarrow> 'cb option \<Rightarrow> int \<Rightarrow> bool \<Rightarrow> ('cb fworld, unit) sop" where
  "Fiber_new ok cfg a cb stacksize use_caller w =
     (let i = s_fiber_id w + 1;
          w1 = w\<lparr>s_fiber_id := i, s_fiber_count := s_fiber_count w + 1,
                 fibers := (fibers w)(a :=
                   \<lparr>m_id = i, m_stacksize = (if stacksize \<noteq> 0 then stacksize else cfg) mod 2 ^ 32,
                    m_state = INIT, m_ctx = a,
                    m_entry = (if \<not> use_caller then Enter_MainFunc else Enter_CallerMainFunc),
                    m_stack = True, fb_cb = cb\<rparr>)\<rparr> in
      if ok then (Inr (), w1) else (Inl (Assert_Failed ''getcontext''), w1))"

definition Fiber_destroy :: "nat \<Rightarrow> ('cb fworld, unit) sop" where
  "Fiber_destroy a w =
     (let w = w\<lparr>s_fiber_count := s_fiber_count w - 1\<rparr>; x = fibers w a in
      if m_stack x then
        assert (m_state x = TERM_STATE \<or> m_state x = EXCEPT \<or> m_state x = INIT) ''destroy'' w
      else
        and_then (assert (fb_cb x = None) ''!m_cb'') (\<lambda>_.
        and_then (assert (m_state x = EXEC) ''m_state == EXEC'') (\<lambda>_ w.
          (Inr (), if t_fiber w = Some a then SetThis None w else w))) w)"

definition fiber_reset :: "bool \<Rightarrow> nat \<Rightarrow> 'cb option \<Rightarrow> ('cb fworld, unit) sop" where
  "fiber_reset ok a cb w =
     (let x = fibers w a in
      and_then (assert (m_stack x) ''m_stack'') (\<lambda>_.
      and_then (assert (m_state x = TERM_STATE \<or> m_state x = EXCEPT \<or> m_state x = INIT) ''reset'') (\<lambda>_ w.
        let w1 = upd_fiber a (\<lambda>x. x\<lparr>fb_cb := cb\<rparr>) w in
        if ok then (Inr (), upd_fiber a (\<lambda>x. x\<lparr>m_ctx := a, m_entry := Enter_MainFunc, m_state := INIT\<rparr>) w1)
        else (Inl (Assert_Failed ''getcontext''), w1))) w)"

section \<open>Switching\<close>

definition swapcontext :: "bool \<Rightarrow> nat \<Rightarrow> nat \<Rightarrow> ('cb fworld, unit) sop" where
  "swapcontext ok save to w =
     (if \<not> ok then (Inl (Assert_Failed ''swapcontext''), w)
      else let w1 = upd_fiber save (\<lambda>x. x\<lparr>m_ctx := cpu w\<rparr>) w;
               w2 = w1\<lparr>cpu := m_ctx (fibers w1 to)\<rparr> in
           if m_entry (fibers w2 to) = Never_Reach then (Inl (Assert_Failed ''never reach''), w2)
           else (Inr (), w2))"

definition fiber_call :: "bool \<Rightarrow> nat \<Rightarrow> ('cb fworld, unit) sop" where
  "fiber_call ok a w =
     (let w1 = upd_fiber a (\<lambda>x. x\<lparr>m_state := EXEC\<rparr>) (SetThis (Some a) w) in
      case t_threadFiber w1 of None \<Rightarrow> (Inl Null_Deref, w1)
      | Some main \<Rightarrow> swapcontext ok main a w1)"

definition fiber_back :: "bool \<Rightarrow> nat \<Rightarrow> ('cb fworld, unit) sop" where
  "fiber_back ok a w =
     (let w1 = SetThis (t_threadFiber w) w in
      case t_threadFiber w1 of None \<Rightarrow> (Inl Null_Deref, w1)
      | Some main \<Rightarrow> swapcontext ok a main w1)"

definition swapIn :: "bool \<Rightarrow> nat \<Rightarrow> ('cb fworld, unit) sop" where
  "swapIn ok a w =
     and_then (assert (m_state (fibers w a) \<noteq> EXEC) ''m_state != EXEC'') (\<lambda>_ w.
       let w1 = upd_fiber a (\<lambda>x. x\<lparr>m_state := EXEC\<rparr>) w in
       case t_scheduler_fiber w1 of None \<Rightarrow> (Inl Null_Deref, w1)
       | Some main \<Rightarrow> swapcontext ok main a w1) (SetThis (Some a) w)"

definition swapOut :: "bool \<Rightarrow> nat \<Rightarrow> ('cb fworld, unit) sop" where
  "swapOut ok a w =
     (let w1 = SetThis (t_scheduler_fiber w) w in
      case t_scheduler_fiber w1 of None \<Rightarrow> (Inl Null_Deref, w1)
      | Some main \<Rightarrow> swapcontext ok a main w1)"

text \<open>\<open>fresh\<close> is the address of the main fiber \<open>GetThis\<close> creates when the thread has none.\<close>

definition GetThis :: "bool \<Rightarrow> nat \<Rightarrow> ('cb fworld, nat) sop" where
  "GetThis ok fresh w =
     (case t_fiber w of Some f \<Rightarrow> (Inr f, w)
      | None \<Rightarrow> and_then (Fiber_main ok fresh) (\<lambda>_ w.
          if t_fiber w = Some fresh then (Inr fresh, w\<lparr>t_threadFiber := Some fresh\<rparr>)
          else (Inl (Assert_Failed ''t_fiber == main_fiber.get()''), w)) w)"

definition yield_to :: "fiber_state \<Rightarrow> bool \<Rightarrow> nat \<Rightarrow> ('cb fworld, unit) sop" where
  "yield_to st ok fresh =
     and_then (GetThis ok fresh) (\<lambda>cur w.
     and_then (assert (m_state (fibers w cur) = EXEC) ''cur->m_state == EXEC'') (\<lambda>_ w.
       swapOut ok cur (upd_fiber cur (\<lambda>x. x\<lparr>m_state := st\<rparr>) w)) w)"

definition YieldToReady :: "bool \<Rightarrow> nat \<Rightarrow> ('cb fworld, unit) sop" where
  "YieldToReady = yield_to READY"

definition YieldToHold :: "bool \<Rightarrow> nat \<Rightarrow> ('cb fworld, unit) sop" where
  "YieldToHold = yield_to HOLD"

definition TotalFibers :: "'cb fworld \<Rightarrow> nat" where
  "TotalFibers w = s_fiber_count w"

definition GetFiberId :: "'cb fworld \<Rightarrow> nat" where
  "GetFiberId w = (case t_fiber w of Some f \<Rightarrow> m_id (fibers w f) | None \<Rightarrow> 0)"

section \<open>The functions a fiber runs\<close>

text \<open>
  \<open>returned\<close> says whether the callback returns or throws; calling an empty \<open>std::function\<close> throws.
  The part up to the switch out; both functions share it.
\<close>

definition run_cb :: "bool \<Rightarrow> bool \<Rightarrow> nat \<Rightarrow> ('cb fworld, nat) sop" where
  "run_cb returned ok fresh =
     and_then (GetThis ok fresh) (\<lambda>cur w.
       let ended = (if fb_cb (fibers w cur) \<noteq> None \<and> returned
                    then (\<lambda>x. x\<lparr>fb_cb := None, m_state := TERM_STATE, m_entry := Never_Reach\<rparr>)
                    else (\<lambda>x. x\<lparr>m_state := EXCEPT, m_entry := Never_Reach\<rparr>)) in
       (Inr cur, upd_fiber cur ended w))"

definition MainFunc :: "bool \<Rightarrow> bool \<Rightarrow> nat \<Rightarrow> ('cb fworld, unit) sop" where
  "MainFunc returned ok fresh = and_then (run_cb returned ok fresh) (\<lambda>cur. swapOut ok cur)"

definition CallerMainFunc :: "bool \<Rightarrow> bool \<Rightarrow> nat \<Rightarrow> ('cb fworld, unit) sop" where
  "CallerMainFunc returned ok fresh = and_then (run_cb returned ok fresh) (\<lambda>cur. fiber_back ok cur)"

section \<open>Well-formed threads\<close>

text \<open>
  Every context is saved in the object it belongs to, and the fiber the thread believes to be
  running owns the stack it is on.
\<close>

definition own_stack :: "nat \<Rightarrow> 'cb fiber \<Rightarrow> nat" where
  "own_stack a x = (if m_stack x then a else 0)"

definition fw_inv :: "'cb fworld \<Rightarrow> bool" where
  "fw_inv w \<longleftrightarrow> (\<forall>a. m_ctx (fibers w a) = own_stack a (fibers w a))
     \<and> (case t_fiber w of None \<Rightarrow> cpu w = 0 | Some f \<Rightarrow> cpu w = own_stack f (fibers w f))"

lemma upd_fiber_simps [simp]:
  "fibers (upd_fiber a f w) = (fibers w)(a := f (fibers w a))" "t_fiber (upd_fiber a f w) = t_fiber w"
  "t_threadFiber (upd_fiber a f w) = t_threadFiber w" "t_scheduler_fiber (upd_fiber a f w) = t_scheduler_fiber w"
  "cpu (upd_fiber a f w) = cpu w" "s_fiber_id (upd_fiber a f w) = s_fiber_id w"
  "s_fiber_count (upd_fiber a f w) = s_fiber_count w"
  by (simp_all add: upd_fiber_def)

lemma assert_simps [op_simps]: "assert True msg s = (Inr (), s)" "assert False msg s = (Inl (Assert_Failed msg), s)"
  by (simp_all add: assert_def)

text \<open>Saving the running context into its owner changes nothing, so a switch only moves the processor.\<close>

lemma swapcontext_spec:
  assumes "\<And>a. m_ctx (fibers w a) = own_stack a (fibers w a)" and "cpu w = own_stack save (fibers w save)"
    and "m_entry (fibers w to) \<noteq> Never_Reach"
  shows "swapcontext True save to w = (Inr (), w\<lparr>cpu := own_stack to (fibers w to)\<rparr>)"
proof -
  have "upd_fiber save (\<lambda>x. x\<lparr>m_ctx := cpu w\<rparr>) w = w"
    using assms(1) [of save] assms(2) by (simp add: upd_fiber_def fun_upd_idem)
  then show ?thesis using assms by (simp add: swapcontext_def)
qed

lemma own_stack_upd [simp]:
  "own_stack a (x\<lparr>m_state := st\<rparr>) = own_stack a x" "own_stack a (x\<lparr>fb_cb := c\<rparr>) = own_stack a x"
  "own_stack a (x\<lparr>m_entry := e\<rparr>) = own_stack a x" "own_stack a (x\<lparr>m_ctx := k\<rparr>) = own_stack a x"
  by (simp_all add: own_stack_def)

lemma fw_inv_SomeI:
  assumes "\<And>a. m_ctx (fibers w a) = own_stack a (fibers w a)" and "t_fiber w = Some f" and "cpu w = own_stack f (fibers w f)"
  shows "fw_inv w"
  using assms by (simp add: fw_inv_def)

lemma fw_invD:
  assumes "fw_inv w"
  shows "m_ctx (fibers w a) = own_stack a (fibers w a)" "t_fiber w = Some f \<Longrightarrow> cpu w = own_stack f (fibers w f)"
    "t_fiber w = None \<Longrightarrow> cpu w = 0"
  using assms by (auto simp: fw_inv_def)

text \<open>Resuming a fiber from the scheduling fiber of the thread.\<close>

lemma swapIn_spec:
  assumes "fw_inv w" and "t_scheduler_fiber w = Some s" and "t_fiber w = Some s"
    and "m_state (fibers w a) \<noteq> EXEC" and "m_entry (fibers w a) \<noteq> Never_Reach"
  shows "\<exists>w'. swapIn True a w = (Inr (), w') \<and> fw_inv w' \<and> t_fiber w' = Some a
    \<and> fibers w' = (fibers w)(a := (fibers w a)\<lparr>m_state := EXEC\<rparr>) \<and> t_scheduler_fiber w' = Some s
    \<and> t_threadFiber w' = t_threadFiber w"
proof -
  let ?w1 = "upd_fiber a (\<lambda>x. x\<lparr>m_state := EXEC\<rparr>) (SetThis (Some a) w)"
  have "cpu ?w1 = own_stack s (fibers ?w1 s)" using fw_invD(2) [OF assms(1,3)] by (simp add: SetThis_def)
  then have "swapcontext True s a ?w1 = (Inr (), ?w1\<lparr>cpu := own_stack a (fibers ?w1 a)\<rparr>)"
    by (intro swapcontext_spec) (use fw_invD(1) [OF assms(1)] assms(5) in \<open>simp_all add: SetThis_def\<close>)
  then have "swapIn True a w = (Inr (), ?w1\<lparr>cpu := own_stack a (fibers ?w1 a)\<rparr>)"
    using assms(2,4) by (simp add: swapIn_def and_then_def assert_def SetThis_def)
  then show ?thesis
    using assms(2) fw_invD(1) [OF assms(1)] by (auto simp: fw_inv_def SetThis_def)
qed

text \<open>Giving the thread back to its scheduling fiber.\<close>

lemma swapOut_spec:
  assumes "fw_inv w" and "t_scheduler_fiber w = Some s" and "t_fiber w = Some a"
    and "m_entry (fibers w s) \<noteq> Never_Reach"
  shows "\<exists>w'. swapOut True a w = (Inr (), w') \<and> fw_inv w' \<and> t_fiber w' = Some s \<and> fibers w' = fibers w
    \<and> t_scheduler_fiber w' = Some s \<and> t_threadFiber w' = t_threadFiber w"
proof -
  let ?w1 = "SetThis (Some s) w"
  have "swapcontext True a s ?w1 = (Inr (), ?w1\<lparr>cpu := own_stack s (fibers ?w1 s)\<rparr>)"
    by (intro swapcontext_spec) (use fw_invD(1) [OF assms(1)] fw_invD(2) [OF assms(1,3)] assms(4) in \<open>simp_all add: SetThis_def\<close>)
  then have "swapOut True a w = (Inr (), ?w1\<lparr>cpu := own_stack s (fibers ?w1 s)\<rparr>)"
    using assms(2) by (simp add: swapOut_def SetThis_def)
  then show ?thesis using assms(2) fw_invD(1) [OF assms(1)] by (auto simp: fw_inv_def SetThis_def)
qed

lemma GetThis_Some [op_simps]: "t_fiber w = Some f \<Longrightarrow> GetThis ok fresh w = (Inr f, w)"
  by (simp add: GetThis_def)

lemma fw_inv_upd:
  assumes "fw_inv w" and "\<And>x. m_ctx (f x) = m_ctx x" and "\<And>x. m_stack (f x) = m_stack x"
  shows "fw_inv (upd_fiber a f w)"
  using assms by (auto simp: fw_inv_def own_stack_def split: option.splits)

text \<open>The current fiber gives up the thread in state \<open>st\<close>.\<close>

lemma yield_to_spec:
  assumes "fw_inv w" and "t_scheduler_fiber w = Some s" and "t_fiber w = Some a" and "a \<noteq> s"
    and "m_state (fibers w a) = EXEC" and "m_entry (fibers w s) \<noteq> Never_Reach"
  shows "\<exists>w'. yield_to st True fresh w = (Inr (), w') \<and> fw_inv w' \<and> t_fiber w' = Some s
    \<and> fibers w' = (fibers w)(a := (fibers w a)\<lparr>m_state := st\<rparr>) \<and> t_scheduler_fiber w' = Some s
    \<and> t_threadFiber w' = t_threadFiber w"
proof -
  let ?w1 = "upd_fiber a (\<lambda>x. x\<lparr>m_state := st\<rparr>) w"
  have "fw_inv ?w1" by (rule fw_inv_upd [OF assms(1)]) simp_all
  from swapOut_spec [OF this, of s a] obtain w' where
    "swapOut True a ?w1 = (Inr (), w')" "fw_inv w'" "t_fiber w' = Some s" "fibers w' = fibers ?w1"
      "t_scheduler_fiber w' = Some s" "t_threadFiber w' = t_threadFiber w"
    using assms by auto
  then show ?thesis using assms(3,5) by (simp add: yield_to_def op_simps and_then_def assert_def)
qed

text \<open>How a fiber looks after its callback ended.\<close>

definition ended :: "bool \<Rightarrow> 'cb fiber \<Rightarrow> 'cb fiber" where
  "ended returned x = (if fb_cb x \<noteq> None \<and> returned
     then x\<lparr>fb_cb := None, m_state := TERM_STATE, m_entry := Never_Reach\<rparr>
     else x\<lparr>m_state := EXCEPT, m_entry := Never_Reach\<rparr>)"

lemma MainFunc_spec:
  assumes "fw_inv w" and "t_scheduler_fiber w = Some s" and "t_fiber w = Some a" and "a \<noteq> s"
    and "m_entry (fibers w s) \<noteq> Never_Reach"
  shows "\<exists>w'. MainFunc returned True fresh w = (Inr (), w') \<and> fw_inv w' \<and> t_fiber w' = Some s
    \<and> fibers w' = (fibers w)(a := ended returned (fibers w a)) \<and> t_scheduler_fiber w' = Some s
    \<and> t_threadFiber w' = t_threadFiber w"
proof -
  let ?w1 = "upd_fiber a (ended returned) w"
  have "fw_inv ?w1" by (rule fw_inv_upd [OF assms(1)]) (simp_all add: ended_def)
  from swapOut_spec [OF this, of s a] obtain w' where w':
    "swapOut True a ?w1 = (Inr (), w')" "fw_inv w'" "t_fiber w' = Some s" "fibers w' = fibers ?w1"
      "t_scheduler_fiber w' = Some s" "t_threadFiber w' = t_threadFiber w"
    using assms by auto
  have "run_cb returned True fresh w = (Inr a, ?w1)"
    using assms(3) by (simp add: run_cb_def op_simps ended_def upd_fiber_def Let_def)
  then show ?thesis using w' by (simp add: MainFunc_def op_simps)
qed

lemma call_spec:
  assumes "fw_inv w" and "t_threadFiber w = Some s" and "t_fiber w = Some s" and "m_entry (fibers w a) \<noteq> Never_Reach"
  shows "\<exists>w'. fiber_call True a w = (Inr (), w') \<and> fw_inv w' \<and> t_fiber w' = Some a
    \<and> fibers w' = (fibers w)(a := (fibers w a)\<lparr>m_state := EXEC\<rparr>)
    \<and> t_threadFiber w' = Some s \<and> t_scheduler_fiber w' = t_scheduler_fiber w"
proof -
  let ?w1 = "upd_fiber a (\<lambda>x. x\<lparr>m_state := EXEC\<rparr>) (SetThis (Some a) w)"
  have "cpu ?w1 = own_stack s (fibers ?w1 s)" using fw_invD(2) [OF assms(1,3)] by (simp add: SetThis_def)
  then have "swapcontext True s a ?w1 = (Inr (), ?w1\<lparr>cpu := own_stack a (fibers ?w1 a)\<rparr>)"
    by (intro swapcontext_spec) (use fw_invD(1) [OF assms(1)] assms(4) in \<open>simp_all add: SetThis_def\<close>)
  then have "fiber_call True a w = (Inr (), ?w1\<lparr>cpu := own_stack a (fibers ?w1 a)\<rparr>)"
    using assms(2) by (simp add: fiber_call_def SetThis_def)
  then show ?thesis using assms(2) fw_invD(1) [OF assms(1)] by (auto simp: fw_inv_def SetThis_def)
qed

section \<open>Reachable threads\<close>

text \<open>
  The uses the scheduler makes of fibers: fibers are resumed by the scheduling fiber (\<open>swapIn\<close>) or
  by the main fiber (\<open>call\<close>), a running fiber yields or ends, a fiber not running is reset.
\<close>

definition fw_init :: "'cb fworld" where
  "fw_init = \<lparr>fibers = (\<lambda>_. \<lparr>m_id = 0, m_stacksize = 0, m_state = INIT, m_ctx = 0, m_entry = Thread_Stack,
                            m_stack = False, fb_cb = None\<rparr>),
              s_fiber_id = 0, s_fiber_count = 0, t_fiber = None, t_threadFiber = None,
              t_scheduler_fiber = None, cpu = 0\<rparr>"

inductive fw_reach :: "'cb fworld \<Rightarrow> bool" where
  r_init: "fw_reach fw_init"
| r_this: "fw_reach w \<Longrightarrow> GetThis ok a w = (Inr f, w') \<Longrightarrow> fw_reach w'"
| r_sched: "fw_reach w \<Longrightarrow> t_fiber w = Some f \<Longrightarrow> fw_reach (w\<lparr>t_scheduler_fiber := Some f\<rparr>)"
| r_new: "fw_reach w \<Longrightarrow> t_fiber w \<noteq> Some a \<Longrightarrow> Fiber_new ok cfg a cb sz uc w = (Inr (), w') \<Longrightarrow> fw_reach w'"
| r_reset: "fw_reach w \<Longrightarrow> fiber_reset ok a cb w = (Inr (), w') \<Longrightarrow> fw_reach w'"
| r_in: "fw_reach w \<Longrightarrow> t_fiber w = t_scheduler_fiber w \<Longrightarrow> swapIn ok a w = (Inr (), w') \<Longrightarrow> fw_reach w'"
| r_call: "fw_reach w \<Longrightarrow> t_fiber w = t_threadFiber w \<Longrightarrow> fiber_call ok a w = (Inr (), w') \<Longrightarrow> fw_reach w'"
| r_back: "fw_reach w \<Longrightarrow> t_fiber w = Some a \<Longrightarrow> fiber_back ok a w = (Inr (), w') \<Longrightarrow> fw_reach w'"
| r_yield: "fw_reach w \<Longrightarrow> yield_to st ok a w = (Inr (), w') \<Longrightarrow> fw_reach w'"
| r_end: "fw_reach w \<Longrightarrow> MainFunc returned ok a w = (Inr (), w') \<Longrightarrow> fw_reach w'"
| r_cend: "fw_reach w \<Longrightarrow> CallerMainFunc returned ok a w = (Inr (), w') \<Longrightarrow> fw_reach w'"

lemma swapcontext_inv:
  assumes "\<And>a. m_ctx (fibers w a) = own_stack a (fibers w a)" and "cpu w = own_stack save (fibers w save)"
    and "swapcontext ok save to w = (Inr (), w')" and "t_fiber w = Some to"
  shows "fw_inv w'"
proof -
  have ok: "ok" "m_entry (fibers w to) \<noteq> Never_Reach"
    using assms(3) by (auto simp: swapcontext_def Let_def split: if_splits)
  then have "w' = w\<lparr>cpu := own_stack to (fibers w to)\<rparr>"
    using swapcontext_spec [OF assms(1,2), of to] assms(3) by simp
  then show ?thesis using assms(1,4) by (simp add: fw_inv_def)
qed

lemma out_inv:
  assumes "fw_inv w" and "t_fiber w = Some a" and "swapOut ok a w = (Inr (), w') \<or> fiber_back ok a w = (Inr (), w')"
  shows "fw_inv w'"
proof -
  have "fw_inv w'" if "swapcontext ok a main (SetThis (Some main) w) = (Inr (), w')" for main
    by (rule swapcontext_inv [OF _ _ that])
       (use fw_invD(1) [OF assms(1)] fw_invD(2) [OF assms(1,2)] in \<open>simp_all add: SetThis_def\<close>)
  then show ?thesis
    using assms(3) by (auto simp: swapOut_def fiber_back_def SetThis_def Let_def split: option.splits)
qed

lemma in_inv:
  assumes "fw_inv w" and "swapIn ok a w = (Inr (), w') \<and> t_fiber w = t_scheduler_fiber w
      \<or> fiber_call ok a w = (Inr (), w') \<and> t_fiber w = t_threadFiber w"
  shows "fw_inv w'"
proof -
  let ?w1 = "upd_fiber a (\<lambda>x. x\<lparr>m_state := EXEC\<rparr>) (SetThis (Some a) w)"
  have *: "fw_inv w'" if "swapcontext ok main a ?w1 = (Inr (), w')" "t_fiber w = Some main" for main
    by (rule swapcontext_inv [OF _ _ that(1)])
       (use fw_invD(1) [OF assms(1)] fw_invD(2) [OF assms(1) that(2)] in \<open>simp_all add: SetThis_def\<close>)
  from assms(2) show ?thesis
  proof
    assume in': "swapIn ok a w = (Inr (), w') \<and> t_fiber w = t_scheduler_fiber w"
    then obtain main where "t_scheduler_fiber w = Some main" "swapcontext ok main a ?w1 = (Inr (), w')"
      by (auto simp: swapIn_def and_then_def assert_def SetThis_def Let_def split: option.splits if_splits)
    with in' * show ?thesis by simp
  next
    assume call': "fiber_call ok a w = (Inr (), w') \<and> t_fiber w = t_threadFiber w"
    then obtain main where "t_threadFiber w = Some main" "swapcontext ok main a ?w1 = (Inr (), w')"
      by (auto simp: fiber_call_def SetThis_def Let_def split: option.splits)
    with call' * show ?thesis by simp
  qed
qed

lemma GetThis_inv:
  assumes "fw_inv w" and "GetThis ok a w = (Inr f, w')"
  shows "fw_inv w'" "t_fiber w' = Some f"
proof -
  have "fw_inv w' \<and> t_fiber w' = Some f"
  proof (cases "t_fiber w")
    case None
    then have "cpu w = 0" using fw_invD(3) [OF assms(1)] by blast
    with None assms show ?thesis
      by (auto simp: GetThis_def and_then_def Fiber_main_def SetThis_def fw_inv_def own_stack_def Let_def
          split: if_splits)
  qed (use assms in \<open>auto simp: GetThis_def\<close>)
  then show "fw_inv w'" "t_fiber w' = Some f" by simp_all
qed

lemma run_cb_inv:
  assumes "fw_inv w" and "run_cb returned ok a w = (Inr f, w')"
  shows "fw_inv w'" "t_fiber w' = Some f"
proof -
  from assms(2) obtain w1 where w1: "GetThis ok a w = (Inr f, w1)" "w' = upd_fiber f (ended returned) w1"
    unfolding run_cb_def by (elim and_then_InrE) (auto simp: ended_def upd_fiber_def Let_def)
  note g = GetThis_inv [OF assms(1) w1(1)]
  show "fw_inv w'" unfolding w1(2) by (rule fw_inv_upd [OF g(1)]) (simp_all add: ended_def)
  show "t_fiber w' = Some f" using w1(2) g(2) by simp
qed

lemma fw_reach_fw_inv: "fw_reach w \<Longrightarrow> fw_inv w"
proof (induction rule: fw_reach.induct)
  case r_init
  show ?case by (simp add: fw_init_def fw_inv_def own_stack_def)
next
  case (r_this w ok a f w')
  then show ?case using GetThis_inv(1) by blast
next
  case (r_sched w f)
  then show ?case by (simp add: fw_inv_def)
next
  case (r_new w a ok cfg cb sz uc w')
  then show ?case
    by (auto simp: Fiber_new_def fw_inv_def own_stack_def Let_def split: if_splits option.splits)
next
  case (r_reset w ok a cb w')
  then have "m_stack (fibers w a)" "w' = upd_fiber a (\<lambda>x. x\<lparr>fb_cb := cb, m_ctx := a, m_entry := Enter_MainFunc, m_state := INIT\<rparr>) w"
    by (auto simp: fiber_reset_def and_then_def assert_def Let_def upd_fiber_def split: if_splits)
  with r_reset.IH show ?case by (auto simp: fw_inv_def own_stack_def split: option.splits)
next
  case (r_in w ok a w')
  then show ?case using in_inv by blast
next
  case (r_call w ok a w')
  then show ?case using in_inv by blast
next
  case (r_back w a ok w')
  then show ?case using out_inv by blast
next
  case (r_yield w st ok a w')
  then obtain f w1 where f: "GetThis ok a w = (Inr f, w1)"
    and out: "swapOut ok f (upd_fiber f (\<lambda>x. x\<lparr>m_state := st\<rparr>) w1) = (Inr (), w')"
    unfolding yield_to_def
    by (elim and_then_InrE) (auto simp: and_then_def assert_def split: if_splits prod.splits sum.splits)
  note g = GetThis_inv [OF r_yield.IH f]
  have "fw_inv (upd_fiber f (\<lambda>x. x\<lparr>m_state := st\<rparr>) w1)" by (rule fw_inv_upd [OF g(1)]) simp_all
  from out_inv [OF this, of f ok w'] show ?case using out g(2) by simp
next
  case (r_end w returned ok a w')
  from r_end.hyps(2) obtain f w1 where f: "run_cb returned ok a w = (Inr f, w1)"
    and out: "swapOut ok f w1 = (Inr (), w')"
    unfolding MainFunc_def by (elim and_then_InrE)
  then show ?case using run_cb_inv [OF r_end.IH f] out_inv by blast
next
  case (r_cend w returned ok a w')
  from r_cend.hyps(2) obtain f w1 where f: "run_cb returned ok a w = (Inr f, w1)"
    and out: "fiber_back ok f w1 = (Inr (), w')"
    unfolding CallerMainFunc_def by (elim and_then_InrE)
  then show ?case using run_cb_inv [OF r_cend.IH f] out_inv by blast
qed

section \<open>Properties\<close>

text \<open>
  C9: context switching is sound: in every state the library's uses of fibers can reach, the
  context saved in a fiber is one of its own stack, and the fiber the thread takes for the current
  one is the one whose stack it executes.
\<close>

theorem fiber_contexts_owned:
  assumes "fw_reach w"
  shows "m_ctx (fibers w a) = own_stack a (fibers w a)
    \<and> (\<forall>f. t_fiber w = Some f \<longrightarrow> cpu w = own_stack f (fibers w f))"
  using fw_invD [OF fw_reach_fw_inv [OF assms]] by blast

text \<open>A thread whose main fiber 3 is its scheduling fiber, with a fresh fiber 5.\<close>

definition example_thread :: "nat fworld" where
  "example_thread = snd (Fiber_new True 131072 5 (Some 8) 0 False
     ((snd (GetThis True 3 fw_init))\<lparr>t_scheduler_fiber := Some 3\<rparr>))"

lemma example_thread_reach: "fw_reach example_thread"
proof -
  let ?w1 = "snd (GetThis True 3 fw_init) :: nat fworld"
  have 1: "GetThis True 3 fw_init = (Inr 3, ?w1)" "t_fiber ?w1 = Some 3"
    by (simp_all add: GetThis_def and_then_def Fiber_main_def SetThis_def fw_init_def Let_def)
  have "fw_reach (?w1\<lparr>t_scheduler_fiber := Some 3\<rparr>)"
    by (rule fw_reach.r_sched [OF fw_reach.r_this [OF fw_reach.r_init 1(1)] 1(2)])
  then show ?thesis
    by (rule fw_reach.r_new [where a = 5 and ok = True and cfg = 131072 and cb = "Some 8" and sz = 0 and uc = False])
       (simp_all add: 1(2) example_thread_def Fiber_new_def Let_def)
qed

lemmas example_thread_simps =
  example_thread_def GetThis_def and_then_def Fiber_main_def SetThis_def fw_init_def Fiber_new_def Let_def

theorem fiber_contexts_owned_witness:
  "m_ctx (fibers example_thread 5) = 5 \<and> cpu example_thread = 0"
  using fiber_contexts_owned [OF example_thread_reach, of 5]
  by (simp add: own_stack_def example_thread_simps)

text \<open>
  C10: the round trip of a fiber: resumed by the scheduling fiber it executes; when it yields or its
  callback ends, control is back in the scheduling fiber, the fiber is left in state \<open>HOLD\<close>,
  \<open>READY\<close>, \<open>TERM\<close> or \<open>EXCEPT\<close> accordingly, and no other fiber has changed.
\<close>

theorem fiber_switch_roundtrip:
  assumes "fw_inv w" and "t_scheduler_fiber w = Some s" and "t_fiber w = Some s" and "a \<noteq> s"
    and "m_state (fibers w a) \<noteq> EXEC" and "m_entry (fibers w a) \<noteq> Never_Reach" and "m_entry (fibers w s) \<noteq> Never_Reach"
  shows "\<exists>w1. swapIn True a w = (Inr (), w1) \<and> t_fiber w1 = Some a \<and> cpu w1 = own_stack a (fibers w a)
      \<and> (\<exists>w2. YieldToHold True fresh w1 = (Inr (), w2) \<and> t_fiber w2 = Some s \<and> cpu w2 = cpu w
              \<and> fibers w2 = (fibers w)(a := (fibers w a)\<lparr>m_state := HOLD\<rparr>))
      \<and> (\<exists>w2. YieldToReady True fresh w1 = (Inr (), w2) \<and> t_fiber w2 = Some s \<and> cpu w2 = cpu w
              \<and> fibers w2 = (fibers w)(a := (fibers w a)\<lparr>m_state := READY\<rparr>))
      \<and> (\<exists>w2. MainFunc returned True fresh w1 = (Inr (), w2) \<and> t_fiber w2 = Some s \<and> cpu w2 = cpu w
              \<and> fibers w2 = (fibers w)(a := ended returned ((fibers w a)\<lparr>m_state := EXEC\<rparr>)))"
proof -
  from swapIn_spec [OF assms(1-3,5,6)] obtain w1 where w1:
    "swapIn True a w = (Inr (), w1)" "fw_inv w1" "t_fiber w1 = Some a"
    "fibers w1 = (fibers w)(a := (fibers w a)\<lparr>m_state := EXEC\<rparr>)" "t_scheduler_fiber w1 = Some s" by blast
  have st: "m_state (fibers w1 a) = EXEC" "m_entry (fibers w1 s) \<noteq> Never_Reach" "fibers w1 s = fibers w s"
    using w1(4) assms(4,7) by simp_all
  have home: "cpu w2 = cpu w" if "fw_inv w2" "t_fiber w2 = Some s" "fibers w2 s = fibers w s" for w2 :: "'a fworld"
    using fw_invD(2) [OF that(1,2)] fw_invD(2) [OF assms(1,3)] that(3) by simp
  have yield: "\<exists>w2. yield_to x True fresh w1 = (Inr (), w2) \<and> t_fiber w2 = Some s \<and> cpu w2 = cpu w
              \<and> fibers w2 = (fibers w)(a := (fibers w a)\<lparr>m_state := x\<rparr>)" for x
  proof -
    from yield_to_spec [OF w1(2,5,3) assms(4) st(1,2), of x fresh] obtain w2 where
      "yield_to x True fresh w1 = (Inr (), w2)" "fw_inv w2" "t_fiber w2 = Some s"
      "fibers w2 = (fibers w1)(a := (fibers w1 a)\<lparr>m_state := x\<rparr>)" by blast
    then show ?thesis using home [of w2] w1(4) assms(4) by auto
  qed
  from MainFunc_spec [OF w1(2,5,3) assms(4) st(2), of returned fresh] obtain w2 where
    "MainFunc returned True fresh w1 = (Inr (), w2)" "fw_inv w2" "t_fiber w2 = Some s"
    "fibers w2 = (fibers w1)(a := ended returned (fibers w1 a))" by blast
  then show ?thesis
    using w1 yield home [of w2] fw_invD(2) [OF w1(2,3)] assms(4)
    by (auto simp: YieldToHold_def YieldToReady_def own_stack_def)
qed

theorem fiber_switch_roundtrip_witness:
  "\<exists>w1 w2. swapIn True 5 example_thread = (Inr (), w1) \<and> MainFunc True True 9 w1 = (Inr (), w2)
     \<and> t_fiber w2 = Some 3 \<and> m_state (fibers w2 5) = TERM_STATE"
proof -
  have "t_scheduler_fiber example_thread = Some 3" "t_fiber example_thread = Some 3"
    "m_state (fibers example_thread 5) = INIT" "m_entry (fibers example_thread 5) = Enter_MainFunc"
    "m_entry (fibers example_thread 3) = Thread_Stack" "fb_cb (fibers example_thread 5) = Some 8"
    by (simp_all add: example_thread_simps)
  with fiber_switch_roundtrip [OF fw_reach_fw_inv [OF example_thread_reach], of 3 5 9 True]
  show ?thesis by (fastforce simp: ended_def)
qed

text \<open>
  \<open>reset\<close> re-arms exactly the fibers that have a stack and are not in use (\<open>INIT\<close>, \<open>TERM\<close>,
  \<open>EXCEPT\<close>): they are in state \<open>INIT\<close> with the new callback and can be resumed; on every other
  fiber its assertion fails. A finished fiber that is resumed without a reset hits the
  \<open>never reach\<close> assertion.
\<close>

theorem fiber_reset_cases:
  assumes "fw_inv w" and "t_scheduler_fiber w = Some s" and "t_fiber w = Some s"
  shows "if m_stack (fibers w a) \<and> m_state (fibers w a) \<in> {INIT, TERM_STATE, EXCEPT}
    then \<exists>w1 w2. fiber_reset True a cb w = (Inr (), w1) \<and> m_state (fibers w1 a) = INIT \<and> fb_cb (fibers w1 a) = cb
           \<and> swapIn True a w1 = (Inr (), w2) \<and> t_fiber w2 = Some a \<and> cpu w2 = a
    else \<exists>msg. fiber_reset True a cb w = (Inl (Assert_Failed msg), w)"
proof (cases "m_stack (fibers w a) \<and> m_state (fibers w a) \<in> {INIT, TERM_STATE, EXCEPT}")
  case True
  let ?w1 = "upd_fiber a (\<lambda>x. x\<lparr>fb_cb := cb, m_ctx := a, m_entry := Enter_MainFunc, m_state := INIT\<rparr>) w"
  have run: "fiber_reset True a cb w = (Inr (), ?w1)"
    using True by (auto simp: fiber_reset_def and_then_def assert_def upd_fiber_def)
  have inv1: "fw_inv ?w1" using assms(1) True by (auto simp: fw_inv_def own_stack_def split: option.splits)
  from swapIn_spec [OF inv1, of s a] assms obtain w2 where
    "swapIn True a ?w1 = (Inr (), w2)" "fw_inv w2" "t_fiber w2 = Some a" "m_stack (fibers w2 a)"
    using True by auto
  then show ?thesis using True run fw_invD(2) [of w2 a] by (auto simp: own_stack_def)
next
  case False
  then show ?thesis by (auto simp: fiber_reset_def and_then_def assert_def Let_def)
qed

theorem fiber_reset_cases_witness:
  "\<exists>w1 w2. fiber_reset True 5 (Some 3) example_thread = (Inr (), w1) \<and> m_state (fibers w1 5) = INIT
     \<and> fb_cb (fibers w1 5) = Some 3 \<and> swapIn True 5 w1 = (Inr (), w2) \<and> t_fiber w2 = Some 5 \<and> cpu w2 = 5"
proof -
  have "t_scheduler_fiber example_thread = Some 3" "t_fiber example_thread = Some 3"
    "m_state (fibers example_thread 5) = INIT" "m_stack (fibers example_thread 5)"
    by (simp_all add: example_thread_simps)
  with fiber_reset_cases [OF fw_reach_fw_inv [OF example_thread_reach], of 3 5 "Some 3"] show ?thesis by auto
qed

end
