(* ===== verification/Scheduler.thy ===== *)
theory Scheduler
  imports Fiber "HOL-Library.Multiset"
begin

text \<open>
  The N:M scheduler (\<open>scheduler.h\<close>, \<open>scheduler.cc\<close>): the task queue, the counters of active and idle
  threads, start and stop, and the loop \<open>run\<close> that every worker executes. The loop is cut into the
  atomic actions between which other threads can act: taking a task under the lock, resuming it,
  the task giving the thread back, the decrement of the active counter, and the inspection of the
  fiber's state. Each action runs the fiber operations of theory \<open>Fiber\<close> on the shared heap with the
  acting thread's pointers. Thread ids are natural numbers; \<open>- 1\<close> in a task means any thread.
\<close>

section \<open>State\<close>

record 'cb ft =
  ft_fiber :: "nat option"
  ft_cb :: "'cb option"
  ft_thread :: int

datatype 'cb pc =
    Outside
  | Loop
  | Got "'cb ft" bool
  | In_Fiber nat
  | Out_Fiber nat
  | Post_Fiber nat
  | In_Cb nat
  | Out_Cb nat
  | Post_Cb nat
  | In_Idle
  | Out_Idle
  | Exited

record 'cb worker =
  l_pc :: "'cb pc"
  l_fiber :: "nat option"
  l_threadFiber :: "nat option"
  l_scheduler_fiber :: "nat option"
  l_cpu :: nat
  idle_fiber :: nat
  cb_fiber :: "nat option"

record 'cb sched =
  sc_fw :: "'cb fworld"
  m_fibers :: "'cb ft list"
  m_threadCount :: nat
  m_activeThreadCount :: nat
  m_idleThreadCount :: nat
  m_stopping :: bool
  m_autoStop :: bool
  m_rootThread :: int
  m_rootFiber :: "nat option"
  m_threads :: "nat list"
  m_threadIds :: "int list"
  workers :: "nat \<Rightarrow> 'cb worker"
  tickles :: nat

definition FiberAndThread :: "nat option \<Rightarrow> 'cb option \<Rightarrow> int \<Rightarrow> 'cb ft" where
  "FiberAndThread f cb thr = \<lparr>ft_fiber = f, ft_cb = cb, ft_thread = thr\<rparr>"

text \<open>The fiber operations seen by thread \<open>i\<close>: load its pointers, run, store them back.\<close>

definition world :: "nat \<Rightarrow> 'cb sched \<Rightarrow> 'cb fworld" where
  "world i s = (let l = workers s i in
     (sc_fw s)\<lparr>t_fiber := l_fiber l, t_threadFiber := l_threadFiber l,
              t_scheduler_fiber := l_scheduler_fiber l, cpu := l_cpu l\<rparr>)"

definition unworld :: "nat \<Rightarrow> 'cb fworld \<Rightarrow> 'cb sched \<Rightarrow> 'cb sched" where
  "unworld i w s = s\<lparr>sc_fw := w, workers := (workers s)(i := (workers s i)
     \<lparr>l_fiber := t_fiber w, l_threadFiber := t_threadFiber w, l_scheduler_fiber := t_scheduler_fiber w,
      l_cpu := cpu w\<rparr>)\<rparr>"

definition on_fibers :: "nat \<Rightarrow> ('cb fworld, 'a) sop \<Rightarrow> ('cb sched, 'a) sop" where
  "on_fibers i f s = (case f (world i s) of (r, w) \<Rightarrow> (r, unworld i w s))"

definition upd_worker :: "nat \<Rightarrow> ('cb worker \<Rightarrow> 'cb worker) \<Rightarrow> 'cb sched \<Rightarrow> 'cb sched" where
  "upd_worker i f s = s\<lparr>workers := (workers s)(i := f (workers s i))\<rparr>"

definition goto :: "nat \<Rightarrow> 'cb pc \<Rightarrow> 'cb sched \<Rightarrow> 'cb sched" where
  "goto i p = upd_worker i (\<lambda>l. l\<lparr>l_pc := p\<rparr>)"

definition state_of :: "'cb sched \<Rightarrow> nat \<Rightarrow> fiber_state" where
  "state_of s f = m_state (fibers (sc_fw s) f)"

definition set_state :: "nat \<Rightarrow> fiber_state \<Rightarrow> 'cb sched \<Rightarrow> 'cb sched" where
  "set_state f st s = s\<lparr>sc_fw := upd_fiber f (\<lambda>x. x\<lparr>m_state := st\<rparr>) (sc_fw s)\<rparr>"

section \<open>Scheduling tasks\<close>

definition sched_tickle :: "'cb sched \<Rightarrow> 'cb sched" where
  "sched_tickle s = s\<lparr>tickles := tickles s + 1\<rparr>"

definition scheduleNoLock :: "'cb ft \<Rightarrow> 'cb sched \<Rightarrow> bool \<times> 'cb sched" where
  "scheduleNoLock t s =
     (m_fibers s = [],
      if ft_fiber t \<noteq> None \<or> ft_cb t \<noteq> None then s\<lparr>m_fibers := m_fibers s @ [t]\<rparr> else s)"

definition schedule :: "'cb ft \<Rightarrow> 'cb sched \<Rightarrow> 'cb sched" where
  "schedule t s = (let (need_tickle, s) = scheduleNoLock t s in if need_tickle then sched_tickle s else s)"

fun schedule_loop :: "'cb ft list \<Rightarrow> bool \<Rightarrow> 'cb sched \<Rightarrow> bool \<times> 'cb sched" where
  "schedule_loop [] need_tickle s = (need_tickle, s)"
| "schedule_loop (t # ts) need_tickle s =
     (let (n, s) = scheduleNoLock t s in schedule_loop ts (n \<or> need_tickle) s)"

definition schedule_all :: "'cb ft list \<Rightarrow> 'cb sched \<Rightarrow> 'cb sched" where
  "schedule_all ts s = (let (need_tickle, s) = schedule_loop ts False s in if need_tickle then sched_tickle s else s)"

definition fiber_is :: "(nat \<Rightarrow> bool) \<Rightarrow> nat option \<Rightarrow> bool" where
  "fiber_is P f = (case f of None \<Rightarrow> False | Some a \<Rightarrow> P a)"

lemma fiber_is_simps [simp]: "fiber_is P None = False" "fiber_is P (Some a) = P a"
  by (simp_all add: fiber_is_def)

section \<open>Start and stop\<close>

text \<open>
  The constructor, called on thread \<open>i\<close>; \<open>has_sched\<close> says whether that thread already has a
  scheduler, \<open>a\<close> and \<open>r\<close> are the addresses of the fibers it may create. \<open>Sched_Run\<close> stands for the
  bound member function \<open>run\<close> in the callback of the root fiber.
\<close>

definition Scheduler :: "'cb \<Rightarrow> nat \<Rightarrow> nat \<Rightarrow> nat \<Rightarrow> bool \<Rightarrow> nat \<Rightarrow> bool \<Rightarrow> ('cb sched, unit) sop" where
  "Scheduler sched_run a r threads use_caller i has_sched =
     and_then (assert (threads > 0) ''threads > 0'') (\<lambda>_.
       if use_caller then
         and_then (on_fibers i (GetThis True a)) (\<lambda>_.
         and_then (assert (\<not> has_sched) ''GetThis() == nullptr'') (\<lambda>_.
         and_then (on_fibers i (Fiber_new True 131072 r (Some sched_run) 0 True)) (\<lambda>_ s.
           (Inr (), upd_worker i (\<lambda>l. l\<lparr>l_scheduler_fiber := Some r\<rparr>)
              (s\<lparr>m_rootFiber := Some r, m_rootThread := int i, m_threadIds := m_threadIds s @ [int i],
                 m_threadCount := threads - 1\<rparr>)))))
       else (\<lambda>s. (Inr (), s\<lparr>m_rootThread := - 1, m_threadCount := threads\<rparr>)))"

text \<open>\<open>new_ids\<close> are the ids of the threads it creates, \<open>m_threadCount\<close> of them.\<close>

definition start :: "nat list \<Rightarrow> ('cb sched, unit) sop" where
  "start new_ids s =
     (if \<not> m_stopping s then (Inr (), s)
      else let s = s\<lparr>m_stopping := False\<rparr> in
        if m_threads s \<noteq> [] then (Inl (Assert_Failed ''m_threads.empty()''), s)
        else (Inr (), s\<lparr>m_threads := take (m_threadCount s) new_ids,
                        m_threadIds := m_threadIds s @ map int (take (m_threadCount s) new_ids)\<rparr>))"

definition stopping :: "'cb sched \<Rightarrow> bool" where
  "stopping s = (m_autoStop s \<and> m_stopping s \<and> m_fibers s = [] \<and> m_activeThreadCount s = 0)"

text \<open>
  \<open>stop\<close> up to the call of the root fiber: whether it returns at once, or else whether the root
  fiber is called before the threads are joined; \<open>this\<close> says whether the calling thread belongs to
  this scheduler.
\<close>

definition stop_request :: "bool \<Rightarrow> ('cb sched, bool \<times> bool) sop" where
  "stop_request this s =
     (let s = s\<lparr>m_autoStop := True\<rparr>;
          idle_root = (m_threadCount s = 0
                       \<and> fiber_is (\<lambda>r. state_of s r = TERM_STATE \<or> state_of s r = INIT) (m_rootFiber s));
          s = (if idle_root then s\<lparr>m_stopping := True\<rparr> else s) in
      if idle_root \<and> stopping s then (Inr (True, False), s)
      else and_then (assert (if m_rootThread s \<noteq> - 1 then this else \<not> this) ''GetThis()'') (\<lambda>_ s.
        let s = s\<lparr>m_stopping := True,
                  tickles := tickles s + m_threadCount s + (if m_rootFiber s \<noteq> None then 1 else 0)\<rparr> in
        (Inr (False, m_rootFiber s \<noteq> None \<and> \<not> stopping s), s)) s)"

text \<open>The threads to be joined afterwards.\<close>

definition stop_join :: "'cb sched \<Rightarrow> nat list \<times> 'cb sched" where
  "stop_join s = (m_threads s, s\<lparr>m_threads := []\<rparr>)"

section \<open>The worker loop\<close>

text \<open>The scan of the queue under the lock: whether to wake another thread, the task taken, the rest.\<close>

fun pick :: "int \<Rightarrow> (nat \<Rightarrow> fiber_state) \<Rightarrow> 'cb ft list \<Rightarrow> fault + (bool \<times> 'cb ft option \<times> 'cb ft list)" where
  "pick tid st [] = Inr (False, None, [])"
| "pick tid st (it # q) =
     (if ft_thread it \<noteq> - 1 \<and> ft_thread it \<noteq> tid then
        bindE (pick tid st q) (\<lambda>(_, r, q'). Inr (True, r, it # q'))
      else if ft_fiber it = None \<and> ft_cb it = None then Inl (Assert_Failed ''it->fiber || it->cb'')
      else if fiber_is (\<lambda>f. st f = EXEC) (ft_fiber it) then
        bindE (pick tid st q) (\<lambda>(b, r, q'). Inr (b, r, it # q'))
      else Inr (q \<noteq> [], Some it, q))"

text \<open>Entering \<open>run\<close>: the pointers of the thread and its idle fiber.\<close>

definition run_enter :: "'cb \<Rightarrow> nat \<Rightarrow> nat \<Rightarrow> nat \<Rightarrow> ('cb sched, unit) sop" where
  "run_enter idle_cb a idle i =
     and_then (\<lambda>s. if int i \<noteq> m_rootThread s then
                 and_then (on_fibers i (GetThis True a)) (\<lambda>f s.
                   (Inr (), upd_worker i (\<lambda>l. l\<lparr>l_scheduler_fiber := Some f\<rparr>) s)) s
               else (Inr (), s)) (\<lambda>_.
     and_then (on_fibers i (Fiber_new True 131072 idle (Some idle_cb) 0 False)) (\<lambda>_ s.
       (Inr (), upd_worker i (\<lambda>l. l\<lparr>idle_fiber := idle, cb_fiber := None, l_pc := Loop\<rparr>) s)))"

definition run_pick :: "nat \<Rightarrow> ('cb sched, unit) sop" where
  "run_pick i s =
     (case pick (int i) (state_of s) (m_fibers s) of
        Inl e \<Rightarrow> (Inl e, s)
      | Inr (tickle_me, r, q) \<Rightarrow>
          let s1 = s\<lparr>m_fibers := q, m_activeThreadCount := m_activeThreadCount s + (if r = None then 0 else 1)\<rparr>;
              s2 = (if tickle_me then sched_tickle s1 else s1) in
          (Inr (), goto i (case r of None \<Rightarrow> Got (FiberAndThread None None (- 1)) False | Some t \<Rightarrow> Got t True) s2))"

text \<open>No task: leave the loop when the idle fiber has ended, run it otherwise.\<close>

definition begin_idle :: "nat \<Rightarrow> bool \<Rightarrow> ('cb sched, unit) sop" where
  "begin_idle i is_active s =
     (if is_active then (Inr (), goto i Loop (s\<lparr>m_activeThreadCount := m_activeThreadCount s - 1\<rparr>))
      else if state_of s (idle_fiber (workers s i)) = TERM_STATE then (Inr (), goto i Exited s)
      else and_then (on_fibers i (swapIn True (idle_fiber (workers s i)))) (\<lambda>_ s. (Inr (), goto i In_Idle s))
             (s\<lparr>m_idleThreadCount := m_idleThreadCount s + 1\<rparr>))"

text \<open>A callback runs in the worker's callback fiber, which is reused or created at address \<open>a\<close>.\<close>

definition begin_cb :: "nat \<Rightarrow> nat \<Rightarrow> 'cb option \<Rightarrow> ('cb sched, unit) sop" where
  "begin_cb a i cb s =
     and_then
       (case cb_fiber (workers s i) of
          Some c \<Rightarrow> and_then (on_fibers i (fiber_reset True c cb)) (\<lambda>_. ret c)
        | None \<Rightarrow> and_then (on_fibers i (Fiber_new True 131072 a cb 0 False)) (\<lambda>_ s.
            (Inr a, upd_worker i (\<lambda>l. l\<lparr>cb_fiber := Some a\<rparr>) s)))
       (\<lambda>c. and_then (on_fibers i (swapIn True c)) (\<lambda>_ s. (Inr (), goto i (In_Cb c) s))) s"

text \<open>From the choice of a task to the switch into it.\<close>

definition run_begin :: "nat \<Rightarrow> nat \<Rightarrow> ('cb sched, unit) sop" where
  "run_begin a i s =
     (case l_pc (workers s i) of
        Got t is_active \<Rightarrow>
          (if fiber_is (\<lambda>f. state_of s f \<noteq> TERM_STATE \<and> state_of s f \<noteq> EXCEPT) (ft_fiber t) then
             and_then (on_fibers i (swapIn True (the (ft_fiber t)))) (\<lambda>_ s.
               (Inr (), goto i (In_Fiber (the (ft_fiber t))) s)) s
           else if ft_cb t \<noteq> None then begin_cb a i (ft_cb t) s
           else begin_idle i is_active s)
      | _ \<Rightarrow> (Inl (Assert_Failed ''not at this point of run''), s))"

text \<open>How the fiber running on a worker gives the thread back.\<close>

datatype leave = Yield fiber_state | End bool

definition leave_fiber :: "leave \<Rightarrow> ('cb fworld, unit) sop" where
  "leave_fiber how = (case how of Yield st \<Rightarrow> yield_to st True 0 | End returned \<Rightarrow> MainFunc returned True 0)"

definition run_out :: "leave \<Rightarrow> nat \<Rightarrow> ('cb sched, unit) sop" where
  "run_out how i s =
     (let go = (\<lambda>p. and_then (on_fibers i (leave_fiber how)) (\<lambda>_ s. (Inr (), goto i p s)) s) in
      case l_pc (workers s i) of
        In_Fiber f \<Rightarrow> go (Out_Fiber f)
      | In_Cb c \<Rightarrow> go (Out_Cb c)
      | _ \<Rightarrow> (Inl (Assert_Failed ''not at this point of run''), s))"

text \<open>\<open>Scheduler::idle\<close>: yield until the scheduler may stop, then end.\<close>

definition idle_out :: "nat \<Rightarrow> ('cb sched, unit) sop" where
  "idle_out i s =
     (if l_pc (workers s i) = In_Idle then
        and_then (on_fibers i (leave_fiber (if \<not> stopping s then Yield HOLD else End True))) (\<lambda>_ s.
          (Inr (), goto i Out_Idle s)) s
      else (Inl (Assert_Failed ''not at this point of run''), s))"

text \<open>The decrement right after the switch returns.\<close>

definition run_dec :: "nat \<Rightarrow> ('cb sched, unit) sop" where
  "run_dec i s =
     (case l_pc (workers s i) of
        Out_Fiber f \<Rightarrow> (Inr (), goto i (Post_Fiber f) (s\<lparr>m_activeThreadCount := m_activeThreadCount s - 1\<rparr>))
      | Out_Cb c \<Rightarrow> (Inr (), goto i (Post_Cb c) (s\<lparr>m_activeThreadCount := m_activeThreadCount s - 1\<rparr>))
      | _ \<Rightarrow> (Inl (Assert_Failed ''not at this point of run''), s))"

text \<open>What becomes of the fiber, by its state.\<close>

definition run_post :: "nat \<Rightarrow> ('cb sched, unit) sop" where
  "run_post i s =
     (case l_pc (workers s i) of
        Post_Fiber f \<Rightarrow>
          (Inr (), goto i Loop
            (if state_of s f = READY then schedule (FiberAndThread (Some f) None (- 1)) s
             else if state_of s f \<noteq> TERM_STATE \<and> state_of s f \<noteq> EXCEPT then set_state f HOLD s
             else s))
      | Post_Cb c \<Rightarrow>
          if state_of s c = READY then
            (Inr (), goto i Loop (upd_worker i (\<lambda>l. l\<lparr>cb_fiber := None\<rparr>) (schedule (FiberAndThread (Some c) None (- 1)) s)))
          else if state_of s c = EXCEPT \<or> state_of s c = TERM_STATE then
            and_then (on_fibers i (fiber_reset True c None)) (\<lambda>_ s. (Inr (), goto i Loop s)) s
          else (Inr (), goto i Loop (upd_worker i (\<lambda>l. l\<lparr>cb_fiber := None\<rparr>) (set_state c HOLD s)))
      | Out_Idle \<Rightarrow>
          let s = s\<lparr>m_idleThreadCount := m_idleThreadCount s - 1\<rparr>; f = idle_fiber (workers s i) in
          (Inr (), goto i Loop (if state_of s f \<noteq> TERM_STATE \<and> state_of s f \<noteq> EXCEPT then set_state f HOLD s else s))
      | _ \<Rightarrow> (Inl (Assert_Failed ''not at this point of run''), s))"

text \<open>
  \<open>switchTo\<close> on thread \<open>i\<close>: whether the current fiber was queued for \<open>thread\<close> and held. \<open>cur\<close> is the
  scheduler of the thread: none, or some scheduler and whether it is this one.
\<close>

definition switchTo :: "int \<Rightarrow> nat \<Rightarrow> bool option \<Rightarrow> ('cb sched, bool) sop" where
  "switchTo thread i cur =
     and_then (assert (cur \<noteq> None) ''Scheduler::GetThis() != nullptr'') (\<lambda>_.
       if cur = Some True \<and> (thread = - 1 \<or> thread = int i) then ret False
       else and_then (on_fibers i (GetThis True 0)) (\<lambda>f s.
         and_then (on_fibers i (YieldToHold True 0)) (\<lambda>_. ret True)
           (schedule (FiberAndThread (Some f) None thread) s)))"

section \<open>The scan of the queue\<close>

definition ft_ok :: "'cb ft \<Rightarrow> bool" where
  "ft_ok t = (ft_fiber t \<noteq> None \<or> ft_cb t \<noteq> None)"

definition foreign :: "int \<Rightarrow> 'cb ft \<Rightarrow> bool" where
  "foreign tid t = (ft_thread t \<noteq> - 1 \<and> ft_thread t \<noteq> tid)"

definition eligible :: "int \<Rightarrow> (nat \<Rightarrow> fiber_state) \<Rightarrow> 'cb ft \<Rightarrow> bool" where
  "eligible tid st t = (\<not> foreign tid t \<and> \<not> fiber_is (\<lambda>f. st f = EXEC) (ft_fiber t))"

lemma pick_spec:
  assumes "\<forall>t\<in>set q. ft_ok t"
  shows "(\<forall>t\<in>set q. \<not> eligible tid st t) \<and> pick tid st q = Inr (\<exists>t\<in>set q. foreign tid t, None, q)
    \<or> (\<exists>pre t post. q = pre @ t # post \<and> (\<forall>x\<in>set pre. \<not> eligible tid st x) \<and> eligible tid st t
         \<and> pick tid st q = Inr (post \<noteq> [] \<or> (\<exists>x\<in>set pre. foreign tid x), Some t, pre @ post))"
  using assms
proof (induction q)
  case (Cons a q)
  have ok: "ft_ok a" "\<forall>t\<in>set q. ft_ok t" using Cons.prems by simp_all
  show ?case
  proof (cases "eligible tid st a")
    case True
    then have "pick tid st (a # q) = Inr (q \<noteq> [], Some a, q)"
      using ok(1) by (auto simp: eligible_def foreign_def ft_ok_def)
    with True show ?thesis by (intro disjI2 exI [of _ "[]"]) auto
  next
    case False
    have skip: "pick tid st (a # q) = bindE (pick tid st q) (\<lambda>(b, r, q'). Inr (foreign tid a \<or> b, r, a # q'))"
      using False ok(1) by (auto simp: eligible_def foreign_def ft_ok_def bindE_def split: sum.splits)
    from Cons.IH [OF ok(2)] show ?thesis
    proof
      assume "(\<forall>t\<in>set q. \<not> eligible tid st t) \<and> pick tid st q = Inr (\<exists>t\<in>set q. foreign tid t, None, q)"
      then show ?thesis using False skip by simp
    next
      assume "\<exists>pre t post. q = pre @ t # post \<and> (\<forall>x\<in>set pre. \<not> eligible tid st x) \<and> eligible tid st t
         \<and> pick tid st q = Inr (post \<noteq> [] \<or> (\<exists>x\<in>set pre. foreign tid x), Some t, pre @ post)"
      then obtain pre t post where p: "q = pre @ t # post" "\<forall>x\<in>set pre. \<not> eligible tid st x" "eligible tid st t"
        "pick tid st q = Inr (post \<noteq> [] \<or> (\<exists>x\<in>set pre. foreign tid x), Some t, pre @ post)" by blast
      show ?thesis
        by (rule disjI2, rule exI [of _ "a # pre"], rule exI [of _ t], rule exI [of _ post])
           (use p False skip in auto)
    qed
  qed
qed simp

section \<open>Frame facts\<close>

lemma unworld_simps [simp]:
  "m_fibers (unworld i w s) = m_fibers s" "m_activeThreadCount (unworld i w s) = m_activeThreadCount s"
  "m_idleThreadCount (unworld i w s) = m_idleThreadCount s" "l_pc (workers (unworld i w s) j) = l_pc (workers s j)"
  "m_stopping (unworld i w s) = m_stopping s" "m_autoStop (unworld i w s) = m_autoStop s"
  by (simp_all add: unworld_def)

lemma upd_worker_simps [simp]:
  "m_fibers (upd_worker i f s) = m_fibers s" "m_activeThreadCount (upd_worker i f s) = m_activeThreadCount s"
  "m_idleThreadCount (upd_worker i f s) = m_idleThreadCount s"
  "workers (upd_worker i f s) = (workers s)(i := f (workers s i))"
  "m_stopping (upd_worker i f s) = m_stopping s" "m_autoStop (upd_worker i f s) = m_autoStop s"
  by (simp_all add: upd_worker_def)

lemma goto_simps [simp]:
  "m_fibers (goto i p s) = m_fibers s" "m_activeThreadCount (goto i p s) = m_activeThreadCount s"
  "m_idleThreadCount (goto i p s) = m_idleThreadCount s"
  "l_pc (workers (goto i p s) j) = (if j = i then p else l_pc (workers s j))"
  "m_stopping (goto i p s) = m_stopping s" "m_autoStop (goto i p s) = m_autoStop s"
  by (simp_all add: goto_def)

lemma set_state_simps [simp]:
  "m_fibers (set_state f st s) = m_fibers s" "m_activeThreadCount (set_state f st s) = m_activeThreadCount s"
  "m_idleThreadCount (set_state f st s) = m_idleThreadCount s" "workers (set_state f st s) = workers s"
  by (simp_all add: set_state_def)

lemma schedule_simps [simp]:
  "m_activeThreadCount (schedule t s) = m_activeThreadCount s" "m_idleThreadCount (schedule t s) = m_idleThreadCount s"
  "workers (schedule t s) = workers s"
  "m_fibers (schedule t s) = m_fibers s @ (if ft_ok t then [t] else [])"
  by (simp_all add: schedule_def scheduleNoLock_def sched_tickle_def ft_ok_def)

lemma schedule_loop_simps:
  "m_activeThreadCount (snd (schedule_loop ts b s)) = m_activeThreadCount s
   \<and> m_idleThreadCount (snd (schedule_loop ts b s)) = m_idleThreadCount s
   \<and> workers (snd (schedule_loop ts b s)) = workers s
   \<and> m_fibers (snd (schedule_loop ts b s)) = m_fibers s @ filter ft_ok ts"
  by (induction ts b s rule: schedule_loop.induct) (simp_all add: scheduleNoLock_def ft_ok_def)

text \<open>The fields of the scheduler that a fiber operation of one worker leaves alone.\<close>

definition same_sched :: "'cb sched \<Rightarrow> 'cb sched \<Rightarrow> bool" where
  "same_sched s s' \<longleftrightarrow> m_fibers s' = m_fibers s \<and> m_activeThreadCount s' = m_activeThreadCount s
     \<and> m_idleThreadCount s' = m_idleThreadCount s \<and> (\<forall>j. l_pc (workers s' j) = l_pc (workers s j))"

lemma same_sched_refl [simp]: "same_sched s s"
  by (simp add: same_sched_def)

lemma same_sched_trans: "same_sched s t \<Longrightarrow> same_sched t u \<Longrightarrow> same_sched s u"
  by (simp add: same_sched_def)

lemma same_sched_worker: "(\<And>l. l_pc (f l) = l_pc l) \<Longrightarrow> same_sched s (upd_worker i f s)"
  by (simp add: same_sched_def)

lemma on_fibers_same: "on_fibers i f s = (r, s') \<Longrightarrow> same_sched s s'"
  by (auto simp: on_fibers_def same_sched_def split: prod.splits)

section \<open>Counting the workers\<close>

definition busy :: "'cb pc \<Rightarrow> bool" where
  "busy p = (case p of Got _ b \<Rightarrow> b | In_Fiber _ \<Rightarrow> True | Out_Fiber _ \<Rightarrow> True | In_Cb _ \<Rightarrow> True | Out_Cb _ \<Rightarrow> True
             | _ \<Rightarrow> False)"

definition idling :: "'cb pc \<Rightarrow> bool" where
  "idling p = (case p of In_Idle \<Rightarrow> True | Out_Idle \<Rightarrow> True | _ \<Rightarrow> False)"

definition workers_at :: "('cb pc \<Rightarrow> bool) \<Rightarrow> nat \<Rightarrow> 'cb sched \<Rightarrow> nat" where
  "workers_at P n s = (\<Sum>i<n. if P (l_pc (workers s i)) then 1 else 0)"

lemma count_same: "same_sched s s' \<Longrightarrow> workers_at P n s' = workers_at P n s"
  by (simp add: workers_at_def same_sched_def)

lemma count_cong: "(\<And>j. l_pc (workers s' j) = l_pc (workers s j)) \<Longrightarrow> workers_at P n s' = workers_at P n s"
  by (simp add: workers_at_def)

lemma count_goto:
  assumes "i < n"
  shows "workers_at P n (goto i p s) + (if P (l_pc (workers s i)) then 1 else 0) = workers_at P n s + (if P p then 1 else 0)"
  using assms by (simp add: workers_at_def sum.remove [of _ i])

text \<open>
  What every step keeps: the counters count, queued tasks are not empty, and a worker holds only
  tasks that may run on it.
\<close>

definition task_ok :: "nat \<Rightarrow> 'cb pc \<Rightarrow> bool" where
  "task_ok i p = (case p of Got t b \<Rightarrow> if b then \<not> foreign (int i) t else \<not> ft_ok t | _ \<Rightarrow> True)"

definition sc_inv :: "nat \<Rightarrow> 'cb sched \<Rightarrow> bool" where
  "sc_inv n s \<longleftrightarrow> m_activeThreadCount s = workers_at busy n s \<and> m_idleThreadCount s = workers_at idling n s
     \<and> (\<forall>t\<in>set (m_fibers s). ft_ok t)
     \<and> (\<forall>i. task_ok i (l_pc (workers s i)))"

lemma sc_inv_same: "sc_inv n s \<Longrightarrow> same_sched s s' \<Longrightarrow> sc_inv n s'"
  by (simp add: sc_inv_def same_sched_def workers_at_def)

lemma sc_inv_cong:
  assumes "sc_inv n s" and "workers s' = workers s" and "m_activeThreadCount s' = m_activeThreadCount s"
    and "m_idleThreadCount s' = m_idleThreadCount s" and "\<forall>t\<in>set (m_fibers s'). ft_ok t"
  shows "sc_inv n s'"
  using assms by (simp add: sc_inv_def workers_at_def)

text \<open>Moving a worker, with the counters adjusted by hand.\<close>

lemma sc_inv_goto:
  assumes "sc_inv n s" and "i < n" and "task_ok i p"
    and "m_activeThreadCount s' + (if busy (l_pc (workers s i)) then 1 else 0) = m_activeThreadCount s + (if busy p then 1 else 0)"
    and "m_idleThreadCount s' + (if idling (l_pc (workers s i)) then 1 else 0) = m_idleThreadCount s + (if idling p then 1 else 0)"
    and "\<forall>t\<in>set (m_fibers s'). ft_ok t" and "\<And>j. l_pc (workers s' j) = (if j = i then p else l_pc (workers s j))"
  shows "sc_inv n s'"
proof -
  have eq: "workers_at P n s' = workers_at P n (goto i p s)" for P by (rule count_cong) (simp add: assms(7))
  have "m_activeThreadCount s' = workers_at busy n s'" "m_idleThreadCount s' = workers_at idling n s'"
    using eq count_goto [OF assms(2), of busy p s] count_goto [OF assms(2), of idling p s] assms(1,4,5)
    by (auto simp: sc_inv_def split: if_splits)
  then show ?thesis using assms(1,3,6,7) by (auto simp: sc_inv_def)
qed

lemma count_pos: "i < n \<Longrightarrow> P (l_pc (workers s i)) \<Longrightarrow> 0 < workers_at P n s"
  unfolding workers_at_def by (rule sum_pos2 [of _ i]) auto

section \<open>Steps\<close>

definition sched_init :: "'cb sched" where
  "sched_init = \<lparr>sc_fw = fw_init, m_fibers = [], m_threadCount = 0, m_activeThreadCount = 0, m_idleThreadCount = 0,
     m_stopping = True, m_autoStop = False, m_rootThread = 0, m_rootFiber = None, m_threads = [], m_threadIds = [],
     workers = (\<lambda>_. \<lparr>l_pc = Outside, l_fiber = None, l_threadFiber = None, l_scheduler_fiber = None, l_cpu = 0,
                     idle_fiber = 0, cb_fiber = None\<rparr>),
     tickles = 0\<rparr>"

text \<open>
  \<open>n\<close> workers; any thread, a timer or an I/O event may schedule tasks at any time. A failed
  assertion ends the process, so only successful actions are steps.
\<close>

inductive sched_step :: "nat \<Rightarrow> 'cb sched \<Rightarrow> 'cb sched \<Rightarrow> bool" for n where
  s_new: "Scheduler c a r threads uc i h s = (Inr (), s') \<Longrightarrow> sched_step n s s'"
| s_schedule: "sched_step n s (schedule t s)"
| s_schedule_all: "sched_step n s (schedule_all ts s)"
| s_start: "start ids s = (Inr (), s') \<Longrightarrow> sched_step n s s'"
| s_stop: "stop_request this s = (Inr r, s') \<Longrightarrow> sched_step n s s'"
| s_join: "sched_step n s (snd (stop_join s))"
| s_enter: "i < n \<Longrightarrow> l_pc (workers s i) = Outside \<Longrightarrow> run_enter c a f i s = (Inr (), s') \<Longrightarrow> sched_step n s s'"
| s_pick: "i < n \<Longrightarrow> l_pc (workers s i) = Loop \<Longrightarrow> run_pick i s = (Inr (), s') \<Longrightarrow> sched_step n s s'"
| s_begin: "i < n \<Longrightarrow> run_begin a i s = (Inr (), s') \<Longrightarrow> sched_step n s s'"
| s_out: "i < n \<Longrightarrow> run_out how i s = (Inr (), s') \<Longrightarrow> sched_step n s s'"
| s_idle: "i < n \<Longrightarrow> idle_out i s = (Inr (), s') \<Longrightarrow> sched_step n s s'"
| s_dec: "i < n \<Longrightarrow> run_dec i s = (Inr (), s') \<Longrightarrow> sched_step n s s'"
| s_post: "i < n \<Longrightarrow> run_post i s = (Inr (), s') \<Longrightarrow> sched_step n s s'"

inductive sched_reach :: "nat \<Rightarrow> 'cb sched \<Rightarrow> bool" for n where
  reach_init: "sched_reach n sched_init"
| reach_step: "sched_reach n s \<Longrightarrow> sched_step n s s' \<Longrightarrow> sched_reach n s'"

lemma sched_init_inv [inv_intros]: "sc_inv n sched_init"
  by (simp add: sc_inv_def sched_init_def workers_at_def busy_def idling_def task_ok_def)

text \<open>Acting on fibers and then moving the worker.\<close>

lemma fibers_goto_inv:
  assumes "sc_inv n s" and "i < n" and "and_then (on_fibers i f) (\<lambda>_ s. (Inr (), goto i p s)) s = (Inr (), s')"
    and "busy p = busy (l_pc (workers s i))" and "idling p = idling (l_pc (workers s i))" and "task_ok i p"
  shows "sc_inv n s'"
proof -
  from assms(3) obtain v s1 where s1: "on_fibers i f s = (Inr v, s1)" "s' = goto i p s1"
    by (cases "on_fibers i f s") (auto simp: and_then_def split: sum.splits)
  note same = on_fibers_same [OF s1(1)]
  show ?thesis
    by (rule sc_inv_goto [OF sc_inv_same [OF assms(1) same] assms(2), of p])
       (use same assms(1,4-6) s1(2) in \<open>auto simp: same_sched_def sc_inv_def\<close>)
qed

lemma Scheduler_same:
  assumes "Scheduler c a r threads uc i h s = (Inr (), s')"
  shows "same_sched s s'"
proof (cases uc)
  case True
  from assms obtain v1 s1 v2 s2 where *: "on_fibers i (GetThis True a) s = (Inr v1, s1)"
      "on_fibers i (Fiber_new True 131072 r (Some c) 0 True) s1 = (Inr v2, s2)"
      "s' = upd_worker i (\<lambda>l. l\<lparr>l_scheduler_fiber := Some r\<rparr>)
              (s2\<lparr>m_rootFiber := Some r, m_rootThread := int i, m_threadIds := m_threadIds s2 @ [int i],
                 m_threadCount := threads - 1\<rparr>)"
    unfolding Scheduler_def if_P [OF True]
    by (elim and_then_InrE) (auto simp: assert_def split: if_splits)
  have "same_sched s2 s'" unfolding *(3) by (simp add: same_sched_def)
  then show ?thesis using on_fibers_same [OF *(1)] on_fibers_same [OF *(2)] same_sched_trans by blast
next
  case False
  then show ?thesis using assms by (auto simp: Scheduler_def and_then_def assert_def same_sched_def split: if_splits)
qed

lemma run_enter_inv:
  assumes "sc_inv n s" and "i < n" and "l_pc (workers s i) = Outside" and "run_enter c a f i s = (Inr (), s')"
  shows "sc_inv n s'"
proof -
  define pre where "pre = (\<lambda>s. if int i \<noteq> m_rootThread s then
                 and_then (on_fibers i (GetThis True a)) (\<lambda>f s.
                   (Inr (), upd_worker i (\<lambda>l. l\<lparr>l_scheduler_fiber := Some f\<rparr>) s)) s
               else ((Inr () :: fault + unit), s :: 'a sched))"
  from assms(4) obtain v s1 s2 w where s1: "pre s = (Inr v, s1)"
    and s2: "on_fibers i (Fiber_new True 131072 f (Some c) 0 False) s1 = (Inr w, s2)"
    and s': "s' = upd_worker i (\<lambda>l. l\<lparr>idle_fiber := f, cb_fiber := None, l_pc := Loop\<rparr>) s2"
    unfolding run_enter_def pre_def [symmetric] by (elim and_then_InrE) auto
  have "same_sched s s1"
  proof (cases "int i \<noteq> m_rootThread s")
    case True
    then obtain v2 s0 where "on_fibers i (GetThis True a) s = (Inr v2, s0)"
      "s1 = upd_worker i (\<lambda>l. l\<lparr>l_scheduler_fiber := Some v2\<rparr>) s0"
      using s1 unfolding pre_def by (auto elim: and_then_InrE)
    then show ?thesis using on_fibers_same same_sched_trans same_sched_worker
      by (metis (no_types, lifting) worker.select_convs(1) worker.update_convs(4) worker.surjective)
  qed (use s1 in \<open>simp add: pre_def\<close>)
  with on_fibers_same [OF s2] have same: "same_sched s s2" using same_sched_trans by blast
  show ?thesis
    by (rule sc_inv_goto [OF sc_inv_same [OF assms(1) same] assms(2), of Loop])
       (use same assms(1,3) s' in \<open>auto simp: same_sched_def sc_inv_def busy_def idling_def task_ok_def\<close>)
qed

lemma run_pick_inv:
  assumes "sc_inv n s" and "i < n" and "l_pc (workers s i) = Loop" and "run_pick i s = (Inr (), s')"
  shows "sc_inv n s'"
proof -
  have ok: "\<forall>t\<in>set (m_fibers s). ft_ok t" using assms(1) by (simp add: sc_inv_def)
  from pick_spec [OF ok, of "int i" "state_of s"] obtain b r q where
    p: "pick (int i) (state_of s) (m_fibers s) = Inr (b, r, q)" and q: "set q \<subseteq> set (m_fibers s)"
    and r: "\<And>t. r = Some t \<Longrightarrow> \<not> foreign (int i) t"
    by (elim disjE exE conjE) (auto simp: eligible_def)
  let ?s1 = "s\<lparr>m_fibers := q, m_activeThreadCount := m_activeThreadCount s + (if r = None then 0 else 1)\<rparr>"
  let ?p = "case r of None \<Rightarrow> Got (FiberAndThread None None (- 1)) False | Some t \<Rightarrow> Got t True"
  have s': "s' = goto i ?p (if b then sched_tickle ?s1 else ?s1)"
    using assms(4) p by (simp add: run_pick_def Let_def)
  show ?thesis
    by (rule sc_inv_goto [OF assms(1,2), of ?p])
       (use assms(3) s' q r ok in \<open>auto simp: busy_def idling_def task_ok_def sched_tickle_def FiberAndThread_def ft_ok_def split: option.splits\<close>)
qed

lemma begin_idle_inv:
  assumes "sc_inv n s" and "i < n" and "l_pc (workers s i) = Got t b" and "begin_idle i b s = (Inr (), s')"
  shows "sc_inv n s'"
proof (cases b)
  case True
  then have "0 < m_activeThreadCount s"
    using assms(1-3) count_pos [OF assms(2), of busy s] by (simp add: sc_inv_def busy_def)
  then show ?thesis
    by (intro sc_inv_goto [OF assms(1,2), of Loop])
       (use assms True in \<open>auto simp: begin_idle_def busy_def idling_def task_ok_def sc_inv_def\<close>)
next
  case False
  show ?thesis
  proof (cases "state_of s (idle_fiber (workers s i)) = TERM_STATE")
    case True
    show ?thesis
      by (rule sc_inv_goto [OF assms(1,2), of Exited])
         (use assms True False in \<open>auto simp: begin_idle_def busy_def idling_def task_ok_def sc_inv_def\<close>)
  next
    case st: False
    let ?s0 = "s\<lparr>m_idleThreadCount := m_idleThreadCount s + 1\<rparr>"
    obtain s1 where s1: "on_fibers i (swapIn True (idle_fiber (workers s i))) ?s0 = (Inr (), s1)" "s' = goto i In_Idle s1"
      using assms(4) False st by (auto simp: begin_idle_def elim: and_then_InrE)
    note same = on_fibers_same [OF s1(1)]
    show ?thesis
      by (rule sc_inv_goto [OF assms(1,2), of In_Idle])
         (use assms False s1(2) same in \<open>auto simp: same_sched_def busy_def idling_def task_ok_def sc_inv_def\<close>)
  qed
qed

lemma begin_cb_inv:
  assumes "sc_inv n s" and "i < n" and "busy (l_pc (workers s i))" and "begin_cb a i cb s = (Inr (), s')"
  shows "sc_inv n s'"
proof -
  from assms(4) obtain c s1 where 1: "(case cb_fiber (workers s i) of
          Some c \<Rightarrow> and_then (on_fibers i (fiber_reset True c cb)) (\<lambda>_. ret c)
        | None \<Rightarrow> and_then (on_fibers i (Fiber_new True 131072 a cb 0 False)) (\<lambda>_ s.
            (Inr a, upd_worker i (\<lambda>l. l\<lparr>cb_fiber := Some a\<rparr>) s))) s = (Inr c, s1)"
    and 2: "and_then (on_fibers i (swapIn True c)) (\<lambda>_ s. (Inr (), goto i (In_Cb c) s)) s1 = (Inr (), s')"
    unfolding begin_cb_def by (erule and_then_InrE)
  have same: "same_sched s s1"
  proof (cases "cb_fiber (workers s i)")
    case None
    with 1 obtain s0 where "on_fibers i (Fiber_new True 131072 a cb 0 False) s = (Inr (), s0)"
      "s1 = upd_worker i (\<lambda>l. l\<lparr>cb_fiber := Some a\<rparr>) s0" by (auto elim: and_then_InrE)
    then show ?thesis using on_fibers_same [of i _ s _ s0] same_sched_worker [of "\<lambda>l. l\<lparr>cb_fiber := Some a\<rparr>" s0 i]
      by (auto intro: same_sched_trans)
  next
    case (Some d)
    with 1 obtain s0 where "on_fibers i (fiber_reset True d cb) s = (Inr (), s0)" "s1 = s0"
      by (auto simp: ret_def elim: and_then_InrE)
    then show ?thesis using on_fibers_same by blast
  qed
  then have pc: "l_pc (workers s1 i) = l_pc (workers s i)" by (simp add: same_sched_def)
  have "\<not> idling (l_pc (workers s i))" using assms(3) by (auto simp: busy_def idling_def split: pc.splits)
  then show ?thesis
    by (intro fibers_goto_inv [OF sc_inv_same [OF assms(1) same] assms(2) 2]) (use assms(3) pc in \<open>auto simp: busy_def idling_def task_ok_def\<close>)
qed

lemma run_begin_inv:
  assumes "sc_inv n s" and "i < n" and "run_begin a i s = (Inr (), s')"
  shows "sc_inv n s'"
proof -
  obtain t b where pc: "l_pc (workers s i) = Got t b"
    using assms(3) by (auto simp: run_begin_def split: pc.splits)
  have empty: "ft_ok t \<Longrightarrow> b" using assms(1) pc by (auto simp: sc_inv_def task_ok_def split: if_splits dest!: spec [of _ i])
  consider "ft_ok t" "and_then (on_fibers i (swapIn True (the (ft_fiber t)))) (\<lambda>_ s.
             (Inr (), goto i (In_Fiber (the (ft_fiber t))) s)) s = (Inr (), s')"
    | "ft_ok t" "begin_cb a i (ft_cb t) s = (Inr (), s')" | "begin_idle i b s = (Inr (), s')"
    using assms(3) pc by (auto simp: run_begin_def ft_ok_def fiber_is_def split: if_splits option.splits)
  then show ?thesis
  proof cases
    case 1
    show ?thesis
      by (rule fibers_goto_inv [OF assms(1,2) 1(2)]) (use empty [OF 1(1)] pc in \<open>simp_all add: busy_def idling_def task_ok_def\<close>)
  next
    case 2
    show ?thesis by (rule begin_cb_inv [OF assms(1,2) _ 2(2)]) (use empty [OF 2(1)] pc in \<open>simp add: busy_def\<close>)
  qed (rule begin_idle_inv [OF assms(1,2) pc])
qed

lemma run_out_inv:
  assumes "sc_inv n s" and "i < n" and "run_out how i s = (Inr (), s') \<or> idle_out i s = (Inr (), s')"
  shows "sc_inv n s'"
proof -
  consider f where "l_pc (workers s i) = In_Fiber f" "and_then (on_fibers i (leave_fiber how)) (\<lambda>_ s. (Inr (), goto i (Out_Fiber f) s)) s = (Inr (), s')"
    | c where "l_pc (workers s i) = In_Cb c" "and_then (on_fibers i (leave_fiber how)) (\<lambda>_ s. (Inr (), goto i (Out_Cb c) s)) s = (Inr (), s')"
    | h where "l_pc (workers s i) = In_Idle" "and_then (on_fibers i (leave_fiber h)) (\<lambda>_ s. (Inr (), goto i Out_Idle s)) s = (Inr (), s')"
    using assms(3) by (auto simp: run_out_def idle_out_def Let_def split: pc.splits if_splits)
  then show ?thesis
    by cases (rule fibers_goto_inv [OF assms(1,2)], assumption, simp_all add: busy_def idling_def task_ok_def)+
qed

lemma run_dec_inv:
  assumes "sc_inv n s" and "i < n" and "run_dec i s = (Inr (), s')"
  shows "sc_inv n s'"
proof -
  obtain p where p: "s' = goto i p (s\<lparr>m_activeThreadCount := m_activeThreadCount s - 1\<rparr>)" "busy (l_pc (workers s i))"
    "\<not> busy p" "\<not> idling p" "\<not> idling (l_pc (workers s i))" "task_ok i p"
    using assms(3) by (auto simp: run_dec_def busy_def idling_def task_ok_def split: pc.splits)
  have "0 < m_activeThreadCount s" using assms(1) count_pos [OF assms(2), of busy s] p(2) by (simp add: sc_inv_def)
  then show ?thesis
    by (intro sc_inv_goto [OF assms(1,2) p(6)]) (use p assms(1) in \<open>auto simp: sc_inv_def\<close>)
qed

lemma run_post_inv:
  assumes "sc_inv n s" and "i < n" and "run_post i s = (Inr (), s')"
  shows "sc_inv n s'"
proof -
  have ok: "\<forall>t\<in>set (m_fibers s). ft_ok t" using assms(1) by (simp add: sc_inv_def)
  show ?thesis
  proof (cases "l_pc (workers s i)")
    case (Post_Fiber f)
    show ?thesis
      by (rule sc_inv_goto [OF assms(1,2), of Loop])
         (use assms(3) Post_Fiber ok in \<open>auto simp: run_post_def busy_def idling_def task_ok_def split: if_splits\<close>)
  next
    case (Post_Cb c)
    show ?thesis
    proof (cases "state_of s c \<noteq> READY \<and> (state_of s c = EXCEPT \<or> state_of s c = TERM_STATE)")
      case True
      then have "and_then (on_fibers i (fiber_reset True c None)) (\<lambda>_ s. (Inr (), goto i Loop s)) s = (Inr (), s')"
        using assms(3) Post_Cb by (auto simp: run_post_def)
      then show ?thesis
        by (rule fibers_goto_inv [OF assms(1,2)]) (simp_all add: Post_Cb busy_def idling_def task_ok_def)
    next
      case False
      show ?thesis
        by (rule sc_inv_goto [OF assms(1,2), of Loop])
           (use assms(3) Post_Cb ok False in \<open>auto simp: run_post_def busy_def idling_def task_ok_def split: if_splits\<close>)
    qed
  next
    case Out_Idle
    have "0 < m_idleThreadCount s"
      using assms(1) count_pos [OF assms(2), of idling s] Out_Idle by (simp add: sc_inv_def idling_def)
    then show ?thesis
      by (intro sc_inv_goto [OF assms(1,2), of Loop])
         (use assms(3) Out_Idle ok in \<open>auto simp: run_post_def busy_def idling_def task_ok_def Let_def split: if_splits\<close>)
  qed (use assms(3) in \<open>auto simp: run_post_def\<close>)
qed

lemma sched_step_inv:
  assumes "sched_step n s s'" and "sc_inv n s"
  shows "sc_inv n s'"
  using assms
proof (induction rule: sched_step.induct)
  case (s_new c a r threads uc i h s s')
  then show ?case by (rule sc_inv_same [OF _ Scheduler_same, rotated])
next
  case (s_schedule s t)
  then show ?case by (intro sc_inv_cong [OF s_schedule]) (auto simp: sc_inv_def)
next
  case (s_schedule_all s ts)
  then show ?case
    using schedule_loop_simps [of ts False s]
    by (intro sc_inv_cong [OF s_schedule_all])
       (auto simp: sc_inv_def schedule_all_def sched_tickle_def case_prod_unfold Let_def)
next
  case (s_start ids s s')
  then show ?case
    by (intro sc_inv_cong [OF s_start.prems]) (auto simp: start_def sc_inv_def Let_def split: if_splits)
next
  case (s_stop this s r s')
  then show ?case
    by (intro sc_inv_cong [OF s_stop.prems])
       (auto simp: stop_request_def sc_inv_def and_then_def assert_def Let_def split: if_splits)
next
  case (s_join s)
  then show ?case by (intro sc_inv_cong [OF s_join]) (auto simp: stop_join_def sc_inv_def)
next
  case (s_enter i s c a f s')
  show ?case by (rule run_enter_inv [OF s_enter.prems s_enter.hyps])
next
  case (s_pick i s s')
  show ?case by (rule run_pick_inv [OF s_pick.prems s_pick.hyps])
next
  case (s_begin i a s s')
  show ?case by (rule run_begin_inv [OF s_begin.prems s_begin.hyps])
next
  case (s_out i how s s')
  show ?case by (rule run_out_inv [OF s_out.prems s_out.hyps(1)]) (rule disjI1 [OF s_out.hyps(2)])
next
  case (s_idle i s s')
  show ?case by (rule run_out_inv [OF s_idle.prems s_idle.hyps(1)]) (rule disjI2 [OF s_idle.hyps(2)])
next
  case (s_dec i s s')
  show ?case by (rule run_dec_inv [OF s_dec.prems s_dec.hyps])
next
  case (s_post i s s')
  show ?case by (rule run_post_inv [OF s_post.prems s_post.hyps])
qed

lemma sched_reach_inv: "sched_reach n s \<Longrightarrow> sc_inv n s"
  by (induction rule: sched_reach.induct) (auto intro: inv_intros sched_step_inv)

section \<open>Properties\<close>

text \<open>
  Taking a task. On a queue of non-empty tasks the scan takes the first task that may run on
  this thread and whose fiber is not executing, removes exactly that one and keeps the order of
  the others; it asks for another thread to be woken when it passed a task of another thread or
  left tasks behind. Without such a task the queue is unchanged.
\<close>

theorem pick_first_eligible:
  assumes "list_all ft_ok q"
  shows "case List.find (eligible tid st) q of
      None \<Rightarrow> pick tid st q = Inr (list_ex (foreign tid) q, None, q)
    | Some t \<Rightarrow> \<exists>pre post. q = pre @ t # post \<and> list_all (\<lambda>x. \<not> eligible tid st x) pre
         \<and> pick tid st q = Inr (post \<noteq> [] \<or> list_ex (foreign tid) pre, Some t, pre @ post)"
proof -
  have ok: "\<forall>t\<in>set q. ft_ok t" using assms by (simp add: list_all_iff)
  from pick_spec [OF ok, of tid st] show ?thesis
  proof (elim disjE exE conjE)
    assume "\<forall>t\<in>set q. \<not> eligible tid st t" "pick tid st q = Inr (\<exists>t\<in>set q. foreign tid t, None, q)"
    moreover from this have "List.find (eligible tid st) q = None" by (simp add: find_None_iff)
    ultimately show ?thesis by (simp add: list_ex_iff)
  next
    fix pre t post
    assume q: "q = pre @ t # post" "\<forall>x\<in>set pre. \<not> eligible tid st x" "eligible tid st t"
      "pick tid st q = Inr (post \<noteq> [] \<or> (\<exists>x\<in>set pre. foreign tid x), Some t, pre @ post)"
    have "List.find (eligible tid st) (pre @ t # post) = Some t" using q(2,3) by (induction pre) auto
    then show ?thesis using q by (auto simp: list_all_iff list_ex_iff)
  qed
qed

theorem pick_first_eligible_witness:
  "pick 2 (\<lambda>_. HOLD) [FiberAndThread (Some 7) None 1, FiberAndThread None (Some (0 :: nat)) (- 1)]
   = Inr (True, Some (FiberAndThread None (Some 0) (- 1)), [FiberAndThread (Some 7) None 1])"
  using pick_first_eligible [of "[FiberAndThread (Some 7) None 1, FiberAndThread None (Some (0 :: nat)) (- 1)]" 2 "\<lambda>_. HOLD"]
  by (auto simp: FiberAndThread_def ft_ok_def eligible_def foreign_def append_eq_Cons_conv)

text \<open>
  C12: in every reachable state of \<open>n\<close> workers the active counter is the number of workers that hold
  or run a task and the idle counter the number of workers in their idle fiber, however the
  workers interleave.
\<close>

theorem sched_counters_exact:
  assumes "sched_reach n s"
  shows "m_activeThreadCount s = workers_at busy n s \<and> m_idleThreadCount s = workers_at idling n s"
  using sched_reach_inv [OF assms] by (simp add: sc_inv_def)

text \<open>
  Stopping is safe: when \<open>stopping()\<close> holds in a reachable state, no task is queued and no worker
  holds or runs one.
\<close>

theorem sched_stopping_safe:
  assumes "sched_reach n s" and "stopping s" and "i < n"
  shows "m_fibers s = [] \<and> \<not> busy (l_pc (workers s i))"
  using assms count_pos [OF assms(3), of busy s] sched_reach_inv [OF assms(1)]
  by (auto simp: stopping_def sc_inv_def)

text \<open>
  Thread affinity: in every reachable state a worker that took a task took one that is meant for
  any thread or for it.
\<close>

theorem sched_affinity:
  assumes "sched_reach n s" and "l_pc (workers s i) = Got t True"
  shows "ft_thread t = - 1 \<or> ft_thread t = int i"
proof -
  have "task_ok i (l_pc (workers s i))" using sched_reach_inv [OF assms(1)] by (simp add: sc_inv_def)
  then show ?thesis using assms(2) by (simp add: task_ok_def foreign_def)
qed

text \<open>An execution: two workers, a callback that yields on worker 0 and is resumed on worker 1.\<close>

lemmas run_defs = run_enter_def run_pick_def run_begin_def run_out_def run_dec_def run_post_def begin_cb_def
  begin_idle_def on_fibers_def world_def unworld_def upd_worker_def goto_def state_of_def set_state_def schedule_def
  scheduleNoLock_def sched_tickle_def leave_fiber_def yield_to_def swapIn_def swapOut_def swapcontext_def GetThis_def
  Fiber_main_def Fiber_new_def fiber_reset_def SetThis_def and_then_def assert_def ret_def FiberAndThread_def
  fiber_is_def upd_fiber_def bindE_def

definition race_enter :: "nat sched" where
  "race_enter = snd (run_enter 50 5 6 0 (snd (Scheduler 0 0 0 2 False 9 False sched_init)))"

definition race_start :: "nat sched" where
  "race_start = schedule (FiberAndThread None (Some 77) (- 1)) (snd (run_enter 50 11 12 1 race_enter))"

definition race_taken :: "nat sched" where
  "race_taken = snd (run_pick 0 race_start)"

definition race_running :: "nat sched" where
  "race_running = snd (run_begin 20 0 race_taken)"

definition race_held :: "nat sched" where
  "race_held = schedule (FiberAndThread (Some 20) None (- 1)) (snd (run_out (Yield HOLD) 0 race_running))"

definition race_retaken :: "nat sched" where
  "race_retaken = snd (run_pick 1 race_held)"

definition race_resumed :: "nat sched" where
  "race_resumed = snd (run_begin 21 1 race_retaken)"

definition race_end :: "nat sched" where
  "race_end = snd (run_post 0 (snd (run_dec 0 race_resumed)))"

lemmas race_defs = race_enter_def race_start_def race_taken_def race_running_def race_held_def race_retaken_def
  race_resumed_def race_end_def sched_init_def fw_init_def Scheduler_def

lemma ok_step: "fst x = Inr v \<Longrightarrow> x = (Inr v, snd x)"
  by (metis prod.collapse)

lemma race_taken_reach: "sched_reach 2 race_taken"
proof -
  have "sched_reach 2 (snd (Scheduler 0 0 0 2 False 9 False (sched_init :: nat sched)))"
    by (rule reach_step [OF reach_init s_new [OF ok_step]]) (simp add: Scheduler_def and_then_def assert_def)
  then have "sched_reach 2 race_enter"
    by (rule reach_step, unfold race_enter_def, intro s_enter [OF _ _ ok_step]) (simp_all add: run_defs race_defs)
  then have "sched_reach 2 (snd (run_enter 50 11 12 1 race_enter))"
    by (rule reach_step, intro s_enter [OF _ _ ok_step]) (simp_all add: run_defs race_defs)
  then have "sched_reach 2 race_start" unfolding race_start_def by (rule reach_step [OF _ s_schedule])
  then show ?thesis
    by (rule reach_step, unfold race_taken_def, intro s_pick [OF _ _ ok_step]) (simp_all add: run_defs race_defs)
qed

lemma race_resumed_reach: "sched_reach 2 race_resumed"
proof -
  have "sched_reach 2 race_running"
    by (rule reach_step [OF race_taken_reach], unfold race_running_def, intro s_begin [OF _ ok_step])
       (simp_all add: run_defs race_defs)
  then have "sched_reach 2 (snd (run_out (Yield HOLD) 0 race_running))"
    by (rule reach_step, intro s_out [OF _ ok_step]) (simp_all add: run_defs race_defs)
  then have "sched_reach 2 race_held" unfolding race_held_def by (rule reach_step [OF _ s_schedule])
  then have "sched_reach 2 race_retaken"
    by (rule reach_step, unfold race_retaken_def, intro s_pick [OF _ _ ok_step]) (simp_all add: run_defs race_defs)
  then show ?thesis
    by (rule reach_step, unfold race_resumed_def, intro s_begin [OF _ ok_step]) (simp_all add: run_defs race_defs)
qed

lemma race_end_reach: "sched_reach 2 race_end"
proof -
  have "sched_reach 2 (snd (run_dec 0 race_resumed))"
    by (rule reach_step [OF race_resumed_reach], intro s_dec [OF _ ok_step]) (simp_all add: run_defs race_defs)
  then show ?thesis
    by (rule reach_step, unfold race_end_def, intro s_post [OF _ ok_step]) (simp_all add: run_defs race_defs)
qed

text \<open>
  C11: the loop does not keep a running fiber in state \<open>EXEC\<close>: a worker that inspects the state of a
  fiber it ran after the fiber was resumed elsewhere marks it \<open>HOLD\<close>. Such a state is reachable
  with two workers (a callback yields on one, an event resumes it on the other), and there the
  next \<open>YieldToHold\<close> or \<open>YieldToReady\<close> of the fiber fails its assertion and aborts the process.
\<close>

theorem sched_running_marked_hold:
  "\<exists>(s :: nat sched) f. sched_reach 2 s \<and> l_pc (workers s 1) = In_Fiber f \<and> l_fiber (workers s 1) = Some f \<and> state_of s f = HOLD
     \<and> fst (run_out (Yield HOLD) 1 s) = Inl (Assert_Failed ''cur->m_state == EXEC'')
     \<and> fst (run_out (Yield READY) 1 s) = Inl (Assert_Failed ''cur->m_state == EXEC'')"
proof (rule exI [of _ race_end], rule exI [of _ 20], intro conjI)
  show "sched_reach 2 race_end" by (rule race_end_reach)
qed (simp_all add: run_defs race_defs)

theorem sched_counters_exact_witness: "m_activeThreadCount race_taken = workers_at busy 2 race_taken"
  using sched_counters_exact [OF race_taken_reach] by simp

theorem sched_affinity_witness:
  "l_pc (workers race_taken 0) = Got (FiberAndThread None (Some 77) (- 1)) True
   \<and> (ft_thread (FiberAndThread None (Some (77 :: nat)) (- 1)) = - 1 \<or> ft_thread (FiberAndThread None (Some (77 :: nat)) (- 1)) = int 0)"
proof -
  have "l_pc (workers race_taken 0) = Got (FiberAndThread None (Some 77) (- 1)) True" by (simp add: run_defs race_defs)
  with sched_affinity [OF race_taken_reach this] show ?thesis by blast
qed

definition stopped_state :: "nat sched" where
  "stopped_state = snd (stop_request False (snd (Scheduler 0 0 0 1 False 9 False sched_init)))"

theorem sched_stopping_safe_witness:
  "stopping stopped_state \<and> m_fibers stopped_state = [] \<and> \<not> busy (l_pc (workers stopped_state 0))"
proof -
  have "sched_reach 1 (snd (Scheduler 0 0 0 1 False 9 False (sched_init :: nat sched)))"
    by (rule reach_step [OF reach_init s_new [OF ok_step]]) (simp add: Scheduler_def and_then_def assert_def)
  then have "sched_reach 1 stopped_state"
    unfolding stopped_state_def
    by (rule reach_step, intro s_stop [OF ok_step])
       (simp add: stop_request_def Scheduler_def and_then_def assert_def sched_init_def fiber_is_def Let_def)
  moreover have "stopping stopped_state"
    by (simp add: stopped_state_def stop_request_def Scheduler_def and_then_def assert_def sched_init_def fiber_is_def
        Let_def stopping_def)
  ultimately show ?thesis using sched_stopping_safe [of 1 stopped_state 0] by simp
qed

end
