(* ===== verification/Ordered_Container.thy ===== *)
theory Ordered_Container
  imports Web_Prelude
begin

text \<open>
  \<open>std::set\<close> and \<open>std::map\<close> as the sequence of their elements in iteration order. The operations
  take the comparator \<open>lt\<close> and the key of an element, so that one library serves the timer set
  (elements are their own keys, ordered by deadline and address) and the header maps (pairs,
  ordered by name without regard to case). The locale \<open>strict_weak\<close> holds what the containers
  require of a comparator; its lemmas say what the operations do to a container in order.
\<close>

section \<open>Operations\<close>

definition oc_before :: "('k \<Rightarrow> 'k \<Rightarrow> bool) \<Rightarrow> ('e \<Rightarrow> 'k) \<Rightarrow> 'k \<Rightarrow> 'e list \<Rightarrow> 'e list" where
  "oc_before lt key k xs = takeWhile (\<lambda>x. lt (key x) k) xs"

definition oc_lower_bound :: "('k \<Rightarrow> 'k \<Rightarrow> bool) \<Rightarrow> ('e \<Rightarrow> 'k) \<Rightarrow> 'k \<Rightarrow> 'e list \<Rightarrow> 'e list" where
  "oc_lower_bound lt key k xs = dropWhile (\<lambda>x. lt (key x) k) xs"

definition oc_find :: "('k \<Rightarrow> 'k \<Rightarrow> bool) \<Rightarrow> ('e \<Rightarrow> 'k) \<Rightarrow> 'k \<Rightarrow> 'e list \<Rightarrow> 'e option" where
  "oc_find lt key k xs =
     (case oc_lower_bound lt key k xs of [] \<Rightarrow> None
      | x # _ \<Rightarrow> if lt k (key x) then None else Some x)"

definition oc_insert :: "('k \<Rightarrow> 'k \<Rightarrow> bool) \<Rightarrow> ('e \<Rightarrow> 'k) \<Rightarrow> 'e \<Rightarrow> 'e list \<Rightarrow> 'e list" where
  "oc_insert lt key x xs =
     (if oc_find lt key (key x) xs \<noteq> None then xs
      else oc_before lt key (key x) xs @ x # oc_lower_bound lt key (key x) xs)"

text \<open>\<open>erase(key)\<close>, which is also \<open>erase(find(key))\<close> when the key is present.\<close>

definition oc_erase :: "('k \<Rightarrow> 'k \<Rightarrow> bool) \<Rightarrow> ('e \<Rightarrow> 'k) \<Rightarrow> 'k \<Rightarrow> 'e list \<Rightarrow> 'e list" where
  "oc_erase lt key k xs =
     (if oc_find lt key k xs = None then xs
      else oc_before lt key k xs @ tl (oc_lower_bound lt key k xs))"

text \<open>\<open>m[k] = v\<close> of a \<open>std::map\<close>: the key already in the container is kept.\<close>

definition oc_assign :: "('k \<Rightarrow> 'k \<Rightarrow> bool) \<Rightarrow> 'k \<Rightarrow> 'v \<Rightarrow> ('k \<times> 'v) list \<Rightarrow> ('k \<times> 'v) list" where
  "oc_assign lt k v m =
     (case oc_find lt fst k m of
        None \<Rightarrow> oc_insert lt fst (k, v) m
      | Some (k', _) \<Rightarrow> oc_before lt fst k m @ (k', v) # tl (oc_lower_bound lt fst k m))"

definition oc_sorted :: "('k \<Rightarrow> 'k \<Rightarrow> bool) \<Rightarrow> ('e \<Rightarrow> 'k) \<Rightarrow> 'e list \<Rightarrow> bool" where
  "oc_sorted lt key xs = sorted_wrt (\<lambda>x y. lt (key x) (key y)) xs"

lemma oc_split: "oc_before lt key k xs @ oc_lower_bound lt key k xs = xs"
  by (simp add: oc_before_def oc_lower_bound_def)

lemma oc_before_less: "x \<in> set (oc_before lt key k xs) \<Longrightarrow> lt (key x) k"
  unfolding oc_before_def by (rule set_takeWhileD [THEN conjunct2])

lemma oc_sorted_append:
  "oc_sorted lt key (xs @ ys) \<longleftrightarrow>
     oc_sorted lt key xs \<and> oc_sorted lt key ys \<and> (\<forall>x\<in>set xs. \<forall>y\<in>set ys. lt (key x) (key y))"
  by (simp add: oc_sorted_def sorted_wrt_append)

lemma oc_sorted_Cons:
  "oc_sorted lt key (x # ys) \<longleftrightarrow> (\<forall>y\<in>set ys. lt (key x) (key y)) \<and> oc_sorted lt key ys"
  by (simp add: oc_sorted_def)

lemma oc_sorted_Nil [simp]: "oc_sorted lt key []"
  by (simp add: oc_sorted_def)

section \<open>What a comparator owes the container\<close>

locale strict_weak =
  fixes lt :: "'k \<Rightarrow> 'k \<Rightarrow> bool"
  assumes irrefl: "\<not> lt x x"
    and trans: "lt x y \<Longrightarrow> lt y z \<Longrightarrow> lt x z"
    and neg_trans: "\<not> lt x y \<Longrightarrow> \<not> lt y z \<Longrightarrow> \<not> lt x z"
begin

lemma asym: "lt x y \<Longrightarrow> \<not> lt y x"
  using irrefl trans by blast

lemma less_equiv: "lt x y \<Longrightarrow> \<not> lt y z \<Longrightarrow> \<not> lt z y \<Longrightarrow> lt x z"
  using neg_trans by blast

lemma equiv_less: "\<not> lt x y \<Longrightarrow> \<not> lt y x \<Longrightarrow> lt y z \<Longrightarrow> lt x z"
  using neg_trans by blast

lemma lower_bound_ge:
  assumes "oc_sorted lt key xs" and "x \<in> set (oc_lower_bound lt key k xs)"
  shows "\<not> lt (key x) k"
proof -
  obtain h t where ht: "oc_lower_bound lt key k xs = h # t" using assms(2) by (cases "oc_lower_bound lt key k xs") auto
  then have h: "\<not> lt (key h) k" by (metis oc_lower_bound_def dropWhile_eq_Cons_conv)
  have "oc_sorted lt key (h # t)"
    using assms(1) oc_split [of lt key k xs] ht by (metis oc_sorted_append)
  then show ?thesis using assms(2) ht h trans by (auto simp: oc_sorted_Cons)
qed

lemma find_Some_iff:
  assumes "oc_sorted lt key xs"
  shows "oc_find lt key k xs = Some x \<longleftrightarrow> x \<in> set xs \<and> \<not> lt (key x) k \<and> \<not> lt k (key x)"
proof
  assume f: "oc_find lt key k xs = Some x"
  then obtain t where t: "oc_lower_bound lt key k xs = x # t" "\<not> lt k (key x)"
    by (auto simp: oc_find_def split: list.splits if_splits)
  then have "x \<in> set xs" using oc_split [of lt key k xs] by (metis in_set_conv_decomp)
  with t lower_bound_ge [OF assms, of x k] show "x \<in> set xs \<and> \<not> lt (key x) k \<and> \<not> lt k (key x)" by simp
next
  assume x: "x \<in> set xs \<and> \<not> lt (key x) k \<and> \<not> lt k (key x)"
  have "x \<in> set (oc_lower_bound lt key k xs)"
    using x oc_split [of lt key k xs] oc_before_less [of x lt key k xs] by (metis Un_iff set_append)
  then obtain h t where ht: "oc_lower_bound lt key k xs = h # t"
    by (cases "oc_lower_bound lt key k xs") auto
  have st: "oc_sorted lt key (h # t)" using assms oc_split [of lt key k xs] ht by (metis oc_sorted_append)
  have "h = x"
  proof (rule ccontr)
    assume "h \<noteq> x"
    then have "lt (key h) (key x)" using st ht \<open>x \<in> set (oc_lower_bound lt key k xs)\<close> by (auto simp: oc_sorted_Cons)
    then have "lt (key h) k" using x less_equiv by blast
    moreover have "\<not> lt (key h) k" using lower_bound_ge [OF assms, of h k] ht by simp
    ultimately show False by contradiction
  qed
  with ht x show "oc_find lt key k xs = Some x" by (simp add: oc_find_def)
qed

lemma find_None_iff:
  assumes "oc_sorted lt key xs"
  shows "oc_find lt key k xs = None \<longleftrightarrow> (\<forall>x\<in>set xs. lt (key x) k \<or> lt k (key x))"
  using find_Some_iff [OF assms, of k] by (metis not_Some_eq)

lemma lower_bound_greater:
  assumes "oc_sorted lt key xs" and "oc_find lt key k xs = None" and "x \<in> set (oc_lower_bound lt key k xs)"
  shows "lt k (key x)"
proof -
  have "x \<in> set xs" using assms(3) oc_split [of lt key k xs] by (metis Un_iff set_append)
  then show ?thesis using assms lower_bound_ge [OF assms(1,3)] find_None_iff [OF assms(1), of k] by blast
qed

lemma sorted_insert:
  assumes "oc_sorted lt key xs"
  shows "oc_sorted lt key (oc_insert lt key x xs)"
proof (cases "oc_find lt key (key x) xs")
  case None
  have "oc_sorted lt key (oc_before lt key (key x) xs @ oc_lower_bound lt key (key x) xs)"
    using assms by (simp add: oc_split)
  with None show ?thesis
    using lower_bound_greater [OF assms None] oc_before_less [of _ lt key "key x" xs]
    by (auto simp: oc_insert_def oc_sorted_append oc_sorted_Cons)
qed (simp add: oc_insert_def assms)

lemma set_insert:
  assumes "oc_find lt key (key x) xs = None"
  shows "set (oc_insert lt key x xs) = insert x (set xs)"
proof -
  have "set xs = set (oc_before lt key (key x) xs) \<union> set (oc_lower_bound lt key (key x) xs)"
    by (metis oc_split set_append)
  then show ?thesis using assms by (simp add: oc_insert_def)
qed

lemma sorted_erase:
  assumes "oc_sorted lt key xs"
  shows "oc_sorted lt key (oc_erase lt key k xs)"
proof -
  have *: "oc_sorted lt key (oc_before lt key k xs @ oc_lower_bound lt key k xs)"
    using assms by (simp add: oc_split)
  then show ?thesis
    using assms by (cases "oc_lower_bound lt key k xs") (auto simp: oc_erase_def oc_sorted_append oc_sorted_Cons)
qed

lemma set_erase:
  assumes "oc_sorted lt key xs"
  shows "set (oc_erase lt key k xs) = {x \<in> set xs. lt (key x) k \<or> lt k (key x)}"
proof (cases "oc_find lt key k xs")
  case None
  then show ?thesis using find_None_iff [OF assms] by (auto simp: oc_erase_def)
next
  case (Some y)
  then obtain t where t: "oc_lower_bound lt key k xs = y # t"
    by (auto simp: oc_find_def split: list.splits if_splits)
  have s: "oc_sorted lt key (oc_before lt key k xs @ y # t)" using assms t oc_split by metis
  have eq: "set xs = set (oc_before lt key k xs) \<union> insert y (set t)"
    using t by (metis oc_split set_append list.simps(15))
  have y: "\<not> lt (key y) k" "\<not> lt k (key y)" using Some find_Some_iff [OF assms] by auto
  have "lt k (key z)" if "z \<in> set t" for z
    using that s y equiv_less [of k "key y" "key z"] by (auto simp: oc_sorted_append oc_sorted_Cons)
  then show ?thesis
    using Some t eq y oc_before_less [of _ lt key k xs] by (auto simp: oc_erase_def)
qed

text \<open>Reading back what was stored, and nothing else changed.\<close>

lemma assign_set:
  assumes "oc_sorted lt fst m" and "oc_find lt fst k m = Some (k', w)"
  shows "oc_assign lt k v m = oc_before lt fst k m @ (k', v) # tl (oc_lower_bound lt fst k m)"
    and "m = oc_before lt fst k m @ (k', w) # tl (oc_lower_bound lt fst k m)"
  using assms(2) oc_split [of lt fst k m]
  by (auto simp: oc_assign_def oc_find_def split: list.splits if_splits)

lemma sorted_assign:
  assumes "oc_sorted lt fst m"
  shows "oc_sorted lt fst (oc_assign lt k v m)"
proof (cases "oc_find lt fst k m")
  case None
  then show ?thesis using sorted_insert [OF assms] by (simp add: oc_assign_def)
next
  case (Some e)
  obtain k' w where e: "e = (k', w)" by (cases e)
  have "oc_sorted lt fst (oc_before lt fst k m @ (k', w) # tl (oc_lower_bound lt fst k m))"
    using assms assign_set(2) [OF assms] Some e by metis
  then show ?thesis
    using assign_set(1) [OF assms] Some e by (simp add: oc_sorted_append oc_sorted_Cons)
qed

lemma find_assign_same:
  assumes "oc_sorted lt fst m"
  shows "\<exists>k'. oc_find lt fst k (oc_assign lt k v m) = Some (k', v) \<and> \<not> lt k k' \<and> \<not> lt k' k"
proof (cases "oc_find lt fst k m")
  case None
  then have "(k, v) \<in> set (oc_assign lt k v m)"
    by (simp add: oc_assign_def oc_insert_def)
  then show ?thesis
    using find_Some_iff [OF sorted_assign [OF assms], of k k v "(k, v)"] irrefl by auto
next
  case (Some e)
  obtain k' w where e: "e = (k', w)" by (cases e)
  then have "\<not> lt k k'" "\<not> lt k' k" using Some find_Some_iff [OF assms] by auto
  moreover have "(k', v) \<in> set (oc_assign lt k v m)"
    using assign_set(1) [OF assms] Some e by simp
  ultimately show ?thesis
    using find_Some_iff [OF sorted_assign [OF assms], of k k v "(k', v)"] by auto
qed

lemma find_assign_other:
  assumes "oc_sorted lt fst m" and "lt k j \<or> lt j k"
  shows "oc_find lt fst j (oc_assign lt k v m) = oc_find lt fst j m"
proof -
  have "x \<in> set (oc_assign lt k v m) \<longleftrightarrow> x \<in> set m"
    if eqv: "\<not> lt (fst x) j" "\<not> lt j (fst x)" for x
  proof (cases "oc_find lt fst k m")
    case None
    have "x \<noteq> (k, v)" using eqv assms(2) by auto
    then show ?thesis
      using None set_insert [of fst "(k, v)" m] by (simp add: oc_assign_def)
  next
    case (Some e)
    obtain k' w where e: "e = (k', w)" by (cases e)
    have kk: "\<not> lt k k'" "\<not> lt k' k" using Some e find_Some_iff [OF assms(1)] by auto
    have "fst x \<noteq> k'" using eqv assms(2) kk less_equiv equiv_less by metis
    moreover have "set m = set (oc_before lt fst k m) \<union> insert (k', w) (set (tl (oc_lower_bound lt fst k m)))"
      using assign_set(2) [OF assms(1)] Some e by (metis set_append list.simps(15))
    ultimately show ?thesis using assign_set(1) [OF assms(1)] Some e by auto
  qed
  then have "oc_find lt fst j (oc_assign lt k v m) = Some x \<longleftrightarrow> oc_find lt fst j m = Some x" for x
    using find_Some_iff [OF assms(1)] find_Some_iff [OF sorted_assign [OF assms(1)]] by blast
  then show ?thesis by (metis not_Some_eq)
qed

lemma find_erase_other:
  assumes "oc_sorted lt key xs" and "lt k j \<or> lt j k"
  shows "oc_find lt key j (oc_erase lt key k xs) = oc_find lt key j xs"
proof -
  have "oc_find lt key j (oc_erase lt key k xs) = Some x \<longleftrightarrow> oc_find lt key j xs = Some x" for x
    unfolding find_Some_iff [OF sorted_erase [OF assms(1)]] find_Some_iff [OF assms(1)] set_erase [OF assms(1)]
    using assms(2) less_equiv equiv_less asym by blast
  then show ?thesis by (metis not_Some_eq)
qed

lemma find_erase_same:
  assumes "oc_sorted lt key xs"
  shows "oc_find lt key k (oc_erase lt key k xs) = None"
  unfolding find_None_iff [OF sorted_erase [OF assms]] set_erase [OF assms] by blast

end

text \<open>A sorted container does not change when the comparator agrees on its elements.\<close>

lemma oc_sorted_cong:
  assumes "\<And>x y. x \<in> set xs \<Longrightarrow> y \<in> set xs \<Longrightarrow> lt (key x) (key y) = lt' (key' x) (key' y)"
  shows "oc_sorted lt key xs = oc_sorted lt' key' xs"
  using assms by (induction xs) (simp_all add: oc_sorted_def)

end
