(* ===== verification/Timer_Manager.thy ===== *)
theory Timer_Manager
  imports Ordered_Container
begin

text \<open>
  The timers (\<open>timer.h\<close>, \<open>timer.cc\<close>): timer objects in a heap, the manager's \<open>std::set\<close> of pointers
  ordered by deadline and then by address, and every operation on them. Each operation runs under
  the manager's lock, so it is one atomic step; the clock reading and the address a \<open>new\<close> returns
  are arguments. Deadlines are 64-bit words and wrap as in the source. The locale \<open>timer_queue\<close> is
  what the event loop relies on; \<open>tq\<close> interprets it on the manager.
\<close>

section \<open>Objects and the manager\<close>

record 'cb timer =
  m_recurring :: bool
  m_ms :: u64
  m_next :: u64
  m_cb :: "'cb option"

record 'cb timer_mgr =
  t_heap :: "nat \<Rightarrow> 'cb timer"
  m_timers :: "nat list"
  m_tickled :: bool
  m_previouseTime :: u64

definition Timer :: "u64 \<Rightarrow> 'cb option \<Rightarrow> bool \<Rightarrow> u64 \<Rightarrow> 'cb timer" where
  "Timer ms cb recurring now = \<lparr>m_recurring = recurring, m_ms = ms, m_next = now + ms, m_cb = cb\<rparr>"

text \<open>The constructor used for the search key of \<open>listExpiredCb\<close>.\<close>

definition Timer_at :: "u64 \<Rightarrow> 'cb timer" where
  "Timer_at nxt = \<lparr>m_recurring = False, m_ms = 0, m_next = nxt, m_cb = None\<rparr>"

definition Comparator :: "(nat \<Rightarrow> 'cb timer) \<Rightarrow> nat option \<Rightarrow> nat option \<Rightarrow> bool" where
  "Comparator h lhs rhs =
     (case (lhs, rhs) of
        (None, None) \<Rightarrow> False
      | (None, Some _) \<Rightarrow> True
      | (Some _, None) \<Rightarrow> False
      | (Some l, Some r) \<Rightarrow>
          if m_next (h l) < m_next (h r) then True
          else if m_next (h r) < m_next (h l) then False
          else l < r)"

definition TimerManager :: "u64 \<Rightarrow> 'cb timer_mgr" where
  "TimerManager now = \<lparr>t_heap = (\<lambda>_. Timer_at 0), m_timers = [], m_tickled = False, m_previouseTime = now\<rparr>"

definition t_find :: "nat \<Rightarrow> 'cb timer_mgr \<Rightarrow> nat option" where
  "t_find t m = oc_find (Comparator (t_heap m)) Some (Some t) (m_timers m)"

definition t_insert :: "nat \<Rightarrow> 'cb timer_mgr \<Rightarrow> 'cb timer_mgr" where
  "t_insert t m = m\<lparr>m_timers := oc_insert (Comparator (t_heap m)) Some t (m_timers m)\<rparr>"

definition t_erase :: "nat \<Rightarrow> 'cb timer_mgr \<Rightarrow> 'cb timer_mgr" where
  "t_erase t m = m\<lparr>m_timers := oc_erase (Comparator (t_heap m)) Some (Some t) (m_timers m)\<rparr>"

definition upd_timer :: "nat \<Rightarrow> ('cb timer \<Rightarrow> 'cb timer) \<Rightarrow> 'cb timer_mgr \<Rightarrow> 'cb timer_mgr" where
  "upd_timer t f m = m\<lparr>t_heap := (t_heap m)(t := f (t_heap m t))\<rparr>"

section \<open>Operations of \<open>TimerManager\<close>\<close>

text \<open>
  The private \<open>addTimer\<close>. The result tells whether \<open>onTimerInsertedAtFront\<close> is called, which the
  event loop implements by waking its poller.
\<close>

definition addTimer_locked :: "nat \<Rightarrow> 'cb timer_mgr \<Rightarrow> bool \<times> 'cb timer_mgr" where
  "addTimer_locked t m =
     (let m' = t_insert t m;
          at_front = (t_find t m' = Some (hd (m_timers m')) \<and> \<not> m_tickled m') in
      (at_front, if at_front then m'\<lparr>m_tickled := True\<rparr> else m'))"

definition addTimer :: "nat \<Rightarrow> u64 \<Rightarrow> u64 \<Rightarrow> 'cb option \<Rightarrow> bool \<Rightarrow> 'cb timer_mgr \<Rightarrow> bool \<times> 'cb timer_mgr" where
  "addTimer t now ms cb recurring m =
     addTimer_locked t (m\<lparr>t_heap := (t_heap m)(t := Timer ms cb recurring now)\<rparr>)"

text \<open>Callbacks of condition timers: \<open>OnTimer\<close> runs \<open>cb\<close> when the weak pointer is still alive.\<close>

definition OnTimer :: "('w \<Rightarrow> bool) \<Rightarrow> 'w \<Rightarrow> ('s \<Rightarrow> 's) \<Rightarrow> 's \<Rightarrow> 's" where
  "OnTimer alive weak_cond cb s = (if alive weak_cond then cb s else s)"

definition addConditionTimer ::
  "('w \<Rightarrow> bool) \<Rightarrow> nat \<Rightarrow> u64 \<Rightarrow> u64 \<Rightarrow> ('s \<Rightarrow> 's) \<Rightarrow> 'w \<Rightarrow> bool \<Rightarrow> ('s \<Rightarrow> 's) timer_mgr \<Rightarrow> bool \<times> ('s \<Rightarrow> 's) timer_mgr" where
  "addConditionTimer alive t now ms cb weak_cond recurring m =
     addTimer t now ms (Some (OnTimer alive weak_cond cb)) recurring m"

definition getNextTimer :: "u64 \<Rightarrow> 'cb timer_mgr \<Rightarrow> u64 \<times> 'cb timer_mgr" where
  "getNextTimer now_ms m =
     (let m = m\<lparr>m_tickled := False\<rparr> in
      case m_timers m of [] \<Rightarrow> (NOT 0, m)
      | nxt # _ \<Rightarrow> if now_ms \<ge> m_next (t_heap m nxt) then (0, m)
                   else (m_next (t_heap m nxt) - now_ms, m))"

definition detectClockRollover :: "u64 \<Rightarrow> 'cb timer_mgr \<Rightarrow> bool \<times> 'cb timer_mgr" where
  "detectClockRollover now_ms m =
     (now_ms < m_previouseTime m \<and> now_ms < m_previouseTime m - 60 * 60 * 1000,
      m\<lparr>m_previouseTime := now_ms\<rparr>)"

definition hasTimer :: "'cb timer_mgr \<Rightarrow> bool" where
  "hasTimer m = (m_timers m \<noteq> [])"

text \<open>The loop over the expired timers: collect callbacks, re-arm the recurring ones.\<close>

primrec fire_loop :: "u64 \<Rightarrow> nat list \<Rightarrow> 'cb timer_mgr \<Rightarrow> 'cb option list \<times> 'cb timer_mgr" where
  "fire_loop now_ms [] m = ([], m)"
| "fire_loop now_ms (t # ts) m =
     (let cb = m_cb (t_heap m t);
          m' = (if m_recurring (t_heap m t)
                then t_insert t (upd_timer t (\<lambda>x. x\<lparr>m_next := now_ms + m_ms x\<rparr>) m)
                else upd_timer t (\<lambda>x. x\<lparr>m_cb := None\<rparr>) m);
          (cbs, m'') = fire_loop now_ms ts m' in
      (cb # cbs, m''))"

text \<open>\<open>k\<close> is the address of the temporary search key \<open>now_timer\<close>.\<close>

definition expired_upto :: "nat \<Rightarrow> u64 \<Rightarrow> bool \<Rightarrow> 'cb timer_mgr \<Rightarrow> nat list \<times> nat list" where
  "expired_upto k now_ms rollover m =
     (if rollover then (m_timers m, [])
      else let h = (t_heap m)(k := Timer_at now_ms);
               lo = oc_before (Comparator h) Some (Some k) (m_timers m);
               it = oc_lower_bound (Comparator h) Some (Some k) (m_timers m) in
           (lo @ takeWhile (\<lambda>t. m_next (t_heap m t) = now_ms) it,
            dropWhile (\<lambda>t. m_next (t_heap m t) = now_ms) it))"

definition listExpiredCb :: "nat \<Rightarrow> u64 \<Rightarrow> 'cb timer_mgr \<Rightarrow> 'cb option list \<times> 'cb timer_mgr" where
  "listExpiredCb k now_ms m =
     (if m_timers m = [] then ([], m)
      else let (rollover, m) = detectClockRollover now_ms m in
        if \<not> rollover \<and> m_next (t_heap m (hd (m_timers m))) > now_ms then ([], m)
        else let (expired, rest) = expired_upto k now_ms rollover m in
          fire_loop now_ms expired (m\<lparr>m_timers := rest\<rparr>))"

section \<open>Operations of \<open>Timer\<close>\<close>

text \<open>\<open>erase\<close> of the end iterator is undefined behaviour.\<close>

definition cancel :: "nat \<Rightarrow> ('cb timer_mgr, bool) sop" where
  "cancel t m =
     (if m_cb (t_heap m t) \<noteq> None then
        let m = upd_timer t (\<lambda>x. x\<lparr>m_cb := None\<rparr>) m in
        (if t_find t m = None then (Inl Invalid_Iterator, m) else (Inr True, t_erase t m))
      else (Inr False, m))"

definition refresh :: "nat \<Rightarrow> u64 \<Rightarrow> 'cb timer_mgr \<Rightarrow> bool \<times> 'cb timer_mgr" where
  "refresh t now m =
     (if m_cb (t_heap m t) = None then (False, m)
      else if t_find t m = None then (False, m)
      else (True, t_insert t (upd_timer t (\<lambda>x. x\<lparr>m_next := now + m_ms x\<rparr>) (t_erase t m))))"

text \<open>The result is the return value and whether \<open>onTimerInsertedAtFront\<close> is called.\<close>

definition reset :: "nat \<Rightarrow> u64 \<Rightarrow> bool \<Rightarrow> u64 \<Rightarrow> 'cb timer_mgr \<Rightarrow> (bool \<times> bool) \<times> 'cb timer_mgr" where
  "reset t ms from_now now m =
     (if ms = m_ms (t_heap m t) \<and> \<not> from_now then ((True, False), m)
      else if m_cb (t_heap m t) = None then ((False, False), m)
      else if t_find t m = None then ((False, False), m)
      else let m = t_erase t m;
               start = (if from_now then now else m_next (t_heap m t) - m_ms (t_heap m t));
               m = upd_timer t (\<lambda>x. x\<lparr>m_ms := ms, m_next := start + ms\<rparr>) m;
               (at_front, m) = addTimer_locked t m in
           ((True, at_front), m))"

section \<open>The order of the set\<close>

lemma Comparator_Some [simp]:
  "Comparator h (Some l) (Some r) \<longleftrightarrow> m_next (h l) < m_next (h r) \<or> m_next (h l) = m_next (h r) \<and> l < r"
  by (auto simp: Comparator_def)

interpretation cmp: strict_weak "Comparator h" for h
  by unfold_locales (auto simp: Comparator_def split: option.splits if_splits)

lemma Comparator_total: "Comparator h (Some l) (Some r) \<or> Comparator h (Some r) (Some l) \<or> l = r"
  by auto

lemma Comparator_heap:
  assumes "\<And>t. m_next (h t) = m_next (h' t)"
  shows "Comparator h = Comparator h'"
  by (intro ext) (simp add: Comparator_def assms split: option.split)

definition timers_sorted :: "'cb timer_mgr \<Rightarrow> bool" where
  "timers_sorted m = oc_sorted (Comparator (t_heap m)) Some (m_timers m)"

lemma t_find_eq:
  assumes "timers_sorted m"
  shows "t_find t m = (if t \<in> set (m_timers m) then Some t else None)"
proof (cases "t \<in> set (m_timers m)")
  case True
  then show ?thesis
    using cmp.find_Some_iff [OF assms [unfolded timers_sorted_def], of "Some t" t] cmp.irrefl
    by (simp add: t_find_def)
next
  case False
  then have "\<forall>x\<in>set (m_timers m). Comparator (t_heap m) (Some x) (Some t) \<or> Comparator (t_heap m) (Some t) (Some x)"
    using Comparator_total by metis
  then have "t_find t m = None"
    unfolding t_find_def using cmp.find_None_iff [OF assms [unfolded timers_sorted_def], of "Some t"] by blast
  with False show ?thesis by simp
qed

lemma t_insert_facts:
  assumes "timers_sorted m"
  shows "timers_sorted (t_insert t m)" "set (m_timers (t_insert t m)) = insert t (set (m_timers m))"
    "t_heap (t_insert t m) = t_heap m" "m_tickled (t_insert t m) = m_tickled m"
    "m_previouseTime (t_insert t m) = m_previouseTime m"
proof -
  show "timers_sorted (t_insert t m)"
    using cmp.sorted_insert [OF assms [unfolded timers_sorted_def]] by (simp add: timers_sorted_def t_insert_def)
  show "set (m_timers (t_insert t m)) = insert t (set (m_timers m))"
  proof (cases "t \<in> set (m_timers m)")
    case True
    then have "oc_find (Comparator (t_heap m)) Some (Some t) (m_timers m) = Some t"
      using t_find_eq [OF assms, of t] by (simp add: t_find_def)
    with True show ?thesis by (auto simp: t_insert_def oc_insert_def)
  next
    case False
    then show ?thesis
      using t_find_eq [OF assms, of t] cmp.set_insert [of "t_heap m" Some t "m_timers m"]
      by (simp add: t_find_def t_insert_def)
  qed
qed (simp_all add: t_insert_def)

lemma t_erase_facts:
  assumes "timers_sorted m"
  shows "timers_sorted (t_erase t m)" "set (m_timers (t_erase t m)) = set (m_timers m) - {t}"
    "t_heap (t_erase t m) = t_heap m" "m_tickled (t_erase t m) = m_tickled m"
    "m_previouseTime (t_erase t m) = m_previouseTime m"
proof -
  show "timers_sorted (t_erase t m)"
    using cmp.sorted_erase [OF assms [unfolded timers_sorted_def]] by (simp add: timers_sorted_def t_erase_def)
  show "set (m_timers (t_erase t m)) = set (m_timers m) - {t}"
    using cmp.set_erase [OF assms [unfolded timers_sorted_def], of "Some t"] cmp.irrefl Comparator_total
    by (auto simp: t_erase_def)
qed (simp_all add: t_erase_def)

lemma upd_timer_facts [simp]:
  "t_heap (upd_timer t f m) = (t_heap m)(t := f (t_heap m t))" "m_timers (upd_timer t f m) = m_timers m"
  "m_tickled (upd_timer t f m) = m_tickled m" "m_previouseTime (upd_timer t f m) = m_previouseTime m"
  by (simp_all add: upd_timer_def)

text \<open>A timer outside the set can be changed freely; one inside keeps the order if its deadline stays.\<close>

lemma sorted_heap_outside:
  assumes "timers_sorted m" and "t \<notin> set (m_timers m)"
  shows "timers_sorted (m\<lparr>t_heap := (t_heap m)(t := x)\<rparr>)"
proof -
  have "oc_sorted (Comparator ((t_heap m)(t := x))) Some (m_timers m)
        = oc_sorted (Comparator (t_heap m)) Some (m_timers m)"
    by (rule oc_sorted_cong) (use assms(2) in \<open>auto simp: Comparator_def\<close>)
  then show ?thesis using assms(1) by (simp add: timers_sorted_def)
qed

lemma sorted_upd_outside:
  assumes "timers_sorted m" and "t \<notin> set (m_timers m)"
  shows "timers_sorted (upd_timer t f m)"
  unfolding upd_timer_def by (rule sorted_heap_outside [OF assms])

lemma sorted_upd_same_next:
  assumes "timers_sorted m" and "m_next (f (t_heap m t)) = m_next (t_heap m t)"
  shows "timers_sorted (upd_timer t f m)"
proof -
  have "Comparator ((t_heap m)(t := f (t_heap m t))) = Comparator (t_heap m)"
    by (rule Comparator_heap) (simp add: assms(2))
  then show ?thesis using assms(1) by (simp add: timers_sorted_def)
qed

section \<open>Invariant and abstraction\<close>

text \<open>
  The set is in order, and a timer is in it exactly when it still has its callback; in
  particular \<open>cancel\<close> always finds the timer it erases.
\<close>

definition tm_inv :: "'cb timer_mgr \<Rightarrow> bool" where
  "tm_inv m \<longleftrightarrow> timers_sorted m \<and> (\<forall>t. t \<in> set (m_timers m) \<longleftrightarrow> m_cb (t_heap m t) \<noteq> None)"

text \<open>The pending timers with their deadlines.\<close>

definition deadline :: "'cb timer_mgr \<Rightarrow> nat \<Rightarrow> u64 option" where
  "deadline m t = (if t \<in> set (m_timers m) then Some (m_next (t_heap m t)) else None)"

lemma TimerManager_inv [inv_intros]: "tm_inv (TimerManager now)"
  by (simp add: tm_inv_def timers_sorted_def TimerManager_def Timer_at_def)

lemma tm_invD: "tm_inv m \<Longrightarrow> timers_sorted m" "tm_inv m \<Longrightarrow> t \<in> set (m_timers m) \<longleftrightarrow> m_cb (t_heap m t) \<noteq> None"
  by (simp_all add: tm_inv_def)

lemma addTimer_locked_facts:
  assumes "timers_sorted m"
  shows "timers_sorted (snd (addTimer_locked t m))"
    "set (m_timers (snd (addTimer_locked t m))) = insert t (set (m_timers m))"
    "t_heap (snd (addTimer_locked t m)) = t_heap m"
  using t_insert_facts [OF assms, of t] by (simp_all add: addTimer_locked_def Let_def timers_sorted_def)

lemma addTimer_facts:
  assumes "tm_inv m" and "t \<notin> set (m_timers m)"
  shows "timers_sorted (snd (addTimer t now ms cb r m))"
    "set (m_timers (snd (addTimer t now ms cb r m))) = insert t (set (m_timers m))"
    "t_heap (snd (addTimer t now ms cb r m)) = (t_heap m)(t := Timer ms cb r now)"
  using addTimer_locked_facts [OF sorted_heap_outside [OF tm_invD(1) [OF assms(1)] assms(2)]]
  by (simp_all add: addTimer_def)

lemma addTimer_inv [inv_intros]:
  assumes "tm_inv m" and "t \<notin> set (m_timers m)" and "cb \<noteq> None"
  shows "tm_inv (snd (addTimer t now ms cb r m))"
  using addTimer_facts [OF assms(1,2)] tm_invD(2) [OF assms(1)] assms(3)
  by (simp add: tm_inv_def Timer_def)

lemma addTimer_deadline:
  assumes "tm_inv m" and "t \<notin> set (m_timers m)"
  shows "deadline (snd (addTimer t now ms cb r m)) = (deadline m)(t \<mapsto> now + ms)"
  using addTimer_facts [OF assms] by (auto simp: deadline_def Timer_def)

lemma cancel_spec:
  assumes "tm_inv m"
  shows "\<exists>m'. cancel t m = (Inr (t \<in> set (m_timers m)), m') \<and> tm_inv m'
           \<and> deadline m' = (deadline m)(t := None)"
proof (cases "t \<in> set (m_timers m)")
  case True
  let ?m = "upd_timer t (\<lambda>x. x\<lparr>m_cb := None\<rparr>) m"
  have s: "timers_sorted ?m" by (rule sorted_upd_same_next) (simp_all add: tm_invD(1) [OF assms])
  have "m_cb (t_heap m t) \<noteq> None" using True tm_invD(2) [OF assms] by simp
  then have "cancel t m = (Inr True, t_erase t ?m)"
    using t_find_eq [OF s, of t] True by (simp add: cancel_def)
  moreover have "tm_inv (t_erase t ?m)"
    using t_erase_facts [OF s, of t] tm_invD(2) [OF assms] by (simp add: tm_inv_def)
  moreover have "deadline (t_erase t ?m) = (deadline m)(t := None)"
    by (intro ext) (simp add: deadline_def t_erase_facts(2,3) [OF s])
  ultimately show ?thesis using True by simp
next
  case False
  then show ?thesis using tm_invD(2) [OF assms, of t] assms by (auto simp: cancel_def deadline_def)
qed

text \<open>Erase, change, insert again: what \<open>refresh\<close> and \<open>reset\<close> share.\<close>

lemma requeue_facts:
  assumes "tm_inv m" and "t \<in> set (m_timers m)" and "m_cb (f (t_heap m t)) = m_cb (t_heap m t)"
  defines "m1 \<equiv> upd_timer t f (t_erase t m)"
  shows "timers_sorted m1" "tm_inv (t_insert t m1)" "tm_inv (snd (addTimer_locked t m1))"
    "deadline (t_insert t m1) = (deadline m)(t \<mapsto> m_next (f (t_heap m t)))"
    "deadline (snd (addTimer_locked t m1)) = (deadline m)(t \<mapsto> m_next (f (t_heap m t)))"
proof -
  note e = t_erase_facts [OF tm_invD(1) [OF assms(1)], of t]
  show s: "timers_sorted m1" unfolding m1_def by (rule sorted_upd_outside [OF e(1)]) (simp add: e(2))
  have h: "t_heap m1 = (t_heap m)(t := f (t_heap m t))" "set (m_timers m1) = set (m_timers m) - {t}"
    by (simp_all add: m1_def e)
  show "tm_inv (t_insert t m1)" "deadline (t_insert t m1) = (deadline m)(t \<mapsto> m_next (f (t_heap m t)))"
    using t_insert_facts [OF s, of t] h tm_invD(2) [OF assms(1)] assms(2,3)
    by (auto simp: tm_inv_def deadline_def)
  show "tm_inv (snd (addTimer_locked t m1))"
    "deadline (snd (addTimer_locked t m1)) = (deadline m)(t \<mapsto> m_next (f (t_heap m t)))"
    using addTimer_locked_facts [OF s, of t] h tm_invD(2) [OF assms(1)] assms(2,3)
    by (auto simp: tm_inv_def deadline_def)
qed

lemma refresh_spec:
  assumes "tm_inv m"
  shows "fst (refresh t now m) = (t \<in> set (m_timers m))" "tm_inv (snd (refresh t now m))"
    "deadline (snd (refresh t now m)) =
       (if t \<in> set (m_timers m) then (deadline m)(t \<mapsto> now + m_ms (t_heap m t)) else deadline m)"
  using tm_invD(2) [OF assms, of t] t_find_eq [OF tm_invD(1) [OF assms], of t] assms
    requeue_facts(2,4) [OF assms, of t "\<lambda>x. x\<lparr>m_next := now + m_ms x\<rparr>"]
  by (auto simp: refresh_def)

lemma reset_spec:
  assumes "tm_inv m"
  shows "fst (fst (reset t ms from_now now m)) = (t \<in> set (m_timers m) \<or> ms = m_ms (t_heap m t) \<and> \<not> from_now)"
    "tm_inv (snd (reset t ms from_now now m))"
    "deadline (snd (reset t ms from_now now m)) =
       (if t \<in> set (m_timers m)
        then (deadline m)(t \<mapsto> (if from_now then now else m_next (t_heap m t) - m_ms (t_heap m t)) + ms)
        else deadline m)"
proof -
  let ?f = "\<lambda>x. x\<lparr>m_ms := ms, m_next := (if from_now then now else m_next (t_heap m t) - m_ms (t_heap m t)) + ms\<rparr>"
  note h = t_erase_facts(3) [OF tm_invD(1) [OF assms], of t]
  note q = requeue_facts(3,5) [OF assms, of t ?f]
  have keep: "(deadline m)(t \<mapsto> m_next (t_heap m t)) = deadline m" if "t \<in> set (m_timers m)"
    using that by (auto simp: deadline_def)
  show "fst (fst (reset t ms from_now now m)) = (t \<in> set (m_timers m) \<or> ms = m_ms (t_heap m t) \<and> \<not> from_now)"
    using tm_invD(2) [OF assms, of t] t_find_eq [OF tm_invD(1) [OF assms], of t]
    by (auto simp: reset_def Let_def split: prod.splits)
  show "tm_inv (snd (reset t ms from_now now m))"
    using tm_invD(2) [OF assms, of t] t_find_eq [OF tm_invD(1) [OF assms], of t] assms q(1)
    by (auto simp: reset_def Let_def h split: prod.splits)
  show "deadline (snd (reset t ms from_now now m)) =
       (if t \<in> set (m_timers m)
        then (deadline m)(t \<mapsto> (if from_now then now else m_next (t_heap m t) - m_ms (t_heap m t)) + ms)
        else deadline m)"
    using tm_invD(2) [OF assms, of t] t_find_eq [OF tm_invD(1) [OF assms], of t] q(2) keep
    by (auto simp: reset_def Let_def h split: prod.splits)
qed

section \<open>Expiry\<close>

lemma takeWhile_bound:
  assumes "sorted_wrt (\<lambda>x y. f x \<le> f y) xs" and "\<And>x. P x \<Longrightarrow> f x \<le> b" and "\<And>x. f x < b \<Longrightarrow> P x"
  shows "takeWhile P xs @ takeWhile (\<lambda>x. f x = b) (dropWhile P xs) = filter (\<lambda>x. f x \<le> (b :: 'a::linorder)) xs
         \<and> dropWhile (\<lambda>x. f x = b) (dropWhile P xs) = filter (\<lambda>x. \<not> f x \<le> b) xs"
  using assms(1)
proof (induction xs)
  case (Cons x xs)
  show ?case
  proof (cases "P x")
    case False
    have tail: "takeWhile (\<lambda>x. f x = b) ys = filter (\<lambda>x. f x \<le> b) ys
                \<and> dropWhile (\<lambda>x. f x = b) ys = filter (\<lambda>x. \<not> f x \<le> b) ys"
      if "sorted_wrt (\<lambda>x y. f x \<le> f y) ys" "\<forall>y\<in>set ys. b \<le> f y" for ys
      using that
    proof (induction ys)
      case (Cons a ys)
      show ?case
      proof (cases "f a = b")
        case False
        then have "\<forall>y\<in>set (a # ys). \<not> f y \<le> b" using Cons.prems by fastforce
        with False show ?thesis by simp
      qed (use Cons in auto)
    qed simp
    have "b \<le> f x" using False assms(3) [of x] by (meson not_le)
    then have "\<forall>y\<in>set (x # xs). b \<le> f y" using Cons.prems by auto
    with tail [OF Cons.prems] False show ?thesis by simp
  qed (use Cons assms(2) in auto)
qed simp

lemma timers_by_deadline:
  assumes "timers_sorted m"
  shows "sorted_wrt (\<lambda>x y. m_next (t_heap m x) \<le> m_next (t_heap m y)) (m_timers m)" "distinct (m_timers m)"
proof -
  have *: "sorted_wrt (\<lambda>x y. Comparator (t_heap m) (Some x) (Some y)) (m_timers m)"
    using assms by (simp add: timers_sorted_def oc_sorted_def)
  from * show "sorted_wrt (\<lambda>x y. m_next (t_heap m x) \<le> m_next (t_heap m y)) (m_timers m)"
    by (rule sorted_wrt_mono_rel [rotated]) auto
  from * show "distinct (m_timers m)"
    by (simp add: distinct_conv_nth sorted_wrt_iff_nth_less) (metis less_irrefl linorder_neqE_nat)
qed

definition expires :: "u64 \<Rightarrow> 'cb timer_mgr \<Rightarrow> nat \<Rightarrow> bool" where
  "expires now_ms m t \<longleftrightarrow> fst (detectClockRollover now_ms m) \<or> m_next (t_heap m t) \<le> now_ms"

lemma expired_upto_eq:
  assumes "timers_sorted m" and "k \<notin> set (m_timers m)"
  shows "expired_upto k now False m =
           (filter (\<lambda>t. m_next (t_heap m t) \<le> now) (m_timers m),
            filter (\<lambda>t. \<not> m_next (t_heap m t) \<le> now) (m_timers m))"
proof -
  let ?P = "\<lambda>t. m_next (t_heap m t) < now \<or> m_next (t_heap m t) = now \<and> t < k"
  have cong: "Comparator ((t_heap m)(k := Timer_at now)) (Some t) (Some k) \<longleftrightarrow> ?P t" if "t \<in> set (m_timers m)" for t
    using that assms(2) by (auto simp: Timer_at_def)
  have "takeWhile (\<lambda>t. Comparator ((t_heap m)(k := Timer_at now)) (Some t) (Some k)) (m_timers m) = takeWhile ?P (m_timers m)"
    "dropWhile (\<lambda>t. Comparator ((t_heap m)(k := Timer_at now)) (Some t) (Some k)) (m_timers m) = dropWhile ?P (m_timers m)"
    by (rule takeWhile_cong [OF refl], rule cong, assumption) (rule dropWhile_cong [OF refl], rule cong)
  moreover have "takeWhile ?P (m_timers m) @ takeWhile (\<lambda>t. m_next (t_heap m t) = now) (dropWhile ?P (m_timers m))
      = filter (\<lambda>t. m_next (t_heap m t) \<le> now) (m_timers m)
     \<and> dropWhile (\<lambda>t. m_next (t_heap m t) = now) (dropWhile ?P (m_timers m))
      = filter (\<lambda>t. \<not> m_next (t_heap m t) \<le> now) (m_timers m)"
    by (rule takeWhile_bound [OF timers_by_deadline(1) [OF assms(1)]]) auto
  ultimately show ?thesis
    by (simp add: expired_upto_def oc_before_def oc_lower_bound_def Let_def)
qed

definition fired :: "u64 \<Rightarrow> 'cb timer \<Rightarrow> 'cb timer" where
  "fired now_ms x = (if m_recurring x then x\<lparr>m_next := now_ms + m_ms x\<rparr> else x\<lparr>m_cb := None\<rparr>)"

lemma fire_loop_spec:
  assumes "timers_sorted m" and "distinct ts" and "set ts \<inter> set (m_timers m) = {}"
    and "fire_loop now ts m = (cbs, m')"
  shows "cbs = map (\<lambda>t. m_cb (t_heap m t)) ts \<and> timers_sorted m'
    \<and> set (m_timers m') = set (m_timers m) \<union> {t \<in> set ts. m_recurring (t_heap m t)}
    \<and> t_heap m' = (\<lambda>t. if t \<in> set ts then fired now (t_heap m t) else t_heap m t)
    \<and> m_previouseTime m' = m_previouseTime m"
  using assms
proof (induction ts arbitrary: m cbs)
  case (Cons t ts)
  define m1 where "m1 = (if m_recurring (t_heap m t)
     then t_insert t (upd_timer t (\<lambda>x. x\<lparr>m_next := now + m_ms x\<rparr>) m)
     else upd_timer t (\<lambda>x. x\<lparr>m_cb := None\<rparr>) m)"
  have out: "t \<notin> set (m_timers m)" using Cons.prems(3) by simp
  note s = sorted_upd_outside [OF Cons.prems(1) out]
  have m1: "timers_sorted m1" "t_heap m1 = (t_heap m)(t := fired now (t_heap m t))"
    "set (m_timers m1) = set (m_timers m) \<union> {x. x = t \<and> m_recurring (t_heap m t)}"
    "m_previouseTime m1 = m_previouseTime m"
    using s t_insert_facts [OF s] by (auto simp: m1_def fired_def)
  obtain cbs1 where r: "fire_loop now ts m1 = (cbs1, m')" "cbs = m_cb (t_heap m t) # cbs1"
    using Cons.prems(4) by (auto simp: Let_def m1_def split: prod.splits)
  have "set ts \<inter> set (m_timers m1) = {}" "distinct ts" "t \<notin> set ts"
    using Cons.prems(2,3) m1(3) by auto
  with Cons.IH [OF m1(1) _ _ r(1)] show ?case
    using m1 r(2) by (auto simp: fun_eq_iff)
qed simp

lemma listExpiredCb_spec:
  fixes now :: u64
  assumes "tm_inv m" and "k \<notin> set (m_timers m)"
  defines "ex \<equiv> filter (expires now m) (m_timers m)"
  shows "fst (listExpiredCb k now m) = map (\<lambda>t. m_cb (t_heap m t)) ex"
    "tm_inv (snd (listExpiredCb k now m))"
    "deadline (snd (listExpiredCb k now m)) t =
       (if t \<in> set ex then if m_recurring (t_heap m t) then Some (now + m_ms (t_heap m t)) else None
        else deadline m t)"
    "m_previouseTime (snd (listExpiredCb k now m)) = (if m_timers m = [] then m_previouseTime m else now)"
proof -
  obtain cbs m' where run: "listExpiredCb k now m = (cbs, m')" by fastforce
  have sorted: "timers_sorted m" using assms(1) by (rule tm_invD(1))
  let ?m0 = "m\<lparr>m_previouseTime := now\<rparr>"
  have *: "cbs = map (\<lambda>t. m_cb (t_heap m t)) ex \<and> timers_sorted m'
    \<and> set (m_timers m') = {t \<in> set (m_timers m). t \<notin> set ex} \<union> {t \<in> set ex. m_recurring (t_heap m t)}
    \<and> t_heap m' = (\<lambda>t. if t \<in> set ex then fired now (t_heap m t) else t_heap m t)
    \<and> m_previouseTime m' = (if m_timers m = [] then m_previouseTime m else now)"
  proof (cases "m_timers m = [] \<or> \<not> fst (detectClockRollover now m) \<and> now < m_next (t_heap m (hd (m_timers m)))")
    case True
    have "ex = []"
    proof (cases "m_timers m")
      case (Cons t ts)
      have "\<forall>x\<in>set (m_timers m). m_next (t_heap m t) \<le> m_next (t_heap m x)"
        using timers_by_deadline(1) [OF sorted] by (simp add: Cons)
      moreover have "\<not> fst (detectClockRollover now m)" "now < m_next (t_heap m t)" using True Cons by auto
      ultimately show ?thesis by (fastforce simp: ex_def expires_def filter_empty_conv)
    qed (simp add: ex_def)
    moreover from True have "cbs = [] \<and> m' = (if m_timers m = [] then m else ?m0)"
      using run by (auto simp: listExpiredCb_def detectClockRollover_def Let_def)
    ultimately show ?thesis using sorted by (auto simp: timers_sorted_def)
  next
    case False
    have s0: "timers_sorted ?m0" using sorted by (simp add: timers_sorted_def)
    have eu: "expired_upto k now (fst (detectClockRollover now m)) ?m0 =
               (ex, filter (\<lambda>t. \<not> expires now m t) (m_timers m))"
      using expired_upto_eq [OF s0, of k now] assms(2)
      by (cases "fst (detectClockRollover now m)") (simp_all add: ex_def expires_def [abs_def] expired_upto_def)
    let ?m1 = "m\<lparr>m_previouseTime := now, m_timers := filter (\<lambda>t. \<not> expires now m t) (m_timers m)\<rparr>"
    have "snd (detectClockRollover now m) = ?m0" by (simp add: detectClockRollover_def)
    then have fl: "fire_loop now ex ?m1 = (cbs, m')"
      using run False eu
      by (cases "fst (detectClockRollover now m)") (simp_all add: listExpiredCb_def case_prod_unfold Let_def)
    have s1: "timers_sorted ?m1" using sorted by (simp add: timers_sorted_def oc_sorted_def sorted_wrt_filter)
    have "distinct ex" "set ex \<inter> set (m_timers ?m1) = {}"
      using timers_by_deadline(2) [OF sorted] by (auto simp: ex_def)
    from fire_loop_spec [OF s1 this fl] False show ?thesis by (auto simp: ex_def)
  qed
  have ex: "t \<in> set ex \<Longrightarrow> t \<in> set (m_timers m)" for t by (simp add: ex_def)
  show "fst (listExpiredCb k now m) = map (\<lambda>t. m_cb (t_heap m t)) ex"
    "m_previouseTime (snd (listExpiredCb k now m)) = (if m_timers m = [] then m_previouseTime m else now)"
    using * run by simp_all
  show "tm_inv (snd (listExpiredCb k now m))"
    using * run tm_invD(2) [OF assms(1)] ex by (auto simp: tm_inv_def fired_def)
  show "deadline (snd (listExpiredCb k now m)) t =
       (if t \<in> set ex then if m_recurring (t_heap m t) then Some (now + m_ms (t_heap m t)) else None
        else deadline m t)"
    using * run ex by (auto simp: deadline_def fired_def)
qed

lemma getNextTimer_spec:
  assumes "tm_inv m"
  shows "snd (getNextTimer now m) = m\<lparr>m_tickled := False\<rparr>"
    "m_timers m = [] \<Longrightarrow> fst (getNextTimer now m) = NOT 0"
    "deadline m t = Some d \<Longrightarrow> fst (getNextTimer now m) \<le> (if d \<le> now then 0 else d - now)"
    "m_timers m \<noteq> [] \<Longrightarrow> \<exists>t d. deadline m t = Some d \<and> fst (getNextTimer now m) = (if d \<le> now then 0 else d - now)"
proof -
  show "snd (getNextTimer now m) = m\<lparr>m_tickled := False\<rparr>"
    by (simp add: getNextTimer_def Let_def split: list.splits)
  show "m_timers m = [] \<Longrightarrow> fst (getNextTimer now m) = NOT 0"
    by (simp add: getNextTimer_def Let_def)
  show "\<exists>t d. deadline m t = Some d \<and> fst (getNextTimer now m) = (if d \<le> now then 0 else d - now)" if "m_timers m \<noteq> []"
    using that by (cases "m_timers m") (auto simp: getNextTimer_def deadline_def Let_def)
  show "fst (getNextTimer now m) \<le> (if d \<le> now then 0 else d - now)" if d: "deadline m t = Some d"
  proof (cases "m_timers m")
    case Nil
    then show ?thesis using d by (simp add: deadline_def)
  next
    case (Cons x xs)
    then have "m_next (t_heap m x) \<le> d"
      using d timers_by_deadline(1) [OF tm_invD(1) [OF assms]] by (auto simp: deadline_def split: if_splits)
    then show ?thesis
      using Cons by (auto simp: getNextTimer_def Let_def not_le word_le_nat_alt word_less_nat_alt unat_sub)
  qed
qed

section \<open>The interface to the event loop\<close>

text \<open>
  What the event loop needs of a timer queue: the pending deadlines, how long to wait, and the
  timers to fire at a given time. \<open>regular\<close> says that the clock was not set back since the last
  call, in which case every pending timer fires.
\<close>

locale timer_queue =
  fixes inv :: "'s \<Rightarrow> bool"
    and pending :: "'s \<Rightarrow> nat \<Rightarrow> u64 option"
    and regular :: "u64 \<Rightarrow> 's \<Rightarrow> bool"
    and timeout :: "u64 \<Rightarrow> 's \<Rightarrow> u64 \<times> 's"
    and fire :: "u64 \<Rightarrow> 's \<Rightarrow> nat list \<times> 's"
  assumes timeout_keeps: "inv s \<Longrightarrow> inv (snd (timeout now s)) \<and> pending (snd (timeout now s)) = pending s"
    and timeout_regular: "inv s \<Longrightarrow> regular later (snd (timeout now s)) = regular later s"
    and timeout_le: "inv s \<Longrightarrow> pending s t = Some d \<Longrightarrow> fst (timeout now s) \<le> (if d \<le> now then 0 else d - now)"
    and timeout_exact: "inv s \<Longrightarrow> pending s \<noteq> (\<lambda>_. None) \<Longrightarrow>
       \<exists>t d. pending s t = Some d \<and> fst (timeout now s) = (if d \<le> now then 0 else d - now)"
    and fire_keeps: "inv s \<Longrightarrow> inv (snd (fire now s))"
    and fire_due: "inv s \<Longrightarrow> regular now s \<Longrightarrow> t \<in> set (fst (fire now s)) \<longleftrightarrow> (\<exists>d. pending s t = Some d \<and> d \<le> now)"
    and fire_rest: "inv s \<Longrightarrow> t \<notin> set (fst (fire now s)) \<Longrightarrow> pending (snd (fire now s)) t = pending s t"
begin

text \<open>Sleeping for the returned timeout and then firing runs a timer, and none early.\<close>

lemma wait_then_fire:
  assumes "inv s" and "pending s \<noteq> (\<lambda>_. None)" and "timeout now s = (w, s')"
    and "now \<le> now + w" and "regular (now + w) s"
  shows "fst (fire (now + w) s') \<noteq> []"
    and "t \<in> set (fst (fire (now + w) s')) \<Longrightarrow> \<exists>d. pending s t = Some d \<and> d \<le> now + w"
proof -
  have s': "inv s'" "pending s' = pending s" "regular (now + w) s'"
    using timeout_keeps [OF assms(1), of now] timeout_regular [OF assms(1), of "now + w" now] assms(3,5) by simp_all
  from timeout_exact [OF assms(1,2), of now] obtain t0 d where
    d: "pending s t0 = Some d" "w = (if d \<le> now then 0 else d - now)" using assms(3) by auto
  then have "d \<le> now + w" by auto
  then have "t0 \<in> set (fst (fire (now + w) s'))" using fire_due [OF s'(1,3)] s'(2) d(1) by simp
  then show "fst (fire (now + w) s') \<noteq> []" by auto
  show "\<exists>d. pending s t = Some d \<and> d \<le> now + w" if "t \<in> set (fst (fire (now + w) s'))"
    using that fire_due [OF s'(1,3)] s'(2) by simp
qed

text \<open>Waking up before the timeout has passed fires nothing.\<close>

lemma early_fires_nothing:
  assumes "inv s" and "timeout now s = (w, s')" and "now \<le> late" and "late - now < w" and "regular late s"
  shows "fst (fire late s') = []"
proof (rule ccontr)
  have s': "inv s'" "pending s' = pending s" "regular late s'"
    using timeout_keeps [OF assms(1), of now] timeout_regular [OF assms(1), of late now] assms(2,5) by simp_all
  assume "fst (fire late s') \<noteq> []"
  then obtain t where "t \<in> set (fst (fire late s'))" by (metis last_in_set)
  then obtain d where d: "pending s t = Some d" "d \<le> late" using fire_due [OF s'(1,3)] s'(2) by auto
  have "w \<le> (if d \<le> now then 0 else d - now)" using timeout_le [OF assms(1) d(1), of now] assms(2) by simp
  moreover have "(if d \<le> now then 0 else d - now) \<le> late - now"
    using d(2) assms(3) by (auto simp: not_le word_le_nat_alt word_less_nat_alt unat_sub)
  ultimately show False using assms(4) by auto
qed

end

definition regular_clock :: "u64 \<Rightarrow> 'cb timer_mgr \<Rightarrow> bool" where
  "regular_clock now m \<longleftrightarrow> \<not> fst (detectClockRollover now m)"

definition fire_timers :: "u64 \<Rightarrow> 'cb timer_mgr \<Rightarrow> nat list \<times> 'cb timer_mgr" where
  "fire_timers now m =
     (filter (expires now m) (m_timers m), snd (listExpiredCb (Suc (sum_list (m_timers m))) now m))"

lemma fresh_key: "Suc (sum_list ts) \<notin> set ts"
  using member_le_sum_list [of "Suc (sum_list ts)" ts] by auto

interpretation tq: timer_queue tm_inv deadline regular_clock getNextTimer fire_timers
proof
  fix s :: "'a timer_mgr" and now t :: u64
  assume "tm_inv s"
  then show "tm_inv (snd (getNextTimer now s)) \<and> deadline (snd (getNextTimer now s)) = deadline s"
    by (simp add: getNextTimer_spec(1) tm_inv_def timers_sorted_def fun_eq_iff deadline_def)
  show "regular_clock t (snd (getNextTimer now s)) = regular_clock t s"
    by (simp add: \<open>tm_inv s\<close> getNextTimer_spec(1) regular_clock_def detectClockRollover_def)
next
  fix s :: "'a timer_mgr" and now d :: u64 and t :: nat
  assume "tm_inv s" and "deadline s t = Some d"
  then show "fst (getNextTimer now s) \<le> (if d \<le> now then 0 else d - now)" by (rule getNextTimer_spec(3))
next
  fix s :: "'a timer_mgr" and now :: u64
  assume "tm_inv s"
  then show "tm_inv (snd (fire_timers now s))"
    by (simp add: fire_timers_def listExpiredCb_spec(2) fresh_key)
  assume "deadline s \<noteq> (\<lambda>_. None)"
  then have "m_timers s \<noteq> []" by (auto simp: deadline_def fun_eq_iff)
  then show "\<exists>t d. deadline s t = Some d \<and> fst (getNextTimer now s) = (if d \<le> now then 0 else d - now)"
    by (rule getNextTimer_spec(4) [OF \<open>tm_inv s\<close>])
next
  fix s :: "'a timer_mgr" and now :: u64 and t :: nat
  assume "tm_inv s" and "regular_clock now s"
  then show "t \<in> set (fst (fire_timers now s)) \<longleftrightarrow> (\<exists>d. deadline s t = Some d \<and> d \<le> now)"
    by (simp add: fire_timers_def expires_def regular_clock_def deadline_def)
next
  fix s :: "'a timer_mgr" and now :: u64 and t :: nat
  assume "tm_inv s" and "t \<notin> set (fst (fire_timers now s))"
  then show "deadline (snd (fire_timers now s)) t = deadline s t"
    by (auto simp: fire_timers_def listExpiredCb_spec(3) fresh_key)
qed

section \<open>Reachable managers\<close>

inductive tm_reach :: "'cb timer_mgr \<Rightarrow> bool" where
  tm_new: "tm_reach (TimerManager now)"
| tm_add: "tm_reach m \<Longrightarrow> t \<notin> set (m_timers m) \<Longrightarrow> tm_reach (snd (addTimer t now ms (Some cb) r m))"
| tm_cancel: "tm_reach m \<Longrightarrow> cancel t m = (res, m') \<Longrightarrow> tm_reach m'"
| tm_refresh: "tm_reach m \<Longrightarrow> tm_reach (snd (refresh t now m))"
| tm_reset: "tm_reach m \<Longrightarrow> tm_reach (snd (reset t ms from_now now m))"
| tm_wait: "tm_reach m \<Longrightarrow> tm_reach (snd (getNextTimer now m))"
| tm_expire: "tm_reach m \<Longrightarrow> k \<notin> set (m_timers m) \<Longrightarrow> tm_reach (snd (listExpiredCb k now m))"

lemma tm_reach_inv: "tm_reach m \<Longrightarrow> tm_inv m"
proof (induction rule: tm_reach.induct)
  case (tm_cancel m t res m')
  then show ?case using cancel_spec [of m t] by auto
next
  case (tm_wait m now)
  then show ?case using tq.timeout_keeps by blast
next
  case (tm_expire m k now)
  then show ?case using listExpiredCb_spec(2) by blast
qed (auto intro: inv_intros refresh_spec(2) reset_spec(2))

lemma hd_timers_iff:
  assumes "timers_sorted m" and "t \<in> set (m_timers m)"
  shows "hd (m_timers m) = t \<longleftrightarrow> (\<forall>x\<in>set (m_timers m) - {t}. Comparator (t_heap m) (Some t) (Some x))"
proof (cases "m_timers m")
  case (Cons y ys)
  have y: "\<forall>x\<in>set ys. Comparator (t_heap m) (Some y) (Some x)"
    using assms(1) unfolding timers_sorted_def oc_sorted_Cons Cons by blast
  show ?thesis
  proof
    assume "hd (m_timers m) = t"
    then show "\<forall>x\<in>set (m_timers m) - {t}. Comparator (t_heap m) (Some t) (Some x)" using Cons y by auto
  next
    assume all: "\<forall>x\<in>set (m_timers m) - {t}. Comparator (t_heap m) (Some t) (Some x)"
    show "hd (m_timers m) = t"
    proof (rule ccontr)
      assume "hd (m_timers m) \<noteq> t"
      then have "Comparator (t_heap m) (Some t) (Some y)" "Comparator (t_heap m) (Some y) (Some t)"
        using all y Cons assms(2) by auto
      then show False using cmp.asym by blast
    qed
  qed
qed (use assms in simp)

lemma addTimer_front:
  assumes "tm_inv m" and "t \<notin> set (m_timers m)"
  shows "fst (addTimer t now ms cb r m) \<longleftrightarrow>
    \<not> m_tickled m \<and> (\<forall>x d. deadline m x = Some d \<longrightarrow> now + ms < d \<or> now + ms = d \<and> t < x)"
proof -
  let ?m = "m\<lparr>t_heap := (t_heap m)(t := Timer ms cb r now)\<rparr>"
  have s: "timers_sorted ?m" by (rule sorted_heap_outside [OF tm_invD(1) [OF assms(1)] assms(2)])
  note i = t_insert_facts [OF s, of t]
  have "t_find t (t_insert t ?m) = Some t" using t_find_eq [OF i(1), of t] i(2) by simp
  moreover have "hd (m_timers (t_insert t ?m)) = t \<longleftrightarrow>
      (\<forall>x d. deadline m x = Some d \<longrightarrow> now + ms < d \<or> now + ms = d \<and> t < x)"
    using hd_timers_iff [OF i(1), of t] i(2,3) assms(2)
    by (auto simp: deadline_def Timer_def fun_upd_def)
  ultimately show ?thesis using i(4) by (auto simp: addTimer_def addTimer_locked_def Let_def)
qed

section \<open>Properties\<close>

definition example_mgr :: "nat timer_mgr" where
  "example_mgr =
     \<lparr>t_heap = (\<lambda>_. Timer_at 0)(1 := Timer 50 (Some 7) True 100, 2 := Timer 300 (Some 9) False 100),
      m_timers = [1, 2], m_tickled = False, m_previouseTime = 100\<rparr>"

lemma example_mgr_inv: "tm_inv example_mgr"
  by (auto simp: tm_inv_def timers_sorted_def oc_sorted_def example_mgr_def Timer_def Timer_at_def)

text \<open>
  C6: in every state the public operations can reach, the timer set is ordered by deadline and
  address, a timer is pending exactly while it has its callback, and so \<open>cancel\<close> never erases
  the end iterator.
\<close>

theorem timers_reach_safe:
  assumes "tm_reach m"
  shows "tm_inv m \<and> (\<exists>r m'. cancel t m = (Inr r, m'))"
  using tm_reach_inv [OF assms] cancel_spec by blast

theorem timers_reach_safe_witness:
  "\<exists>r m'. cancel 3 (snd (addTimer 3 0 10 (Some (5 :: nat)) False (TimerManager 0))) = (Inr r, m')"
proof -
  have "tm_reach (snd (addTimer 3 0 10 (Some (5 :: nat)) False (TimerManager 0)))"
    by (rule tm_reach.tm_add [OF tm_reach.tm_new]) (simp add: TimerManager_def)
  from timers_reach_safe [OF this, of 3] show ?thesis by blast
qed

text \<open>
  C7: when the clock was not set back, \<open>listExpiredCb\<close> hands out exactly the callbacks of the
  timers whose deadline has passed, earliest first; when it was set back by more than an hour,
  those of all timers. One-shot timers leave the set, recurring ones get the deadline one period
  after now, all others keep theirs, and the invariant holds again.
\<close>

theorem listExpiredCb_exact:
  assumes "tm_inv m" and "k \<notin> set (m_timers m)"
  shows "fst (listExpiredCb k now m) = map (\<lambda>t. m_cb (t_heap m t)) (filter (expires now m) (m_timers m))
    \<and> sorted_wrt (\<lambda>x y. m_next (t_heap m x) \<le> m_next (t_heap m y)) (filter (expires now m) (m_timers m))
    \<and> tm_inv (snd (listExpiredCb k now m))
    \<and> deadline (snd (listExpiredCb k now m)) =
        (\<lambda>t. if t \<in> set (m_timers m) \<and> expires now m t
             then if m_recurring (t_heap m t) then Some (now + m_ms (t_heap m t)) else None
             else deadline m t)"
  using listExpiredCb_spec [OF assms, of now] timers_by_deadline(1) [OF tm_invD(1) [OF assms(1)]]
  by (auto simp: sorted_wrt_filter)

theorem listExpiredCb_exact_witness:
  "fst (listExpiredCb 9 200 example_mgr) = [Some 7]
   \<and> deadline (snd (listExpiredCb 9 200 example_mgr)) 1 = Some 250
   \<and> deadline (snd (listExpiredCb 9 200 example_mgr)) 2 = Some 400"
  using listExpiredCb_exact [OF example_mgr_inv, of 9 200]
  by (simp add: example_mgr_def expires_def detectClockRollover_def Timer_def deadline_def)

text \<open>
  C8: sleeping for the time \<open>getNextTimer\<close> returns and then calling \<open>listExpiredCb\<close> yields at least
  one callback, and every callback belongs to a timer whose deadline has passed; waking up
  earlier yields none.
\<close>

theorem timer_wait_fires:
  assumes "tm_inv m" and "hasTimer m" and "getNextTimer now m = (w, m')" and "now \<le> late"
    and "regular_clock late m" and "k \<notin> set (m_timers m)"
  shows "(fst (listExpiredCb k late m') \<noteq> []) = (w \<le> late - now)"
proof -
  have m': "m' = m\<lparr>m_tickled := False\<rparr>" using getNextTimer_spec(1) [OF assms(1), of now] assms(3) by simp
  have inv': "tm_inv m'" using tq.timeout_keeps [OF assms(1), of now] assms(3) by simp
  have "(fst (listExpiredCb k late m') \<noteq> []) = (fst (fire_timers late m') \<noteq> [])"
    using listExpiredCb_spec(1) [OF inv', of k late] assms(6) m' by (simp add: fire_timers_def)
  also have "\<dots> = (w \<le> late - now)"
  proof (cases "w \<le> late - now")
    case True
    from assms(2) have "deadline m (hd (m_timers m)) \<noteq> None" by (simp add: deadline_def hasTimer_def)
    then obtain t d where d: "deadline m t = Some d" "w = (if d \<le> now then 0 else d - now)"
      using tq.timeout_exact [OF assms(1), of now] assms(3) by force
    have "d \<le> late"
    proof (cases "d \<le> now")
      case False
      then have "d - now \<le> late - now" using True d(2) by simp
      then show ?thesis using False assms(4) by (simp add: word_le_nat_alt unat_sub not_le word_less_nat_alt)
    qed (use assms(4) in simp)
    then have "t \<in> set (fst (fire_timers late m'))"
      using tq.fire_due [OF inv', of late t] assms(5) d(1) m'
      by (simp add: deadline_def regular_clock_def detectClockRollover_def split: if_splits)
    with True show ?thesis by auto
  next
    case False
    then show ?thesis using tq.early_fires_nothing [OF assms(1,3,4) _ assms(5)] by simp
  qed
  finally show ?thesis .
qed

theorem timer_wait_fires_witness:
  "(fst (listExpiredCb 9 150 (example_mgr\<lparr>m_tickled := False\<rparr>)) \<noteq> []) = ((30 :: u64) \<le> 150 - 120)"
  by (rule timer_wait_fires [OF example_mgr_inv])
     (simp_all add: example_mgr_def hasTimer_def getNextTimer_def Timer_def regular_clock_def detectClockRollover_def)

text \<open>
  Adding a timer makes it pending at now plus its period and wakes the poller exactly when it
  becomes the earliest one and no wake-up is already on its way; afterwards a wake-up is pending
  whenever the new timer is the earliest.
\<close>

theorem addTimer_wakes:
  assumes "tm_inv m" and "t \<notin> set (m_timers m)"
  shows "deadline (snd (addTimer t now ms cb r m)) = (deadline m)(t \<mapsto> now + ms)
    \<and> fst (addTimer t now ms cb r m) =
        (\<not> m_tickled m \<and> (\<forall>x\<in>set (m_timers m). now + ms < m_next (t_heap m x) \<or> now + ms = m_next (t_heap m x) \<and> t < x))
    \<and> m_tickled (snd (addTimer t now ms cb r m)) = (m_tickled m \<or> fst (addTimer t now ms cb r m))"
proof -
  have "m_tickled (snd (addTimer t now ms cb r m)) = (m_tickled m \<or> fst (addTimer t now ms cb r m))"
    by (auto simp: addTimer_def addTimer_locked_def Let_def t_insert_def)
  then show ?thesis
    using addTimer_deadline [OF assms] addTimer_front [OF assms] by (auto simp: deadline_def split: if_splits)
qed

theorem addTimer_wakes_witness:
  "fst (addTimer 3 100 20 (Some 1) False example_mgr) \<and> \<not> fst (addTimer 3 100 80 (Some 1) False example_mgr)"
  using addTimer_wakes [OF example_mgr_inv, of 3 100] by (simp add: example_mgr_def Timer_def)

text \<open>
  \<open>cancel\<close>, \<open>refresh\<close> and \<open>reset\<close> keep the invariant and change the deadline of their timer only:
  \<open>cancel\<close> removes it, \<open>refresh\<close> moves it one period from now, \<open>reset\<close> moves it one new period from
  now or from its last start; on a timer that is no longer pending they change no deadline.
\<close>

theorem timer_ops_deadline:
  assumes "tm_inv m"
  shows "(\<exists>m'. cancel t m = (Inr (t \<in> set (m_timers m)), m') \<and> tm_inv m' \<and> deadline m' = (deadline m)(t := None))
    \<and> fst (refresh t now m) = (t \<in> set (m_timers m)) \<and> tm_inv (snd (refresh t now m))
    \<and> deadline (snd (refresh t now m)) =
        (if t \<in> set (m_timers m) then (deadline m)(t \<mapsto> now + m_ms (t_heap m t)) else deadline m)
    \<and> tm_inv (snd (reset t ms from_now now m))
    \<and> deadline (snd (reset t ms from_now now m)) =
        (if t \<in> set (m_timers m)
         then (deadline m)(t \<mapsto> (if from_now then now else m_next (t_heap m t) - m_ms (t_heap m t)) + ms)
         else deadline m)"
  using cancel_spec [OF assms] refresh_spec [OF assms] reset_spec [OF assms] by blast

theorem timer_ops_deadline_witness:
  "deadline (snd (reset 1 70 False 110 example_mgr)) 1 = Some 170
   \<and> deadline (snd (refresh 2 110 example_mgr)) 2 = Some 410"
  using timer_ops_deadline [OF example_mgr_inv, of 1 110 70 False] timer_ops_deadline [OF example_mgr_inv, of 2 110 70 False]
  by (simp add: example_mgr_def Timer_def deadline_def)

end
