(* ===== verification/Event_Registry.thy ===== *)
theory Event_Registry
  imports Web_Prelude
begin

text \<open>
  What the hooked system calls rely on when they put a fiber to sleep until its descriptor is
  ready: fibers register for an event, at most one per descriptor and event, and cancelling the
  event resumes the registered task exactly once.
\<close>

locale event_registry =
  fixes inv :: "'s \<Rightarrow> bool"
    and valid :: "int \<Rightarrow> bool"
    and waits :: "int \<Rightarrow> u32 \<Rightarrow> 's \<Rightarrow> (nat \<times> 't) option"
    and queue :: "'s \<Rightarrow> nat \<Rightarrow> 't list"
    and resume :: "nat \<Rightarrow> 't"
    and add :: "int \<Rightarrow> u32 \<Rightarrow> nat \<Rightarrow> nat \<Rightarrow> ('s, int) sop"
    and drop_event :: "int \<Rightarrow> u32 \<Rightarrow> ('s, bool) sop"
  assumes add_law: "inv s \<Longrightarrow> valid fd \<Longrightarrow> ev \<in> {1, 4} \<Longrightarrow> waits fd ev s = None \<Longrightarrow>
       \<exists>s'. add fd ev k f s = (Inr 0, s') \<and> inv s' \<and> waits fd ev s' = Some (k, resume f) \<and> queue s' = queue s"
    and drop_law: "inv s \<Longrightarrow> valid fd \<Longrightarrow> ev \<in> {1, 4} \<Longrightarrow> waits fd ev s = Some (k, t) \<Longrightarrow>
       \<exists>s'. drop_event fd ev s = (Inr True, s') \<and> inv s' \<and> waits fd ev s' = None
          \<and> queue s' = (queue s)(k := queue s k @ [t])"
    and drop_none: "inv s \<Longrightarrow> valid fd \<Longrightarrow> ev \<in> {1, 4} \<Longrightarrow> waits fd ev s = None \<Longrightarrow> drop_event fd ev s = (Inr False, s)"
begin

text \<open>A fiber that registered and is cancelled twice is resumed once, on its scheduler.\<close>

lemma resumed_once:
  assumes "inv s" and "valid fd" and "ev \<in> {1, 4}" and "waits fd ev s = None" and "add fd ev k f s = (r, s1)"
  shows "\<exists>s2. drop_event fd ev s1 = (Inr True, s2) \<and> inv s2 \<and> queue s2 = (queue s)(k := queue s k @ [resume f])
    \<and> drop_event fd ev s2 = (Inr False, s2)"
proof -
  from add_law [OF assms(1-4), of k f] assms(5) have s1: "inv s1" "waits fd ev s1 = Some (k, resume f)" "queue s1 = queue s"
    by auto
  from drop_law [OF s1(1) assms(2,3) s1(2)] obtain s2 where
    "drop_event fd ev s1 = (Inr True, s2)" "inv s2" "waits fd ev s2 = None" "queue s2 = (queue s1)(k := queue s1 k @ [resume f])"
    by blast
  then show ?thesis using drop_none [of s2 fd ev] assms(2,3) s1(3) by auto
qed

end

end
