(* ===== verification/IO_Manager.thy ===== *)
theory IO_Manager
  imports Scheduler Timer_Manager Event_Registry
begin

text \<open>
  The event loop (\<open>iomanager.h\<close>, \<open>iomanager.cc\<close>): the table of file descriptor contexts, registration
  and cancellation of events, the dispatch of what \<open>epoll_wait\<close> reports, the wake-up pipe and the
  idle loop that ties timers, events and the scheduler together. The results of \<open>epoll_ctl\<close> and
  \<open>epoll_wait\<close> are arguments. The operations are given whole, as one thread runs them, and split into the sections that run
  under a lock, which the steps of several threads interleave.
\<close>

section \<open>State\<close>

abbreviation NONE :: u32 where "NONE \<equiv> 0"
abbreviation READ :: u32 where "READ \<equiv> 1"
abbreviation WRITE :: u32 where "WRITE \<equiv> 4"
abbreviation EPOLLIN :: u32 where "EPOLLIN \<equiv> 1"
abbreviation EPOLLOUT :: u32 where "EPOLLOUT \<equiv> 4"
abbreviation EPOLLERR :: u32 where "EPOLLERR \<equiv> 8"
abbreviation EPOLLHUP :: u32 where "EPOLLHUP \<equiv> 16"
abbreviation EPOLLET :: u32 where "EPOLLET \<equiv> 2147483648"

record 'cb event_ctx =
  ec_scheduler :: "nat option"
  ec_fiber :: "nat option"
  ec_cb :: "'cb option"

record 'cb fd_context =
  fc_read :: "'cb event_ctx"
  fc_write :: "'cb event_ctx"
  fc_fd :: nat
  fc_events :: u32

text \<open>
  Schedulers are named by numbers, \<open>io_self\<close> is this one; an event may resume its task on any of
  them. \<open>io_pipe\<close> counts the bytes in the wake-up pipe of each.
\<close>

record 'cb iomgr =
  io_self :: nat
  io_scheds :: "nat \<Rightarrow> 'cb sched"
  io_pipe :: "nat \<Rightarrow> nat"
  io_timers :: "'cb timer_mgr"
  m_fdContexts :: "'cb fd_context list"
  m_pendingEventCount :: nat

datatype epoll_op = EPOLL_CTL_ADD | EPOLL_CTL_MOD | EPOLL_CTL_DEL

definition clean_ctx :: "'cb event_ctx" where
  "clean_ctx = \<lparr>ec_scheduler = None, ec_fiber = None, ec_cb = None\<rparr>"

definition new_FdContext :: "nat \<Rightarrow> 'cb fd_context" where
  "new_FdContext i = \<lparr>fc_read = clean_ctx, fc_write = clean_ctx, fc_fd = i, fc_events = NONE\<rparr>"

section \<open>Wake-up and scheduling\<close>

definition hasIdleThreads :: "'cb sched \<Rightarrow> bool" where
  "hasIdleThreads s = (m_idleThreadCount s > 0)"

definition io_tickle :: "nat \<Rightarrow> 'cb iomgr \<Rightarrow> 'cb iomgr" where
  "io_tickle k m = (if \<not> hasIdleThreads (io_scheds m k) then m
                    else m\<lparr>io_pipe := (io_pipe m)(k := io_pipe m k + 1)\<rparr>)"

definition onTimerInsertedAtFront :: "'cb iomgr \<Rightarrow> 'cb iomgr" where
  "onTimerInsertedAtFront m = io_tickle (io_self m) m"

text \<open>Scheduling on scheduler \<open>k\<close>, whose \<open>tickle\<close> is the one above.\<close>

definition io_schedule :: "nat \<Rightarrow> 'cb ft \<Rightarrow> 'cb iomgr \<Rightarrow> 'cb iomgr" where
  "io_schedule k t m =
     (let s = io_scheds m k; s' = schedule t s; m' = m\<lparr>io_scheds := (io_scheds m)(k := s')\<rparr> in
      if tickles s' \<noteq> tickles s then io_tickle k m' else m')"

definition io_schedule_all :: "nat \<Rightarrow> 'cb ft list \<Rightarrow> 'cb iomgr \<Rightarrow> 'cb iomgr" where
  "io_schedule_all k ts m =
     (let s = io_scheds m k; s' = schedule_all ts s; m' = m\<lparr>io_scheds := (io_scheds m)(k := s')\<rparr> in
      if tickles s' \<noteq> tickles s then io_tickle k m' else m')"

section \<open>Descriptor contexts\<close>

definition getContext :: "u32 \<Rightarrow> 'cb fd_context \<Rightarrow> fault + 'cb event_ctx" where
  "getContext event c =
     (if event = READ then Inr (fc_read c) else if event = WRITE then Inr (fc_write c)
      else Inl (Assert_Failed ''getContext''))"

definition putContext :: "u32 \<Rightarrow> 'cb event_ctx \<Rightarrow> 'cb fd_context \<Rightarrow> 'cb fd_context" where
  "putContext event e c = (if event = READ then c\<lparr>fc_read := e\<rparr> else c\<lparr>fc_write := e\<rparr>)"

definition resetContext :: "'cb event_ctx \<Rightarrow> 'cb event_ctx" where
  "resetContext e = \<lparr>ec_scheduler = None, ec_fiber = None, ec_cb = None\<rparr>"

definition upd_ctx :: "nat \<Rightarrow> ('cb fd_context \<Rightarrow> 'cb fd_context) \<Rightarrow> 'cb iomgr \<Rightarrow> 'cb iomgr" where
  "upd_ctx i f m = m\<lparr>m_fdContexts := (m_fdContexts m)[i := f (m_fdContexts m ! i)]\<rparr>"

text \<open>
  \<open>triggerEvent\<close> on the context at index \<open>i\<close>. The pointer overloads of \<open>schedule\<close> move the task out of
  the context.
\<close>

definition triggerEvent :: "nat \<Rightarrow> u32 \<Rightarrow> ('cb iomgr, unit) sop" where
  "triggerEvent i event m =
     (let c = m_fdContexts m ! i in
      if fc_events c AND event = 0 then (Inl (Assert_Failed ''events & event''), m)
      else let m1 = upd_ctx i (\<lambda>c. c\<lparr>fc_events := fc_events c AND NOT event\<rparr>) m in
        case getContext event c of Inl e \<Rightarrow> (Inl e, m1)
        | Inr e \<Rightarrow>
          (case ec_scheduler e of None \<Rightarrow> (Inl Null_Deref, m1)
           | Some k \<Rightarrow>
             let t = (if ec_cb e \<noteq> None then FiberAndThread None (ec_cb e) (- 1) else FiberAndThread (ec_fiber e) None (- 1));
                 e' = (if ec_cb e \<noteq> None then e\<lparr>ec_cb := None\<rparr> else e\<lparr>ec_fiber := None\<rparr>) in
             (Inr (), upd_ctx i (putContext event (e'\<lparr>ec_scheduler := None\<rparr>)) (io_schedule k t m1))))"

text \<open>The counter is a \<open>size_t\<close>: decrementing zero wraps.\<close>

definition dec_pending :: "'cb iomgr \<Rightarrow> 'cb iomgr" where
  "dec_pending m = m\<lparr>m_pendingEventCount := sub64 (m_pendingEventCount m) 1\<rparr>"

definition contextResize :: "nat \<Rightarrow> 'cb iomgr \<Rightarrow> 'cb iomgr" where
  "contextResize sz m =
     m\<lparr>m_fdContexts := take sz (m_fdContexts m) @ map new_FdContext [length (m_fdContexts m)..<sz]\<rparr>"

text \<open>
  The epoll set, the pipe and the started scheduler; the system calls succeeded, which the source
  asserts.
\<close>

definition IOManager :: "nat \<Rightarrow> (nat \<Rightarrow> 'cb sched) \<Rightarrow> u64 \<Rightarrow> 'cb iomgr" where
  "IOManager self scheds now =
     contextResize 32 \<lparr>io_self = self, io_scheds = scheds, io_pipe = (\<lambda>_. 0), io_timers = TimerManager now,
                       m_fdContexts = [], m_pendingEventCount = 0\<rparr>"

section \<open>Registration\<close>

text \<open>\<open>m_fdContexts[fd]\<close>, undefined outside the vector.\<close>

definition ctx_at :: "int \<Rightarrow> 'cb iomgr \<Rightarrow> fault + nat" where
  "ctx_at fd m = (if 0 \<le> fd \<and> fd < int (length (m_fdContexts m)) then Inr (nat fd) else Inl Buffer_Overflow)"

text \<open>The first half of \<open>addEvent\<close>: look the context up, growing the table when it is too small.\<close>

definition needs_resize :: "int \<Rightarrow> 'cb iomgr \<Rightarrow> bool" where
  "needs_resize fd m = (\<not> int (length (m_fdContexts m)) > fd)"

definition grow_for :: "int \<Rightarrow> 'cb iomgr \<Rightarrow> 'cb iomgr" where
  "grow_for fd m = contextResize (nat (fd * 3 div 2)) m"

text \<open>
  The second half, under the context's lock: \<open>rt\<close> is the result of \<open>epoll_ctl\<close>, \<open>this\<close> the scheduler of
  the calling thread, \<open>cur\<close> its current fiber and the fiber's state.
\<close>

definition addEvent_ctx ::
  "nat \<Rightarrow> u32 \<Rightarrow> 'cb option \<Rightarrow> int \<Rightarrow> nat option \<Rightarrow> nat \<times> fiber_state \<Rightarrow> ('cb iomgr, int) sop" where
  "addEvent_ctx i event cb rt this cur m =
     (let c = m_fdContexts m ! i in
      if fc_events c AND event \<noteq> 0 then (Inl (Assert_Failed ''!(fd_ctx->events & event)''), m)
      else if rt \<noteq> 0 then (Inr (- 1), m)
      else let m1 = upd_ctx i (\<lambda>c. c\<lparr>fc_events := fc_events c OR event\<rparr>)
                      (m\<lparr>m_pendingEventCount := m_pendingEventCount m + 1\<rparr>) in
        case getContext event c of Inl e \<Rightarrow> (Inl e, m1)
        | Inr e \<Rightarrow>
          if ec_scheduler e \<noteq> None \<or> ec_fiber e \<noteq> None \<or> ec_cb e \<noteq> None
          then (Inl (Assert_Failed ''event_ctx''), m1)
          else if cb \<noteq> None then
            (Inr 0, upd_ctx i (putContext event (e\<lparr>ec_scheduler := this, ec_cb := cb\<rparr>)) m1)
          else let m2 = upd_ctx i (putContext event (e\<lparr>ec_scheduler := this, ec_fiber := Some (fst cur)\<rparr>)) m1 in
            if snd cur = EXEC then (Inr 0, m2) else (Inl (Assert_Failed ''state=''), m2))"

definition addEvent ::
  "int \<Rightarrow> u32 \<Rightarrow> 'cb option \<Rightarrow> int \<Rightarrow> nat option \<Rightarrow> nat \<times> fiber_state \<Rightarrow> ('cb iomgr, int) sop" where
  "addEvent fd event cb rt this cur m =
     (let m = (if needs_resize fd m then grow_for fd m else m) in
      case ctx_at fd m of Inl e \<Rightarrow> (Inl e, m) | Inr i \<Rightarrow> addEvent_ctx i event cb rt this cur m)"

text \<open>The \<open>epoll_ctl\<close> operation and event mask each function passes to the kernel.\<close>

definition epoll_add :: "u32 \<Rightarrow> u32 \<Rightarrow> epoll_op \<times> u32" where
  "epoll_add events event = (if events \<noteq> 0 then EPOLL_CTL_MOD else EPOLL_CTL_ADD, EPOLLET OR events OR event)"

definition epoll_left :: "u32 \<Rightarrow> epoll_op \<times> u32" where
  "epoll_left new_events = (if new_events \<noteq> 0 then EPOLL_CTL_MOD else EPOLL_CTL_DEL, EPOLLET OR new_events)"

text \<open>
  The other operations look the context up under the lock of the table and then work under the lock of the context,
  as \<open>addEvent\<close> does.
\<close>

definition delEvent_ctx :: "nat \<Rightarrow> u32 \<Rightarrow> int \<Rightarrow> ('cb iomgr, bool) sop" where
  "delEvent_ctx i event rt m =
     (let c = m_fdContexts m ! i in
      if fc_events c AND event = 0 then (Inr False, m)
      else if rt \<noteq> 0 then (Inr False, m)
      else let m1 = upd_ctx i (\<lambda>c. c\<lparr>fc_events := fc_events c AND NOT event\<rparr>) (dec_pending m) in
        case getContext event c of Inl e \<Rightarrow> (Inl e, m1)
        | Inr e \<Rightarrow> (Inr True, upd_ctx i (putContext event (resetContext e)) m1))"

definition delEvent :: "int \<Rightarrow> u32 \<Rightarrow> int \<Rightarrow> ('cb iomgr, bool) sop" where
  "delEvent fd event rt m =
     (if int (length (m_fdContexts m)) \<le> fd then (Inr False, m)
      else case ctx_at fd m of Inl e \<Rightarrow> (Inl e, m) | Inr i \<Rightarrow> delEvent_ctx i event rt m)"

definition cancelEvent_ctx :: "nat \<Rightarrow> u32 \<Rightarrow> int \<Rightarrow> ('cb iomgr, bool) sop" where
  "cancelEvent_ctx i event rt m =
     (if fc_events (m_fdContexts m ! i) AND event = 0 then (Inr False, m)
      else if rt \<noteq> 0 then (Inr False, m)
      else and_then (triggerEvent i event) (\<lambda>_ m. (Inr True, dec_pending m)) m)"

definition cancelEvent :: "int \<Rightarrow> u32 \<Rightarrow> int \<Rightarrow> ('cb iomgr, bool) sop" where
  "cancelEvent fd event rt m =
     (if int (length (m_fdContexts m)) \<le> fd then (Inr False, m)
      else case ctx_at fd m of Inl e \<Rightarrow> (Inl e, m) | Inr i \<Rightarrow> cancelEvent_ctx i event rt m)"

text \<open>Trigger an event if it is among the given ones, as \<open>cancelAll\<close> and the dispatch loop do.\<close>

definition trigger_if :: "bool \<Rightarrow> nat \<Rightarrow> u32 \<Rightarrow> ('cb iomgr, unit) sop" where
  "trigger_if b i event = (if b then and_then (triggerEvent i event) (\<lambda>_ m. (Inr (), dec_pending m)) else ret ())"

definition cancelAll_ctx :: "nat \<Rightarrow> int \<Rightarrow> ('cb iomgr, bool) sop" where
  "cancelAll_ctx i rt m =
     (if fc_events (m_fdContexts m ! i) = 0 then (Inr False, m)
      else if rt \<noteq> 0 then (Inr False, m)
      else and_then (trigger_if (fc_events (m_fdContexts m ! i) AND READ \<noteq> 0) i READ) (\<lambda>_ m.
           and_then (trigger_if (fc_events (m_fdContexts m ! i) AND WRITE \<noteq> 0) i WRITE) (\<lambda>_ m.
             if fc_events (m_fdContexts m ! i) = 0 then (Inr True, m)
             else (Inl (Assert_Failed ''fd_ctx->events == 0''), m)) m) m)"

definition cancelAll :: "int \<Rightarrow> int \<Rightarrow> ('cb iomgr, bool) sop" where
  "cancelAll fd rt m =
     (if int (length (m_fdContexts m)) \<le> fd then (Inr False, m)
      else case ctx_at fd m of Inl e \<Rightarrow> (Inl e, m) | Inr i \<Rightarrow> cancelAll_ctx i rt m)"

section \<open>The idle loop\<close>

definition io_stopping :: "u64 \<Rightarrow> 'cb iomgr \<Rightarrow> (bool \<times> u64) \<times> 'cb iomgr" where
  "io_stopping now m =
     (let (timeout, tm) = getNextTimer now (io_timers m) in
      ((timeout = NOT 0 \<and> m_pendingEventCount m = 0 \<and> stopping (io_scheds m (io_self m)), timeout),
       m\<lparr>io_timers := tm\<rparr>))"

text \<open>The argument of \<open>epoll_wait\<close>, an \<open>int\<close>, with the casts of the source; the body repeats on \<open>EINTR\<close>.\<close>

definition wait_timeout :: "u64 \<Rightarrow> u64" where
  "wait_timeout next_timeout =
     (if next_timeout \<noteq> NOT 0 then if sint (ucast next_timeout :: u32) > 3000 then 3000 else next_timeout
      else 3000)"

definition epoll_timeout :: "u64 \<Rightarrow> int" where
  "epoll_timeout next_timeout = sint (ucast (wait_timeout next_timeout) :: u32)"

text \<open>
  One reported event: the mask for the context at index \<open>i\<close>, or the wake-up pipe (drained). \<open>rt2\<close> is
  the result of the \<open>epoll_ctl\<close> call for it.
\<close>

datatype reported = Pipe | On_Fd nat u32 int

definition dispatch :: "reported \<Rightarrow> ('cb iomgr, unit) sop" where
  "dispatch r m =
     (case r of Pipe \<Rightarrow> (Inr (), m\<lparr>io_pipe := (io_pipe m)(io_self m := 0)\<rparr>)
      | On_Fd i ev rt2 \<Rightarrow>
        (let events = fc_events (m_fdContexts m ! i);
             ev = (if ev AND (EPOLLERR OR EPOLLHUP) \<noteq> 0 then ev OR ((EPOLLIN OR EPOLLOUT) AND events) else ev);
             real_events = (if ev AND EPOLLIN \<noteq> 0 then READ else NONE) OR (if ev AND EPOLLOUT \<noteq> 0 then WRITE else NONE) in
         if events AND real_events = NONE then (Inr (), m)
         else if rt2 \<noteq> 0 then (Inr (), m)
         else and_then (trigger_if (real_events AND READ \<noteq> 0) i READ) (\<lambda>_.
                trigger_if (real_events AND WRITE \<noteq> 0) i WRITE) m))"

primrec dispatch_all :: "reported list \<Rightarrow> ('cb iomgr, unit) sop" where
  "dispatch_all [] = ret ()"
| "dispatch_all (r # rs) = and_then (dispatch r) (\<lambda>_. dispatch_all rs)"

text \<open>
  One pass of the loop body up to the switch out: whether the loop ends. \<open>k\<close> is the address of the
  temporary timer of \<open>listExpiredCb\<close>, \<open>now\<close> and \<open>now'\<close> the clock before and after the wait.
\<close>

definition idle_round :: "nat \<Rightarrow> u64 \<Rightarrow> u64 \<Rightarrow> reported list \<Rightarrow> ('cb iomgr, bool) sop" where
  "idle_round k now now' rs m =
     (case io_stopping now m of ((stop, next_timeout), m) \<Rightarrow>
        if stop then (Inr True, m)
        else case listExpiredCb k now' (io_timers m) of (cbs, tm) \<Rightarrow>
          let m = m\<lparr>io_timers := tm\<rparr>;
              m = (if cbs \<noteq> [] then io_schedule_all (io_self m) (map (\<lambda>cb. FiberAndThread None cb (- 1)) cbs) m else m) in
          and_then (dispatch_all rs) (\<lambda>_. ret False) m)"

section \<open>Invariant\<close>

text \<open>
  A context has only read and write events; a registered event has a scheduler and exactly one of
  callback and fiber, an unregistered one is clean; and the pending counter counts the
  registrations.
\<close>

definition ectx_ok :: "bool \<Rightarrow> 'cb event_ctx \<Rightarrow> bool" where
  "ectx_ok reg e = (if reg then ec_scheduler e \<noteq> None \<and> (ec_cb e \<noteq> None) \<noteq> (ec_fiber e \<noteq> None) else e = clean_ctx)"

definition ctx_ok :: "'cb fd_context \<Rightarrow> bool" where
  "ctx_ok c \<longleftrightarrow> fc_events c \<in> {0, 1, 4, 5} \<and> ectx_ok (fc_events c AND READ \<noteq> 0) (fc_read c)
     \<and> ectx_ok (fc_events c AND WRITE \<noteq> 0) (fc_write c)"

definition regs :: "'cb fd_context \<Rightarrow> nat" where
  "regs c = (if fc_events c AND READ \<noteq> 0 then 1 else 0) + (if fc_events c AND WRITE \<noteq> 0 then 1 else 0)"

definition io_inv :: "'cb iomgr \<Rightarrow> bool" where
  "io_inv m \<longleftrightarrow> list_all ctx_ok (m_fdContexts m) \<and> m_pendingEventCount m = sum_list (map regs (m_fdContexts m))
     \<and> tm_inv (io_timers m)"

lemma sum_regs_update:
  assumes "i < length cs"
  shows "sum_list (map regs (cs[i := c])) + regs (cs ! i) = sum_list (map regs cs) + regs c"
  using assms by (simp add: map_update sum_list_update) (metis add_diff_inverse_nat elem_le_sum_list
      length_map not_less nth_map add.commute le_add2 add.assoc add_diff_cancel_left' diff_add_assoc2)

lemma io_schedule_frame [simp]:
  "m_fdContexts (io_schedule k t m) = m_fdContexts m" "m_pendingEventCount (io_schedule k t m) = m_pendingEventCount m"
  "io_timers (io_schedule k t m) = io_timers m" "io_self (io_schedule k t m) = io_self m"
  by (simp_all add: io_schedule_def io_tickle_def Let_def)

lemma io_schedule_all_frame [simp]:
  "m_fdContexts (io_schedule_all k ts m) = m_fdContexts m"
  "m_pendingEventCount (io_schedule_all k ts m) = m_pendingEventCount m"
  "io_timers (io_schedule_all k ts m) = io_timers m" "io_self (io_schedule_all k ts m) = io_self m"
  by (simp_all add: io_schedule_all_def io_tickle_def Let_def)

lemma upd_ctx_frame [simp]:
  "m_pendingEventCount (upd_ctx i f m) = m_pendingEventCount m" "io_timers (upd_ctx i f m) = io_timers m"
  "io_scheds (upd_ctx i f m) = io_scheds m" "io_self (upd_ctx i f m) = io_self m" "io_pipe (upd_ctx i f m) = io_pipe m"
  "m_fdContexts (upd_ctx i f m) = (m_fdContexts m)[i := f (m_fdContexts m ! i)]"
  by (simp_all add: upd_ctx_def)

lemma dec_pending_frame [simp]:
  "m_fdContexts (dec_pending m) = m_fdContexts m" "io_timers (dec_pending m) = io_timers m"
  "io_scheds (dec_pending m) = io_scheds m" "m_pendingEventCount (dec_pending m) = sub64 (m_pendingEventCount m) 1"
  by (simp_all add: dec_pending_def)

text \<open>The task an event resumes, and the context without the event.\<close>

definition task_of :: "'cb event_ctx \<Rightarrow> 'cb ft" where
  "task_of e = (if ec_cb e \<noteq> None then FiberAndThread None (ec_cb e) (- 1) else FiberAndThread (ec_fiber e) None (- 1))"

definition ev_ctx :: "u32 \<Rightarrow> 'cb fd_context \<Rightarrow> 'cb event_ctx" where
  "ev_ctx event c = (if event = READ then fc_read c else fc_write c)"

definition cleared :: "u32 \<Rightarrow> 'cb fd_context \<Rightarrow> 'cb fd_context" where
  "cleared event c = putContext event clean_ctx (c\<lparr>fc_events := fc_events c AND NOT event\<rparr>)"

lemma cleared_ok:
  assumes "ctx_ok c" and "event \<in> {READ, WRITE}" and "fc_events c AND event \<noteq> 0"
  shows "ctx_ok (cleared event c)" "regs (cleared event c) + 1 = regs c" "fc_events (cleared event c) = fc_events c AND NOT event"
    "fc_events c = event \<or> fc_events c = 5"
proof -
  have "fc_events c \<in> {0, 1, 4, 5}" using assms(1) by (simp add: ctx_ok_def)
  then consider "fc_events c = 1" "event = 1" | "fc_events c = 5" "event = 1" | "fc_events c = 4" "event = 4"
    | "fc_events c = 5" "event = 4"
    using assms(2,3) by (elim insertE emptyE) simp_all
  then show "ctx_ok (cleared event c)" "regs (cleared event c) + 1 = regs c"
    "fc_events (cleared event c) = fc_events c AND NOT event" "fc_events c = event \<or> fc_events c = 5"
    using assms(1) by (cases; simp add: ctx_ok_def cleared_def putContext_def regs_def ectx_ok_def)+
qed

lemma triggerEvent_spec:
  assumes "ctx_ok (m_fdContexts m ! i)" and "i < length (m_fdContexts m)" and "event \<in> {READ, WRITE}"
    and "fc_events (m_fdContexts m ! i) AND event \<noteq> 0"
  shows "\<exists>k. ec_scheduler (ev_ctx event (m_fdContexts m ! i)) = Some k
    \<and> triggerEvent i event m = (Inr (), upd_ctx i (cleared event) (io_schedule k (task_of (ev_ctx event (m_fdContexts m ! i))) m))"
proof -
  let ?c = "m_fdContexts m ! i"
  have e: "getContext event ?c = Inr (ev_ctx event ?c)" using assms(3) by (auto simp: getContext_def ev_ctx_def)
  have ok: "ectx_ok True (ev_ctx event ?c)" using assms by (auto simp: ctx_ok_def ev_ctx_def)
  then obtain k where k: "ec_scheduler (ev_ctx event ?c) = Some k" by (auto simp: ectx_ok_def)
  have clean: "ec_cb (ev_ctx event ?c) \<noteq> None \<Longrightarrow> (ev_ctx event ?c)\<lparr>ec_cb := None, ec_scheduler := None\<rparr> = clean_ctx"
    "ec_cb (ev_ctx event ?c) = None \<Longrightarrow> (ev_ctx event ?c)\<lparr>ec_fiber := None, ec_scheduler := None\<rparr> = clean_ctx"
    using ok by (cases "ev_ctx event ?c"; simp add: ectx_ok_def clean_ctx_def)+
  have "io_schedule k' t (upd_ctx i f m) = upd_ctx i f (io_schedule k' t m)" for k' t f
    by (simp add: io_schedule_def io_tickle_def upd_ctx_def Let_def)
  then have "triggerEvent i event m = (Inr (), upd_ctx i (cleared event) (io_schedule k (task_of (ev_ctx event ?c)) m))"
    using assms(2,4) e k clean
    by (cases "ec_cb (ev_ctx event ?c)") (simp_all add: triggerEvent_def Let_def cleared_def task_of_def upd_ctx_def)
  with k show ?thesis by blast
qed

text \<open>Clearing an event and decrementing the counter keep the invariant.\<close>

lemma io_inv_cleared:
  assumes "io_inv m" and "i < length (m_fdContexts m)" and "event \<in> {READ, WRITE}"
    and "fc_events (m_fdContexts m ! i) AND event \<noteq> 0"
    and "m_fdContexts m' = (m_fdContexts m)[i := cleared event (m_fdContexts m ! i)]"
    and "m_pendingEventCount m' = sub64 (m_pendingEventCount m) 1" and "tm_inv (io_timers m')"
  shows "io_inv m'"
proof -
  have ok: "ctx_ok (m_fdContexts m ! i)" using assms(1,2) by (simp add: io_inv_def list_all_length)
  note cl = cleared_ok [OF ok assms(3,4)]
  have "sum_list (map regs (m_fdContexts m')) + 1 = sum_list (map regs (m_fdContexts m))"
    using sum_regs_update [OF assms(2), of "cleared event (m_fdContexts m ! i)"] cl(2) assms(5) by simp
  moreover have "list_all ctx_ok (m_fdContexts m')"
    using assms(1,2,5) cl(1) by (auto simp: io_inv_def list_all_length nth_list_update)
  ultimately show ?thesis using assms(1,6,7) by (simp add: io_inv_def)
qed

text \<open>One triggered event, as all callers use it.\<close>

lemma trigger_if_spec:
  assumes "io_inv m" and "i < length (m_fdContexts m)" and "event \<in> {READ, WRITE}"
    and "b \<Longrightarrow> fc_events (m_fdContexts m ! i) AND event \<noteq> 0"
  shows "\<exists>m' k. trigger_if b i event m = (Inr (), m') \<and> io_inv m' \<and> io_self m' = io_self m
    \<and> m_fdContexts m' = (if b then (m_fdContexts m)[i := cleared event (m_fdContexts m ! i)] else m_fdContexts m)
    \<and> io_scheds m' = (if b then io_scheds (io_schedule k (task_of (ev_ctx event (m_fdContexts m ! i))) m) else io_scheds m)
    \<and> (b \<longrightarrow> ec_scheduler (ev_ctx event (m_fdContexts m ! i)) = Some k)"
proof (cases b)
  case True
  have ok: "ctx_ok (m_fdContexts m ! i)" using assms(1,2) by (simp add: io_inv_def list_all_length)
  from triggerEvent_spec [OF ok assms(2,3) assms(4) [OF True]] obtain k where
    k: "ec_scheduler (ev_ctx event (m_fdContexts m ! i)) = Some k"
    "triggerEvent i event m = (Inr (), upd_ctx i (cleared event) (io_schedule k (task_of (ev_ctx event (m_fdContexts m ! i))) m))"
    by blast
  let ?m' = "dec_pending (upd_ctx i (cleared event) (io_schedule k (task_of (ev_ctx event (m_fdContexts m ! i))) m))"
  have "io_inv ?m'"
    by (rule io_inv_cleared [OF assms(1-3) assms(4) [OF True]]) (use assms(1) in \<open>simp_all add: io_inv_def\<close>)
  then show ?thesis
    using True k by (intro exI [of _ ?m'] exI [of _ k]) (simp add: trigger_if_def op_simps dec_pending_def)
qed (use assms(1) in \<open>simp add: trigger_if_def ret_def\<close>)

section \<open>Behaviour of the operations\<close>

definition registered :: "int \<Rightarrow> u32 \<Rightarrow> 'cb iomgr \<Rightarrow> bool" where
  "registered fd event m \<longleftrightarrow> 0 \<le> fd \<and> fd < int (length (m_fdContexts m))
     \<and> fc_events (m_fdContexts m ! nat fd) AND event \<noteq> 0"

abbreviation ctx_of :: "'cb iomgr \<Rightarrow> int \<Rightarrow> 'cb fd_context" where
  "ctx_of m fd \<equiv> m_fdContexts m ! nat fd"

lemma registered_ctx:
  assumes "io_inv m" and "registered fd event m"
  shows "nat fd < length (m_fdContexts m)" "ctx_ok (ctx_of m fd)" "ctx_at fd m = Inr (nat fd)"
    "fc_events (ctx_of m fd) AND event \<noteq> 0" "\<not> int (length (m_fdContexts m)) \<le> fd"
  using assms by (auto simp: registered_def io_inv_def list_all_length ctx_at_def)

text \<open>What the task queues look like after an event resumed its task.\<close>

lemma io_schedule_queue:
  "m_fibers (io_scheds (io_schedule k t m) j) =
     m_fibers (io_scheds m j) @ (if j = k \<and> ft_ok t then [t] else [])"
  by (simp add: io_schedule_def io_tickle_def Let_def)

lemma task_of_ok: "ectx_ok True e \<Longrightarrow> ft_ok (task_of e)"
  by (auto simp: ectx_ok_def task_of_def ft_ok_def FiberAndThread_def)

lemma ev_ctx_ok:
  assumes "ctx_ok c" and "event \<in> {READ, WRITE}" and "fc_events c AND event \<noteq> 0"
  shows "ectx_ok True (ev_ctx event c)"
  using assms by (auto simp: ctx_ok_def ev_ctx_def)

lemma delEvent_spec:
  assumes "io_inv m" and "event \<in> {READ, WRITE}" and "registered fd event m"
  defines "m' \<equiv> upd_ctx (nat fd) (cleared event) (dec_pending m)"
  shows "delEvent fd event 0 m = (Inr True, m')" "io_inv m'"
proof -
  note r = registered_ctx [OF assms(1,3)]
  have "getContext event (ctx_of m fd) = Inr (ev_ctx event (ctx_of m fd))"
    using assms(2) by (auto simp: getContext_def ev_ctx_def)
  then show "delEvent fd event 0 m = (Inr True, m')"
    using r assms(2) by (simp add: delEvent_def delEvent_ctx_def Let_def m'_def cleared_def upd_ctx_def resetContext_def clean_ctx_def)
  show "io_inv m'" unfolding m'_def
    by (rule io_inv_cleared [OF assms(1) r(1) assms(2) r(4)]) (use assms(1) in \<open>simp_all add: io_inv_def\<close>)
qed

lemma delEvent_no_effect:
  assumes "0 \<le> fd" and "\<not> registered fd event m \<or> rt \<noteq> 0"
  shows "delEvent fd event rt m = (Inr False, m)"
  using assms by (auto simp: delEvent_def delEvent_ctx_def registered_def ctx_at_def Let_def)

lemma cancelEvent_spec:
  assumes "io_inv m" and "event \<in> {READ, WRITE}" and "registered fd event m"
  shows "\<exists>m' k. cancelEvent fd event 0 m = (Inr True, m') \<and> io_inv m'
    \<and> m_fdContexts m' = (m_fdContexts m)[nat fd := cleared event (ctx_of m fd)]
    \<and> ec_scheduler (ev_ctx event (ctx_of m fd)) = Some k
    \<and> m_fibers (io_scheds m' j) = m_fibers (io_scheds m j) @ (if j = k then [task_of (ev_ctx event (ctx_of m fd))] else [])"
proof -
  note r = registered_ctx [OF assms(1,3)]
  from trigger_if_spec [OF assms(1) r(1) assms(2), of True] r(4) obtain m' k where m':
    "trigger_if True (nat fd) event m = (Inr (), m')" "io_inv m'"
    "m_fdContexts m' = (m_fdContexts m)[nat fd := cleared event (ctx_of m fd)]"
    "io_scheds m' = io_scheds (io_schedule k (task_of (ev_ctx event (ctx_of m fd))) m)"
    "ec_scheduler (ev_ctx event (ctx_of m fd)) = Some k" by auto
  have ok: "ft_ok (task_of (ev_ctx event (ctx_of m fd)))"
    by (rule task_of_ok [OF ev_ctx_ok [OF r(2) assms(2) r(4)]])
  have "cancelEvent fd event 0 m = and_then (trigger_if True (nat fd) event) (\<lambda>_. ret True) m"
    using r by (simp add: cancelEvent_def cancelEvent_ctx_def trigger_if_def and_then_def ret_def split: prod.splits sum.splits)
  then have "cancelEvent fd event 0 m = (Inr True, m')" using m'(1) by (simp add: op_simps)
  then show ?thesis using m' io_schedule_queue [of k _ m j] ok by auto
qed

lemma cancelEvent_no_effect:
  assumes "0 \<le> fd" and "\<not> registered fd event m \<or> rt \<noteq> 0"
  shows "cancelEvent fd event rt m = (Inr False, m)"
  using assms by (auto simp: cancelEvent_def cancelEvent_ctx_def registered_def ctx_at_def)

text \<open>The tasks \<open>cancelAll\<close> and the dispatch resume, read event first.\<close>

definition wake :: "bool \<Rightarrow> u32 \<Rightarrow> 'cb fd_context \<Rightarrow> nat \<Rightarrow> 'cb ft list" where
  "wake b event c j = (if b \<and> ec_scheduler (ev_ctx event c) = Some j then [task_of (ev_ctx event c)] else [])"

lemma trigger_both:
  assumes "io_inv m" and "i < length (m_fdContexts m)"
    and "r \<Longrightarrow> fc_events (m_fdContexts m ! i) AND READ \<noteq> 0" and "w \<Longrightarrow> fc_events (m_fdContexts m ! i) AND WRITE \<noteq> 0"
  shows "\<exists>m'. and_then (trigger_if r i READ) (\<lambda>_. trigger_if w i WRITE) m = (Inr (), m') \<and> io_inv m'
    \<and> m_fdContexts m' = (m_fdContexts m)[i := (if w then cleared WRITE else id) ((if r then cleared READ else id) (m_fdContexts m ! i))]
    \<and> (\<forall>j. m_fibers (io_scheds m' j) =
         m_fibers (io_scheds m j) @ wake r READ (m_fdContexts m ! i) j @ wake w WRITE (m_fdContexts m ! i) j)"
proof -
  let ?c = "m_fdContexts m ! i"
  have ok: "ctx_ok ?c" using assms(1,2) by (simp add: io_inv_def list_all_length)
  have oks: "r \<Longrightarrow> ft_ok (task_of (ev_ctx READ ?c))" "w \<Longrightarrow> ft_ok (task_of (ev_ctx WRITE ?c))"
    using ev_ctx_ok [OF ok] assms(3,4) task_of_ok by auto
  from trigger_if_spec [OF assms(1,2), of READ r] assms(3) obtain m1 k where m1:
    "trigger_if r i READ m = (Inr (), m1)" "io_inv m1" "m_fdContexts m1 = (if r then (m_fdContexts m)[i := cleared READ ?c] else m_fdContexts m)"
    "io_scheds m1 = (if r then io_scheds (io_schedule k (task_of (ev_ctx READ ?c)) m) else io_scheds m)"
    "r \<longrightarrow> ec_scheduler (ev_ctx READ ?c) = Some k" by auto
  have c1: "m_fdContexts m1 ! i = (if r then cleared READ ?c else ?c)" "i < length (m_fdContexts m1)"
    using m1(3) assms(2) by simp_all
  have ev: "fc_events (m_fdContexts m1 ! i) AND WRITE \<noteq> 0" if w
  proof -
    have "fc_events ?c \<in> {0, 1, 4, 5}" using ok by (simp add: ctx_ok_def)
    then have "fc_events ?c = 4 \<or> fc_events ?c = 5" using assms(4) [OF that] by auto
    then show ?thesis using c1 cleared_ok(3) [OF ok, of READ] assms(3) by auto
  qed
  have same: "ev_ctx WRITE (m_fdContexts m1 ! i) = ev_ctx WRITE ?c"
    using c1(1) by (simp add: ev_ctx_def cleared_def putContext_def)
  from trigger_if_spec [OF m1(2) c1(2), of WRITE w] ev obtain m2 l where m2:
    "trigger_if w i WRITE m1 = (Inr (), m2)" "io_inv m2"
    "m_fdContexts m2 = (if w then (m_fdContexts m1)[i := cleared WRITE (m_fdContexts m1 ! i)] else m_fdContexts m1)"
    "io_scheds m2 = (if w then io_scheds (io_schedule l (task_of (ev_ctx WRITE ?c)) m1) else io_scheds m1)"
    "w \<longrightarrow> ec_scheduler (ev_ctx WRITE ?c) = Some l" unfolding same by auto
  have "m_fibers (io_scheds m2 j) =
         m_fibers (io_scheds m j) @ wake r READ ?c j @ wake w WRITE ?c j" for j
    using m1(4,5) m2(4,5) oks by (auto simp: io_schedule_queue wake_def)
  moreover have "m_fdContexts m2 = (m_fdContexts m)[i := (if w then cleared WRITE else id) ((if r then cleared READ else id) ?c)]"
    using m1(3) m2(3) c1 assms(2) by simp
  moreover have "and_then (trigger_if r i READ) (\<lambda>_. trigger_if w i WRITE) m = (Inr (), m2)"
    using m1(1) m2(1) by (simp add: op_simps)
  ultimately show ?thesis using m2(2) by blast
qed

lemma both_cleared:
  assumes "ctx_ok c"
  shows "fc_events ((if fc_events c AND WRITE \<noteq> 0 then cleared WRITE else id)
           ((if fc_events c AND READ \<noteq> 0 then cleared READ else id) c)) = 0"
proof -
  have "fc_events c \<in> {0, 1, 4, 5}" using assms by (simp add: ctx_ok_def)
  then show ?thesis by (elim insertE emptyE) (simp_all add: cleared_def putContext_def)
qed

lemma cancelAll_spec:
  assumes "io_inv m" and "0 \<le> fd" and "fd < int (length (m_fdContexts m))" and "fc_events (ctx_of m fd) \<noteq> 0"
  shows "\<exists>m'. cancelAll fd 0 m = (Inr True, m') \<and> io_inv m' \<and> fc_events (ctx_of m' fd) = 0
    \<and> (\<forall>j. m_fibers (io_scheds m' j) = m_fibers (io_scheds m j)
         @ wake (registered fd READ m) READ (ctx_of m fd) j @ wake (registered fd WRITE m) WRITE (ctx_of m fd) j)"
proof -
  let ?i = "nat fd" and ?c = "ctx_of m fd"
  let ?r = "fc_events ?c AND READ \<noteq> 0" and ?w = "fc_events ?c AND WRITE \<noteq> 0"
  have i: "?i < length (m_fdContexts m)" using assms(2,3) by linarith
  have ok: "ctx_ok ?c" using assms(1) i by (simp add: io_inv_def list_all_length)
  have reg: "registered fd READ m = ?r" "registered fd WRITE m = ?w" using assms(2,3) by (simp_all add: registered_def)
  from trigger_both [OF assms(1) i, of ?r ?w] obtain m' where m':
    "and_then (trigger_if ?r ?i READ) (\<lambda>_. trigger_if ?w ?i WRITE) m = (Inr (), m')" "io_inv m'"
    "m_fdContexts m' = (m_fdContexts m)[?i := (if ?w then cleared WRITE else id) ((if ?r then cleared READ else id) ?c)]"
    "\<forall>j. m_fibers (io_scheds m' j) = m_fibers (io_scheds m j) @ wake ?r READ ?c j @ wake ?w WRITE ?c j" by auto
  have ev': "fc_events (ctx_of m' fd) = 0" using m'(3) both_cleared [OF ok] i by simp
  from m'(1) obtain m1 where m1: "trigger_if ?r ?i READ m = (Inr (), m1)" "trigger_if ?w ?i WRITE m1 = (Inr (), m')"
    by (auto elim: and_then_InrE)
  from trigger_if_spec [OF assms(1) i, of READ ?r] m1(1)
  have "m_fdContexts m1 = (if ?r then (m_fdContexts m)[?i := cleared READ ?c] else m_fdContexts m)" by auto
  moreover have "fc_events (cleared READ ?c) AND WRITE = fc_events ?c AND WRITE"
    using ok by (auto simp: ctx_ok_def cleared_def putContext_def)
  ultimately have w1: "(fc_events (m_fdContexts m1 ! ?i) AND WRITE \<noteq> 0) = ?w" using i by auto
  have "cancelAll fd 0 m = (Inr True, m')"
    using assms(2-4) m1 w1 ev' by (simp add: cancelAll_def cancelAll_ctx_def ctx_at_def op_simps)
  then show ?thesis using m'(2,4) ev' reg by simp
qed

lemma new_FdContext_ok [simp]:
  "regs (new_FdContext i) = 0" "ctx_ok (new_FdContext i)" "fc_events (new_FdContext i) = 0"
  by (simp_all add: regs_def new_FdContext_def ctx_ok_def ectx_ok_def)

lemma contextResize_inv [inv_intros]:
  assumes "io_inv m" and "length (m_fdContexts m) \<le> sz"
  shows "io_inv (contextResize sz m)"
  using assms by (auto simp: io_inv_def contextResize_def list_all_iff)

text \<open>The context a descriptor has, looking through the growth of the table.\<close>

definition ctx_or_new :: "int \<Rightarrow> 'cb iomgr \<Rightarrow> 'cb fd_context" where
  "ctx_or_new fd m = (if nat fd < length (m_fdContexts m) then ctx_of m fd else new_FdContext (nat fd))"

lemma grow_for_spec:
  assumes "io_inv m" and "0 < fd" and "needs_resize fd m"
  shows "io_inv (grow_for fd m)" "nat fd < length (m_fdContexts (grow_for fd m)) \<longleftrightarrow> 1 < fd"
    "1 < fd \<Longrightarrow> ctx_of (grow_for fd m) fd = new_FdContext (nat fd)"
    "io_scheds (grow_for fd m) = io_scheds m" "m_pendingEventCount (grow_for fd m) = m_pendingEventCount m"
proof -
  have len: "length (m_fdContexts m) \<le> nat fd" using assms(2,3) by (simp add: needs_resize_def)
  have sz: "nat fd \<le> nat (fd * 3 div 2)" "nat fd < nat (fd * 3 div 2) \<longleftrightarrow> 1 < fd" using assms(2) by linarith+
  show "io_inv (grow_for fd m)" unfolding grow_for_def
    by (rule contextResize_inv [OF assms(1)]) (use len sz in linarith)
  have l: "length (m_fdContexts (grow_for fd m)) = nat (fd * 3 div 2)"
    using len sz by (simp add: grow_for_def contextResize_def)
  then show "nat fd < length (m_fdContexts (grow_for fd m)) \<longleftrightarrow> 1 < fd" using sz by simp
  show "ctx_of (grow_for fd m) fd = new_FdContext (nat fd)" if "1 < fd"
    using len sz that by (simp add: grow_for_def contextResize_def nth_append)
qed (simp_all add: grow_for_def contextResize_def)

text \<open>The event context after a registration.\<close>

definition armed :: "nat \<Rightarrow> 'cb option \<Rightarrow> nat \<Rightarrow> 'cb event_ctx" where
  "armed k cb cur = (if cb \<noteq> None then \<lparr>ec_scheduler = Some k, ec_fiber = None, ec_cb = cb\<rparr>
                     else \<lparr>ec_scheduler = Some k, ec_fiber = Some cur, ec_cb = None\<rparr>)"

definition with_event :: "u32 \<Rightarrow> 'cb event_ctx \<Rightarrow> 'cb fd_context \<Rightarrow> 'cb fd_context" where
  "with_event event e c = putContext event e (c\<lparr>fc_events := fc_events c OR event\<rparr>)"

lemma with_event_ok:
  assumes "ctx_ok c" and "event \<in> {READ, WRITE}" and "fc_events c AND event = 0"
  shows "ctx_ok (with_event event (armed k cb cur) c)" "regs (with_event event (armed k cb cur) c) = regs c + 1"
    "fc_events (with_event event (armed k cb cur) c) AND event \<noteq> 0" "ev_ctx event c = clean_ctx"
proof -
  have "fc_events c \<in> {0, 1, 4, 5}" using assms(1) by (simp add: ctx_ok_def)
  then consider "fc_events c = 0" "event = 1" | "fc_events c = 4" "event = 1" | "fc_events c = 0" "event = 4"
    | "fc_events c = 1" "event = 4"
    using assms(2,3) by (elim insertE emptyE) simp_all
  then show "ctx_ok (with_event event (armed k cb cur) c)" "regs (with_event event (armed k cb cur) c) = regs c + 1"
    "fc_events (with_event event (armed k cb cur) c) AND event \<noteq> 0" "ev_ctx event c = clean_ctx"
    using assms(1)
    by (cases; simp add: ctx_ok_def with_event_def putContext_def regs_def ectx_ok_def armed_def ev_ctx_def)+
qed

lemma addEvent_ctx_spec:
  fixes k cur :: nat
  assumes "io_inv m" and "i < length (m_fdContexts m)" and "event \<in> {READ, WRITE}"
    and "fc_events (m_fdContexts m ! i) AND event = 0" and "cb \<noteq> None \<or> st = EXEC"
  defines "m' \<equiv> upd_ctx i (with_event event (armed k cb cur)) (m\<lparr>m_pendingEventCount := m_pendingEventCount m + 1\<rparr>)"
  shows "addEvent_ctx i event cb 0 (Some k) (cur, st) m = (Inr 0, m')" "io_inv m'"
proof -
  let ?c = "m_fdContexts m ! i"
  have ok: "ctx_ok ?c" using assms(1,2) by (simp add: io_inv_def list_all_length)
  note w = with_event_ok [OF ok assms(3,4)]
  have e: "getContext event ?c = Inr clean_ctx" using assms(3) w(4) by (auto simp: getContext_def ev_ctx_def)
  show "addEvent_ctx i event cb 0 (Some k) (cur, st) m = (Inr 0, m')"
    using assms(2,4,5) e w(4)
    by (cases cb) (simp_all add: addEvent_ctx_def Let_def m'_def with_event_def upd_ctx_def clean_ctx_def armed_def)
  have "sum_list (map regs (m_fdContexts m')) = sum_list (map regs (m_fdContexts m)) + 1"
    using sum_regs_update [OF assms(2), of "with_event event (armed k cb cur) ?c"] w(2) [of k cb cur] by (simp add: m'_def)
  moreover have "list_all ctx_ok (m_fdContexts m')"
    using assms(1,2) w(1) [of k cb cur] by (auto simp: io_inv_def m'_def list_all_length nth_list_update)
  ultimately show "io_inv m'" using assms(1) by (simp add: io_inv_def m'_def)
qed

lemma addEvent_spec:
  assumes "io_inv m" and "1 < fd \<or> 0 \<le> fd \<and> fd < int (length (m_fdContexts m))" and "event \<in> {READ, WRITE}"
    and "fc_events (ctx_or_new fd m) AND event = 0" and "cb \<noteq> None \<or> st = EXEC"
  shows "\<exists>m'. addEvent fd event cb 0 (Some k) (cur, st) m = (Inr 0, m') \<and> io_inv m' \<and> registered fd event m'
    \<and> ctx_of m' fd = with_event event (armed k cb cur) (ctx_or_new fd m)
    \<and> m_pendingEventCount m' = m_pendingEventCount m + 1 \<and> io_scheds m' = io_scheds m"
proof -
  define m1 where "m1 = (if needs_resize fd m then grow_for fd m else m)"
  have fd: "0 \<le> fd" "needs_resize fd m \<Longrightarrow> 1 < fd" using assms(2) by (auto simp: needs_resize_def)
  have m1: "io_inv m1" "nat fd < length (m_fdContexts m1)" "ctx_of m1 fd = ctx_or_new fd m"
    "io_scheds m1 = io_scheds m" "m_pendingEventCount m1 = m_pendingEventCount m"
    using grow_for_spec [OF assms(1), of fd] fd assms(1)
    by (auto simp: m1_def ctx_or_new_def needs_resize_def)
  note a = addEvent_ctx_spec [OF m1(1,2) assms(3), of cb st k cur] 
  let ?m' = "upd_ctx (nat fd) (with_event event (armed k cb cur)) (m1\<lparr>m_pendingEventCount := m_pendingEventCount m1 + 1\<rparr>)"
  have ok: "ctx_ok (ctx_of m1 fd)" using m1(1,2) by (simp add: io_inv_def list_all_length)
  have "ctx_at fd m1 = Inr (nat fd)" using fd(1) m1(2) by (simp add: ctx_at_def)
  then have "addEvent fd event cb 0 (Some k) (cur, st) m = (Inr 0, ?m')"
    using a(1) assms(4,5) m1(3) by (simp add: addEvent_def m1_def [symmetric])
  moreover have "registered fd event ?m'"
    using with_event_ok(3) [OF ok assms(3)] assms(4) m1(2,3) fd(1) by (simp add: registered_def)
  ultimately show ?thesis using a(2) assms(4,5) m1 by auto
qed

text \<open>A dispatch that returns leaves the invariant intact, whatever the kernel reported.\<close>

lemma trigger_if_inv:
  assumes "io_inv m" and "i < length (m_fdContexts m)" and "event \<in> {READ, WRITE}" and "trigger_if b i event m = (Inr (), m')"
  shows "io_inv m'" "length (m_fdContexts m') = length (m_fdContexts m)"
proof -
  have reg: "b \<Longrightarrow> fc_events (m_fdContexts m ! i) AND event \<noteq> 0"
    using assms(4) by (auto simp: trigger_if_def triggerEvent_def and_then_def Let_def split: if_splits)
  from trigger_if_spec [OF assms(1-3), of b, OF reg] assms(4) show "io_inv m'" "length (m_fdContexts m') = length (m_fdContexts m)"
    by auto
qed

lemma dispatch_inv:
  assumes "io_inv m" and "case r of Pipe \<Rightarrow> True | On_Fd i _ _ \<Rightarrow> i < length (m_fdContexts m)" and "dispatch r m = (Inr (), m')"
  shows "io_inv m' \<and> length (m_fdContexts m') = length (m_fdContexts m)"
proof (cases r)
  case Pipe
  then show ?thesis using assms(1,3) by (auto simp: dispatch_def io_inv_def)
next
  case (On_Fd i ev rt2)
  have "\<exists>b1 b2. and_then (trigger_if b1 i READ) (\<lambda>_. trigger_if b2 i WRITE) m = (Inr (), m') \<or> m' = m"
    using assms(3) On_Fd by (auto simp: dispatch_def Let_def split: if_splits)
  then show ?thesis
  proof (elim exE disjE)
    fix b1 b2
    assume "and_then (trigger_if b1 i READ) (\<lambda>_. trigger_if b2 i WRITE) m = (Inr (), m')"
    then obtain m1 where m1: "trigger_if b1 i READ m = (Inr (), m1)" "trigger_if b2 i WRITE m1 = (Inr (), m')"
      by (auto elim: and_then_InrE)
    have i: "i < length (m_fdContexts m)" using assms(2) On_Fd by simp
    note t1 = trigger_if_inv [OF assms(1) i _ m1(1)]
    show ?thesis using t1 trigger_if_inv [OF t1(1) _ _ m1(2)] i by auto
  qed (use assms(1) in simp)
qed

lemma dispatch_all_inv:
  assumes "io_inv m" and "list_all (\<lambda>r. case r of Pipe \<Rightarrow> True | On_Fd i _ _ \<Rightarrow> i < length (m_fdContexts m)) rs"
    and "dispatch_all rs m = (Inr (), m')"
  shows "io_inv m'"
  using assms
proof (induction rs arbitrary: m)
  case (Cons r rs)
  then obtain m1 where "dispatch r m = (Inr (), m1)" "dispatch_all rs m1 = (Inr (), m')" by (auto elim: and_then_InrE)
  then show ?case using Cons.IH [of m1] dispatch_inv [OF Cons.prems(1), of r m1] Cons.prems(2) by auto
qed (simp add: ret_def)

text \<open>Timers of the event loop: adding one may wake the poller.\<close>

definition io_addTimer :: "nat \<Rightarrow> u64 \<Rightarrow> u64 \<Rightarrow> 'cb option \<Rightarrow> bool \<Rightarrow> 'cb iomgr \<Rightarrow> 'cb iomgr" where
  "io_addTimer t now ms cb recurring m =
     (case addTimer t now ms cb recurring (io_timers m) of (at_front, tm) \<Rightarrow>
        if at_front then onTimerInsertedAtFront (m\<lparr>io_timers := tm\<rparr>) else m\<lparr>io_timers := tm\<rparr>)"

lemma addEvent_inv:
  assumes "io_inv m" and "event \<in> {READ, WRITE}" and "1 < fd" and "addEvent fd event cb rt (Some k) (cur, st) m = (Inr r, m')"
  shows "io_inv m'"
proof -
  define m1 where "m1 = (if needs_resize fd m then grow_for fd m else m)"
  have m1: "io_inv m1" "nat fd < length (m_fdContexts m1)"
    using grow_for_spec [OF assms(1), of fd] assms(1,3) by (auto simp: m1_def needs_resize_def)
  have "ctx_at fd m1 = Inr (nat fd)" using assms(3) m1(2) by (simp add: ctx_at_def)
  then have run: "addEvent_ctx (nat fd) event cb rt (Some k) (cur, st) m1 = (Inr r, m')"
    using assms(4) by (simp add: addEvent_def m1_def [symmetric])
  show ?thesis
  proof (cases "rt = 0")
    case True
    have "fc_events (ctx_of m1 fd) AND event = 0" "cb \<noteq> None \<or> st = EXEC"
      using run True by (auto simp: addEvent_ctx_def Let_def split: if_splits sum.splits)
    with addEvent_ctx_spec [OF m1 assms(2), of cb st k cur] run True show ?thesis by simp
  next
    case False
    then show ?thesis using run m1(1) by (auto simp: addEvent_ctx_def Let_def split: if_splits)
  qed
qed

lemma io_stopping_frame:
  assumes "io_stopping now m = (r, m')"
  shows "m_fdContexts m' = m_fdContexts m" "m_pendingEventCount m' = m_pendingEventCount m" "io_scheds m' = io_scheds m"
    "io_self m' = io_self m" "io_timers m' = snd (getNextTimer now (io_timers m))"
  using assms by (auto simp: io_stopping_def split: prod.splits)

lemma idle_round_inv:
  assumes "io_inv m" and "a \<notin> set (m_timers (io_timers m))"
    and "list_all (\<lambda>r. case r of Pipe \<Rightarrow> True | On_Fd i _ _ \<Rightarrow> i < length (m_fdContexts m)) rs"
    and "idle_round a now now' rs m = (Inr b, m')"
  shows "io_inv m'"
proof -
  obtain stop w m1 where st: "io_stopping now m = ((stop, w), m1)" by (metis prod.collapse)
  note f = io_stopping_frame [OF st]
  have inv1: "io_inv m1" using assms(1) f tq.timeout_keeps [of "io_timers m" now] by (simp add: io_inv_def)
  show ?thesis
  proof (cases stop)
    case True
    then show ?thesis using assms(4) st inv1 by (simp add: idle_round_def)
  next
    case False
    obtain cbs tm where ex: "listExpiredCb a now' (io_timers m1) = (cbs, tm)" by fastforce
    have t1: "m_timers (io_timers m1) = m_timers (io_timers m)"
      using f(5) getNextTimer_spec(1) [of "io_timers m" now] assms(1) by (simp add: io_inv_def)
    have tm: "tm_inv tm"
      using listExpiredCb_spec(2) [of "io_timers m1" a now'] inv1 assms(2) t1 ex by (simp add: io_inv_def)
    let ?m2 = "m1\<lparr>io_timers := tm\<rparr>"
    let ?m3 = "if cbs \<noteq> [] then io_schedule_all (io_self m1) (map (\<lambda>cb. FiberAndThread None cb (- 1)) cbs) ?m2 else ?m2"
    have inv3: "io_inv ?m3" using inv1 tm by (simp add: io_inv_def)
    have run: "dispatch_all rs ?m3 = (Inr (), m')"
      using assms(4) st False ex by (auto simp: idle_round_def Let_def ret_def elim: and_then_InrE)
    have l3: "length (m_fdContexts ?m3) = length (m_fdContexts m)" using f(1) by simp
    show ?thesis by (rule dispatch_all_inv [OF inv3 _ run], unfold l3, rule assms(3))
  qed
qed

lemma cancelAll_no_effect:
  assumes "0 \<le> fd" and "\<not> registered fd (- 1) m \<or> rt \<noteq> 0"
  shows "cancelAll fd rt m = (Inr False, m)"
  using assms by (auto simp: cancelAll_def cancelAll_ctx_def registered_def ctx_at_def)

lemma fault_on_negative:
  assumes "fd < 0"
  shows "fst (delEvent fd event rt m) = Inl Buffer_Overflow" "fst (cancelEvent fd event rt m) = Inl Buffer_Overflow"
    "fst (cancelAll fd rt m) = Inl Buffer_Overflow"
  using assms by (simp_all add: delEvent_def delEvent_ctx_def cancelEvent_def cancelEvent_ctx_def cancelAll_def cancelAll_ctx_def ctx_at_def)

lemma delEvent_inv:
  assumes "io_inv m" and "event \<in> {READ, WRITE}" and "delEvent fd event rt m = (Inr b, m')"
  shows "io_inv m'"
proof -
  have fd: "0 \<le> fd" using assms(3) fault_on_negative(1) [of fd event rt m] by (cases "0 \<le> fd") auto
  show ?thesis
    using delEvent_spec [OF assms(1,2), of fd] delEvent_no_effect [OF fd, of event m rt] assms(1,3)
    by (cases "registered fd event m \<and> rt = 0") auto
qed

lemma cancelEvent_inv:
  assumes "io_inv m" and "event \<in> {READ, WRITE}" and "cancelEvent fd event rt m = (Inr b, m')"
  shows "io_inv m'"
proof -
  have fd: "0 \<le> fd" using assms(3) fault_on_negative(2) [of fd event rt m] by (cases "0 \<le> fd") auto
  show ?thesis
    using cancelEvent_spec [OF assms(1,2), of fd] cancelEvent_no_effect [OF fd, of event m rt] assms(1,3)
    by (cases "registered fd event m \<and> rt = 0") auto
qed

lemma cancelAll_inv:
  assumes "io_inv m" and "cancelAll fd rt m = (Inr b, m')"
  shows "io_inv m'"
proof -
  have fd: "0 \<le> fd" using assms(2) fault_on_negative(3) [of fd rt m] by (cases "0 \<le> fd") auto
  show ?thesis
    using cancelAll_spec [OF assms(1) fd] cancelAll_no_effect [OF fd, of m rt] assms
    by (cases "registered fd (- 1) m \<and> rt = 0") (auto simp: registered_def)
qed

lemma IOManager_inv [simp]: "io_inv (IOManager self scheds now)"
proof -
  have "io_inv \<lparr>io_self = self, io_scheds = scheds, io_pipe = (\<lambda>_. 0), io_timers = TimerManager now,
                       m_fdContexts = [], m_pendingEventCount = 0\<rparr>"
    by (simp add: io_inv_def TimerManager_inv)
  then show ?thesis unfolding IOManager_def by (rule contextResize_inv) simp
qed

section \<open>Threads that share the event loop\<close>

text \<open>
  The operations of several threads interleave: each takes the lock of the table to look its context up, \<open>addEvent\<close> a second time to
  grow the table when it was too small, and only then the lock of the context. The contexts are kept here by address, none is
  freed while the loop runs (\<open>m_fdContexts\<close> of \<open>sh_mgr\<close>, all that were ever allocated), the vector holds addresses, and
  a thread that is between two locks holds a call and, once it looked it up, an address.
\<close>

datatype 'cb io_call = Call_add int u32 "'cb option" | Call_del int u32 | Call_cancel int u32 | Call_cancelAll int

primrec call_fd :: "'cb io_call \<Rightarrow> int" where
  "call_fd (Call_add fd event cb) = fd"
| "call_fd (Call_del fd event) = fd"
| "call_fd (Call_cancel fd event) = fd"
| "call_fd (Call_cancelAll fd) = fd"

datatype 'cb io_at = Elsewhere | Too_Small "'cb io_call" | Holds "'cb io_call" nat

record 'cb io_shared =
  sh_mgr :: "'cb iomgr"
  sh_table :: "nat list"
  sh_at :: "nat \<Rightarrow> 'cb io_at"

definition look_up :: "'cb io_call \<Rightarrow> nat list \<Rightarrow> 'cb io_at" where
  "look_up c table =
     (if int (length table) > call_fd c then Holds c (table ! nat (call_fd c))
      else case c of Call_add _ _ _ \<Rightarrow> Too_Small c | _ \<Rightarrow> Elsewhere)"

definition resize_shared :: "nat \<Rightarrow> 'cb io_call \<Rightarrow> 'cb io_shared \<Rightarrow> 'cb io_shared" where
  "resize_shared t c S =
     (let sz = nat (call_fd c * 3 div 2); m = sh_mgr S; old = length (sh_table S); n = length (m_fdContexts m);
          table = take sz (sh_table S) @ [n..<n + (sz - old)] in
      S\<lparr>sh_mgr := m\<lparr>m_fdContexts := m_fdContexts m @ map new_FdContext [old..<sz]\<rparr>, sh_table := table,
        sh_at := (sh_at S)(t := Holds c (table ! nat (call_fd c)))\<rparr>)"

definition ctx_section :: "'cb io_call \<Rightarrow> nat \<Rightarrow> int \<Rightarrow> nat \<Rightarrow> nat \<times> fiber_state \<Rightarrow> ('cb iomgr, int) sop" where
  "ctx_section c i rt k cur =
     (case c of
        Call_add fd event cb \<Rightarrow> addEvent_ctx i event cb rt (Some k) cur
      | Call_del fd event \<Rightarrow> and_then (delEvent_ctx i event rt) (\<lambda>b. ret (of_bool b))
      | Call_cancel fd event \<Rightarrow> and_then (cancelEvent_ctx i event rt) (\<lambda>b. ret (of_bool b))
      | Call_cancelAll fd \<Rightarrow> and_then (cancelAll_ctx i rt) (\<lambda>b. ret (of_bool b)))"

definition call_ok :: "'cb io_call \<Rightarrow> bool" where
  "call_ok c = (0 \<le> call_fd c \<and> (case c of Call_add _ event _ \<Rightarrow> event \<in> {READ, WRITE} | Call_del _ event \<Rightarrow> event \<in> {READ, WRITE}
     | Call_cancel _ event \<Rightarrow> event \<in> {READ, WRITE} | Call_cancelAll _ \<Rightarrow> True))"

text \<open>
  The steps of all threads, each one section under a lock. The results of \<open>epoll_ctl\<close>, the reported events
  (for any context that exists) and what happens to the scheduler and the timers are arbitrary; a failed assertion ends the process.
\<close>

inductive sh_reach :: "'cb io_shared \<Rightarrow> bool" where
  sh_new: "sh_reach \<lparr>sh_mgr = IOManager self scheds now, sh_table = [0..<32], sh_at = (\<lambda>_. Elsewhere)\<rparr>"
| sh_lookup: "sh_reach S \<Longrightarrow> sh_at S t = Elsewhere \<Longrightarrow> call_ok c \<Longrightarrow> sh_reach (S\<lparr>sh_at := (sh_at S)(t := look_up c (sh_table S))\<rparr>)"
| sh_resize: "sh_reach S \<Longrightarrow> sh_at S t = Too_Small c \<Longrightarrow> sh_reach (resize_shared t c S)"
| sh_section: "sh_reach S \<Longrightarrow> sh_at S t = Holds c i \<Longrightarrow> ctx_section c i rt k cur (sh_mgr S) = (Inr r, m')
    \<Longrightarrow> sh_reach (S\<lparr>sh_mgr := m', sh_at := (sh_at S)(t := Elsewhere)\<rparr>)"
| sh_dispatch: "sh_reach S \<Longrightarrow> (case r of Pipe \<Rightarrow> True | On_Fd i _ _ \<Rightarrow> i < length (m_fdContexts (sh_mgr S)))
    \<Longrightarrow> dispatch r (sh_mgr S) = (Inr (), m') \<Longrightarrow> sh_reach (S\<lparr>sh_mgr := m'\<rparr>)"
| sh_timers: "sh_reach S \<Longrightarrow> tm_inv tm \<Longrightarrow> sh_reach (S\<lparr>sh_mgr := (sh_mgr S)\<lparr>io_timers := tm\<rparr>\<rparr>)"
| sh_scheds: "sh_reach S \<Longrightarrow> sh_reach (S\<lparr>sh_mgr := (sh_mgr S)\<lparr>io_scheds := scheds, io_pipe := pipes\<rparr>\<rparr>)"

text \<open>No operation changes the descriptor of a context, or frees one.\<close>

definition fds :: "'cb iomgr \<Rightarrow> nat list" where
  "fds m = map fc_fd (m_fdContexts m)"

lemma fds_length [simp]: "length (fds m) = length (m_fdContexts m)"
  by (simp add: fds_def)

lemma fds_upd:
  assumes "\<And>c. fc_fd (f c) = fc_fd c"
  shows "fds (upd_ctx i f m) = fds m"
proof (cases "i < length (m_fdContexts m)")
  case True
  then have "(fds m)[i := fc_fd (m_fdContexts m ! i)] = fds m" using list_update_id [of "fds m" i] by (simp add: fds_def)
  then show ?thesis by (simp add: map_update assms fds_def)
qed (simp add: list_update_beyond fds_def)

lemma fds_put: "fds (upd_ctx i (putContext event e) m) = fds m"
  by (rule fds_upd) (simp add: putContext_def)

lemma fds_events: "fds (upd_ctx i (\<lambda>c. c\<lparr>fc_events := g c\<rparr>) m) = fds m"
  by (rule fds_upd) simp

lemma fds_frame:
  "fds (dec_pending m) = fds m" "fds (io_schedule k t m) = fds m" "fds (m\<lparr>m_pendingEventCount := n\<rparr>) = fds m"
  "fds (m\<lparr>io_pipe := p\<rparr>) = fds m" "fds (m\<lparr>io_timers := tm\<rparr>) = fds m" "fds (m\<lparr>io_scheds := s\<rparr>) = fds m"
  by (simp_all add: fds_def)

lemmas fds_simps = fds_put fds_events fds_frame

lemma triggerEvent_fds: "triggerEvent i event m = (r, m') \<Longrightarrow> fds m' = fds m"
  by (auto simp: triggerEvent_def Let_def fds_simps split: if_splits sum.splits option.splits)

lemma trigger_if_fds: "trigger_if b i event m = (Inr (), m') \<Longrightarrow> fds m' = fds m"
  by (auto simp: trigger_if_def ret_def fds_simps elim!: and_then_InrE dest: triggerEvent_fds split: if_splits)

lemma dispatch_fds: "dispatch r m = (Inr (), m') \<Longrightarrow> fds m' = fds m"
  by (cases r) (auto simp: dispatch_def Let_def fds_simps elim!: and_then_InrE dest!: trigger_if_fds split: if_splits)

lemma section_fds: "ctx_section c i rt k cur m = (Inr r, m') \<Longrightarrow> fds m' = fds m"
  by (cases c; cases cur)
    (auto simp: ctx_section_def addEvent_ctx_def delEvent_ctx_def cancelEvent_ctx_def cancelAll_ctx_def ret_def Let_def fds_simps
      elim!: and_then_InrE dest!: trigger_if_fds triggerEvent_fds split: if_splits sum.splits)

text \<open>A section under the lock of a context is the operation on the table of all contexts.\<close>

lemma section_inv:
  assumes "io_inv m" and "i < length (m_fdContexts m)" and "call_ok c" and "ctx_section c i rt k cur m = (Inr r, m')"
  shows "io_inv m'"
proof (cases c)
  case (Call_add fd event cb)
  obtain f st where cur: "cur = (f, st)" by fastforce
  have e: "event \<in> {READ, WRITE}" and run: "addEvent_ctx i event cb rt (Some k) (f, st) m = (Inr r, m')"
    using assms(3,4) Call_add cur by (simp_all add: call_ok_def ctx_section_def)
  show ?thesis
  proof (cases "rt = 0")
    case True
    have "fc_events (m_fdContexts m ! i) AND event = 0" "cb \<noteq> None \<or> st = EXEC"
      using run True by (auto simp: addEvent_ctx_def Let_def split: if_splits sum.splits)
    with addEvent_ctx_spec [OF assms(1,2) e, of cb st k f] run True show ?thesis by simp
  next
    case False
    then show ?thesis using run assms(1) by (auto simp: addEvent_ctx_def Let_def split: if_splits)
  qed
next
  case (Call_del fd event)
  have "delEvent (int i) event rt m = delEvent_ctx i event rt m" using assms(2) by (simp add: delEvent_def ctx_at_def)
  then show ?thesis using assms Call_del delEvent_inv [OF assms(1), of event "int i" rt]
    by (auto simp: call_ok_def ctx_section_def ret_def elim!: and_then_InrE)
next
  case (Call_cancel fd event)
  have "cancelEvent (int i) event rt m = cancelEvent_ctx i event rt m" using assms(2) by (simp add: cancelEvent_def ctx_at_def)
  then show ?thesis using assms Call_cancel cancelEvent_inv [OF assms(1), of event "int i" rt]
    by (auto simp: call_ok_def ctx_section_def ret_def elim!: and_then_InrE)
next
  case (Call_cancelAll fd)
  have "cancelAll (int i) rt m = cancelAll_ctx i rt m" using assms(2) by (simp add: cancelAll_def ctx_at_def)
  then show ?thesis using assms Call_cancelAll cancelAll_inv [OF assms(1), of "int i" rt]
    by (auto simp: ctx_section_def ret_def elim!: and_then_InrE)
qed

text \<open>
  Every entry of the table is the context of its own descriptor, a thread holds the context of the descriptor it
  asked for, and the table never gets smaller than it was at the start.
\<close>

definition at_ok :: "nat list \<Rightarrow> 'cb io_at \<Rightarrow> bool" where
  "at_ok ds a = (case a of Elsewhere \<Rightarrow> True | Too_Small c \<Rightarrow> call_ok c \<and> 32 \<le> call_fd c
     | Holds c i \<Rightarrow> call_ok c \<and> i < length ds \<and> int (ds ! i) = call_fd c)"

definition sh_inv :: "'cb io_shared \<Rightarrow> bool" where
  "sh_inv S \<longleftrightarrow> io_inv (sh_mgr S) \<and> 32 \<le> length (sh_table S)
     \<and> (\<forall>j < length (sh_table S). sh_table S ! j < length (fds (sh_mgr S)) \<and> fds (sh_mgr S) ! (sh_table S ! j) = j)
     \<and> (\<forall>t. at_ok (fds (sh_mgr S)) (sh_at S t))"

lemma sh_inv_mgr: "sh_inv S \<Longrightarrow> io_inv m \<Longrightarrow> fds m = fds (sh_mgr S) \<Longrightarrow> sh_inv (S\<lparr>sh_mgr := m\<rparr>)"
  by (simp add: sh_inv_def)

lemma sh_inv_at: "sh_inv S \<Longrightarrow> at_ok (fds (sh_mgr S)) a \<Longrightarrow> sh_inv (S\<lparr>sh_at := (sh_at S)(t := a)\<rparr>)"
  by (simp add: sh_inv_def)

lemma resize_shared_inv:
  assumes "sh_inv S" and "call_ok c" and "32 \<le> call_fd c"
  shows "sh_inv (resize_shared t c S)"
proof -
  let ?m = "sh_mgr S" let ?T = "sh_table S" let ?sz = "nat (call_fd c * 3 div 2)" let ?n = "length (m_fdContexts ?m)"
  let ?T' = "take ?sz ?T @ [?n..<?n + (?sz - length ?T)]" let ?ds = "fds ?m @ [length ?T..<?sz]"
  have sz: "nat (call_fd c) < ?sz" "32 \<le> ?sz" using assms(3) by linarith+
  have len: "length ?T' = ?sz" by simp
  have old: "?T ! j < ?n" "fds ?m ! (?T ! j) = j" if "j < length ?T" for j using assms(1) that by (simp_all add: sh_inv_def)
  have entry: "?T' ! j < length ?ds \<and> ?ds ! (?T' ! j) = j" if "j < ?sz" for j
    using that old [of j] by (cases "j < length ?T") (auto simp: nth_append less_diff_conv intro: trans_less_add1)
  have fds: "fds (sh_mgr (resize_shared t c S)) = ?ds"
    by (simp add: resize_shared_def Let_def new_FdContext_def map_idI o_def fds_def)
  have "at_ok ?ds a" if "at_ok (fds ?m) a" for a :: "'a io_at"
    using that by (cases a) (auto simp: at_ok_def nth_append split: io_at.splits)
  then have at: "at_ok ?ds (sh_at S t)" for t using assms(1) by (simp add: sh_inv_def)
  have new: "at_ok ?ds (Holds c (?T' ! nat (call_fd c)))"
    using entry [OF sz(1)] assms(2,3) by (simp add: at_ok_def)
  have io: "io_inv (sh_mgr (resize_shared t c S))"
    using assms(1) by (auto simp: sh_inv_def io_inv_def resize_shared_def Let_def list_all_iff)
  have parts: "sh_table (resize_shared t c S) = ?T'" "sh_at (resize_shared t c S) = (sh_at S)(t := Holds c (?T' ! nat (call_fd c)))"
    by (simp_all add: resize_shared_def Let_def)
  have "\<forall>j < length ?T'. ?T' ! j < length ?ds \<and> ?ds ! (?T' ! j) = j" unfolding len using entry by blast
  moreover have "\<forall>s. at_ok ?ds (((sh_at S)(t := Holds c (?T' ! nat (call_fd c)))) s)" using at new by (simp only: fun_upd_apply split: if_split) blast
  ultimately show ?thesis unfolding sh_inv_def fds parts using io sz(2) unfolding len by blast
qed

lemma sh_reach_inv: "sh_reach S \<Longrightarrow> sh_inv S"
proof (induction rule: sh_reach.induct)
  case (sh_new self scheds now)
  have "fds (IOManager self scheds now) = [0..<32]"
    by (simp add: IOManager_def contextResize_def new_FdContext_def map_idI o_def fds_def del: upt_rec_numeral)
  then show ?case by (auto simp: sh_inv_def at_ok_def simp del: upt_rec_numeral)
next
  case (sh_lookup S t c)
  then have "at_ok (fds (sh_mgr S)) (look_up c (sh_table S))"
    by (auto simp: look_up_def at_ok_def sh_inv_def call_ok_def nat_less_iff split: io_call.splits)
  then show ?case by (rule sh_inv_at [OF sh_lookup.IH])
next
  case (sh_resize S t c)
  then have "at_ok (fds (sh_mgr S)) (Too_Small c)" by (auto simp: sh_inv_def dest: spec [of _ t])
  then show ?case using resize_shared_inv [OF sh_resize.IH] by (simp add: at_ok_def)
next
  case (sh_section S t c i rt k cur r m')
  then have "at_ok (fds (sh_mgr S)) (Holds c i)" by (auto simp: sh_inv_def dest: spec [of _ t])
  then have "io_inv m'" using section_inv [OF _ _ _ sh_section.hyps(3)] sh_section.IH by (simp add: at_ok_def sh_inv_def)
  from sh_inv_mgr [OF sh_section.IH this section_fds [OF sh_section.hyps(3)]] have "sh_inv (S\<lparr>sh_mgr := m'\<rparr>)" .
  from sh_inv_at [OF this, of Elsewhere t] show ?case by (simp add: at_ok_def)
next
  case (sh_dispatch S r m')
  have "io_inv m'" using dispatch_inv [OF _ sh_dispatch.hyps(2,3)] sh_dispatch.IH by (simp add: sh_inv_def)
  then show ?case by (rule sh_inv_mgr [OF sh_dispatch.IH _ dispatch_fds [OF sh_dispatch.hyps(3)]])
qed (auto simp: sh_inv_def io_inv_def fds_frame)

section \<open>The event loop as a registry of events\<close>

definition io_waits :: "int \<Rightarrow> u32 \<Rightarrow> 'cb iomgr \<Rightarrow> (nat \<times> 'cb ft) option" where
  "io_waits fd event m =
     (if registered fd event m then map_option (\<lambda>k. (k, task_of (ev_ctx event (ctx_of m fd)))) (ec_scheduler (ev_ctx event (ctx_of m fd)))
      else None)"

definition io_queue :: "'cb iomgr \<Rightarrow> nat \<Rightarrow> 'cb ft list" where
  "io_queue m k = m_fibers (io_scheds m k)"

definition io_wait_fiber :: "int \<Rightarrow> u32 \<Rightarrow> nat \<Rightarrow> nat \<Rightarrow> ('cb iomgr, int) sop" where
  "io_wait_fiber fd event k f = addEvent fd event None 0 (Some k) (f, EXEC)"

lemma io_waits_None:
  assumes "io_inv m" and "event \<in> {READ, WRITE}"
  shows "io_waits fd event m = None \<longleftrightarrow> \<not> registered fd event m"
proof
  assume *: "io_waits fd event m = None"
  show "\<not> registered fd event m"
  proof
    assume r: "registered fd event m"
    note c = registered_ctx [OF assms(1) r]
    have "ec_scheduler (ev_ctx event (ctx_of m fd)) \<noteq> None" using ev_ctx_ok [OF c(2) assms(2) c(4)] by (simp add: ectx_ok_def)
    with * r show False by (simp add: io_waits_def)
  qed
qed (simp add: io_waits_def)

interpretation reg: event_registry io_inv "\<lambda>fd. 1 < fd" io_waits io_queue "\<lambda>f. FiberAndThread (Some f) None (- 1)"
  io_wait_fiber "\<lambda>fd event. cancelEvent fd event 0"
proof
  fix m :: "'a iomgr" and fd :: int and event :: u32 and k f :: nat
  assume m: "io_inv m" "1 < fd" "event \<in> {1, 4}"
  assume "io_waits fd event m = None"
  then have free: "\<not> registered fd event m" using io_waits_None [OF m(1,3)] by simp
  then have "fc_events (ctx_or_new fd m) AND event = 0" using m(2) by (auto simp: registered_def ctx_or_new_def)
  from addEvent_spec [OF m(1) _ m(3) this, of None EXEC k f] m(2) obtain m' where
    "addEvent fd event None 0 (Some k) (f, EXEC) m = (Inr 0, m')" "io_inv m'" "registered fd event m'"
    "ctx_of m' fd = with_event event (armed k None f) (ctx_or_new fd m)" "io_scheds m' = io_scheds m" by auto
  then show "\<exists>m'. io_wait_fiber fd event k f m = (Inr 0, m') \<and> io_inv m'
      \<and> io_waits fd event m' = Some (k, FiberAndThread (Some f) None (- 1)) \<and> io_queue m' = io_queue m"
    using m(3) by (auto simp: io_wait_fiber_def io_waits_def io_queue_def fun_eq_iff ev_ctx_def with_event_def putContext_def
        armed_def task_of_def)
next
  fix m :: "'a iomgr" and fd :: int and event :: u32 and k :: nat and t
  assume m: "io_inv m" "1 < fd" "event \<in> {1, 4}" and w: "io_waits fd event m = Some (k, t)"
  then have r: "registered fd event m" and kt: "ec_scheduler (ev_ctx event (ctx_of m fd)) = Some k"
      "t = task_of (ev_ctx event (ctx_of m fd))"
    by (auto simp: io_waits_def split: if_splits)
  note c = registered_ctx [OF m(1) r]
  have gone: "fc_events (cleared event (ctx_of m fd)) AND event = 0"
    using cleared_ok(3) [OF c(2) m(3) c(4)] by (simp add: and.assoc)
  have "\<exists>m'. cancelEvent fd event 0 m = (Inr True, m')" using cancelEvent_spec [OF m(1,3) r] by blast
  then obtain m' where run: "cancelEvent fd event 0 m = (Inr True, m')" by blast
  from cancelEvent_spec [OF m(1,3) r] run kt have m': "io_inv m'"
    "m_fdContexts m' = (m_fdContexts m)[nat fd := cleared event (ctx_of m fd)]"
    "\<And>j. m_fibers (io_scheds m' j) = m_fibers (io_scheds m j) @ (if j = k then [t] else [])" by auto
  have "\<not> registered fd event m'" using m'(2) c(1) gone by (auto simp: registered_def)
  then show "\<exists>m'. cancelEvent fd event 0 m = (Inr True, m') \<and> io_inv m' \<and> io_waits fd event m' = None
      \<and> io_queue m' = (io_queue m)(k := io_queue m k @ [t])"
    using run m'(1,3) by (auto simp: io_waits_def io_queue_def fun_eq_iff)
next
  fix m :: "'a iomgr" and fd :: int and event :: u32
  assume m: "io_inv m" "1 < fd" "event \<in> {1, 4}" and w: "io_waits fd event m = None"
  then show "cancelEvent fd event 0 m = (Inr False, m)"
    using cancelEvent_no_effect [of fd event m 0] io_waits_None [OF m(1,3)] by simp
qed

section \<open>Properties\<close>

definition example_io :: "nat iomgr" where
  "example_io = \<lparr>io_self = 0, io_scheds = (\<lambda>_. sched_init), io_pipe = (\<lambda>_. 0), io_timers = TimerManager 1,
     m_fdContexts = [new_FdContext 0, new_FdContext 1, new_FdContext 2,
       (new_FdContext 3)\<lparr>fc_events := 5, fc_read := armed 0 None 7, fc_write := armed 0 (Some 9) 7\<rparr>],
     m_pendingEventCount = 2\<rparr>"

lemma example_io_inv: "io_inv example_io"
  by (simp add: io_inv_def example_io_def regs_def new_FdContext_def ctx_ok_def ectx_ok_def armed_def clean_ctx_def TimerManager_inv)

text \<open>Two threads that both find the table too small; the first registers its event.\<close>

definition racing :: "nat io_shared" where
  "racing = \<lparr>sh_mgr = IOManager 0 (\<lambda>_. sched_init) 1, sh_table = [0..<32], sh_at = (\<lambda>_. Elsewhere)\<rparr>"

definition both_looked :: "nat \<Rightarrow> nat io_shared" where
  "both_looked cb = racing\<lparr>sh_at := (\<lambda>_. Elsewhere)(0 := Too_Small (Call_add 100 READ (Some cb)), 1 := Too_Small (Call_add 40 READ (Some cb)))\<rparr>"

definition one_added :: "nat \<Rightarrow> nat io_shared" where
  "one_added cb =
     (let S = resize_shared 0 (Call_add 100 READ (Some cb)) (both_looked cb); m = sh_mgr S in
      S\<lparr>sh_mgr := upd_ctx 100 (with_event READ (armed 0 (Some cb) 0)) (m\<lparr>m_pendingEventCount := m_pendingEventCount m + 1\<rparr>),
        sh_at := (sh_at S)(0 := Elsewhere)\<rparr>)"

lemma upt_grown: "[0..<32] @ [32..<150] = [0..<150]" "map f [0..<32] @ map f [32..<150] = map f [0..<150]"
proof -
  have "[0..<32 + 118] = [0..<32] @ [32..<32 + 118]" by (rule upt_add_eq_append) simp
  moreover have "32 + 118 = (150 :: nat)" by simp
  ultimately show u: "[0..<32] @ [32..<150] = [0..<150]" by (simp only:)
  show "map f [0..<32] @ map f [32..<150] = map f [0..<150]" by (simp only: u map_append [symmetric])
qed

lemma one_added_reach: "sh_reach (one_added cb)"
proof -
  let ?c = "Call_add 100 READ (Some cb)" and ?d = "Call_add 40 READ (Some cb)"
  have "sh_reach racing" unfolding racing_def by (rule sh_new)
  from sh_lookup [OF this, of 0 ?c] have "sh_reach (racing\<lparr>sh_at := (\<lambda>_. Elsewhere)(0 := Too_Small ?c)\<rparr>)"
    by (simp add: racing_def call_ok_def look_up_def)
  from sh_lookup [OF this, of 1 ?d] have r: "sh_reach (both_looked cb)"
    by (simp add: both_looked_def racing_def call_ok_def look_up_def)
  let ?S = "resize_shared 0 ?c (both_looked cb)"
  have S: "sh_reach ?S" by (rule sh_resize [OF r]) (simp add: both_looked_def)
  have t: "sh_table ?S = [0..<150]" "sh_at ?S 0 = Holds ?c 100" "m_fdContexts (sh_mgr ?S) = map new_FdContext [0..<150]"
    by (simp_all add: resize_shared_def both_looked_def racing_def IOManager_def contextResize_def Let_def upt_grown del: upt_rec_numeral)
  have "addEvent_ctx 100 READ (Some cb) 0 (Some 0) (0, EXEC) (sh_mgr ?S) = (Inr 0, sh_mgr (one_added cb))"
    unfolding one_added_def Let_def using sh_reach_inv [OF S] t(3)
    by (simp add: addEvent_ctx_spec(1) sh_inv_def del: upt_rec_numeral)
  then have "ctx_section ?c 100 0 0 (0, EXEC) (sh_mgr ?S) = (Inr 0, sh_mgr (one_added cb))" by (simp add: ctx_section_def)
  from sh_section [OF S t(2) this] show ?thesis by (simp add: one_added_def Let_def)
qed

lemma one_added_parts:
  "m_fdContexts (sh_mgr (one_added cb)) = (map new_FdContext [0..<150])[100 := with_event READ (armed 0 (Some cb) 0) (new_FdContext 100)]"
  "sh_table (one_added cb) = [0..<150]" "sh_at (one_added cb) = (\<lambda>_. Elsewhere)(1 := Too_Small (Call_add 40 READ (Some cb)))"
  "m_pendingEventCount (sh_mgr (one_added cb)) = 1"
  by (auto simp: one_added_def resize_shared_def both_looked_def racing_def IOManager_def contextResize_def Let_def fun_eq_iff upt_grown simp del: upt_rec_numeral)

text \<open>
  C13: whatever threads of a scheduler do with an event loop, naming descriptors from 0 and one of the events \<open>READ\<close> and \<open>WRITE\<close>, however the sections of \<open>addEvent\<close>, \<open>delEvent\<close>, \<open>cancelEvent\<close>,
  \<open>cancelAll\<close> and of the idle loop interleave, the pending counter is the number of registered read and write
  events of all contexts, those a resize dropped from the table included; every registered event has a scheduler and one task
  (callback or fiber) to resume, every unregistered one is clean; and a thread works on a context of the descriptor it named.
\<close>

theorem io_pending_exact:
  assumes "sh_reach S"
  shows "m_pendingEventCount (sh_mgr S) = sum_list (map regs (m_fdContexts (sh_mgr S))) \<and> list_all ctx_ok (m_fdContexts (sh_mgr S))
    \<and> (\<forall>t. case sh_at S t of Holds c i \<Rightarrow> i < length (m_fdContexts (sh_mgr S)) \<and> int (fc_fd (m_fdContexts (sh_mgr S) ! i)) = call_fd c | _ \<Rightarrow> True)"
proof -
  have inv: "sh_inv S" by (rule sh_reach_inv [OF assms])
  have "case sh_at S t of Holds c i \<Rightarrow> i < length (m_fdContexts (sh_mgr S)) \<and> int (fc_fd (m_fdContexts (sh_mgr S) ! i)) = call_fd c | _ \<Rightarrow> True" for t
  proof -
    have "at_ok (fds (sh_mgr S)) (sh_at S t)" using inv by (simp add: sh_inv_def)
    then show ?thesis by (cases "sh_at S t") (auto simp: at_ok_def fds_def)
  qed
  then show ?thesis using inv by (simp add: sh_inv_def io_inv_def)
qed

theorem io_pending_exact_witness:
  "m_pendingEventCount (sh_mgr (one_added 5)) = sum_list (map regs (m_fdContexts (sh_mgr (one_added 5))))
    \<and> (\<forall>t. case sh_at (one_added 5) t of Holds c i \<Rightarrow> i < length (m_fdContexts (sh_mgr (one_added 5))) | _ \<Rightarrow> True)"
  using io_pending_exact [OF one_added_reach [of 5]] by (auto split: io_at.splits)

text \<open>
  \<open>addEvent\<close> on every branch: registering an event twice fails its assertion; when \<open>epoll_ctl\<close>
  refuses, the result is -1 and no registration changes; otherwise the event is registered with
  the callback, or with the current fiber, and the counter is one higher.
\<close>

theorem addEvent_cases:
  assumes "io_inv m" and "1 < fd" and "event \<in> {READ, WRITE}" and "cb \<noteq> None \<or> st = EXEC"
  shows "if registered fd event m then fst (addEvent fd event cb rt (Some k) (cur, st) m) = Inl (Assert_Failed ''!(fd_ctx->events & event)'')
    else if rt \<noteq> 0 then \<exists>m'. addEvent fd event cb rt (Some k) (cur, st) m = (Inr (- 1), m') \<and> io_inv m'
        \<and> m_pendingEventCount m' = m_pendingEventCount m \<and> \<not> registered fd event m'
    else \<exists>m'. addEvent fd event cb rt (Some k) (cur, st) m = (Inr 0, m') \<and> io_inv m' \<and> registered fd event m'
        \<and> ev_ctx event (ctx_of m' fd) = armed k cb cur \<and> m_pendingEventCount m' = m_pendingEventCount m + 1"
proof -
  have reg: "registered fd event m \<longleftrightarrow> fc_events (ctx_or_new fd m) AND event \<noteq> 0"
    using assms(2) by (auto simp: registered_def ctx_or_new_def)
  consider "registered fd event m" | "\<not> registered fd event m" "rt \<noteq> 0" | "\<not> registered fd event m" "rt = 0" by blast
  then show ?thesis
  proof cases
    case 1
    then have "\<not> needs_resize fd m" "ctx_at fd m = Inr (nat fd)" using assms(2) by (auto simp: registered_def needs_resize_def ctx_at_def)
    with 1 show ?thesis by (simp add: addEvent_def addEvent_ctx_def registered_def)
  next
    case 2
    define m1 where "m1 = (if needs_resize fd m then grow_for fd m else m)"
    have m1: "io_inv m1" "nat fd < length (m_fdContexts m1)" "ctx_of m1 fd = ctx_or_new fd m" "m_pendingEventCount m1 = m_pendingEventCount m"
      using grow_for_spec [OF assms(1), of fd] assms(1,2) by (auto simp: m1_def needs_resize_def ctx_or_new_def)
    have "ctx_at fd m1 = Inr (nat fd)" using assms(2) m1(2) by (simp add: ctx_at_def)
    then have "addEvent fd event cb rt (Some k) (cur, st) m = (Inr (- 1), m1)"
      using 2 reg m1(3) by (simp add: addEvent_def m1_def [symmetric] addEvent_ctx_def)
    moreover have "\<not> registered fd event m1" using 2(1) reg m1(3) by (auto simp: registered_def)
    ultimately show ?thesis using 2 m1 by simp
  next
    case 3
    have "ev_ctx event (with_event event e c) = e" for e :: "'a event_ctx" and c
      using assms(3) by (auto simp: ev_ctx_def with_event_def putContext_def)
    with addEvent_spec [OF assms(1) _ assms(3) _ assms(4), of fd k cur] 3 reg assms(2) show ?thesis by auto
  qed
qed

theorem addEvent_cases_witness:
  "\<exists>m'. addEvent 40 READ (Some 3) 0 (Some 0) (7, EXEC) example_io = (Inr 0, m') \<and> io_inv m' \<and> registered 40 READ m'
     \<and> ev_ctx READ (ctx_of m' 40) = armed 0 (Some 3) 7 \<and> m_pendingEventCount m' = 3"
  using addEvent_cases [OF example_io_inv, of 40 READ "Some 3" EXEC 0 0 7]
  by (simp add: registered_def example_io_def)

text \<open>
  \<open>delEvent\<close> drops a registration without resuming anything, \<open>cancelEvent\<close> drops it and appends its
  task, and only that, to the queue of its scheduler; both report failure and change nothing when
  the event is not registered or the kernel refuses.
\<close>

theorem del_cancel_event:
  assumes "io_inv m" and "event \<in> {READ, WRITE}" and "0 \<le> fd"
  shows "if registered fd event m \<and> rt = 0
    then (\<exists>m'. delEvent fd event rt m = (Inr True, m') \<and> io_inv m' \<and> \<not> registered fd event m' \<and> io_scheds m' = io_scheds m)
       \<and> (\<exists>m' k. cancelEvent fd event rt m = (Inr True, m') \<and> io_inv m' \<and> \<not> registered fd event m'
            \<and> ec_scheduler (ev_ctx event (ctx_of m fd)) = Some k
            \<and> m_fibers (io_scheds m' j) = m_fibers (io_scheds m j) @ (if j = k then [task_of (ev_ctx event (ctx_of m fd))] else []))
    else delEvent fd event rt m = (Inr False, m) \<and> cancelEvent fd event rt m = (Inr False, m)"
proof (cases "registered fd event m \<and> rt = 0")
  case True
  then have r: "registered fd event m" by simp
  note c = registered_ctx [OF assms(1) r]
  have gone: "fc_events (cleared event (ctx_of m fd)) AND event = 0"
    using cleared_ok(3) [OF c(2) assms(2) c(4)] by (simp add: and.assoc)
  from delEvent_spec [OF assms(1,2) r]
  have d: "\<exists>m'. delEvent fd event rt m = (Inr True, m') \<and> io_inv m' \<and> \<not> registered fd event m' \<and> io_scheds m' = io_scheds m"
    using True c(1) gone by (auto simp: registered_def)
  from cancelEvent_spec [OF assms(1,2) r, of j] obtain m' k where m': "cancelEvent fd event 0 m = (Inr True, m')" "io_inv m'"
    "m_fdContexts m' = (m_fdContexts m)[nat fd := cleared event (ctx_of m fd)]" "ec_scheduler (ev_ctx event (ctx_of m fd)) = Some k"
    "m_fibers (io_scheds m' j) = m_fibers (io_scheds m j) @ (if j = k then [task_of (ev_ctx event (ctx_of m fd))] else [])" by blast
  have "\<not> registered fd event m'" using m'(3) c(1) gone by (auto simp: registered_def)
  with d m' True show ?thesis by auto
next
  case False
  then show ?thesis using delEvent_no_effect [OF assms(3), of event m rt] cancelEvent_no_effect [OF assms(3), of event m rt] by auto
qed

theorem del_cancel_event_witness:
  "\<exists>m' k. cancelEvent 3 READ 0 example_io = (Inr True, m') \<and> ec_scheduler (ev_ctx READ (ctx_of example_io 3)) = Some k
     \<and> m_fibers (io_scheds m' 0) = m_fibers (io_scheds example_io 0) @ (if 0 = k then [task_of (ev_ctx READ (ctx_of example_io 3))] else [])"
proof -
  have "registered 3 READ example_io" by (simp add: registered_def example_io_def)
  with del_cancel_event [OF example_io_inv, of READ 3 0 0] show ?thesis by auto
qed

text \<open>
  \<open>cancelAll\<close> on a descriptor with events returns true, resumes the tasks of all its events (read
  before write), leaves no event registered, and its final assertion holds; without events it
  returns false.
\<close>

theorem cancelAll_resumes:
  assumes "io_inv m" and "0 \<le> fd" and "fd < int (length (m_fdContexts m))"
  shows "if fc_events (ctx_of m fd) = 0 then cancelAll fd 0 m = (Inr False, m)
    else \<exists>m'. cancelAll fd 0 m = (Inr True, m') \<and> io_inv m' \<and> fc_events (ctx_of m' fd) = 0
      \<and> m_fibers (io_scheds m' j) = m_fibers (io_scheds m j)
         @ wake (registered fd READ m) READ (ctx_of m fd) j @ wake (registered fd WRITE m) WRITE (ctx_of m fd) j"
proof (cases "fc_events (ctx_of m fd) = 0")
  case True
  then show ?thesis using assms(2,3) by (simp add: cancelAll_def cancelAll_ctx_def ctx_at_def)
next
  case False
  with cancelAll_spec [OF assms False] show ?thesis by auto
qed

theorem cancelAll_resumes_witness:
  "\<exists>m'. cancelAll 3 0 example_io = (Inr True, m')
     \<and> m_fibers (io_scheds m' 0) = [FiberAndThread (Some 7) None (- 1), FiberAndThread None (Some 9) (- 1)]"
proof -
  have "fc_events (ctx_of example_io 3) \<noteq> 0" "registered 3 READ example_io" "registered 3 WRITE example_io"
    "m_fibers (io_scheds example_io 0) = []" "ctx_of example_io 3 = (new_FdContext 3)
       \<lparr>fc_events := 5, fc_read := armed 0 None 7, fc_write := armed 0 (Some 9) 7\<rparr>"
    by (simp_all add: registered_def example_io_def sched_init_def)
  with cancelAll_resumes [OF example_io_inv, of 3 0] show ?thesis
    by (auto simp: example_io_def wake_def ev_ctx_def armed_def task_of_def)
qed

text \<open>
  What a reported mask asks for: reading on \<open>EPOLLIN\<close> or, on an error or hang-up, when it is
  registered; likewise writing.
\<close>

definition wants :: "u32 \<Rightarrow> u32 \<Rightarrow> 'cb fd_context \<Rightarrow> bool" where
  "wants event ev c = (ev AND event \<noteq> 0 \<or> ev AND (EPOLLERR OR EPOLLHUP) \<noteq> 0 \<and> fc_events c AND event \<noteq> 0)"

lemma masked_event:
  assumes "ctx_ok c" and "event \<in> {READ, WRITE}"
  shows "(if ev AND (EPOLLERR OR EPOLLHUP) \<noteq> 0 then ev OR ((EPOLLIN OR EPOLLOUT) AND fc_events c) else ev) AND event \<noteq> 0
     \<longleftrightarrow> wants event ev c"
proof -
  have or0: "(x OR y = 0) = (x = 0 \<and> y = 0)" for x y :: u32
    by (metis or.comm_neutral or_eq_0_iff)
  have "fc_events c \<in> {0, 1, 4, 5}" using assms(1) by (simp add: ctx_ok_def)
  then have "(EPOLLIN OR EPOLLOUT) AND fc_events c = fc_events c" by (elim insertE emptyE) simp_all
  then show ?thesis by (simp add: wants_def bit.conj_disj_distrib2 or0)
qed

lemma dispatch_on_fd:
  fixes ev :: u32
  assumes "io_inv m" and "i < length (m_fdContexts m)"
  defines "c \<equiv> m_fdContexts m ! i"
  defines "r \<equiv> wants READ ev c" and "w \<equiv> wants WRITE ev c"
    and "hr \<equiv> fc_events c AND READ \<noteq> 0" and "hw \<equiv> fc_events c AND WRITE \<noteq> 0"
  shows "if \<not> (r \<and> hr) \<and> \<not> (w \<and> hw) then dispatch (On_Fd i ev rt2) m = (Inr (), m)
    else if rt2 \<noteq> 0 then dispatch (On_Fd i ev rt2) m = (Inr (), m)
    else if (r \<longrightarrow> hr) \<and> (w \<longrightarrow> hw) then \<exists>m'. dispatch (On_Fd i ev rt2) m = (Inr (), m') \<and> io_inv m'
        \<and> (\<forall>j. m_fibers (io_scheds m' j) = m_fibers (io_scheds m j) @ wake r READ c j @ wake w WRITE c j)
        \<and> fc_events (m_fdContexts m' ! i) = (fc_events c AND NOT (if r then READ else 0)) AND NOT (if w then WRITE else 0)
    else fst (dispatch (On_Fd i ev rt2) m) = Inl (Assert_Failed ''events & event'')"
proof -
  have ok: "ctx_ok c" using assms(1,2) by (simp add: io_inv_def list_all_length c_def)
  have both: "(fc_events c AND 5 = 0) = (\<not> hr \<and> \<not> hw)"
    using ok by (auto simp: ctx_ok_def hr_def hw_def)
  have run: "dispatch (On_Fd i ev rt2) m =
      (if \<not> (r \<and> hr) \<and> \<not> (w \<and> hw) then (Inr (), m) else if rt2 \<noteq> 0 then (Inr (), m)
       else and_then (trigger_if r i READ) (\<lambda>_. trigger_if w i WRITE) m)"
    using masked_event [OF ok, of READ ev] masked_event [OF ok, of WRITE ev]
    unfolding dispatch_def reported.case Let_def c_def [symmetric] r_def w_def
    by (cases "wants READ ev c"; cases "wants WRITE ev c") (auto simp: both hr_def hw_def)
  consider "\<not> (r \<and> hr) \<and> \<not> (w \<and> hw)" | "r \<and> hr \<or> w \<and> hw" "(r \<longrightarrow> hr) \<and> (w \<longrightarrow> hw)"
    | "r" "\<not> hr" "w" "hw" | "r" "hr" "w" "\<not> hw" by blast
  then show ?thesis
  proof cases
    case 1
    then show ?thesis using run by simp
  next
    case 2
    from trigger_both [OF assms(1,2), of r w] 2(2) obtain m' where m':
      "and_then (trigger_if r i READ) (\<lambda>_. trigger_if w i WRITE) m = (Inr (), m')" "io_inv m'"
      "m_fdContexts m' = (m_fdContexts m)[i := (if w then cleared WRITE else id) ((if r then cleared READ else id) c)]"
      "\<forall>j. m_fibers (io_scheds m' j) = m_fibers (io_scheds m j) @ wake r READ c j @ wake w WRITE c j"
      unfolding hr_def hw_def c_def by blast
    have "fc_events (m_fdContexts m' ! i) = (fc_events c AND NOT (if r then READ else 0)) AND NOT (if w then WRITE else 0)"
      using m'(3) assms(2) by (simp add: cleared_def putContext_def)
    with 2 m' run show ?thesis by auto
  next
    case 3
    then have "fst (and_then (trigger_if r i READ) (\<lambda>_. trigger_if w i WRITE) m) = Inl (Assert_Failed ''events & event'')"
      by (simp add: trigger_if_def and_then_def triggerEvent_def c_def hr_def)
    with 3 run show ?thesis by (cases "rt2 = 0") simp_all
  next
    case 4
    from trigger_if_spec [OF assms(1,2), of READ True] 4(2) obtain m1 where
      "trigger_if True i READ m = (Inr (), m1)" "m_fdContexts m1 = (m_fdContexts m)[i := cleared READ c]"
      unfolding hr_def c_def by auto
    moreover have "fc_events (cleared READ c) AND WRITE = 0"
      using 4(2,4) ok by (auto simp: hw_def hr_def ctx_ok_def cleared_def putContext_def)
    ultimately have "fst (and_then (trigger_if r i READ) (\<lambda>_. trigger_if w i WRITE) m) = Inl (Assert_Failed ''events & event'')"
      using 4(1,3) assms(2) by (simp add: op_simps) (simp add: trigger_if_def and_then_def triggerEvent_def)
    with 4 run show ?thesis by (cases "rt2 = 0") simp_all
  qed
qed

text \<open>
  C14: dispatching whatever the kernel reported. The wake-up pipe is drained. For a context: when none of the events asked for is
  registered, or \<open>epoll_ctl\<close> refuses to remove them, nothing changes. Otherwise, when every event asked for is registered, exactly the
  tasks of those events are resumed (read before write) and the events unregistered. When one is registered and the
  other is not - which happens if another thread removed an event between \<open>epoll_wait\<close> and this point - the assertion of
  \<open>triggerEvent\<close> aborts the process.
\<close>

theorem dispatch_event:
  assumes "io_inv m" and "case rep of Pipe \<Rightarrow> True | On_Fd i _ _ \<Rightarrow> i < length (m_fdContexts m)"
  shows "case rep of
      Pipe \<Rightarrow> dispatch rep m = (Inr (), m\<lparr>io_pipe := (io_pipe m)(io_self m := 0)\<rparr>)
    | On_Fd i ev rt2 \<Rightarrow>
       (let c = m_fdContexts m ! i; r = wants READ ev c; w = wants WRITE ev c;
            hr = (fc_events c AND READ \<noteq> 0); hw = (fc_events c AND WRITE \<noteq> 0) in
        if \<not> (r \<and> hr) \<and> \<not> (w \<and> hw) then dispatch rep m = (Inr (), m)
        else if rt2 \<noteq> 0 then dispatch rep m = (Inr (), m)
        else if (r \<longrightarrow> hr) \<and> (w \<longrightarrow> hw) then \<exists>m'. dispatch rep m = (Inr (), m') \<and> io_inv m'
          \<and> (\<forall>j. m_fibers (io_scheds m' j) = m_fibers (io_scheds m j) @ wake r READ c j @ wake w WRITE c j)
          \<and> fc_events (m_fdContexts m' ! i) = (fc_events c AND NOT (if r then READ else 0)) AND NOT (if w then WRITE else 0)
        else fst (dispatch rep m) = Inl (Assert_Failed ''events & event''))"
proof (cases rep)
  case (On_Fd i ev rt2)
  then have "i < length (m_fdContexts m)" using assms(2) by simp
  from dispatch_on_fd [OF assms(1) this, of ev rt2] show ?thesis unfolding On_Fd reported.case Let_def .
qed (simp add: dispatch_def)

theorem dispatch_event_witness:
  "fst (dispatch (On_Fd 3 1 0) example_io) = Inr () \<and> dispatch (On_Fd 3 1 (- 1)) example_io = (Inr (), example_io)
   \<and> dispatch (On_Fd 2 1 0) example_io = (Inr (), example_io) \<and> fst (dispatch Pipe example_io) = Inr ()"
  using dispatch_event [OF example_io_inv, of "On_Fd 3 1 0"] dispatch_event [OF example_io_inv, of "On_Fd 3 1 (- 1)"]
    dispatch_event [OF example_io_inv, of "On_Fd 2 1 0"] dispatch_event [OF example_io_inv, of Pipe]
  by (auto simp: example_io_def wants_def Let_def)

text \<open>
  The event loop stops only when nothing can happen any more: no timer is pending, no event is
  registered, the task queue is empty and no worker is busy.
\<close>

theorem io_stops_quiet:
  assumes "io_inv m" and "now \<noteq> 0" and "fst (fst (io_stopping now m))"
  shows "\<not> hasTimer (io_timers m) \<and> list_all (\<lambda>c. fc_events c = 0) (m_fdContexts m)
    \<and> m_fibers (io_scheds m (io_self m)) = [] \<and> m_activeThreadCount (io_scheds m (io_self m)) = 0"
proof -
  have tm: "tm_inv (io_timers m)" and t: "fst (getNextTimer now (io_timers m)) = NOT 0" "m_pendingEventCount m = 0"
    "stopping (io_scheds m (io_self m))"
    using assms(1,3) by (auto simp: io_stopping_def io_inv_def split: prod.splits)
  have "m_timers (io_timers m) = []"
  proof (rule ccontr)
    assume "m_timers (io_timers m) \<noteq> []"
    from getNextTimer_spec(4) [OF tm this, of now] obtain d where
      "(if d \<le> now then 0 else d - now) = (NOT 0 :: u64)" using t(1) by auto
    then have d: "d = now - 1" "now < d" by (auto simp: algebra_simps not_le split: if_splits)
    have "now - 1 < now" using assms(2) by (rule measure_unat [folded word_less_nat_alt])
    with d show False by (simp add: not_less_iff_gr_or_eq)
  qed
  moreover have "fc_events c = 0" if "c \<in> set (m_fdContexts m)" for c
  proof -
    have "regs c = 0" using t(2) assms(1) that by (simp add: io_inv_def)
    moreover have "fc_events c \<in> {0, 1, 4, 5}" using assms(1) that by (auto simp: io_inv_def list_all_iff ctx_ok_def)
    ultimately show ?thesis by (auto simp: regs_def)
  qed
  ultimately show ?thesis using t(3) by (simp add: hasTimer_def list_all_iff stopping_def)
qed

theorem io_stops_quiet_witness:
  "fst (fst (io_stopping 5 (IOManager 0 (\<lambda>_. (sched_init :: nat sched)\<lparr>m_autoStop := True\<rparr>) 1)))
   \<and> \<not> hasTimer (io_timers (IOManager 0 (\<lambda>_. (sched_init :: nat sched)\<lparr>m_autoStop := True\<rparr>) 1))"
proof -
  let ?m = "IOManager 0 (\<lambda>_. (sched_init :: nat sched)\<lparr>m_autoStop := True\<rparr>) 1"
  have "fst (fst (io_stopping 5 ?m))"
    by (simp add: io_stopping_def IOManager_def contextResize_def TimerManager_def getNextTimer_def stopping_def sched_init_def)
  with io_stops_quiet [OF IOManager_inv, of 5 0 "\<lambda>_. (sched_init :: nat sched)\<lparr>m_autoStop := True\<rparr>" 1]
  show ?thesis by simp
qed

text \<open>
  The time \<open>epoll_wait\<close> is given. A timeout below 2^31 ms gives a wait between 0 and 3 s that does
  not overshoot it. A longer one loses its upper bits in the conversion to \<open>int\<close>: when bit 31 is
  set the wait is negative, that is, unlimited, although the intended limit is 3 s.
\<close>

theorem epoll_timeout_cases:
  "epoll_timeout w = (if w = NOT 0 then 3000 else min 3000 (sint (ucast w :: u32)))
   \<and> (unat w < 2 ^ 31 \<longrightarrow> 0 \<le> epoll_timeout w \<and> epoll_timeout w \<le> min 3000 (uint w))
   \<and> (w \<noteq> NOT 0 \<and> bit w 31 \<longrightarrow> epoll_timeout w < 0)"
proof (intro conjI impI)
  have c: "sint (ucast (3000 :: u64) :: u32) = 3000" by simp
  show *: "epoll_timeout w = (if w = NOT 0 then 3000 else min 3000 (sint (ucast w :: u32)))"
    by (simp add: epoll_timeout_def wait_timeout_def c min_def)
  show "epoll_timeout w < 0" if "w \<noteq> NOT 0 \<and> bit w 31"
  proof -
    have "sint (ucast w :: u32) < 0"
      using that bit_last_iff [of "ucast w :: u32"] by (simp add: bit_ucast_iff)
    then show ?thesis using that * by auto
  qed
  assume small: "unat w < 2 ^ 31"
  then have neq: "w \<noteq> NOT 0" by (auto simp: unsigned_minus_1_eq_mask mask_eq_exp_minus_1)
  have u: "uint w < 2 ^ 31" using small by (simp only: unat_eq_nat_uint nat_less_iff [OF unsigned_greater_eq]) simp
  have "uint (ucast w :: u32) = uint w" using u by (simp add: unsigned_ucast_eq take_bit_int_eq_self)
  moreover have "- (2 ^ 31) \<le> uint w" by (rule order_trans [of _ 0]) simp_all
  then have "signed_take_bit 31 (uint w) = uint w" using u by (rule signed_take_bit_int_eq_self)
  ultimately have "sint (ucast w :: u32) = uint w" by (simp add: sint_uint)
  with * neq show "0 \<le> epoll_timeout w" "epoll_timeout w \<le> min 3000 (uint w)" by simp_all
qed

theorem epoll_timeout_cases_witness:
  "epoll_timeout 500 \<le> 500 \<and> epoll_timeout 2147483648 < 0"
  using epoll_timeout_cases [of 500] epoll_timeout_cases [of 2147483648] by simp

text \<open>
  Growing the table is not safe under concurrency. If two threads find the table too small, one
  for descriptor 100 and one for 40, and the first has registered its event before the second
  resizes, the resize shrinks the table: the registration is gone from it while the counter still counts
  it, so the loop can no longer stop.
\<close>

theorem resize_race:
  "\<exists>S. sh_reach (S :: nat io_shared) \<and> m_pendingEventCount (sh_mgr S) = 1
     \<and> (\<forall>i \<in> set (sh_table S). fc_events (m_fdContexts (sh_mgr S) ! i) = 0) \<and> (\<forall>t. sh_at S t = Elsewhere)
     \<and> \<not> fst (fst (io_stopping now (sh_mgr S)))"
proof -
  let ?d = "Call_add 40 READ (Some 5)"
  let ?S = "resize_shared 1 ?d (one_added 5)" let ?E = "?S\<lparr>sh_mgr := sh_mgr ?S, sh_at := (sh_at ?S)(1 := Elsewhere)\<rparr>"
  have "sh_reach ?S"
    by (rule sh_resize [OF one_added_reach]) (simp add: one_added_def both_looked_def resize_shared_def Let_def)
  moreover have t: "sh_at ?S = (\<lambda>_. Elsewhere)(1 := Holds ?d 40)" "sh_table ?S = [0..<60]"
    and m: "sh_mgr ?S = sh_mgr (one_added 5)" and n: "m_pendingEventCount (sh_mgr ?S) = 1"
    using one_added_parts by (auto simp: resize_shared_def Let_def take_upt simp del: upt_rec_numeral)
  moreover have zero: "fc_events (m_fdContexts (sh_mgr ?S) ! i) = 0" if "i < 60" for i
    using that unfolding m one_added_parts(1) by (simp del: upt_rec_numeral)
  then have "ctx_section ?d 40 (- 1) 0 (0, EXEC) (sh_mgr ?S) = (Inr (- 1), sh_mgr ?S)"
    by (simp add: ctx_section_def addEvent_ctx_def)
  ultimately have "sh_reach ?E" using sh_section [of ?S 1 ?d 40 "- 1" 0 "(0, EXEC)" "- 1" "sh_mgr ?S"] by simp
  moreover have "\<not> fst (fst (io_stopping now (sh_mgr ?S)))" using n by (simp add: io_stopping_def split: prod.splits)
  ultimately show ?thesis using n t zero by (intro exI [of _ ?E]) (auto simp del: upt_rec_numeral)
qed

end
