(* ===== verification/Fd_Manager.thy ===== *)
theory Fd_Manager
  imports Web_Prelude
begin

text \<open>
  The table of descriptors the hooks keep (\<open>fd_manager.h\<close>, \<open>fd_manager.cc\<close>): what the library knows of
  a descriptor, and the lookup that creates entries on demand. What the kernel says about a
  descriptor (\<open>fstat\<close>, its status flags) is part of the state, so that the change of the flags made
  while an entry is created is visible.
\<close>

abbreviation O_NONBLOCK :: u32 where "O_NONBLOCK \<equiv> 2048"
abbreviation SO_RCVTIMEO :: int where "SO_RCVTIMEO \<equiv> 20"
abbreviation SO_SNDTIMEO :: int where "SO_SNDTIMEO \<equiv> 21"

record fd_ctx =
  m_isInit :: bool
  m_isSocket :: bool
  m_sysNonblock :: bool
  m_userNonblock :: bool
  m_isClosed :: bool
  m_fd :: int
  m_recvTimeout :: u64
  m_sendTimeout :: u64

text \<open>\<open>k_stat\<close> is the answer of \<open>fstat\<close>: none for a closed descriptor, else whether it is a socket.\<close>

record fd_mgr =
  m_datas :: "fd_ctx option list"
  k_stat :: "int \<Rightarrow> bool option"
  k_flags :: "int \<Rightarrow> u32"

definition setTimeout :: "int \<Rightarrow> u64 \<Rightarrow> fd_ctx \<Rightarrow> fd_ctx" where
  "setTimeout type v c = (if type = SO_RCVTIMEO then c\<lparr>m_recvTimeout := v\<rparr> else c\<lparr>m_sendTimeout := v\<rparr>)"

definition getTimeout :: "int \<Rightarrow> fd_ctx \<Rightarrow> u64" where
  "getTimeout type c = (if type = SO_RCVTIMEO then m_recvTimeout c else m_sendTimeout c)"

definition fd_init :: "fd_ctx \<Rightarrow> fd_mgr \<Rightarrow> fd_ctx \<times> fd_mgr" where
  "fd_init c g =
     (if m_isInit c then (c, g)
      else let c = c\<lparr>m_recvTimeout := - 1, m_sendTimeout := - 1\<rparr>;
               c = (case k_stat g (m_fd c) of
                      None \<Rightarrow> c\<lparr>m_isInit := False, m_isSocket := False\<rparr>
                    | Some sock \<Rightarrow> c\<lparr>m_isInit := True, m_isSocket := sock\<rparr>);
               flags = k_flags g (m_fd c) in
           if m_isSocket c then
             (c\<lparr>m_sysNonblock := True, m_userNonblock := False, m_isClosed := False\<rparr>,
              if flags AND O_NONBLOCK = 0 then g\<lparr>k_flags := (k_flags g)(m_fd c := flags OR O_NONBLOCK)\<rparr> else g)
           else (c\<lparr>m_sysNonblock := False, m_userNonblock := False, m_isClosed := False\<rparr>, g))"

definition FdCtx :: "int \<Rightarrow> fd_mgr \<Rightarrow> fd_ctx \<times> fd_mgr" where
  "FdCtx fd g = fd_init \<lparr>m_isInit = False, m_isSocket = False, m_sysNonblock = False, m_userNonblock = False,
     m_isClosed = False, m_fd = fd, m_recvTimeout = - 1, m_sendTimeout = - 1\<rparr> g"

definition FdManager :: "(int \<Rightarrow> bool option) \<Rightarrow> (int \<Rightarrow> u32) \<Rightarrow> fd_mgr" where
  "FdManager st fl = \<lparr>m_datas = replicate 64 None, k_stat = st, k_flags = fl\<rparr>"

text \<open>An index below zero other than -1 leaves the vector, which is undefined.\<close>

definition fd_get :: "int \<Rightarrow> bool \<Rightarrow> (fd_mgr, fd_ctx option) sop" where
  "fd_get fd auto_create g =
     (if fd = - 1 then (Inr None, g)
      else if int (length (m_datas g)) \<le> fd \<and> \<not> auto_create then (Inr None, g)
      else if fd < 0 then (Inl Buffer_Overflow, g)
      else if fd < int (length (m_datas g)) \<and> (m_datas g ! nat fd \<noteq> None \<or> \<not> auto_create)
           then (Inr (m_datas g ! nat fd), g)
      else case FdCtx fd g of (ctx, g) \<Rightarrow>
        let sz = nat (fd * 3 div 2);
            ds = (if fd \<ge> int (length (m_datas g))
                  then take sz (m_datas g) @ replicate (sz - length (m_datas g)) None else m_datas g) in
        if nat fd < length ds then (Inr (Some ctx), g\<lparr>m_datas := ds[nat fd := Some ctx]\<rparr>)
        else (Inl Buffer_Overflow, g\<lparr>m_datas := ds\<rparr>))"

definition fd_del :: "int \<Rightarrow> (fd_mgr, unit) sop" where
  "fd_del fd g =
     (if int (length (m_datas g)) \<le> fd then (Inr (), g)
      else if fd < 0 then (Inl Buffer_Overflow, g)
      else (Inr (), g\<lparr>m_datas := (m_datas g)[nat fd := None]\<rparr>))"

text \<open>The entry of a descriptor, and changing it through the pointer \<open>get\<close> returned.\<close>

definition fd_entry :: "int \<Rightarrow> fd_mgr \<Rightarrow> fd_ctx option" where
  "fd_entry fd g = (if 0 \<le> fd \<and> fd < int (length (m_datas g)) then m_datas g ! nat fd else None)"

definition fd_modify :: "int \<Rightarrow> (fd_ctx \<Rightarrow> fd_ctx) \<Rightarrow> fd_mgr \<Rightarrow> fd_mgr" where
  "fd_modify fd f g = g\<lparr>m_datas := (m_datas g)[nat fd := map_option f (m_datas g ! nat fd)]\<rparr>"

section \<open>Invariant\<close>

text \<open>
  Entry \<open>i\<close> is about descriptor \<open>i\<close>; for a socket the library has switched the kernel to
  non-blocking mode and says so in \<open>m_sysNonblock\<close>.
\<close>

definition fd_ok :: "fd_mgr \<Rightarrow> bool" where
  "fd_ok g \<longleftrightarrow> 64 \<le> length (m_datas g) \<and> (\<forall>fd c. fd_entry fd g = Some c \<longrightarrow>
     m_fd c = fd \<and> m_sysNonblock c = m_isSocket c \<and> (m_isSocket c \<longrightarrow> k_flags g fd AND O_NONBLOCK \<noteq> 0))"

lemma fd_get_found:
  assumes "0 \<le> fd"
  shows "fd_get fd False g = (Inr (fd_entry fd g), g)"
  using assms by (auto simp: fd_get_def fd_entry_def)

lemma or_nonblock: "(flags OR O_NONBLOCK) AND O_NONBLOCK \<noteq> (0 :: u32)"
  by (simp add: bit.conj_disj_distrib2)

lemma FdCtx_spec:
  assumes "FdCtx fd g = (c, g')"
  shows "m_fd c = fd" "m_datas g' = m_datas g" "k_stat g' = k_stat g" "m_isSocket c \<longleftrightarrow> k_stat g fd = Some True"
    "m_sysNonblock c = m_isSocket c" "\<not> m_isClosed c" "\<not> m_userNonblock c" "m_recvTimeout c = - 1" "m_sendTimeout c = - 1"
    "m_isSocket c \<Longrightarrow> k_flags g' fd AND O_NONBLOCK \<noteq> 0" "x \<noteq> fd \<Longrightarrow> k_flags g' x = k_flags g x"
    "k_flags g' x = k_flags g x \<or> k_flags g' x = k_flags g x OR O_NONBLOCK"
  using assms or_nonblock [of "k_flags g fd"]
  by (auto simp: FdCtx_def fd_init_def Let_def split: option.splits if_splits)

text \<open>Storing an entry in a vector that only grew by empty entries changes that one entry.\<close>

lemma fd_entry_store:
  assumes "nat fd < length ds" "length l \<le> length ds" "0 \<le> fd"
    and "\<And>i. i < length ds \<Longrightarrow> ds ! i = (if i < length l then l ! i else None)"
    and "m_datas g = l"
  shows "fd_entry x (g1\<lparr>m_datas := ds[nat fd := Some c]\<rparr>) = (if x = fd then Some c else fd_entry x g)"
proof (cases "0 \<le> x \<and> x < int (length ds)")
  case True
  then have "nat x < length ds" "x = fd \<longleftrightarrow> nat x = nat fd" using assms(3) by auto
  then show ?thesis using True assms(4) [of "nat x"] assms(1,2,5)
    by (auto simp: fd_entry_def nth_list_update)
next
  case False
  then show ?thesis using assms(1-3,5) by (auto simp: fd_entry_def)
qed

lemma fd_get_create:
  assumes "fd_ok g" and "0 \<le> fd"
  shows "\<exists>c g'. fd_get fd True g = (Inr (Some c), g') \<and> fd_ok g' \<and> fd_entry fd g' = Some c
    \<and> (fd_entry fd g = Some c \<and> g' = g \<or> fd_entry fd g = None \<and> (m_isSocket c \<longleftrightarrow> k_stat g fd = Some True))
    \<and> (\<forall>x. x \<noteq> fd \<longrightarrow> fd_entry x g' = fd_entry x g)"
proof (cases "fd_entry fd g")
  case (Some c)
  then show ?thesis using assms by (auto simp: fd_get_def fd_entry_def split: if_splits)
next
  case None
  obtain c g1 where c: "FdCtx fd g = (c, g1)" by fastforce
  note s = FdCtx_spec [OF c]
  let ?sz = "nat (fd * 3 div 2)" and ?l = "m_datas g"
  let ?ds = "if fd \<ge> int (length ?l) then take ?sz ?l @ replicate (?sz - length ?l) None else ?l"
  have len: "64 \<le> length ?l" using assms(1) by (simp add: fd_ok_def)
  have sz: "nat fd < length ?ds" "length ?l \<le> length ?ds" using len assms(2) by auto
  have nth: "?ds ! i = (if i < length ?l then ?l ! i else None)" if "i < length ?ds" for i
    using that len assms(2) by (auto simp: nth_append split: if_splits)
  let ?g' = "g1\<lparr>m_datas := ?ds[nat fd := Some c]\<rparr>"
  have "\<not> (fd < int (length ?l) \<and> ?l ! nat fd \<noteq> None)" using None assms(2) by (auto simp: fd_entry_def)
  then have run: "fd_get fd True g = (Inr (Some c), ?g')"
    using assms(2) c s(2) sz(1) by (auto simp: fd_get_def Let_def)
  have e: "fd_entry x ?g' = (if x = fd then Some c else fd_entry x g)" for x
    by (rule fd_entry_store [OF sz assms(2) nth refl])
  have "m_fd c' = x \<and> m_sysNonblock c' = m_isSocket c' \<and> (m_isSocket c' \<longrightarrow> k_flags ?g' x AND O_NONBLOCK \<noteq> 0)"
    if "fd_entry x ?g' = Some c'" for x c'
  proof (cases "x = fd")
    case True
    then have "c' = c" using that e by simp
    then show ?thesis using True s(1,5,10) by simp
  next
    case False
    then have "fd_entry x g = Some c'" "k_flags ?g' x = k_flags g x" using that e s(11) by simp_all
    then show ?thesis using assms(1) unfolding fd_ok_def by simp
  qed
  then have "fd_ok ?g'" unfolding fd_ok_def using len sz(2) by simp
  then show ?thesis using run e None s(4) by auto
qed

end
