(* ===== verification/Hook.thy ===== *)
theory Hook
  imports IO_Manager Fd_Manager "HOL-Library.Signed_Division"
begin

text \<open>
  The hooked system calls (\<open>hook.cc\<close>): on a socket the library manages, a call that would block
  registers the current fiber for the descriptor's event, arms a timer for the descriptor's
  timeout, yields, and tries again when it is resumed. Results of the original calls are
  arguments, as pairs of return value and \<open>errno\<close>; so are the addresses of new objects, the clock
  and what the rest of the program does while the fiber is suspended.
\<close>

abbreviation EINTR :: int where "EINTR \<equiv> 4"
abbreviation EBADF :: int where "EBADF \<equiv> 9"
abbreviation EAGAIN :: int where "EAGAIN \<equiv> 11"
abbreviation ETIMEDOUT :: int where "ETIMEDOUT \<equiv> 110"
abbreviation EINPROGRESS :: int where "EINPROGRESS \<equiv> 115"
abbreviation SOL_SOCKET :: int where "SOL_SOCKET \<equiv> 1"
abbreviation FIONBIO :: int where "FIONBIO \<equiv> 21537"

section \<open>State\<close>

text \<open>
  The callbacks the hooks give to the event loop: the closure of a timeout (its weak pointer, the
  descriptor and the event), \<open>schedule\<close> bound to a fiber, and the callbacks of the application.
\<close>

datatype task = Timeout nat int u32 | Wake nat | User nat

text \<open>
  \<open>tinfo\<close> holds the \<open>timer_info\<close> objects: nothing once the last reference is gone, else the field
  \<open>cancelled\<close>.
\<close>

record hook =
  t_hook_enable :: bool
  fdmgr :: fd_mgr
  iom :: "task iomgr"
  tinfo :: "nat \<Rightarrow> int option"

text \<open>The calling thread: whether its scheduler is the event loop, its current fiber and its state.\<close>

record caller =
  cl_iom :: bool
  cl_fiber :: nat
  cl_state :: fiber_state

type_synonym sysret = "int \<times> int"

definition on_io :: "(task iomgr, 'a) sop \<Rightarrow> (hook, 'a) sop" where
  "on_io f h = (case f (iom h) of (r, m) \<Rightarrow> (r, h\<lparr>iom := m\<rparr>))"

definition on_fds :: "(fd_mgr, 'a) sop \<Rightarrow> (hook, 'a) sop" where
  "on_fds f h = (case f (fdmgr h) of (r, g) \<Rightarrow> (r, h\<lparr>fdmgr := g\<rparr>))"

definition is_hook_enable :: "hook \<Rightarrow> bool" where
  "is_hook_enable h = t_hook_enable h"

definition set_hook_enable :: "bool \<Rightarrow> hook \<Rightarrow> hook" where
  "set_hook_enable flag h = h\<lparr>t_hook_enable := flag\<rparr>"

definition free_tinfo :: "nat \<Rightarrow> hook \<Rightarrow> hook" where
  "free_tinfo ti h = h\<lparr>tinfo := (tinfo h)(ti := None)\<rparr>"

text \<open>The closures, run by a worker; \<open>rt\<close> is the result of \<open>epoll_ctl\<close> in \<open>cancelEvent\<close>.\<close>

definition timeout_cb :: "nat \<Rightarrow> int \<Rightarrow> u32 \<Rightarrow> int \<Rightarrow> (hook, unit) sop" where
  "timeout_cb winfo fd event rt h =
     (case tinfo h winfo of None \<Rightarrow> (Inr (), h)
      | Some cancelled \<Rightarrow>
        if cancelled \<noteq> 0 then (Inr (), h)
        else and_then (on_io (cancelEvent fd event rt)) (\<lambda>_. ret ())
               (h\<lparr>tinfo := (tinfo h)(winfo := Some ETIMEDOUT)\<rparr>))"

definition run_task :: "task \<Rightarrow> int \<Rightarrow> (hook, unit) sop" where
  "run_task c rt h =
     (case c of
        Timeout winfo fd event \<Rightarrow>
          OnTimer (\<lambda>w. tinfo h w \<noteq> None) winfo (\<lambda>(_, h). timeout_cb winfo fd event rt h) (Inr (), h)
      | Wake fiber \<Rightarrow> (Inr (), h\<lparr>iom := io_schedule (io_self (iom h)) (FiberAndThread (Some fiber) None (- 1)) (iom h)\<rparr>)
      | User _ \<Rightarrow> (Inr (), h))"

section \<open>\<open>do_io\<close>\<close>

datatype io_mode = Direct | Bad_Fd | Managed u64

definition do_io_enter :: "int \<Rightarrow> int \<Rightarrow> (hook, io_mode) sop" where
  "do_io_enter fd timeout_so h =
     (if \<not> t_hook_enable h then (Inr Direct, h)
      else and_then (on_fds (fd_get fd False)) (\<lambda>ctx.
        case ctx of None \<Rightarrow> ret Direct
        | Some ctx \<Rightarrow> if m_isClosed ctx then ret Bad_Fd
                      else if \<not> m_isSocket ctx \<or> m_userNonblock ctx then ret Direct
                      else ret (Managed (getTimeout timeout_so ctx))) h)"

text \<open>The loop over interrupted calls, on the results the kernel gives; it ends at the first that is not \<open>EINTR\<close>.\<close>

fun eintr :: "sysret list \<Rightarrow> sysret option" where
  "eintr [] = None"
| "eintr ((n, err) # rs) = (if n = - 1 \<and> err = EINTR then eintr rs else Some (n, err))"

definition cancel_timer :: "nat option \<Rightarrow> (hook, unit) sop" where
  "cancel_timer timer h =
     (case timer of None \<Rightarrow> (Inr (), h)
      | Some t \<Rightarrow> (case cancel t (io_timers (iom h)) of
           (Inl e, tm) \<Rightarrow> (Inl e, h\<lparr>iom := (iom h)\<lparr>io_timers := tm\<rparr>\<rparr>)
         | (Inr _, tm) \<Rightarrow> (Inr (), h\<lparr>iom := (iom h)\<lparr>io_timers := tm\<rparr>\<rparr>)))"

definition arm_timeout :: "nat \<Rightarrow> int \<Rightarrow> u32 \<Rightarrow> u64 \<Rightarrow> u64 \<Rightarrow> nat \<Rightarrow> hook \<Rightarrow> nat option \<times> hook" where
  "arm_timeout ti fd event to now t h =
     (if to \<noteq> - 1 then (Some t, h\<lparr>iom := io_addTimer t now to (Some (Timeout ti fd event)) False (iom h)\<rparr>)
      else (None, h))"

text \<open>
  The branch for \<open>EAGAIN\<close>, up to the yield: \<open>Returned\<close> when the call ends, \<open>Suspended\<close> with the timer when the
  fiber yielded. Returning -1 leaves \<open>errno\<close> as the original call set it.
\<close>

datatype io_outcome = Returned sysret | Suspended "nat option"

definition do_io_wait :: "caller \<Rightarrow> nat \<Rightarrow> int \<Rightarrow> u32 \<Rightarrow> u64 \<Rightarrow> u64 \<times> nat \<times> int \<Rightarrow> (hook, io_outcome) sop" where
  "do_io_wait cl ti fd event to w h =
     (case w of (now, t, rt) \<Rightarrow>
        if \<not> cl_iom cl then (Inl Null_Deref, h)
        else case arm_timeout ti fd event to now t h of (timer, h) \<Rightarrow>
          and_then (on_io (addEvent fd event None rt (Some (io_self (iom h))) (cl_fiber cl, cl_state cl))) (\<lambda>rt.
            if rt > 0 then and_then (cancel_timer timer) (\<lambda>_. ret (Returned (- 1, EAGAIN)))
            else ret (Suspended timer)) h)"

text \<open>After the yield: the error of a cancelled call, or nothing when the call is to be retried.\<close>

definition do_io_woken :: "nat \<Rightarrow> nat option \<Rightarrow> (hook, sysret option) sop" where
  "do_io_woken ti timer =
     and_then (cancel_timer timer) (\<lambda>_ h.
       case tinfo h ti of None \<Rightarrow> (Inl Null_Deref, h)
       | Some cancelled \<Rightarrow> (Inr (if cancelled \<noteq> 0 then Some (- 1, cancelled) else None), h))"

text \<open>
  One round of the retry loop: the results of the original call, the inputs of the wait, and what
  the rest of the program does to the state while the fiber is suspended.
\<close>

record io_round =
  r_results :: "sysret list"
  r_wait :: "u64 \<times> nat \<times> int"
  r_others :: "hook \<Rightarrow> hook"

text \<open>The result is nothing when the call has not returned after the given rounds.\<close>

primrec do_io_retry :: "caller \<Rightarrow> nat \<Rightarrow> int \<Rightarrow> u32 \<Rightarrow> u64 \<Rightarrow> io_round list \<Rightarrow> (hook, sysret option) sop" where
  "do_io_retry cl ti fd event to [] = ret None"
| "do_io_retry cl ti fd event to (r # rs) =
     (case eintr (r_results r) of None \<Rightarrow> ret None
      | Some n \<Rightarrow>
        if n = (- 1, EAGAIN) then
          and_then (do_io_wait cl ti fd event to (r_wait r)) (\<lambda>out.
            case out of Returned n \<Rightarrow> (\<lambda>h. (Inr (Some n), free_tinfo ti h))
            | Suspended timer \<Rightarrow> (\<lambda>h.
                and_then (do_io_woken ti timer) (\<lambda>res.
                  case res of Some n \<Rightarrow> (\<lambda>h. (Inr (Some n), free_tinfo ti h))
                  | None \<Rightarrow> do_io_retry cl ti fd event to rs) (r_others r h)))
        else (\<lambda>h. (Inr (Some n), free_tinfo ti h)))"

text \<open>\<open>direct\<close> is the result of the original call when it is passed through.\<close>

definition do_io :: "caller \<Rightarrow> nat \<Rightarrow> int \<Rightarrow> u32 \<Rightarrow> int \<Rightarrow> sysret \<Rightarrow> io_round list \<Rightarrow> (hook, sysret option) sop" where
  "do_io cl ti fd event timeout_so direct rs =
     and_then (do_io_enter fd timeout_so) (\<lambda>mode.
       case mode of Direct \<Rightarrow> ret (Some direct)
       | Bad_Fd \<Rightarrow> ret (Some (- 1, EBADF))
       | Managed to \<Rightarrow> (\<lambda>h. do_io_retry cl ti fd event to rs (h\<lparr>tinfo := (tinfo h)(ti := Some 0)\<rparr>)))"

text \<open>The read and write calls differ in the event they wait for and in the timeout they obey.\<close>

datatype io_call = Read | Readv | Recv | Recvfrom | Recvmsg | Write | Writev | Send | Sendto | Sendmsg

primrec io_args :: "io_call \<Rightarrow> u32 \<times> int" where
  "io_args Read = (READ, SO_RCVTIMEO)"
| "io_args Readv = (READ, SO_RCVTIMEO)"
| "io_args Recv = (READ, SO_RCVTIMEO)"
| "io_args Recvfrom = (READ, SO_RCVTIMEO)"
| "io_args Recvmsg = (READ, SO_RCVTIMEO)"
| "io_args Write = (WRITE, SO_SNDTIMEO)"
| "io_args Writev = (WRITE, SO_SNDTIMEO)"
| "io_args Send = (WRITE, SO_SNDTIMEO)"
| "io_args Sendto = (WRITE, SO_SNDTIMEO)"
| "io_args Sendmsg = (WRITE, SO_SNDTIMEO)"

definition hk_call :: "io_call \<Rightarrow> caller \<Rightarrow> nat \<Rightarrow> int \<Rightarrow> sysret \<Rightarrow> io_round list \<Rightarrow> (hook, sysret option) sop" where
  "hk_call c cl ti fd = do_io cl ti fd (fst (io_args c)) (snd (io_args c))"

definition hk_accept :: "caller \<Rightarrow> nat \<Rightarrow> int \<Rightarrow> sysret \<Rightarrow> io_round list \<Rightarrow> (hook, sysret option) sop" where
  "hk_accept cl ti s direct rs =
     and_then (do_io cl ti s READ SO_RCVTIMEO direct rs) (\<lambda>res.
       case res of Some (fd, err) \<Rightarrow>
           if fd \<ge> 0 then and_then (on_fds (fd_get fd True)) (\<lambda>_. ret (Some (fd, err))) else ret (Some (fd, err))
       | None \<Rightarrow> ret None)"

section \<open>\<open>connect\<close>\<close>

datatype connect_outcome = Connected sysret | Connecting "nat option" | Check

text \<open>\<open>n\<close> is the result of the original \<open>connect\<close>. \<open>Check\<close> is the branch where registering failed.\<close>

definition connect_start ::
  "caller \<Rightarrow> nat \<Rightarrow> int \<Rightarrow> u64 \<Rightarrow> sysret \<Rightarrow> u64 \<times> nat \<times> int \<Rightarrow> (hook, connect_outcome) sop" where
  "connect_start cl ti fd timeout_ms n w h =
     (if \<not> t_hook_enable h then (Inr (Connected n), h)
      else and_then (on_fds (fd_get fd False)) (\<lambda>ctx h.
        case ctx of None \<Rightarrow> (Inr (Connected (- 1, EBADF)), h)
        | Some ctx \<Rightarrow>
          if m_isClosed ctx then (Inr (Connected (- 1, EBADF)), h)
          else if \<not> m_isSocket ctx \<or> m_userNonblock ctx then (Inr (Connected n), h)
          else if fst n = 0 \<or> fst n \<noteq> - 1 \<or> snd n \<noteq> EINPROGRESS then (Inr (Connected n), h)
          else if \<not> cl_iom cl then (Inl Null_Deref, h)
          else (case w of (now, t, rt) \<Rightarrow>
            case arm_timeout ti fd WRITE timeout_ms now t (h\<lparr>tinfo := (tinfo h)(ti := Some 0)\<rparr>) of (timer, h) \<Rightarrow>
              and_then (on_io (addEvent fd WRITE None rt (Some (io_self (iom h))) (cl_fiber cl, cl_state cl))) (\<lambda>rt.
                if rt = 0 then ret (Connecting timer)
                else and_then (cancel_timer timer) (\<lambda>_. ret Check)) h)) h)"

text \<open>
  The answer of \<open>getsockopt(SO_ERROR)\<close>: its result with \<open>errno\<close>, and the pending error.
\<close>

definition connect_check :: "sysret \<times> int \<Rightarrow> sysret" where
  "connect_check so = (case so of ((r, err), error) \<Rightarrow>
     if r = - 1 then (- 1, err) else if error = 0 then (0, err) else (- 1, error))"

definition connect_with_timeout ::
  "caller \<Rightarrow> nat \<Rightarrow> int \<Rightarrow> u64 \<Rightarrow> sysret \<Rightarrow> u64 \<times> nat \<times> int \<Rightarrow> (hook \<Rightarrow> hook) \<Rightarrow> sysret \<times> int \<Rightarrow> (hook, sysret) sop" where
  "connect_with_timeout cl ti fd timeout_ms n w others so =
     and_then (connect_start cl ti fd timeout_ms n w) (\<lambda>out.
       case out of Connected r \<Rightarrow> ret r
       | Check \<Rightarrow> (\<lambda>h. (Inr (connect_check so), free_tinfo ti h))
       | Connecting timer \<Rightarrow> (\<lambda>h.
           and_then (do_io_woken ti timer) (\<lambda>res h.
             (Inr (case res of Some e \<Rightarrow> e | None \<Rightarrow> connect_check so), free_tinfo ti h)) (others h)))"

text \<open>\<open>s_connect_timeout\<close> holds the \<open>int\<close> option \<open>tcp.connect.timeout\<close>, converted.\<close>

definition s_connect_timeout :: "int \<Rightarrow> u64" where
  "s_connect_timeout conf = word_of_int conf"

definition hk_connect ::
  "int \<Rightarrow> caller \<Rightarrow> nat \<Rightarrow> int \<Rightarrow> sysret \<Rightarrow> u64 \<times> nat \<times> int \<Rightarrow> (hook \<Rightarrow> hook) \<Rightarrow> sysret \<times> int \<Rightarrow> (hook, sysret) sop" where
  "hk_connect conf cl ti fd = connect_with_timeout cl ti fd (s_connect_timeout conf)"

section \<open>Sleeping\<close>

text \<open>
  The milliseconds each call asks for, with the arithmetic of the source: \<open>seconds * 1000\<close> in 32
  unsigned bits, and the \<open>int\<close> variable of \<open>nanosleep\<close> converted to \<open>uint64_t\<close>.
\<close>

datatype sleep_call = Sleep u32 | Usleep u32 | Nanosleep int int

primrec sleep_ms :: "sleep_call \<Rightarrow> u64" where
  "sleep_ms (Sleep seconds) = ucast (seconds * 1000)"
| "sleep_ms (Usleep usec) = ucast (usec div 1000)"
| "sleep_ms (Nanosleep tv_sec tv_nsec) = word_of_int (sint (word_of_int (tv_sec * 1000 + tv_nsec sdiv 1000 sdiv 1000) :: u32))"

text \<open>Whether the fiber yielded; else the original call was made.\<close>

definition hk_sleep :: "sleep_call \<Rightarrow> caller \<Rightarrow> u64 \<Rightarrow> nat \<Rightarrow> (hook, bool) sop" where
  "hk_sleep c cl now t h =
     (if \<not> t_hook_enable h then (Inr False, h)
      else if \<not> cl_iom cl then (Inl Null_Deref, h)
      else (Inr True, h\<lparr>iom := io_addTimer t now (sleep_ms c) (Some (Wake (cl_fiber cl))) False (iom h)\<rparr>))"

section \<open>Descriptors\<close>

text \<open>\<open>fd\<close> is the result of the original \<open>socket\<close>.\<close>

definition hk_socket :: "int \<Rightarrow> (hook, int) sop" where
  "hk_socket fd h =
     (if \<not> t_hook_enable h then (Inr fd, h)
      else if fd = - 1 then (Inr fd, h)
      else and_then (on_fds (fd_get fd True)) (\<lambda>_. ret fd) h)"

text \<open>The kernel forgets a closed descriptor; \<open>rt\<close> is the result of \<open>epoll_ctl\<close>, \<open>r\<close> that of the original \<open>close\<close>.\<close>

definition close_f :: "int \<Rightarrow> int \<Rightarrow> (hook, int) sop" where
  "close_f fd r h = (Inr r, if r = 0 then h\<lparr>fdmgr := (fdmgr h)\<lparr>k_stat := (k_stat (fdmgr h))(fd := None)\<rparr>\<rparr> else h)"

definition hk_close :: "bool \<Rightarrow> int \<Rightarrow> int \<Rightarrow> int \<Rightarrow> (hook, int) sop" where
  "hk_close has_iom fd rt r h =
     (if \<not> t_hook_enable h then close_f fd r h
      else and_then (on_fds (fd_get fd False)) (\<lambda>ctx.
        if ctx \<noteq> None then
          and_then (if has_iom then and_then (on_io (cancelAll fd rt)) (\<lambda>_. ret ()) else ret ()) (\<lambda>_.
          and_then (on_fds (fd_del fd)) (\<lambda>_. close_f fd r))
        else close_f fd r) h)"

text \<open>The original \<open>fcntl\<close> on the status flags, for a descriptor the kernel knows.\<close>

definition setfl_f :: "int \<Rightarrow> u32 \<Rightarrow> hook \<Rightarrow> hook" where
  "setfl_f fd arg h = h\<lparr>fdmgr := (fdmgr h)\<lparr>k_flags := (k_flags (fdmgr h))(fd := arg)\<rparr>\<rparr>"

datatype fcntl_cmd = F_SETFL u32 | F_GETFL | F_OTHER int

text \<open>\<open>other\<close> is the result of the original call for the commands that are passed through.\<close>

definition hk_fcntl :: "int \<Rightarrow> fcntl_cmd \<Rightarrow> u32 \<Rightarrow> (hook, u32) sop" where
  "hk_fcntl fd cmd other =
     (case cmd of
        F_SETFL arg \<Rightarrow>
          and_then (on_fds (fd_get fd False)) (\<lambda>ctx h.
            case ctx of None \<Rightarrow> (Inr 0, setfl_f fd arg h)
            | Some ctx \<Rightarrow>
              if m_isClosed ctx \<or> \<not> m_isSocket ctx then (Inr 0, setfl_f fd arg h)
              else let h = h\<lparr>fdmgr := fd_modify fd (\<lambda>c. c\<lparr>m_userNonblock := arg AND O_NONBLOCK \<noteq> 0\<rparr>) (fdmgr h)\<rparr>;
                       arg = (if m_sysNonblock ctx then arg OR O_NONBLOCK else arg AND NOT O_NONBLOCK) in
                   (Inr 0, setfl_f fd arg h))
      | F_GETFL \<Rightarrow> (\<lambda>h.
          let arg = k_flags (fdmgr h) fd in
          and_then (on_fds (fd_get fd False)) (\<lambda>ctx.
            case ctx of None \<Rightarrow> ret arg
            | Some ctx \<Rightarrow>
              if m_isClosed ctx \<or> \<not> m_isSocket ctx then ret arg
              else if m_userNonblock ctx then ret (arg OR O_NONBLOCK) else ret (arg AND NOT O_NONBLOCK)) h)
      | F_OTHER _ \<Rightarrow> ret other)"

text \<open>The original \<open>ioctl(FIONBIO)\<close> sets or clears \<open>O_NONBLOCK\<close>; other requests do not concern the model's state.\<close>

definition ioctl_f :: "int \<Rightarrow> int \<Rightarrow> int \<Rightarrow> hook \<Rightarrow> hook" where
  "ioctl_f d request arg h =
     (if request = FIONBIO
      then setfl_f d (if arg \<noteq> 0 then k_flags (fdmgr h) d OR O_NONBLOCK else k_flags (fdmgr h) d AND NOT O_NONBLOCK) h
      else h)"

definition hk_ioctl :: "int \<Rightarrow> int \<Rightarrow> int \<Rightarrow> int \<Rightarrow> (hook, int) sop" where
  "hk_ioctl d request arg r h =
     (if FIONBIO = request then
        let user_nonblock = (arg \<noteq> 0) in
        and_then (on_fds (fd_get d False)) (\<lambda>ctx h.
          case ctx of None \<Rightarrow> (Inr r, ioctl_f d request arg h)
          | Some ctx \<Rightarrow>
            if m_isClosed ctx \<or> \<not> m_isSocket ctx then (Inr r, ioctl_f d request arg h)
            else (Inr r, ioctl_f d request arg
                    (h\<lparr>fdmgr := fd_modify d (\<lambda>c. c\<lparr>m_userNonblock := user_nonblock\<rparr>) (fdmgr h)\<rparr>))) h
      else (Inr r, ioctl_f d request arg h))"

definition hk_setsockopt :: "int \<Rightarrow> int \<Rightarrow> int \<Rightarrow> int \<times> int \<Rightarrow> int \<Rightarrow> (hook, int) sop" where
  "hk_setsockopt sockfd level optname v r h =
     (if \<not> t_hook_enable h then (Inr r, h)
      else if level = SOL_SOCKET \<and> (optname = SO_RCVTIMEO \<or> optname = SO_SNDTIMEO) then
        and_then (on_fds (fd_get sockfd False)) (\<lambda>ctx h.
          (Inr r, if ctx \<noteq> None
             then h\<lparr>fdmgr := fd_modify sockfd (setTimeout optname (word_of_int (fst v * 1000 + snd v sdiv 1000))) (fdmgr h)\<rparr>
             else h)) h
      else (Inr r, h))"

section \<open>The wait and the retry loop\<close>

definition hook_inv :: "hook \<Rightarrow> bool" where
  "hook_inv h \<longleftrightarrow> fd_ok (fdmgr h) \<and> io_inv (iom h)"

lemma on_fds_get [op_simps]:
  "0 \<le> fd \<Longrightarrow> on_fds (fd_get fd False) h = (Inr (fd_entry fd (fdmgr h)), h)"
  by (simp add: on_fds_def fd_get_found)

lemma eintr_Some:
  "eintr rs = Some n \<Longrightarrow> n \<in> set rs \<and> n \<noteq> (- 1, EINTR)"
  by (induction rs rule: eintr.induct) (auto split: if_splits)

lemma addEvent_result:
  "addEvent fd event cb rt this cur m = (Inr r, m') \<Longrightarrow> r = 0 \<or> r = - 1"
  by (auto simp: addEvent_def addEvent_ctx_def Let_def split: if_splits sum.splits)

lemma io_addTimer_frame [simp]:
  "m_fdContexts (io_addTimer t now ms cb rec m) = m_fdContexts m" "io_self (io_addTimer t now ms cb rec m) = io_self m"
  "io_scheds (io_addTimer t now ms cb rec m) = io_scheds m"
  "m_pendingEventCount (io_addTimer t now ms cb rec m) = m_pendingEventCount m"
  "io_timers (io_addTimer t now ms cb rec m) = snd (addTimer t now ms cb rec (io_timers m))"
  by (auto simp: io_addTimer_def onTimerInsertedAtFront_def io_tickle_def split: prod.splits)

lemma io_addTimer_inv [inv_intros]:
  "io_inv m \<Longrightarrow> t \<notin> set (m_timers (io_timers m)) \<Longrightarrow> io_inv (io_addTimer t now ms (Some cb) rec m)"
  using addTimer_inv [of "io_timers m" t] by (simp add: io_inv_def)

lemma cancel_timer_tinfo: "cancel_timer timer h = (r, h') \<Longrightarrow> tinfo h' = tinfo h"
  by (auto simp: cancel_timer_def split: option.splits prod.splits sum.splits)

lemma arm_timeout_tinfo [simp]: "tinfo (snd (arm_timeout ti fd event to now t h)) = tinfo h"
  by (simp add: arm_timeout_def)

text \<open>A wait that does not fault always suspends the fiber, because the registration never returns a positive number.\<close>

lemma do_io_wait_suspends:
  assumes "do_io_wait cl ti fd event to w h = (Inr out, h')"
  shows "\<exists>timer. out = Suspended timer \<and> tinfo h' = tinfo h"
proof -
  obtain now t rt where w: "w = (now, t, rt)" by (cases w)
  obtain timer h1 where a: "arm_timeout ti fd event to now t h = (timer, h1)" by fastforce
  have t1: "tinfo h1 = tinfo h" using arm_timeout_tinfo [of ti fd event to now t h] a by simp
  obtain r h2 where e: "on_io (addEvent fd event None rt (Some (io_self (iom h1))) (cl_fiber cl, cl_state cl)) h1 = (Inr r, h2)"
    and rest: "(if r > 0 then and_then (cancel_timer timer) (\<lambda>_. ret (Returned (- 1, EAGAIN))) else ret (Suspended timer)) h2 = (Inr out, h')"
    using assms w a by (auto simp: do_io_wait_def elim!: and_then_InrE split: if_splits)
  have "r = 0 \<or> r = - 1" and "tinfo h2 = tinfo h1"
    using e addEvent_result by (fastforce simp: on_io_def split: prod.splits)+
  with rest t1 show ?thesis by (auto simp: ret_def)
qed

definition settled :: "nat \<Rightarrow> hook \<Rightarrow> bool" where
  "settled ti h \<longleftrightarrow> tinfo h ti = Some 0 \<or> tinfo h ti = Some ETIMEDOUT"

lemma do_io_retry_result:
  assumes "settled ti h" and "\<forall>r \<in> set rs. \<forall>h. settled ti h \<longrightarrow> settled ti (r_others r h)"
    and "do_io_retry cl ti fd event to rs h = (Inr (Some n), h')"
  shows "(n = (- 1, ETIMEDOUT) \<or> (\<exists>r \<in> set rs. n \<in> set (r_results r)) \<and> n \<noteq> (- 1, EAGAIN) \<and> n \<noteq> (- 1, EINTR)) \<and> tinfo h' ti = None"
  using assms
proof (induction rs arbitrary: h)
  case Nil
  then show ?case by (simp add: ret_def)
next
  case (Cons r rs)
  then obtain x where x: "eintr (r_results r) = Some x" by (auto simp: ret_def split: option.splits)
  show ?case
  proof (cases "x = (- 1, EAGAIN)")
    case False
    then show ?thesis using Cons.prems(3) x eintr_Some [OF x] by (auto simp: free_tinfo_def)
  next
    case True
    from Cons.prems(3) x True obtain out h1 where w: "do_io_wait cl ti fd event to (r_wait r) h = (Inr out, h1)"
      and k: "(case out of Returned n \<Rightarrow> (\<lambda>h. (Inr (Some n), free_tinfo ti h))
            | Suspended timer \<Rightarrow> (\<lambda>h.
                and_then (do_io_woken ti timer) (\<lambda>res.
                  case res of Some n \<Rightarrow> (\<lambda>h. (Inr (Some n), free_tinfo ti h))
                  | None \<Rightarrow> do_io_retry cl ti fd event to rs) (r_others r h))) h1 = (Inr (Some n), h')"
      by (auto elim: and_then_InrE)
    from do_io_wait_suspends [OF w] obtain timer where out: "out = Suspended timer" "tinfo h1 = tinfo h" by blast
    with Cons.prems(1) have "settled ti h1" by (simp add: settled_def)
    with Cons.prems(2) have s: "settled ti (r_others r h1)" by simp
    from k out obtain res h2 where wk: "do_io_woken ti timer (r_others r h1) = (Inr res, h2)"
      and k2: "(case res of Some n \<Rightarrow> (\<lambda>h. (Inr (Some n), free_tinfo ti h)) | None \<Rightarrow> do_io_retry cl ti fd event to rs) h2 = (Inr (Some n), h')"
      by (auto elim: and_then_InrE)
    have "tinfo h2 = tinfo (r_others r h1)" and res: "res \<noteq> None \<Longrightarrow> res = Some (- 1, the (tinfo h2 ti)) \<and> tinfo h2 ti \<noteq> Some 0"
      using wk
      by (auto simp: do_io_woken_def dest: cancel_timer_tinfo elim!: and_then_InrE split: option.splits if_splits)
    then have s2: "settled ti h2" using s by (simp add: settled_def)
    show ?thesis
    proof (cases res)
      case None
      then show ?thesis using Cons.IH [OF s2] Cons.prems(2) k2 by auto
    next
      case (Some y)
      then show ?thesis using res s2 k2 by (auto simp: settled_def free_tinfo_def)
    qed
  qed
qed

text \<open>The timeout closures keep \<open>cancelled\<close> within its two values.\<close>

lemma on_io_tinfo [simp]: "tinfo (snd (on_io f h)) = tinfo h"
  by (simp add: on_io_def split: prod.splits)

lemma run_task_settled:
  "settled ti h \<Longrightarrow> settled ti (snd (run_task c rt h))"
  by (cases c) (auto simp: run_task_def OnTimer_def timeout_cb_def settled_def and_then_def on_io_def ret_def
      split: option.splits prod.splits sum.splits)

section \<open>Suspension and resumption\<close>

lemma addEvent_frame:
  "addEvent fd event cb rt this cur m = (r, m') \<Longrightarrow> io_timers m' = io_timers m \<and> io_self m' = io_self m"
  by (auto simp: addEvent_def addEvent_ctx_def grow_for_def contextResize_def Let_def split: if_splits sum.splits)

lemma cancelEvent_frame:
  "cancelEvent fd event rt m = (r, m') \<Longrightarrow> io_timers m' = io_timers m \<and> io_self m' = io_self m"
  by (auto simp: cancelEvent_def cancelEvent_ctx_def triggerEvent_def and_then_def dec_pending_def Let_def
      split: if_splits sum.splits option.splits prod.splits)

lemma io_waits_cong:
  "m_fdContexts m' = m_fdContexts m \<Longrightarrow> io_waits fd event m' = io_waits fd event m"
  by (simp add: io_waits_def registered_def)

lemma addEvent_refused:
  assumes "io_inv m" and "1 < fd" and "io_waits fd event m = None" and "event \<in> {READ, WRITE}" and "rt \<noteq> 0"
  shows "\<exists>m'. addEvent fd event cb rt this cur m = (Inr (- 1), m') \<and> io_inv m' \<and> io_queue m' = io_queue m
    \<and> io_timers m' = io_timers m \<and> (\<forall>fd' event'. io_waits fd' event' m' = io_waits fd' event' m)"
proof -
  define m1 where "m1 = (if needs_resize fd m then grow_for fd m else m)"
  have free: "\<not> registered fd event m" using io_waits_None [OF assms(1,4)] assms(3) by simp
  have m1: "io_inv m1" "nat fd < length (m_fdContexts m1)" "ctx_of m1 fd = ctx_or_new fd m" "io_scheds m1 = io_scheds m"
    using grow_for_spec [OF assms(1), of fd] assms(1,2) by (auto simp: m1_def needs_resize_def ctx_or_new_def)
  have "ctx_at fd m1 = Inr (nat fd)" using assms(2) m1(2) by (simp add: ctx_at_def)
  moreover have "fc_events (ctx_or_new fd m) AND event = 0"
    using free assms(2) by (auto simp: registered_def ctx_or_new_def)
  ultimately have run: "addEvent fd event cb rt this cur m = (Inr (- 1), m1)"
    using assms(5) m1(3) by (simp add: addEvent_def m1_def [symmetric] addEvent_ctx_def)
  have "io_waits fd' event' (grow_for fd m) = io_waits fd' event' m" if "needs_resize fd m" for fd' event'
    using that assms(2) by (auto simp: io_waits_def registered_def grow_for_def contextResize_def needs_resize_def nth_append)
  then have "\<forall>fd' event'. io_waits fd' event' m1 = io_waits fd' event' m" by (simp add: m1_def)
  moreover have "io_queue m1 = io_queue m" using m1(4) by (simp add: io_queue_def fun_eq_iff)
  ultimately show ?thesis using run m1(1) addEvent_frame [OF run] by blast
qed

text \<open>The deadlines after the timeout was armed.\<close>

definition with_timeout :: "u64 \<Rightarrow> u64 \<Rightarrow> nat \<Rightarrow> (nat \<Rightarrow> u64 option) \<Rightarrow> nat \<Rightarrow> u64 option" where
  "with_timeout to now t d = (if to \<noteq> - 1 then d(t \<mapsto> now + to) else d)"

abbreviation resume_of :: "caller \<Rightarrow> task ft" where
  "resume_of cl \<equiv> FiberAndThread (Some (cl_fiber cl)) None (- 1)"

lemma arm_timeout_spec:
  assumes "hook_inv h" and "to \<noteq> - 1 \<Longrightarrow> t \<notin> set (m_timers (io_timers (iom h)))"
  shows "\<exists>h'. arm_timeout ti fd event to now t h = (if to \<noteq> - 1 then Some t else None, h') \<and> hook_inv h'
    \<and> deadline (io_timers (iom h')) = with_timeout to now t (deadline (io_timers (iom h)))
    \<and> m_fdContexts (iom h') = m_fdContexts (iom h) \<and> io_scheds (iom h') = io_scheds (iom h) \<and> io_self (iom h') = io_self (iom h)
    \<and> tinfo h' = tinfo h \<and> fdmgr h' = fdmgr h"
  using assms addTimer_deadline [of "io_timers (iom h)" t] io_addTimer_inv [of "iom h" t]
  by (auto simp: arm_timeout_def with_timeout_def hook_inv_def io_inv_def)

lemma do_io_wait_ok:
  assumes "hook_inv h" and "cl_iom cl" and "cl_state cl = EXEC" and "1 < fd" and "event \<in> {READ, WRITE}"
    and "io_waits fd event (iom h) = None" and "to \<noteq> - 1 \<Longrightarrow> t \<notin> set (m_timers (io_timers (iom h)))"
  shows "\<exists>h'. do_io_wait cl ti fd event to (now, t, 0) h = (Inr (Suspended (if to \<noteq> - 1 then Some t else None)), h') \<and> hook_inv h'
    \<and> io_waits fd event (iom h') = Some (io_self (iom h), resume_of cl) \<and> io_queue (iom h') = io_queue (iom h)
    \<and> deadline (io_timers (iom h')) = with_timeout to now t (deadline (io_timers (iom h)))
    \<and> tinfo h' = tinfo h \<and> fdmgr h' = fdmgr h"
proof -
  from arm_timeout_spec [OF assms(1), of to t ti fd event now] assms(7) obtain h1 where h1:
    "arm_timeout ti fd event to now t h = (if to \<noteq> - 1 then Some t else None, h1)" "hook_inv h1"
    "deadline (io_timers (iom h1)) = with_timeout to now t (deadline (io_timers (iom h)))"
    "m_fdContexts (iom h1) = m_fdContexts (iom h)" "io_scheds (iom h1) = io_scheds (iom h)" "io_self (iom h1) = io_self (iom h)"
    "tinfo h1 = tinfo h" "fdmgr h1 = fdmgr h" by blast
  have "io_waits fd event (iom h1) = None" using io_waits_cong [OF h1(4)] assms(6) by simp
  with reg.add_law [of "iom h1" fd event "io_self (iom h1)" "cl_fiber cl"] h1(2) assms(4,5) obtain m where m:
    "addEvent fd event None 0 (Some (io_self (iom h1))) (cl_fiber cl, EXEC) (iom h1) = (Inr 0, m)" "io_inv m"
    "io_waits fd event m = Some (io_self (iom h1), resume_of cl)" "io_queue m = io_queue (iom h1)"
    by (auto simp: hook_inv_def io_wait_fiber_def)
  have "io_queue (iom h1) = io_queue (iom h)" using h1(5) by (simp add: io_queue_def fun_eq_iff)
  moreover have "do_io_wait cl ti fd event to (now, t, 0) h = (Inr (Suspended (if to \<noteq> - 1 then Some t else None)), h1\<lparr>iom := m\<rparr>)"
    using h1(1) m(1) assms(2,3) by (simp add: do_io_wait_def and_then_def on_io_def ret_def)
  ultimately show ?thesis using m h1 addEvent_frame [OF m(1)] by (auto simp: hook_inv_def)
qed

lemma cancel_timer_spec:
  assumes "hook_inv h"
  shows "\<exists>h'. cancel_timer timer h = (Inr (), h') \<and> hook_inv h' \<and> tinfo h' = tinfo h \<and> fdmgr h' = fdmgr h
    \<and> m_fdContexts (iom h') = m_fdContexts (iom h) \<and> io_queue (iom h') = io_queue (iom h)
    \<and> deadline (io_timers (iom h')) = (case timer of None \<Rightarrow> deadline (io_timers (iom h)) | Some t \<Rightarrow> (deadline (io_timers (iom h)))(t := None))"
proof (cases timer)
  case None
  then show ?thesis using assms by (simp add: cancel_timer_def)
next
  case (Some t)
  have "tm_inv (io_timers (iom h))" using assms by (simp add: hook_inv_def io_inv_def)
  from cancel_spec [OF this, of t] Some show ?thesis
    using assms by (auto simp: cancel_timer_def hook_inv_def io_inv_def io_queue_def fun_eq_iff)
qed

text \<open>A live timeout closure cancels the event: the fiber goes back to the queue once, and a second run does nothing.\<close>

lemma timeout_fires:
  assumes "hook_inv h" and "1 < fd" and "event \<in> {READ, WRITE}" and "io_waits fd event (iom h) = Some (k, x)" and "tinfo h ti = Some 0"
  shows "\<exists>h'. run_task (Timeout ti fd event) 0 h = (Inr (), h') \<and> hook_inv h' \<and> io_waits fd event (iom h') = None
    \<and> io_queue (iom h') = (io_queue (iom h))(k := io_queue (iom h) k @ [x]) \<and> tinfo h' = (tinfo h)(ti := Some ETIMEDOUT)
    \<and> io_timers (iom h') = io_timers (iom h) \<and> fdmgr h' = fdmgr h \<and> run_task (Timeout ti fd event) 0 h' = (Inr (), h')"
proof -
  from reg.drop_law [of "iom h" fd event k x] assms(1-4) obtain m where m:
    "cancelEvent fd event 0 (iom h) = (Inr True, m)" "io_inv m" "io_waits fd event m = None"
    "io_queue m = (io_queue (iom h))(k := io_queue (iom h) k @ [x])"
    by (auto simp: hook_inv_def)
  have "run_task (Timeout ti fd event) 0 h = (Inr (), h\<lparr>tinfo := (tinfo h)(ti := Some ETIMEDOUT), iom := m\<rparr>)"
    using m(1) assms(5) by (simp add: run_task_def OnTimer_def timeout_cb_def and_then_def on_io_def ret_def)
  then show ?thesis using m assms(1) cancelEvent_frame [OF m(1)]
    by (auto simp: hook_inv_def run_task_def OnTimer_def timeout_cb_def)
qed

section \<open>Status flags\<close>

lemma O_NONBLOCK_eq: "O_NONBLOCK = 2 ^ 11"
  by simp

lemma bit_O_NONBLOCK: "bit O_NONBLOCK n \<longleftrightarrow> n = 11"
  unfolding O_NONBLOCK_eq bit_exp_iff by auto

lemma one_bit_flag:
  fixes a w :: u32
  assumes "\<And>n. bit w n \<longleftrightarrow> n = k"
  shows "bit a k \<Longrightarrow> a OR w = a" "\<not> bit a k \<Longrightarrow> (a OR w) AND NOT w = a" "\<not> bit (a AND NOT w) k"
  by (rule bit_eqI; auto simp: bit_or_iff bit_and_iff bit_not_iff assms)+ (simp add: bit_and_iff bit_not_iff assms)

lemma nonblock_iff_bit: "a AND O_NONBLOCK = 0 \<longleftrightarrow> \<not> bit a 11"
  unfolding O_NONBLOCK_eq and_exp_eq_0_iff_not_bit by simp

lemma nonblock_idem:
  "a AND O_NONBLOCK \<noteq> 0 \<Longrightarrow> a OR O_NONBLOCK = a"
  "a AND O_NONBLOCK = 0 \<Longrightarrow> (a OR O_NONBLOCK) AND NOT O_NONBLOCK = a"
  "(a AND NOT O_NONBLOCK) AND O_NONBLOCK = 0"
  unfolding nonblock_iff_bit not_not using one_bit_flag [OF bit_O_NONBLOCK] by blast+

lemma fd_entry_modify:
  assumes "fd_entry fd g = Some c"
  shows "fd_entry x (fd_modify fd f g) = (if x = fd then Some (f c) else fd_entry x g)"
    and "k_flags (fd_modify fd f g) = k_flags g" "length (m_datas (fd_modify fd f g)) = length (m_datas g)"
  using assms by (auto simp: fd_entry_def fd_modify_def nth_list_update split: if_splits)

lemma fd_entry_flags [simp]: "fd_entry x (g\<lparr>k_flags := fl\<rparr>) = fd_entry x g"
  by (simp add: fd_entry_def)

lemma fd_ok_modify:
  assumes "fd_ok g" and "fd_entry fd g = Some c" and "m_fd (f c) = m_fd c" "m_sysNonblock (f c) = m_sysNonblock c" "m_isSocket (f c) = m_isSocket c"
  shows "fd_ok (fd_modify fd f g)"
  unfolding fd_ok_def fd_entry_modify [OF assms(2)]
  using assms by (auto simp: fd_ok_def split: if_splits)

lemma fd_ok_flags:
  assumes "fd_ok g" and "fd_entry fd g = Some c" and "m_isSocket c"
  shows "fd_ok (g\<lparr>k_flags := (k_flags g)(fd := arg)\<rparr>) \<longleftrightarrow> arg AND O_NONBLOCK \<noteq> 0"
  using assms by (auto simp: fd_ok_def)

section \<open>Properties\<close>

definition example_ctx :: fd_ctx where
  "example_ctx = \<lparr>m_isInit = True, m_isSocket = True, m_sysNonblock = True, m_userNonblock = False,
     m_isClosed = False, m_fd = 5, m_recvTimeout = 100, m_sendTimeout = - 1\<rparr>"

definition example_hook :: hook where
  "example_hook = \<lparr>t_hook_enable = True,
     fdmgr = \<lparr>m_datas = (replicate 64 None)[5 := Some example_ctx], k_stat = (\<lambda>_. Some True), k_flags = (\<lambda>_. 2048)\<rparr>,
     iom = IOManager 0 (\<lambda>_. sched_init) 1, tinfo = (\<lambda>_. None)\<rparr>"

definition example_caller :: caller where
  "example_caller = \<lparr>cl_iom = True, cl_fiber = 7, cl_state = EXEC\<rparr>"

lemma example_hook_facts:
  "hook_inv example_hook" "fd_entry 5 (fdmgr example_hook) = Some example_ctx" "io_waits fd event (iom example_hook) = None"
  "m_timers (io_timers (iom example_hook)) = []" "m_isSocket example_ctx" "\<not> m_isClosed example_ctx"
  "do_io_enter 5 SO_RCVTIMEO example_hook = (Inr (Managed 100), example_hook)" "io_queue (iom example_hook) = (\<lambda>_. [])"
proof -
  have io: "io_inv (iom example_hook)" by (simp add: example_hook_def)
  have e: "fd_entry x (fdmgr example_hook) = (if x = 5 then Some example_ctx else None)" for x
    by (auto simp: fd_entry_def example_hook_def nth_list_update)
  have "fd_ok (fdmgr example_hook)"
    unfolding fd_ok_def e by (simp add: example_ctx_def) (simp add: example_hook_def)
  with io show "hook_inv example_hook" by (simp add: hook_inv_def)
  show "fd_entry 5 (fdmgr example_hook) = Some example_ctx" by (simp add: e)
  show "do_io_enter 5 SO_RCVTIMEO example_hook = (Inr (Managed 100), example_hook)"
    by (simp add: do_io_enter_def op_simps e) (simp add: example_ctx_def example_hook_def ret_def getTimeout_def)
  show "io_waits fd event (iom example_hook) = None"
    by (auto simp: io_waits_def registered_def example_hook_def IOManager_def contextResize_def)
qed (auto simp: example_hook_def example_ctx_def IOManager_def contextResize_def TimerManager_def io_queue_def sched_init_def)

text \<open>
  C15: a hooked call on a socket the library manages that returns, after any number of rounds of
  waiting and whatever runs meanwhile, never reports \<open>EAGAIN\<close> or \<open>EINTR\<close>: it returns an answer the
  kernel gave or the timeout error; and once it returned, a timeout closure left over from it does
  nothing.
\<close>

theorem do_io_result:
  assumes "do_io_enter fd timeout_so h = (Inr (Managed to), h)"
    and "\<forall>r \<in> set rs. \<forall>h. settled ti h \<longrightarrow> settled ti (r_others r h)"
    and "do_io cl ti fd event timeout_so direct rs h = (Inr (Some n), h')"
  shows "n \<noteq> (- 1, EAGAIN) \<and> n \<noteq> (- 1, EINTR) \<and> (n = (- 1, ETIMEDOUT) \<or> (\<exists>r \<in> set rs. n \<in> set (r_results r)))
    \<and> run_task (Timeout ti fd event) rt h' = (Inr (), h')"
proof -
  have "do_io_retry cl ti fd event to rs (h\<lparr>tinfo := (tinfo h)(ti := Some 0)\<rparr>) = (Inr (Some n), h')"
    using assms(1,3) by (simp add: do_io_def and_then_def)
  from do_io_retry_result [OF _ assms(2) this] show ?thesis
    by (auto simp: settled_def run_task_def OnTimer_def)
qed

theorem do_io_result_witness:
  "let h' = snd (hk_call Read example_caller 3 5 (0, 0)
       [\<lparr>r_results = [(- 1, EINTR), (42, 0)], r_wait = (0, 0, 0), r_others = (\<lambda>h. snd (run_task (Wake 1) 0 h))\<rparr>] example_hook) in
   (42 :: int, 0 :: int) \<noteq> (- 1, EAGAIN) \<and> run_task (Timeout 3 5 READ) 0 h' = (Inr (), h')"
proof -
  let ?rs = "[\<lparr>r_results = [(- 1, EINTR), (42, 0)], r_wait = (0, 0, 0), r_others = (\<lambda>h. snd (run_task (Wake 1) 0 h))\<rparr>]"
  have run: "do_io example_caller 3 5 READ SO_RCVTIMEO (0, 0) ?rs example_hook
      = (Inr (Some (42, 0)), free_tinfo 3 (example_hook\<lparr>tinfo := (tinfo example_hook)(3 := Some 0)\<rparr>))"
    by (simp add: do_io_def and_then_def example_hook_facts)
  have keeps: "\<forall>r \<in> set ?rs. \<forall>h. settled 3 h \<longrightarrow> settled 3 (r_others r h)" by (simp add: run_task_settled)
  show ?thesis using do_io_result [OF example_hook_facts(7) keeps run, of 0] run by (simp add: hk_call_def)
qed

text \<open>
  C16: when the timeout of a waiting call expires, its closure (even if it runs twice) puts the fiber
  back into the queue of its scheduler exactly once, the call returns -1 with \<open>ETIMEDOUT\<close>, its
  registration is gone and so is its timer.
\<close>

theorem do_io_times_out:
  fixes ti :: nat
  assumes "hook_inv h" and "do_io_enter fd timeout_so h = (Inr (Managed to), h)" and "to \<noteq> - 1" and "cl_iom cl" and "cl_state cl = EXEC"
    and "1 < fd" and "event \<in> {READ, WRITE}" and "io_waits fd event (iom h) = None" and "t \<notin> set (m_timers (io_timers (iom h)))"
    and "eintr results = Some (- 1, EAGAIN)"
  defines "expire \<equiv> \<lambda>h. snd (run_task (Timeout ti fd event) 0 h)"
  shows "\<exists>h'. do_io cl ti fd event timeout_so direct
       (\<lparr>r_results = results, r_wait = (now, t, 0), r_others = (\<lambda>h. expire (expire h))\<rparr> # rs) h = (Inr (Some (- 1, ETIMEDOUT)), h')
    \<and> hook_inv h' \<and> io_waits fd event (iom h') = None \<and> deadline (io_timers (iom h')) = (deadline (io_timers (iom h)))(t := None)
    \<and> io_queue (iom h') = (io_queue (iom h))(io_self (iom h) := io_queue (iom h) (io_self (iom h)) @ [resume_of cl])"
proof -
  let ?h = "h\<lparr>tinfo := (tinfo h)(ti := Some 0)\<rparr>"
  from do_io_wait_ok [of ?h cl fd event to t ti now] assms(1-9) obtain h1 where h1:
    "do_io_wait cl ti fd event to (now, t, 0) ?h = (Inr (Suspended (Some t)), h1)" "hook_inv h1"
    "io_waits fd event (iom h1) = Some (io_self (iom h), resume_of cl)" "io_queue (iom h1) = io_queue (iom h)"
    "deadline (io_timers (iom h1)) = with_timeout to now t (deadline (io_timers (iom h)))" "tinfo h1 = tinfo ?h"
    by (auto simp: hook_inv_def)
  from timeout_fires [OF h1(2) assms(6,7) h1(3), of ti] h1(6) obtain h2 where h2:
    "run_task (Timeout ti fd event) 0 h1 = (Inr (), h2)" "hook_inv h2" "io_waits fd event (iom h2) = None"
    "io_queue (iom h2) = (io_queue (iom h1))(io_self (iom h) := io_queue (iom h1) (io_self (iom h)) @ [resume_of cl])"
    "tinfo h2 ti = Some ETIMEDOUT" "io_timers (iom h2) = io_timers (iom h1)" "run_task (Timeout ti fd event) 0 h2 = (Inr (), h2)"
    by auto
  from cancel_timer_spec [OF h2(2), of "Some t"] obtain h3 where h3: "cancel_timer (Some t) h2 = (Inr (), h3)" "hook_inv h3"
    "tinfo h3 = tinfo h2" "m_fdContexts (iom h3) = m_fdContexts (iom h2)" "io_queue (iom h3) = io_queue (iom h2)"
    "deadline (io_timers (iom h3)) = (deadline (io_timers (iom h2)))(t := None)" by auto
  have "do_io_woken ti (Some t) h2 = (Inr (Some (- 1, ETIMEDOUT)), h3)"
    using h3(1,3) h2(5) by (simp add: do_io_woken_def and_then_def)
  then have "do_io cl ti fd event timeout_so direct
       (\<lparr>r_results = results, r_wait = (now, t, 0), r_others = (\<lambda>h. expire (expire h))\<rparr> # rs) h = (Inr (Some (- 1, ETIMEDOUT)), free_tinfo ti h3)"
    using assms(2,10) h1(1) h2(1,7) by (simp add: do_io_def and_then_def expire_def)
  then show ?thesis using h1(4,5) h2(3,4,6) h3 io_waits_cong [OF h3(4)] assms(3)
    by (auto simp: hook_inv_def free_tinfo_def with_timeout_def)
qed

theorem do_io_times_out_witness:
  "\<exists>h'. do_io example_caller 3 5 READ SO_RCVTIMEO (0, 0)
      [\<lparr>r_results = [(- 1, EAGAIN)], r_wait = (1000, 8, 0),
        r_others = (\<lambda>h. snd (run_task (Timeout 3 5 READ) 0 (snd (run_task (Timeout 3 5 READ) 0 h))))\<rparr>] example_hook
      = (Inr (Some (- 1, ETIMEDOUT)), h') \<and> io_queue (iom h') (io_self (iom example_hook)) = [resume_of example_caller]"
  using do_io_times_out [OF example_hook_facts(1,7) _ _ _ _ _ example_hook_facts(3), of example_caller READ 8 "[(- 1, EAGAIN)]" 3 "(0, 0)" 1000 "[]"]
  by (auto simp: example_caller_def example_hook_facts(4,8))

text \<open>
  A call that would block registers the fiber for its event; whatever resumes it short of the
  timeout, the call is made again and its answer is returned, with the timer cancelled.
\<close>

theorem do_io_ready:
  assumes "hook_inv h" and "do_io_enter fd timeout_so h = (Inr (Managed to), h)" and "cl_iom cl" and "cl_state cl = EXEC"
    and "1 < fd" and "event \<in> {READ, WRITE}" and "io_waits fd event (iom h) = None" and "t \<notin> set (m_timers (io_timers (iom h)))"
    and "eintr results = Some (- 1, EAGAIN)" and "eintr (r_results r) = Some n" and "n \<noteq> (- 1, EAGAIN)"
    and "\<forall>h1. hook_inv h1 \<and> tinfo h1 ti = Some 0 \<and> io_waits fd event (iom h1) = Some (io_self (iom h), resume_of cl)
           \<longrightarrow> hook_inv (others h1) \<and> tinfo (others h1) ti = Some 0"
  shows "\<exists>h'. do_io cl ti fd event timeout_so direct
       (\<lparr>r_results = results, r_wait = (now, t, 0), r_others = others\<rparr> # r # rs) h = (Inr (Some n), h')
    \<and> hook_inv h' \<and> (to \<noteq> - 1 \<longrightarrow> deadline (io_timers (iom h')) t = None) \<and> tinfo h' ti = None"
proof -
  let ?h = "h\<lparr>tinfo := (tinfo h)(ti := Some 0)\<rparr>" and ?timer = "if to \<noteq> - 1 then Some t else None"
  from do_io_wait_ok [of ?h cl fd event to t ti now] assms(1-8) obtain h1 where h1:
    "do_io_wait cl ti fd event to (now, t, 0) ?h = (Inr (Suspended ?timer), h1)" "hook_inv h1"
    "io_waits fd event (iom h1) = Some (io_self (iom h), resume_of cl)" "tinfo h1 = tinfo ?h"
    by (auto simp: hook_inv_def)
  with assms(12) have o: "hook_inv (others h1)" "tinfo (others h1) ti = Some 0" by auto
  from cancel_timer_spec [OF o(1), of ?timer] obtain h2 where h2: "cancel_timer ?timer (others h1) = (Inr (), h2)" "hook_inv h2"
    "tinfo h2 = tinfo (others h1)" "to \<noteq> - 1 \<longrightarrow> deadline (io_timers (iom h2)) t = None" by auto
  have "do_io_woken ti ?timer (others h1) = (Inr None, h2)"
    using h2(1,3) o(2) by (simp add: do_io_woken_def and_then_def)
  then have "do_io cl ti fd event timeout_so direct
       (\<lparr>r_results = results, r_wait = (now, t, 0), r_others = others\<rparr> # r # rs) h = (Inr (Some n), free_tinfo ti h2)"
    using assms(2,9-11) h1(1) by (simp add: do_io_def and_then_def)
  then show ?thesis using h2 by (auto simp: free_tinfo_def hook_inv_def)
qed

theorem do_io_ready_witness:
  "\<exists>h'. do_io example_caller 3 5 READ SO_RCVTIMEO (0, 0)
      [\<lparr>r_results = [(- 1, EAGAIN)], r_wait = (1000, 8, 0), r_others = (\<lambda>h. h\<lparr>iom := snd (cancelEvent 5 READ 0 (iom h))\<rparr>)\<rparr>,
       \<lparr>r_results = [(- 1, EINTR), (64, 0)], r_wait = (0, 0, 0), r_others = (\<lambda>h. h)\<rparr>] example_hook
      = (Inr (Some (64, 0)), h') \<and> deadline (io_timers (iom h')) 8 = None"
proof -
  let ?o = "\<lambda>h. h\<lparr>iom := snd (cancelEvent 5 READ 0 (iom h))\<rparr>"
  have "hook_inv (?o h1) \<and> tinfo (?o h1) 3 = Some 0"
    if "hook_inv h1 \<and> tinfo h1 3 = Some 0 \<and> io_waits 5 READ (iom h1) = Some (io_self (iom example_hook), resume_of example_caller)" for h1
    using that reg.drop_law [of "iom h1" 5 READ] by (auto simp: hook_inv_def)
  with do_io_ready [OF example_hook_facts(1,7) _ _ _ _ example_hook_facts(3), of example_caller READ 8 "[(- 1, EAGAIN)]"
      "\<lparr>r_results = [(- 1, EINTR), (64, 0)], r_wait = (0, 0, 0), r_others = (\<lambda>h. h)\<rparr>" "(64, 0)" 3 ?o "(0, 0)" 1000 "[]"]
  show ?thesis by (auto simp: example_caller_def example_hook_facts(4))
qed

text \<open>A registration the kernel refuses, behind a timeout that may have been armed.\<close>

lemma arm_refused:
  assumes "hook_inv h" and "1 < fd" and "event \<in> {READ, WRITE}" and "io_waits fd event (iom h) = None" and "rt \<noteq> 0"
    and "t \<notin> set (m_timers (io_timers (iom h)))"
  shows "\<exists>h1 m. arm_timeout ti fd event to now t h = (if to \<noteq> - 1 then Some t else None, h1)
    \<and> addEvent fd event None rt (Some (io_self (iom h1))) cur (iom h1) = (Inr (- 1), m) \<and> hook_inv (h1\<lparr>iom := m\<rparr>)
    \<and> tinfo h1 = tinfo h \<and> io_queue m = io_queue (iom h) \<and> deadline (io_timers m) = with_timeout to now t (deadline (io_timers (iom h)))
    \<and> (\<forall>fd' event'. io_waits fd' event' m = io_waits fd' event' (iom h))"
proof -
  from arm_timeout_spec [OF assms(1), of to t ti fd event now] assms(6) obtain h1 where h1:
    "arm_timeout ti fd event to now t h = (if to \<noteq> - 1 then Some t else None, h1)" "hook_inv h1"
    "deadline (io_timers (iom h1)) = with_timeout to now t (deadline (io_timers (iom h)))"
    "m_fdContexts (iom h1) = m_fdContexts (iom h)" "io_scheds (iom h1) = io_scheds (iom h)" "tinfo h1 = tinfo h" by blast
  have "io_waits fd event (iom h1) = None" using io_waits_cong [OF h1(4)] assms(4) by simp
  from addEvent_refused [OF _ assms(2) this assms(3,5), of None "Some (io_self (iom h1))" cur] h1(2) obtain m where
    "addEvent fd event None rt (Some (io_self (iom h1))) cur (iom h1) = (Inr (- 1), m)" "io_inv m"
    "io_queue m = io_queue (iom h1)" "io_timers m = io_timers (iom h1)" "\<forall>fd' event'. io_waits fd' event' m = io_waits fd' event' (iom h1)"
    by (auto simp: hook_inv_def)
  then show ?thesis using h1 io_waits_cong [OF h1(4)] by (intro exI [of _ h1] exI [of _ m]) (simp add: hook_inv_def io_queue_def fun_eq_iff)
qed

text \<open>
  C17: when the kernel refuses the registration (\<open>addEvent\<close> returns -1), \<open>do_io\<close> suspends the fiber all the same,
  since it only checks for a positive result, and nothing will resume it: no event is registered, no task queued, and the timer, armed when the
  socket has a timeout, stays armed, but its closure only cancels the event, which is not there, and queues nothing.
  \<open>connect_with_timeout\<close> in the same situation cancels its timer and answers with the error of the socket.
\<close>

theorem do_io_lost_registration:
  assumes "hook_inv h" and "cl_iom cl" and "1 < fd" and "event \<in> {READ, WRITE}" and "io_waits fd event (iom h) = None" and "rt \<noteq> 0"
    and "t \<notin> set (m_timers (io_timers (iom h)))" and "tinfo h ti = Some 0"
  shows "(\<exists>h'. do_io_wait cl ti fd event to (now, t, rt) h = (Inr (Suspended (if to \<noteq> - 1 then Some t else None)), h')
      \<and> deadline (io_timers (iom h')) = with_timeout to now t (deadline (io_timers (iom h)))
      \<and> io_queue (iom h') = io_queue (iom h) \<and> (\<forall>fd' event'. io_waits fd' event' (iom h') = io_waits fd' event' (iom h))
      \<and> (\<exists>h''. run_task (Timeout ti fd event) r h' = (Inr (), h'') \<and> io_queue (iom h'') = io_queue (iom h) \<and> tinfo h'' ti = Some ETIMEDOUT))
    \<and> (t_hook_enable h \<and> event = WRITE \<and> fd_entry fd (fdmgr h) = Some c \<and> \<not> m_isClosed c \<and> m_isSocket c \<and> \<not> m_userNonblock c
       \<longrightarrow> (\<exists>h'. connect_with_timeout cl ti fd to (- 1, EINPROGRESS) (now, t, rt) others so h = (Inr (connect_check so), h')
          \<and> deadline (io_timers (iom h')) = deadline (io_timers (iom h)) \<and> io_queue (iom h') = io_queue (iom h)
          \<and> (\<forall>fd' event'. io_waits fd' event' (iom h') = io_waits fd' event' (iom h))))"
proof (intro conjI impI)
  let ?cur = "(cl_fiber cl, cl_state cl)"
  from arm_refused [OF assms(1,3-7), of ti to now ?cur] obtain h1 m where m:
    "arm_timeout ti fd event to now t h = (if to \<noteq> - 1 then Some t else None, h1)"
    "addEvent fd event None rt (Some (io_self (iom h1))) ?cur (iom h1) = (Inr (- 1), m)" "hook_inv (h1\<lparr>iom := m\<rparr>)" "tinfo h1 = tinfo h"
    "io_queue m = io_queue (iom h)" "deadline (io_timers m) = with_timeout to now t (deadline (io_timers (iom h)))"
    "\<forall>fd' event'. io_waits fd' event' m = io_waits fd' event' (iom h)" by blast
  let ?h = "h1\<lparr>iom := m\<rparr>"
  have "do_io_wait cl ti fd event to (now, t, rt) h = (Inr (Suspended (if to \<noteq> - 1 then Some t else None)), ?h)"
    using m(1,2) assms(2) by (simp add: do_io_wait_def and_then_def on_io_def ret_def)
  moreover have "\<not> registered fd event m" using io_waits_None [of m event fd] m(3,7) assms(4,5) by (simp add: hook_inv_def)
  then have "cancelEvent fd event r m = (Inr False, m)" using cancelEvent_no_effect [of fd event m r] assms(3) by simp
  then have "run_task (Timeout ti fd event) r ?h = (Inr (), ?h\<lparr>tinfo := (tinfo h)(ti := Some ETIMEDOUT)\<rparr>)"
    using m(4) assms(8) by (simp add: run_task_def OnTimer_def timeout_cb_def and_then_def on_io_def ret_def)
  ultimately show "\<exists>h'. do_io_wait cl ti fd event to (now, t, rt) h = (Inr (Suspended (if to \<noteq> - 1 then Some t else None)), h')
      \<and> deadline (io_timers (iom h')) = with_timeout to now t (deadline (io_timers (iom h)))
      \<and> io_queue (iom h') = io_queue (iom h) \<and> (\<forall>fd' event'. io_waits fd' event' (iom h') = io_waits fd' event' (iom h))
      \<and> (\<exists>h''. run_task (Timeout ti fd event) r h' = (Inr (), h'') \<and> io_queue (iom h'') = io_queue (iom h) \<and> tinfo h'' ti = Some ETIMEDOUT)"
    using m(5-7) by (intro exI [of _ ?h]) auto
next
  assume c: "t_hook_enable h \<and> event = WRITE \<and> fd_entry fd (fdmgr h) = Some c \<and> \<not> m_isClosed c \<and> m_isSocket c \<and> \<not> m_userNonblock c"
  let ?cur = "(cl_fiber cl, cl_state cl)" let ?g = "h\<lparr>tinfo := (tinfo h)(ti := Some 0)\<rparr>"
  have g: "hook_inv ?g" using assms(1) by (simp add: hook_inv_def)
  from arm_refused [OF g, of fd event rt t ti to now ?cur] assms(3-7) obtain h1 m where m:
    "arm_timeout ti fd event to now t ?g = (if to \<noteq> - 1 then Some t else None, h1)"
    "addEvent fd event None rt (Some (io_self (iom h1))) ?cur (iom h1) = (Inr (- 1), m)" "hook_inv (h1\<lparr>iom := m\<rparr>)"
    "io_queue m = io_queue (iom h)" "deadline (io_timers m) = with_timeout to now t (deadline (io_timers (iom h)))"
    "\<forall>fd' event'. io_waits fd' event' m = io_waits fd' event' (iom h)" by auto
  from cancel_timer_spec [OF m(3), of "if to \<noteq> - 1 then Some t else None"] obtain h2 where h2:
    "cancel_timer (if to \<noteq> - 1 then Some t else None) (h1\<lparr>iom := m\<rparr>) = (Inr (), h2)" "m_fdContexts (iom h2) = m_fdContexts m" "io_queue (iom h2) = io_queue m"
    "deadline (io_timers (iom h2)) = (if to \<noteq> - 1 then (deadline (io_timers m))(t := None) else deadline (io_timers m))" by auto
  have "connect_start cl ti fd to (- 1, EINPROGRESS) (now, t, rt) h = (Inr Check, h2)"
    using c m(1,2) h2(1) assms(2,3) by (simp add: connect_start_def op_simps and_then_def on_io_def ret_def)
  then have "connect_with_timeout cl ti fd to (- 1, EINPROGRESS) (now, t, rt) others so h = (Inr (connect_check so), free_tinfo ti h2)"
    by (simp add: connect_with_timeout_def and_then_def)
  moreover have "deadline (io_timers (iom h2)) = deadline (io_timers (iom h))"
    using h2(4) m(5) assms(7) by (auto simp: with_timeout_def deadline_def fun_eq_iff)
  ultimately show "\<exists>h'. connect_with_timeout cl ti fd to (- 1, EINPROGRESS) (now, t, rt) others so h = (Inr (connect_check so), h')
          \<and> deadline (io_timers (iom h')) = deadline (io_timers (iom h)) \<and> io_queue (iom h') = io_queue (iom h)
          \<and> (\<forall>fd' event'. io_waits fd' event' (iom h') = io_waits fd' event' (iom h))"
    using h2(3) m(4,6) io_waits_cong [OF h2(2)] by (intro exI [of _ "free_tinfo ti h2"]) (simp add: free_tinfo_def)
qed

theorem do_io_lost_registration_witness:
  "\<exists>h'. do_io_wait example_caller 3 5 READ 100 (1000, 8, - 1) (example_hook\<lparr>tinfo := (tinfo example_hook)(3 := Some 0)\<rparr>) = (Inr (Suspended (Some 8)), h')
     \<and> deadline (io_timers (iom h')) 8 = Some 1100
     \<and> (\<exists>h''. run_task (Timeout 3 5 READ) 0 h' = (Inr (), h'') \<and> io_queue (iom h'') = (\<lambda>_. []))"
proof -
  let ?h = "example_hook\<lparr>tinfo := (tinfo example_hook)(3 := Some 0)\<rparr>"
  have "hook_inv ?h" using example_hook_facts(1) by (simp add: hook_inv_def)
  from do_io_lost_registration [OF this, of example_caller 5 READ "- 1" 8 3 100 1000 0] show ?thesis
    by (auto simp: example_hook_facts(3,4,8) example_caller_def with_timeout_def)
qed

text \<open>
  On a managed socket the user's flags survive the trip through \<open>fcntl\<close>: \<open>F_GETFL\<close> returns exactly what
  \<open>F_SETFL\<close> was given, while the kernel's descriptor stays non-blocking, the table stays consistent, and
  the hooked calls are passed through exactly when the user asked for \<open>O_NONBLOCK\<close>. \<open>ioctl(FIONBIO)\<close> does not
  keep the table consistent: with 0 it makes the kernel's descriptor blocking.
\<close>

theorem fcntl_flags:
  assumes "fd_ok (fdmgr h)" and "0 \<le> fd" and "fd_entry fd (fdmgr h) = Some c" and "m_isSocket c" and "\<not> m_isClosed c"
  shows "(\<exists>h'. hk_fcntl fd (F_SETFL arg) x h = (Inr 0, h') \<and> fd_ok (fdmgr h') \<and> k_flags (fdmgr h') fd AND O_NONBLOCK \<noteq> 0
      \<and> hk_fcntl fd F_GETFL x h' = (Inr arg, h')
      \<and> (t_hook_enable h \<longrightarrow> (fst (do_io_enter fd so h') = Inr Direct \<longleftrightarrow> arg AND O_NONBLOCK \<noteq> 0)))
    \<and> (\<exists>h'. hk_ioctl fd FIONBIO v r h = (Inr r, h') \<and> (fd_ok (fdmgr h') \<longleftrightarrow> v \<noteq> 0))"
proof -
  have sys: "m_sysNonblock c" using assms by (simp add: fd_ok_def)
  let ?g = "\<lambda>b. fd_modify fd (\<lambda>c. c\<lparr>m_userNonblock := b\<rparr>) (fdmgr h)"
  have e: "fd_entry fd (?g b) = Some (c\<lparr>m_userNonblock := b\<rparr>)" for b by (simp add: fd_entry_modify [OF assms(3)])
  have ok: "fd_ok ((?g b)\<lparr>k_flags := (k_flags (?g b))(fd := f)\<rparr>) \<longleftrightarrow> f AND O_NONBLOCK \<noteq> 0" for b f
    by (rule fd_ok_flags [OF fd_ok_modify [OF assms(1,3)] e]) (simp_all add: assms(4))
  have set: "hk_fcntl fd (F_SETFL arg) x h = (Inr 0, setfl_f fd (arg OR O_NONBLOCK) (h\<lparr>fdmgr := ?g (arg AND O_NONBLOCK \<noteq> 0)\<rparr>))"
    (is "_ = (_, ?h')") using assms sys by (simp add: hk_fcntl_def and_then_def op_simps Let_def)
  have e': "fd_entry fd (fdmgr ?h') = Some (c\<lparr>m_userNonblock := arg AND O_NONBLOCK \<noteq> 0\<rparr>)" using e by (simp add: setfl_f_def)
  have "hk_fcntl fd F_GETFL x ?h' = (Inr arg, ?h')"
    using assms(2,4,5) e' nonblock_idem(1,2) [of arg]
    by (cases "arg AND O_NONBLOCK = 0") (simp_all add: hk_fcntl_def and_then_def op_simps Let_def setfl_f_def or.assoc)
  moreover have "fd_ok (fdmgr ?h')" using ok or_nonblock by (simp add: setfl_f_def)
  moreover have "t_hook_enable h \<longrightarrow> (fst (do_io_enter fd so ?h') = Inr Direct \<longleftrightarrow> arg AND O_NONBLOCK \<noteq> 0)"
    using assms(2,4,5) e' by (simp add: do_io_enter_def and_then_def op_simps) (simp add: setfl_f_def)
  moreover have "\<exists>h'. hk_ioctl fd FIONBIO v r h = (Inr r, h') \<and> (fd_ok (fdmgr h') \<longleftrightarrow> v \<noteq> 0)"
    using assms(2-5) ok [of "v \<noteq> 0"] or_nonblock nonblock_idem(3)
    by (cases "v = 0") (simp_all add: hk_ioctl_def and_then_def op_simps ioctl_f_def setfl_f_def Let_def)
  ultimately show ?thesis using set or_nonblock by (auto simp: setfl_f_def)
qed

theorem fcntl_flags_witness:
  "(\<exists>h'. hk_fcntl 5 (F_SETFL 2) 0 example_hook = (Inr 0, h') \<and> hk_fcntl 5 F_GETFL 0 h' = (Inr 2, h'))
   \<and> (\<exists>h'. hk_ioctl 5 FIONBIO 0 0 example_hook = (Inr 0, h') \<and> \<not> fd_ok (fdmgr h'))"
  using fcntl_flags [of example_hook 5 example_ctx 2 0 SO_RCVTIMEO 0 0] example_hook_facts(1,2,5,6)
  unfolding hook_inv_def by auto

lemma cancelAll_total:
  assumes "io_inv m" and "0 \<le> fd"
  shows "\<exists>b m'. cancelAll fd 0 m = (Inr b, m') \<and> io_inv m' \<and> \<not> registered fd READ m' \<and> \<not> registered fd WRITE m'
    \<and> (\<forall>j. io_queue m' j = io_queue m j @ wake (registered fd READ m) READ (ctx_of m fd) j @ wake (registered fd WRITE m) WRITE (ctx_of m fd) j)"
proof (cases "registered fd (- 1) m")
  case True
  with cancelAll_spec [OF assms] show ?thesis by (fastforce simp: registered_def io_queue_def)
next
  case False
  then have "\<not> registered fd READ m" "\<not> registered fd WRITE m" by (auto simp: registered_def)
  then show ?thesis using cancelAll_no_effect [OF assms(2), of m 0] False assms(1) by (auto simp: wake_def)
qed

lemma fd_del_spec:
  assumes "fd_ok g" and "fd_entry fd g = Some c"
  shows "\<exists>g'. fd_del fd g = (Inr (), g') \<and> fd_ok g' \<and> fd_entry fd g' = None \<and> (\<forall>x. x \<noteq> fd \<longrightarrow> fd_entry x g' = fd_entry x g)"
proof -
  let ?g = "g\<lparr>m_datas := (m_datas g)[nat fd := None]\<rparr>"
  have e: "fd_entry x ?g = (if x = fd then None else fd_entry x g)" for x
    using assms(2) by (auto simp: fd_entry_def nth_list_update split: if_splits)
  have "fd_del fd g = (Inr (), ?g)" using assms(2) by (auto simp: fd_del_def fd_entry_def split: if_splits)
  moreover have "fd_ok ?g" unfolding fd_ok_def e using assms(1) by (simp add: fd_ok_def)
  ultimately show ?thesis using e by auto
qed

text \<open>
  Closing a managed descriptor resumes every fiber and callback that waited for it, leaves no
  event registered, forgets the descriptor, and keeps the tables consistent: a later call on the
  same number is passed through to the kernel.
\<close>

theorem close_wakes_all:
  assumes "hook_inv h" and "t_hook_enable h" and "0 \<le> fd" and "fd_entry fd (fdmgr h) = Some c"
  shows "\<exists>h'. hk_close True fd 0 0 h = (Inr 0, h') \<and> hook_inv h' \<and> fd_entry fd (fdmgr h') = None
    \<and> \<not> registered fd READ (iom h') \<and> \<not> registered fd WRITE (iom h')
    \<and> (\<forall>j. io_queue (iom h') j = io_queue (iom h) j @ wake (registered fd READ (iom h)) READ (ctx_of (iom h) fd) j
                                  @ wake (registered fd WRITE (iom h)) WRITE (ctx_of (iom h) fd) j)
    \<and> do_io_enter fd so h' = (Inr Direct, h')"
proof -
  from cancelAll_total [of "iom h" fd] assms(1,3) obtain b m where m: "cancelAll fd 0 (iom h) = (Inr b, m)" "io_inv m"
    "\<not> registered fd READ m" "\<not> registered fd WRITE m"
    "\<forall>j. io_queue m j = io_queue (iom h) j @ wake (registered fd READ (iom h)) READ (ctx_of (iom h) fd) j
        @ wake (registered fd WRITE (iom h)) WRITE (ctx_of (iom h) fd) j"
    by (auto simp: hook_inv_def)
  from fd_del_spec [of "fdmgr h" fd c] assms(1,4) obtain g where g: "fd_del fd (fdmgr h) = (Inr (), g)" "fd_ok g" "fd_entry fd g = None"
    by (auto simp: hook_inv_def)
  let ?g = "g\<lparr>k_stat := (k_stat g)(fd := None)\<rparr>"
  have run: "hk_close True fd 0 0 h = (Inr 0, h\<lparr>iom := m, fdmgr := ?g\<rparr>)"
    using assms(2-4) m(1) g(1) 
    by (simp add: hk_close_def and_then_def op_simps) (simp add: and_then_def on_io_def on_fds_def ret_def close_f_def)
  have "fd_entry x ?g = fd_entry x g" for x by (simp add: fd_entry_def)
  with g have "fd_ok ?g" "fd_entry fd ?g = None" by (simp_all add: fd_ok_def)
  then show ?thesis using run m assms(2,3)
    by (auto simp: hook_inv_def do_io_enter_def and_then_def op_simps)
qed

theorem close_wakes_all_witness:
  "\<exists>h'. hk_close True 5 0 0 example_hook = (Inr 0, h') \<and> hook_inv h' \<and> fd_entry 5 (fdmgr h') = None"
  using close_wakes_all [OF example_hook_facts(1) _ _ example_hook_facts(2), of SO_RCVTIMEO]
  by (auto simp: example_hook_def)

lemma nanosleep_ms:
  assumes "0 \<le> tv_nsec"
  shows "uint (sleep_ms (Nanosleep tv_sec tv_nsec)) = signed_take_bit 31 (tv_sec * 1000 + tv_nsec div 1000000) mod 2 ^ 64"
proof -
  have "tv_nsec sdiv 1000 sdiv 1000 = tv_nsec div 1000000"
    using assms by (simp add: signed_divide_int_def zdiv_zmult2_eq [symmetric] pos_imp_zdiv_nonneg_iff sgn_if)
  then show ?thesis by (simp only: sleep_ms.simps sint_sbintrunc' uint_word_of_int) simp
qed

text \<open>
  A hooked sleep suspends the fiber behind a timer that wakes it at the clock plus the requested
  milliseconds, once. The request is exact for \<open>usleep\<close> (rounded down), for \<open>sleep\<close> below \<open>2 ^ 32\<close>
  milliseconds, beyond which it wraps to a shorter sleep, and for \<open>nanosleep\<close> below \<open>2 ^ 31\<close> milliseconds,
  where the next one is a sleep of more than \<open>2 ^ 63\<close> milliseconds.
\<close>

theorem sleep_duration:
  assumes "hook_inv h" and "t_hook_enable h" and "cl_iom cl" and "t \<notin> set (m_timers (io_timers (iom h)))" and "0 \<le> nsec"
  shows "(\<exists>h'. hk_sleep call cl now t h = (Inr True, h') \<and> hook_inv h'
      \<and> deadline (io_timers (iom h')) = (deadline (io_timers (iom h)))(t \<mapsto> now + sleep_ms call) \<and> io_queue (iom h') = io_queue (iom h)
      \<and> m_cb (t_heap (io_timers (iom h')) t) = Some (Wake (cl_fiber cl)) \<and> \<not> m_recurring (t_heap (io_timers (iom h')) t))
    \<and> io_queue (iom (snd (run_task (Wake (cl_fiber cl)) 0 h))) (io_self (iom h)) = io_queue (iom h) (io_self (iom h)) @ [resume_of cl]
    \<and> uint (sleep_ms (Sleep s)) = uint s * 1000 mod 2 ^ 32
    \<and> uint (sleep_ms (Usleep u)) = uint u div 1000
    \<and> (let ms = sec * 1000 + nsec div 1000000 in
        (0 \<le> ms \<and> ms < 2 ^ 31 \<longrightarrow> uint (sleep_ms (Nanosleep sec nsec)) = ms)
        \<and> (ms = 2 ^ 31 \<longrightarrow> 2 ^ 63 < uint (sleep_ms (Nanosleep sec nsec))))"
proof -
  have tm: "tm_inv (io_timers (iom h))" using assms(1) by (simp add: hook_inv_def io_inv_def)
  let ?h = "h\<lparr>iom := io_addTimer t now (sleep_ms call) (Some (Wake (cl_fiber cl))) False (iom h)\<rparr>"
  have "hk_sleep call cl now t h = (Inr True, ?h)" using assms(2,3) by (simp add: hk_sleep_def)
  moreover have "hook_inv ?h" using assms(1,4) by (simp add: hook_inv_def io_addTimer_inv)
  moreover have "deadline (io_timers (iom ?h)) = (deadline (io_timers (iom h)))(t \<mapsto> now + sleep_ms call)"
    "m_cb (t_heap (io_timers (iom ?h)) t) = Some (Wake (cl_fiber cl))" "\<not> m_recurring (t_heap (io_timers (iom ?h)) t)"
    using addTimer_deadline [OF tm assms(4)] addTimer_facts(3) [OF tm assms(4)] by (simp_all add: Timer_def)
  moreover have "io_queue (iom ?h) = io_queue (iom h)" by (simp add: io_queue_def fun_eq_iff)
  moreover have "io_queue (iom (snd (run_task (Wake (cl_fiber cl)) 0 h))) (io_self (iom h)) = io_queue (iom h) (io_self (iom h)) @ [resume_of cl]"
    by (simp add: run_task_def io_queue_def io_schedule_queue ft_ok_def FiberAndThread_def)
  moreover have "uint (sleep_ms (Sleep s)) = uint s * 1000 mod 2 ^ 32"
    by (simp add: unsigned_ucast_eq uint_word_ariths take_bit_eq_mod)
  moreover have "uint (sleep_ms (Usleep u)) = uint u div 1000"
    using uint_lt2p [of u] by (simp add: unsigned_ucast_eq uint_div take_bit_eq_mod zmod_trivial_iff pos_imp_zdiv_nonneg_iff)
  moreover have "uint (sleep_ms (Nanosleep sec nsec)) = ms" if "ms = sec * 1000 + nsec div 1000000" "0 \<le> ms" "ms < 2 ^ 31" for ms
    using nanosleep_ms [OF assms(5), of sec] that by (simp add: signed_take_bit_int_eq_self)
  moreover have "2 ^ 63 < uint (sleep_ms (Nanosleep sec nsec))" if "sec * 1000 + nsec div 1000000 = 2 ^ 31"
    unfolding nanosleep_ms [OF assms(5)] that by (simp add: signed_take_bit_eq_take_bit_minus take_bit_eq_mod)
  ultimately show ?thesis by (auto simp: Let_def)
qed

theorem sleep_duration_witness:
  "(\<exists>h'. hk_sleep (Nanosleep 2147483 648000000) example_caller 5 9 example_hook = (Inr True, h') \<and> hook_inv h')
   \<and> 2 ^ 63 < uint (sleep_ms (Nanosleep 2147483 648000000)) \<and> uint (sleep_ms (Sleep 4294968)) = 704"
proof -
  have "t_hook_enable example_hook" "cl_iom example_caller" by (simp_all add: example_hook_def example_caller_def)
  with sleep_duration [OF example_hook_facts(1), of example_caller 9 648000000 "Nanosleep 2147483 648000000" 5 4294968 0 2147483]
  show ?thesis by (auto simp: example_hook_facts(4))
qed

end
