(* ===== verification/C_Strings.thy ===== *)
theory C_Strings
  imports Web_Prelude "HOL-Library.List_Lexorder"
begin

text \<open>
  The functions of the C and C++ libraries on strings that the protocol code uses: comparison with
  and without regard to case, search, decimal output and \<open>atoi\<close>. A \<open>std::string\<close> is a list of
  characters; where the source passes \<open>c_str()\<close>, the comparison ends at the first NUL.
\<close>

definition c_str :: "string \<Rightarrow> string" where
  "c_str s = takeWhile (\<lambda>c. c \<noteq> CHR 0x00) s"

definition code :: "char \<Rightarrow> int" where
  "code c = of_char c"

definition tolower :: "char \<Rightarrow> int" where
  "tolower c = (if 65 \<le> code c \<and> code c \<le> 90 then code c + 32 else code c)"

text \<open>The common loop of the comparison functions, on strings without NUL.\<close>

fun cmp_chars :: "(char \<Rightarrow> int) \<Rightarrow> string \<Rightarrow> string \<Rightarrow> int" where
  "cmp_chars f [] [] = 0"
| "cmp_chars f [] (y # ys) = - f y"
| "cmp_chars f (x # xs) [] = f x"
| "cmp_chars f (x # xs) (y # ys) = (if f x = f y then cmp_chars f xs ys else f x - f y)"

definition strcasecmp :: "string \<Rightarrow> string \<Rightarrow> int" where
  "strcasecmp a b = cmp_chars tolower (c_str a) (c_str b)"

definition strcmp :: "string \<Rightarrow> string \<Rightarrow> int" where
  "strcmp a b = cmp_chars code (c_str a) (c_str b)"

definition strncmp :: "string \<Rightarrow> string \<Rightarrow> nat \<Rightarrow> int" where
  "strncmp a b n = cmp_chars code (take n (c_str a)) (take n (c_str b))"

text \<open>Whether \<open>strcasestr\<close> finds the needle.\<close>

fun casestr :: "string \<Rightarrow> string \<Rightarrow> bool" where
  "casestr [] needle = (needle = [])"
| "casestr (c # cs) needle =
     (map tolower (take (length needle) (c # cs)) = map tolower needle \<or> casestr cs needle)"

definition strcasestr :: "string \<Rightarrow> string \<Rightarrow> bool" where
  "strcasestr hay needle = casestr (c_str hay) (c_str needle)"

text \<open>Decimal output of unsigned numbers.\<close>

definition digit :: "nat \<Rightarrow> char" where
  "digit d = char_of (48 + d)"

fun dec :: "nat \<Rightarrow> string" where
  "dec n = (if n < 10 then [digit n] else dec (n div 10) @ [digit (n mod 10)])"

declare dec.simps [simp del]

definition isdigit :: "char \<Rightarrow> bool" where
  "isdigit c \<longleftrightarrow> 48 \<le> code c \<and> code c \<le> 57"

text \<open>\<open>atoi\<close> on text that starts with a digit or none: the value of the leading digits.\<close>

definition atoi :: "string \<Rightarrow> int" where
  "atoi s = foldl (\<lambda>a c. a * 10 + (code c - 48)) 0 (takeWhile isdigit s)"

definition isspace :: "char \<Rightarrow> bool" where
  "isspace c \<longleftrightarrow> c = CHR '' '' \<or> 9 \<le> code c \<and> code c \<le> 13"

text \<open>
  \<open>strtol\<close>: leading white space, a sign, for base 16 the prefix \<open>0x\<close>, then digits in either case, with
  saturation. The value of a character that is no digit is larger than any base.
\<close>

definition digit_value :: "char \<Rightarrow> int" where
  "digit_value c =
     (if isdigit c then code c - 48 else if 97 \<le> tolower c \<and> tolower c \<le> 122 then tolower c - 87 else 99)"

definition number_value :: "int \<Rightarrow> string \<Rightarrow> int" where
  "number_value base s = foldl (\<lambda>a c. a * base + digit_value c) 0 (takeWhile (\<lambda>c. digit_value c < base) s)"

definition strtol :: "string \<Rightarrow> int \<Rightarrow> int" where
  "strtol s base =
     (let s = dropWhile isspace s;
          neg = (s \<noteq> [] \<and> hd s = CHR ''-'');
          s = (if s \<noteq> [] \<and> hd s \<in> {CHR ''-'', CHR ''+''} then tl s else s);
          s = (case s of z # x # d # _ \<Rightarrow> if base = 16 \<and> z = CHR ''0'' \<and> tolower x = 120 \<and> digit_value d < 16 then drop 2 s else s
               | _ \<Rightarrow> s);
          n = number_value base s in
      max (- (2 ^ 63)) (min (2 ^ 63 - 1) (if neg then - n else n)))"

text \<open>Conversions to \<open>int\<close> and \<open>int64_t\<close>.\<close>

definition c_int :: "int \<Rightarrow> int" where
  "c_int n = sint (word_of_int n :: u32)"

definition c_int64 :: "int \<Rightarrow> int" where
  "c_int64 n = sint (word_of_int n :: u64)"

section \<open>Comparison\<close>

lemma code_range: "0 \<le> code c" "code c < 256"
  by (simp_all add: code_def of_nat_of_char [symmetric, where 'a = int] nat_of_char_less_256)

lemma code_eq_iff [simp]: "code c = code d \<longleftrightarrow> c = d"
  by (simp add: code_def)

lemma code_pos: "c \<noteq> CHR 0x00 \<Longrightarrow> 0 < code c"
  using code_range(1) [of c] code_eq_iff [of c "CHR 0x00"] by (simp add: code_def)

lemma tolower_pos: "c \<noteq> CHR 0x00 \<Longrightarrow> 0 < tolower c"
  using code_pos [of c] by (simp add: tolower_def)

lemma c_str_no_nul: "c \<in> set (c_str s) \<Longrightarrow> c \<noteq> CHR 0x00"
  unfolding c_str_def by (rule set_takeWhileD [THEN conjunct2])

lemma cmp_chars_order:
  assumes "\<forall>c \<in> set xs \<union> set ys. 0 < f c"
  shows "cmp_chars f xs ys < 0 \<longleftrightarrow> map f xs < map f ys" "cmp_chars f xs ys = 0 \<longleftrightarrow> map f xs = map f ys"
  using assms by (induction f xs ys rule: cmp_chars.induct) auto

text \<open>Names that differ in case only have the same normal form.\<close>

definition fold_case :: "string \<Rightarrow> int list" where
  "fold_case s = map tolower (c_str s)"

lemma strcasecmp_order:
  "strcasecmp a b < 0 \<longleftrightarrow> fold_case a < fold_case b" "strcasecmp a b = 0 \<longleftrightarrow> fold_case a = fold_case b"
  using cmp_chars_order [of "c_str a" "c_str b" tolower] tolower_pos c_str_no_nul
  by (auto simp: strcasecmp_def fold_case_def)

lemma map_code_inj: "map code xs = map code ys \<longleftrightarrow> xs = ys"
  by (rule inj_map_eq_map) (simp add: inj_def)

lemma strcmp_eq: "strcmp a b = 0 \<longleftrightarrow> c_str a = c_str b"
  using cmp_chars_order(2) [of "c_str a" "c_str b" code] code_pos c_str_no_nul
  by (auto simp: strcmp_def map_code_inj)

lemma strncmp_eq: "strncmp a b n = 0 \<longleftrightarrow> take n (c_str a) = take n (c_str b)"
  using cmp_chars_order(2) [of "take n (c_str a)" "take n (c_str b)" code] code_pos c_str_no_nul
  by (auto simp: strncmp_def map_code_inj dest!: in_set_takeD)

lemma c_str_id: "CHR 0x00 \<notin> set s \<Longrightarrow> c_str s = s"
  by (auto simp: c_str_def takeWhile_eq_all_conv)

section \<open>Numbers\<close>

lemma code_digit: "d < 10 \<Longrightarrow> code (digit d) = int d + 48"
  by (simp add: code_def digit_def of_nat_of_char [symmetric, where 'a = int] del: of_nat_of_char)

lemma isdigit_digit: "d < 10 \<Longrightarrow> isdigit (digit d)"
  by (simp add: isdigit_def code_digit)

lemma dec_digits: "c \<in> set (dec n) \<Longrightarrow> isdigit c"
  by (induction n rule: dec.induct) (subst (asm) (2) dec.simps, auto split: if_splits simp: isdigit_digit)

lemma dec_not_Nil [simp]: "dec n \<noteq> []"
  by (subst dec.simps) simp

lemma foldl_dec: "foldl (\<lambda>a c. a * 10 + (code c - 48)) 0 (dec n) = int n"
proof (induction n rule: dec.induct)
  case (1 n)
  have "int (n div 10) * 10 + int (n mod 10) = int n"
    by (metis div_mult_mod_eq of_nat_add of_nat_mult of_nat_numeral)
  with 1 show ?case by (subst dec.simps) (simp add: code_digit)
qed

text \<open>Reading back a number that was printed, whatever follows it.\<close>

lemma atoi_dec:
  assumes "rest = [] \<or> \<not> isdigit (hd rest)"
  shows "atoi (dec n @ rest) = int n"
proof -
  have "takeWhile isdigit rest = []" using assms by (cases rest) auto
  then have "takeWhile isdigit (dec n @ rest) = dec n" using dec_digits by (simp add: takeWhile_append)
  then show ?thesis by (simp add: atoi_def foldl_dec)
qed

lemma c_int_id: "- (2 ^ 31) \<le> n \<Longrightarrow> n < 2 ^ 31 \<Longrightarrow> c_int n = n"
  by (simp add: c_int_def sint_sbintrunc' signed_take_bit_int_eq_self)

lemma c_int64_id: "- (2 ^ 63) \<le> n \<Longrightarrow> n < 2 ^ 63 \<Longrightarrow> c_int64 n = n"
  by (simp add: c_int64_def sint_sbintrunc' signed_take_bit_int_eq_self)

lemma c_int_high: "2 ^ 31 \<le> n \<Longrightarrow> n < 2 ^ 32 \<Longrightarrow> c_int n = n - 2 ^ 32"
proof -
  assume n: "2 ^ 31 \<le> n" "n < 2 ^ 32"
  have "c_int n = (n + 2 ^ 31) mod 2 ^ 32 - 2 ^ 31" unfolding c_int_def int_word_sint by simp
  also have "n + 2 ^ 31 = (n - 2 ^ 31) + 2 ^ 32" by simp
  also have "((n - 2 ^ 31) + 2 ^ 32) mod 2 ^ 32 = n - 2 ^ 31" unfolding mod_add_self2 using n by (intro mod_pos_pos_trivial) auto
  finally show "c_int n = n - 2 ^ 32" by simp
qed

lemma c_int_small: "e \<in> {- 1, 0} \<Longrightarrow> c_int e = e"
  using c_int_id [of e] by auto

end
