(* ===== verification/Http_Message.thy ===== *)
theory Http_Message
  imports C_Strings Ordered_Container "HOL-Library.Sublist"
begin

text \<open>
  HTTP requests and responses (\<open>http/http.h\<close>, \<open>http/http.cc\<close>): the tables of methods and status codes, the
  maps of headers, parameters and cookies, and the text a message is sent as. The conversion
  \<open>boost::lexical_cast\<close> is an argument of the operations that use it.
\<close>

section \<open>Methods and status codes\<close>

datatype HttpMethod =
    DELETE | GET | HEAD | POST | PUT | CONNECT | OPTIONS | TRACE | COPY | LOCK | MKCOL | MOVE | PROPFIND
  | PROPPATCH | SEARCH | UNLOCK | BIND | REBIND | UNBIND | ACL | REPORT | MKACTIVITY | CHECKOUT | MERGE
  | MSEARCH | NOTIFY | SUBSCRIBE | UNSUBSCRIBE | PATCH | PURGE | MKCALENDAR | LINK | UNLINK | SOURCE
  | INVALID_METHOD

definition HTTP_METHOD_MAP :: "(HttpMethod \<times> string) list" where
  "HTTP_METHOD_MAP = [
     (DELETE, ''DELETE''), (GET, ''GET''), (HEAD, ''HEAD''), (POST, ''POST''), (PUT, ''PUT''),
     (CONNECT, ''CONNECT''), (OPTIONS, ''OPTIONS''), (TRACE, ''TRACE''), (COPY, ''COPY''), (LOCK, ''LOCK''),
     (MKCOL, ''MKCOL''), (MOVE, ''MOVE''), (PROPFIND, ''PROPFIND''), (PROPPATCH, ''PROPPATCH''),
     (SEARCH, ''SEARCH''), (UNLOCK, ''UNLOCK''), (BIND, ''BIND''), (REBIND, ''REBIND''),
     (UNBIND, ''UNBIND''), (ACL, ''ACL''), (REPORT, ''REPORT''), (MKACTIVITY, ''MKACTIVITY''),
     (CHECKOUT, ''CHECKOUT''), (MERGE, ''MERGE''), (MSEARCH, ''M-SEARCH''), (NOTIFY, ''NOTIFY''),
     (SUBSCRIBE, ''SUBSCRIBE''), (UNSUBSCRIBE, ''UNSUBSCRIBE''), (PATCH, ''PATCH''), (PURGE, ''PURGE''),
     (MKCALENDAR, ''MKCALENDAR''), (LINK, ''LINK''), (UNLINK, ''UNLINK''), (SOURCE, ''SOURCE'')]"

text \<open>A status is an \<open>int\<close>: the parser casts any number to it.\<close>

definition HTTP_STATUS_MAP :: "(int \<times> string) list" where
  "HTTP_STATUS_MAP = [
     (100, ''Continue''), (101, ''Switching Protocols''), (102, ''Processing''), (200, ''OK''),
     (201, ''Created''), (202, ''Accepted''), (203, ''Non-Authoritative Information''),
     (204, ''No Content''), (205, ''Reset Content''), (206, ''Partial Content''), (207, ''Multi-Status''),
     (208, ''Already Reported''), (226, ''IM Used''), (300, ''Multiple Choices''),
     (301, ''Moved Permanently''), (302, ''Found''), (303, ''See Other''), (304, ''Not Modified''),
     (305, ''Use Proxy''), (307, ''Temporary Redirect''), (308, ''Permanent Redirect''),
     (400, ''Bad Request''), (401, ''Unauthorized''), (402, ''Payment Required''), (403, ''Forbidden''),
     (404, ''Not Found''), (405, ''Method Not Allowed''), (406, ''Not Acceptable''),
     (407, ''Proxy Authentication Required''), (408, ''Request Timeout''), (409, ''Conflict''),
     (410, ''Gone''), (411, ''Length Required''), (412, ''Precondition Failed''),
     (413, ''Payload Too Large''), (414, ''URI Too Long''), (415, ''Unsupported Media Type''),
     (416, ''Range Not Satisfiable''), (417, ''Expectation Failed''), (421, ''Misdirected Request''),
     (422, ''Unprocessable Entity''), (423, ''Locked''), (424, ''Failed Dependency''),
     (426, ''Upgrade Required''), (428, ''Precondition Required''), (429, ''Too Many Requests''),
     (431, ''Request Header Fields Too Large''), (451, ''Unavailable For Legal Reasons''),
     (500, ''Internal Server Error''), (501, ''Not Implemented''), (502, ''Bad Gateway''),
     (503, ''Service Unavailable''), (504, ''Gateway Timeout''), (505, ''HTTP Version Not Supported''),
     (506, ''Variant Also Negotiates''), (507, ''Insufficient Storage''), (508, ''Loop Detected''),
     (510, ''Not Extended''), (511, ''Network Authentication Required'')]"

primrec first_match :: "('e \<times> string \<Rightarrow> bool) \<Rightarrow> ('e \<times> string) list \<Rightarrow> 'e option" where
  "first_match p [] = None"
| "first_match p (e # es) = (if p e then Some (fst e) else first_match p es)"

definition StringToHttpMethod :: "string \<Rightarrow> HttpMethod" where
  "StringToHttpMethod m =
     (case first_match (\<lambda>e. strcmp (snd e) m = 0) HTTP_METHOD_MAP of Some x \<Rightarrow> x | None \<Rightarrow> INVALID_METHOD)"

definition CharsToHttpMethod :: "string \<Rightarrow> HttpMethod" where
  "CharsToHttpMethod m =
     (case first_match (\<lambda>e. strncmp (snd e) m (length (snd e)) = 0) HTTP_METHOD_MAP of Some x \<Rightarrow> x | None \<Rightarrow> INVALID_METHOD)"

text \<open>The value of an enumerator is its position in the table; \<open>INVALID_METHOD\<close> is the next number.\<close>

definition method_index :: "HttpMethod \<Rightarrow> nat" where
  "method_index m = length (takeWhile (\<lambda>e. fst e \<noteq> m) HTTP_METHOD_MAP)"

definition HttpMethodToString :: "HttpMethod \<Rightarrow> string" where
  "HttpMethodToString m =
     (let idx = method_index m in
      if idx \<ge> length HTTP_METHOD_MAP then ''<unknown>'' else snd (HTTP_METHOD_MAP ! idx))"

definition HttpStatusToString :: "int \<Rightarrow> string" where
  "HttpStatusToString s = (case map_of HTTP_STATUS_MAP s of Some msg \<Rightarrow> msg | None \<Rightarrow> ''<unknown>'')"

section \<open>Header maps\<close>

definition CaseInsensitiveLess :: "string \<Rightarrow> string \<Rightarrow> bool" where
  "CaseInsensitiveLess lhs rhs = (strcasecmp lhs rhs < 0)"

type_synonym MapType = "(string \<times> string) list"

abbreviation mt_find :: "string \<Rightarrow> MapType \<Rightarrow> (string \<times> string) option" where
  "mt_find \<equiv> oc_find CaseInsensitiveLess fst"

abbreviation mt_assign :: "string \<Rightarrow> string \<Rightarrow> MapType \<Rightarrow> MapType" where
  "mt_assign \<equiv> oc_assign CaseInsensitiveLess"

abbreviation mt_erase :: "string \<Rightarrow> MapType \<Rightarrow> MapType" where
  "mt_erase \<equiv> oc_erase CaseInsensitiveLess fst"

definition mt_get :: "MapType \<Rightarrow> string \<Rightarrow> string \<Rightarrow> string" where
  "mt_get m key d = (case mt_find key m of None \<Rightarrow> d | Some (_, v) \<Rightarrow> v)"

text \<open>\<open>lc\<close> is the conversion, which fails by throwing.\<close>

definition checkGetAs :: "(string \<Rightarrow> 'a option) \<Rightarrow> MapType \<Rightarrow> string \<Rightarrow> 'a \<Rightarrow> bool \<times> 'a" where
  "checkGetAs lc m key d =
     (case mt_find key m of None \<Rightarrow> (False, d)
      | Some (_, s) \<Rightarrow> (case lc s of Some v \<Rightarrow> (True, v) | None \<Rightarrow> (False, d)))"

definition getAs :: "(string \<Rightarrow> 'a option) \<Rightarrow> MapType \<Rightarrow> string \<Rightarrow> 'a \<Rightarrow> 'a" where
  "getAs lc m key d =
     (case mt_find key m of None \<Rightarrow> d
      | Some (_, s) \<Rightarrow> (case lc s of Some v \<Rightarrow> v | None \<Rightarrow> d))"

section \<open>Requests\<close>

record http_request =
  rq_method :: HttpMethod
  rq_version :: u8
  rq_close :: bool
  rq_websocket :: bool
  rq_parserParamFlag :: u8
  rq_path :: string
  rq_query :: string
  rq_fragment :: string
  rq_body :: string
  rq_headers :: MapType
  rq_params :: MapType
  rq_cookies :: MapType

definition HttpRequest :: "u8 \<Rightarrow> bool \<Rightarrow> http_request" where
  "HttpRequest version close =
     \<lparr>rq_method = GET, rq_version = version, rq_close = close, rq_websocket = False, rq_parserParamFlag = 0,
      rq_path = ''/'', rq_query = [], rq_fragment = [], rq_body = [], rq_headers = [], rq_params = [], rq_cookies = []\<rparr>"

definition rq_getHeader :: "string \<Rightarrow> string \<Rightarrow> http_request \<Rightarrow> string" where
  "rq_getHeader key d r = mt_get (rq_headers r) key d"

definition rq_setHeader :: "string \<Rightarrow> string \<Rightarrow> http_request \<Rightarrow> http_request" where
  "rq_setHeader key val r = r\<lparr>rq_headers := mt_assign key val (rq_headers r)\<rparr>"

definition rq_setParam :: "string \<Rightarrow> string \<Rightarrow> http_request \<Rightarrow> http_request" where
  "rq_setParam key val r = r\<lparr>rq_params := mt_assign key val (rq_params r)\<rparr>"

definition rq_setCookie :: "string \<Rightarrow> string \<Rightarrow> http_request \<Rightarrow> http_request" where
  "rq_setCookie key val r = r\<lparr>rq_cookies := mt_assign key val (rq_cookies r)\<rparr>"

definition rq_delHeader :: "string \<Rightarrow> http_request \<Rightarrow> http_request" where
  "rq_delHeader key r = r\<lparr>rq_headers := mt_erase key (rq_headers r)\<rparr>"

definition rq_delParam :: "string \<Rightarrow> http_request \<Rightarrow> http_request" where
  "rq_delParam key r = r\<lparr>rq_params := mt_erase key (rq_params r)\<rparr>"

definition rq_delCookie :: "string \<Rightarrow> http_request \<Rightarrow> http_request" where
  "rq_delCookie key r = r\<lparr>rq_cookies := mt_erase key (rq_cookies r)\<rparr>"

text \<open>The calls of the macro that would parse the parameters are commented out in the source.\<close>

definition initQueryParam :: "http_request \<Rightarrow> http_request" where
  "initQueryParam r =
     (if rq_parserParamFlag r AND 1 \<noteq> 0 then r else r\<lparr>rq_parserParamFlag := rq_parserParamFlag r OR 1\<rparr>)"

definition initBodyParam :: "http_request \<Rightarrow> http_request" where
  "initBodyParam r =
     (if rq_parserParamFlag r AND 2 \<noteq> 0 then r
      else let content_type = rq_getHeader ''content-type'' [] r in
        if \<not> strcasestr content_type ''application/x-www-form-urlencoded''
        then r\<lparr>rq_parserParamFlag := rq_parserParamFlag r OR 2\<rparr>
        else r\<lparr>rq_parserParamFlag := rq_parserParamFlag r OR 2\<rparr>)"

definition initCookies :: "http_request \<Rightarrow> http_request" where
  "initCookies r =
     (if rq_parserParamFlag r AND 4 \<noteq> 0 then r
      else let cookie = rq_getHeader ''cookie'' [] r in
        if cookie = [] then r\<lparr>rq_parserParamFlag := rq_parserParamFlag r OR 4\<rparr>
        else r\<lparr>rq_parserParamFlag := rq_parserParamFlag r OR 4\<rparr>)"

definition initParam :: "http_request \<Rightarrow> http_request" where
  "initParam r = initCookies (initBodyParam (initQueryParam r))"

definition rq_getParam :: "string \<Rightarrow> string \<Rightarrow> http_request \<Rightarrow> string \<times> http_request" where
  "rq_getParam key d r = (let r = initBodyParam (initQueryParam r) in (mt_get (rq_params r) key d, r))"

definition rq_getCookie :: "string \<Rightarrow> string \<Rightarrow> http_request \<Rightarrow> string \<times> http_request" where
  "rq_getCookie key d r = (let r = initCookies r in (mt_get (rq_cookies r) key d, r))"

text \<open>The \<open>has\<close> functions: the value found, if any, is also stored through the pointer argument.\<close>

definition rq_hasHeader :: "string \<Rightarrow> http_request \<Rightarrow> string option" where
  "rq_hasHeader key r = map_option snd (mt_find key (rq_headers r))"

definition rq_hasParam :: "string \<Rightarrow> http_request \<Rightarrow> string option \<times> http_request" where
  "rq_hasParam key r = (let r = initBodyParam (initQueryParam r) in (map_option snd (mt_find key (rq_params r)), r))"

definition rq_hasCookie :: "string \<Rightarrow> http_request \<Rightarrow> string option \<times> http_request" where
  "rq_hasCookie key r = (let r = initCookies r in (map_option snd (mt_find key (rq_cookies r)), r))"

text \<open>The conversions of a header, parameter or cookie.\<close>

definition rq_checkGetHeaderAs :: "(string \<Rightarrow> 'a option) \<Rightarrow> string \<Rightarrow> 'a \<Rightarrow> http_request \<Rightarrow> bool \<times> 'a" where
  "rq_checkGetHeaderAs lc key d r = checkGetAs lc (rq_headers r) key d"

definition rq_getHeaderAs :: "(string \<Rightarrow> 'a option) \<Rightarrow> string \<Rightarrow> 'a \<Rightarrow> http_request \<Rightarrow> 'a" where
  "rq_getHeaderAs lc key d r = getAs lc (rq_headers r) key d"

definition rq_checkGetParamAs :: "(string \<Rightarrow> 'a option) \<Rightarrow> string \<Rightarrow> 'a \<Rightarrow> http_request \<Rightarrow> (bool \<times> 'a) \<times> http_request" where
  "rq_checkGetParamAs lc key d r = (let r = initBodyParam (initQueryParam r) in (checkGetAs lc (rq_params r) key d, r))"

definition rq_getParamAs :: "(string \<Rightarrow> 'a option) \<Rightarrow> string \<Rightarrow> 'a \<Rightarrow> http_request \<Rightarrow> 'a \<times> http_request" where
  "rq_getParamAs lc key d r = (let r = initBodyParam (initQueryParam r) in (getAs lc (rq_params r) key d, r))"

definition rq_checkGetCookieAs :: "(string \<Rightarrow> 'a option) \<Rightarrow> string \<Rightarrow> 'a \<Rightarrow> http_request \<Rightarrow> (bool \<times> 'a) \<times> http_request" where
  "rq_checkGetCookieAs lc key d r = (let r = initCookies r in (checkGetAs lc (rq_cookies r) key d, r))"

definition rq_getCookieAs :: "(string \<Rightarrow> 'a option) \<Rightarrow> string \<Rightarrow> 'a \<Rightarrow> http_request \<Rightarrow> 'a \<times> http_request" where
  "rq_getCookieAs lc key d r = (let r = initCookies r in (getAs lc (rq_cookies r) key d, r))"

definition rq_init :: "http_request \<Rightarrow> http_request" where
  "rq_init r =
     (let conn = rq_getHeader ''connection'' [] r in
      if conn \<noteq> [] then r\<lparr>rq_close := strcasecmp conn ''keep-alive'' \<noteq> 0\<rparr> else r)"

section \<open>Responses\<close>

record http_response =
  rs_status :: int
  rs_version :: u8
  rs_close :: bool
  rs_websocket :: bool
  rs_body :: string
  rs_reason :: string
  rs_headers :: MapType
  rs_cookies :: "string list"

definition HttpResponse :: "u8 \<Rightarrow> bool \<Rightarrow> http_response" where
  "HttpResponse version close =
     \<lparr>rs_status = 200, rs_version = version, rs_close = close, rs_websocket = False, rs_body = [], rs_reason = [],
      rs_headers = [], rs_cookies = []\<rparr>"

definition createResponse :: "http_request \<Rightarrow> http_response" where
  "createResponse r = HttpResponse (rq_version r) (rq_close r)"

definition rs_getHeader :: "string \<Rightarrow> string \<Rightarrow> http_response \<Rightarrow> string" where
  "rs_getHeader key d r = mt_get (rs_headers r) key d"

definition rs_checkGetHeaderAs :: "(string \<Rightarrow> 'a option) \<Rightarrow> string \<Rightarrow> 'a \<Rightarrow> http_response \<Rightarrow> bool \<times> 'a" where
  "rs_checkGetHeaderAs lc key d r = checkGetAs lc (rs_headers r) key d"

definition rs_getHeaderAs :: "(string \<Rightarrow> 'a option) \<Rightarrow> string \<Rightarrow> 'a \<Rightarrow> http_response \<Rightarrow> 'a" where
  "rs_getHeaderAs lc key d r = getAs lc (rs_headers r) key d"

definition rs_setHeader :: "string \<Rightarrow> string \<Rightarrow> http_response \<Rightarrow> http_response" where
  "rs_setHeader key val r = r\<lparr>rs_headers := mt_assign key val (rs_headers r)\<rparr>"

definition rs_delHeader :: "string \<Rightarrow> http_response \<Rightarrow> http_response" where
  "rs_delHeader key r = r\<lparr>rs_headers := mt_erase key (rs_headers r)\<rparr>"

definition setRedirect :: "string \<Rightarrow> http_response \<Rightarrow> http_response" where
  "setRedirect uri r = rs_setHeader ''Location'' uri (r\<lparr>rs_status := 302\<rparr>)"

text \<open>The expiry is accepted and ignored: its line is commented out.\<close>

definition rs_setCookie :: "string \<Rightarrow> string \<Rightarrow> int \<Rightarrow> string \<Rightarrow> string \<Rightarrow> bool \<Rightarrow> http_response \<Rightarrow> http_response" where
  "rs_setCookie key val expired path domain secure r =
     r\<lparr>rs_cookies := rs_cookies r @
        [key @ ''='' @ val @ (if domain \<noteq> [] then '';domain='' @ domain else [])
          @ (if path \<noteq> [] then '';path='' @ path else []) @ (if secure then '';secure'' else [])]\<rparr>"

section \<open>The text of a message\<close>

abbreviation CRLF :: string where "CRLF \<equiv> [CHR 0x0D, CHR 0x0A]"

definition version_text :: "u8 \<Rightarrow> string" where
  "version_text v = ''HTTP/'' @ dec (unat (drop_bit 4 v)) @ ''.'' @ dec (unat (v AND 15))"

definition connection_line :: "bool \<Rightarrow> string" where
  "connection_line close = ''connection: '' @ (if close then ''close'' else ''keep-alive'') @ CRLF"

definition dump_headers :: "bool \<Rightarrow> MapType \<Rightarrow> string" where
  "dump_headers websocket hs =
     concat (map (\<lambda>(k, v). if \<not> websocket \<and> strcasecmp k ''connection'' = 0 then [] else k @ '': '' @ v @ CRLF) hs)"

definition dump_body :: "string \<Rightarrow> string" where
  "dump_body body = (if body \<noteq> [] then ''content-length: '' @ dec (length body) @ CRLF @ CRLF @ body else CRLF)"

definition rq_dump :: "http_request \<Rightarrow> string" where
  "rq_dump r =
     HttpMethodToString (rq_method r) @ '' '' @ rq_path r @ (if rq_query r = [] then [] else ''?'') @ rq_query r
     @ (if rq_fragment r = [] then [] else ''#'') @ rq_fragment r @ '' '' @ version_text (rq_version r) @ CRLF
     @ (if \<not> rq_websocket r then connection_line (rq_close r) else [])
     @ dump_headers (rq_websocket r) (rq_headers r) @ dump_body (rq_body r)"

definition rs_dump :: "http_response \<Rightarrow> string" where
  "rs_dump r =
     version_text (rs_version r) @ '' '' @ dec (nat (rs_status r mod 2 ^ 32)) @ '' ''
     @ (if rs_reason r = [] then HttpStatusToString (rs_status r) else rs_reason r) @ CRLF
     @ dump_headers (rs_websocket r) (rs_headers r)
     @ concat (map (\<lambda>c. ''Set-Cookie: '' @ c @ CRLF) (rs_cookies r))
     @ (if \<not> rs_websocket r then connection_line (rs_close r) else [])
     @ dump_body (rs_body r)"

section \<open>The method table\<close>

lemma first_match_unique:
  assumes "(m, n) \<in> set es" and "p (m, n)" and "\<And>e. e \<in> set es \<Longrightarrow> p e \<Longrightarrow> fst e = m"
  shows "first_match p es = Some m"
  using assms by (induction es) auto

lemma first_match_Some: "first_match p es = Some m \<Longrightarrow> \<exists>n. (m, n) \<in> set es \<and> p (m, n)"
  by (induction es) (auto split: if_splits)

definition method_names_ok :: bool where
  "method_names_ok \<longleftrightarrow>
     list_all (\<lambda>e. CHR 0x00 \<notin> set (snd e) \<and> list_all (\<lambda>e'. prefix (snd e) (snd e') \<longrightarrow> fst e = fst e') HTTP_METHOD_MAP) HTTP_METHOD_MAP"

lemma method_names_ok: "method_names_ok"
  by code_simp

lemma method_no_nul: "e \<in> set HTTP_METHOD_MAP \<Longrightarrow> c_str (snd e) = snd e"
  using method_names_ok by (auto simp: method_names_ok_def list_all_iff intro!: c_str_id)

lemma method_prefix_free:
  "e \<in> set HTTP_METHOD_MAP \<Longrightarrow> e' \<in> set HTTP_METHOD_MAP \<Longrightarrow> prefix (snd e) s \<Longrightarrow> prefix (snd e') s \<Longrightarrow> fst e = fst e'"
  using method_names_ok prefix_same_cases [of "snd e" s "snd e'"]
  unfolding method_names_ok_def list_all_iff by metis

lemma method_text_in_table: "m \<noteq> INVALID_METHOD \<Longrightarrow> (m, HttpMethodToString m) \<in> set HTTP_METHOD_MAP"
  by (cases m) (simp_all add: HttpMethodToString_def method_index_def HTTP_METHOD_MAP_def)

lemma method_table_text: "(m, n) \<in> set HTTP_METHOD_MAP \<Longrightarrow> n = HttpMethodToString m"
  by (auto simp: HTTP_METHOD_MAP_def HttpMethodToString_def method_index_def)

lemma prefix_take: "prefix xs ys \<longleftrightarrow> take (length xs) ys = xs"
  by (metis append_eq_conv_conj prefix_def take_is_prefix)

lemma chars_match:
  "e \<in> set HTTP_METHOD_MAP \<Longrightarrow> strncmp (snd e) s (length (snd e)) = 0 \<longleftrightarrow> prefix (snd e) (c_str s)"
  by (auto simp: strncmp_eq method_no_nul prefix_take)

lemma CharsToHttpMethod_iff:
  assumes "m \<noteq> INVALID_METHOD"
  shows "CharsToHttpMethod s = m \<longleftrightarrow> prefix (HttpMethodToString m) (c_str s)"
proof
  let ?p = "\<lambda>e. strncmp (snd e) s (length (snd e)) = 0"
  assume "CharsToHttpMethod s = m"
  then have "first_match ?p HTTP_METHOD_MAP = Some m"
    using assms by (auto simp: CharsToHttpMethod_def split: option.splits)
  then obtain n where n: "(m, n) \<in> set HTTP_METHOD_MAP" "?p (m, n)" by (auto dest: first_match_Some)
  then show "prefix (HttpMethodToString m) (c_str s)" using chars_match [OF n(1)] method_table_text [OF n(1)] by simp
next
  assume pre: "prefix (HttpMethodToString m) (c_str s)"
  note t = method_text_in_table [OF assms]
  have "first_match (\<lambda>e. strncmp (snd e) s (length (snd e)) = 0) HTTP_METHOD_MAP = Some m"
  proof (rule first_match_unique [OF t])
    show "strncmp (snd (m, HttpMethodToString m)) s (length (snd (m, HttpMethodToString m))) = 0"
      using chars_match [OF t] pre by simp
  next
    fix e
    assume "e \<in> set HTTP_METHOD_MAP" "strncmp (snd e) s (length (snd e)) = 0"
    then show "fst e = m" using method_prefix_free [OF _ t, of e "c_str s"] pre chars_match by simp
  qed
  then show "CharsToHttpMethod s = m" by (simp add: CharsToHttpMethod_def)
qed

lemma StringToHttpMethod_iff:
  assumes "m \<noteq> INVALID_METHOD"
  shows "StringToHttpMethod s = m \<longleftrightarrow> HttpMethodToString m = c_str s"
proof -
  have eq: "strcmp (snd e) s = 0 \<longleftrightarrow> snd e = c_str s" if "e \<in> set HTTP_METHOD_MAP" for e
    using that by (simp add: strcmp_eq method_no_nul)
  show ?thesis
  proof
    assume "StringToHttpMethod s = m"
    then have "first_match (\<lambda>e. strcmp (snd e) s = 0) HTTP_METHOD_MAP = Some m"
      using assms by (auto simp: StringToHttpMethod_def split: option.splits)
    then show "HttpMethodToString m = c_str s" using eq method_table_text by (fastforce dest!: first_match_Some)
  next
    assume s: "HttpMethodToString m = c_str s"
    note t = method_text_in_table [OF assms]
    have "first_match (\<lambda>e. strcmp (snd e) s = 0) HTTP_METHOD_MAP = Some m"
    proof (rule first_match_unique [OF t])
      show "strcmp (snd (m, HttpMethodToString m)) s = 0" using eq [OF t] s by simp
    next
      fix e
      assume "e \<in> set HTTP_METHOD_MAP" "strcmp (snd e) s = 0"
      then show "fst e = m" using method_prefix_free [OF _ t, of e "c_str s"] eq s by simp
    qed
    then show "StringToHttpMethod s = m" by (simp add: StringToHttpMethod_def)
  qed
qed

section \<open>Header maps as functions\<close>

lemma CaseInsensitiveLess_iff: "CaseInsensitiveLess a b \<longleftrightarrow> fold_case a < fold_case b"
  by (simp add: CaseInsensitiveLess_def strcasecmp_order)

interpretation hdr: strict_weak CaseInsensitiveLess
  by unfold_locales (auto simp: CaseInsensitiveLess_iff)

lemma hdr_equiv: "\<not> CaseInsensitiveLess a b \<and> \<not> CaseInsensitiveLess b a \<longleftrightarrow> fold_case a = fold_case b"
  by (auto simp: CaseInsensitiveLess_iff)

definition hdr_ok :: "MapType \<Rightarrow> bool" where
  "hdr_ok m = oc_sorted CaseInsensitiveLess fst m"

text \<open>The abstract content of a header map: a partial function on names up to case.\<close>

definition hdr_abs :: "MapType \<Rightarrow> int list \<Rightarrow> string option" where
  "hdr_abs m = map_of (map (\<lambda>(k, v). (fold_case k, v)) m)"

lemma hdr_distinct: "hdr_ok m \<Longrightarrow> distinct (map fst (map (\<lambda>(k, v). (fold_case k, v)) m))"
  by (induction m) (auto simp: hdr_ok_def oc_sorted_Cons CaseInsensitiveLess_iff)

lemma hdr_abs_Some: "hdr_ok m \<Longrightarrow> hdr_abs m n = Some v \<longleftrightarrow> (\<exists>k. (k, v) \<in> set m \<and> fold_case k = n)"
  using map_of_eq_Some_iff [OF hdr_distinct, of m n v] by (auto simp: hdr_abs_def)

lemma mt_find_abs:
  assumes "hdr_ok m"
  shows "map_option snd (mt_find k m) = hdr_abs m (fold_case k)"
proof -
  have "map_option snd (mt_find k m) = Some v \<longleftrightarrow> hdr_abs m (fold_case k) = Some v" for v
    using hdr.find_Some_iff [of fst m k] assms hdr_equiv
    by (auto simp: hdr_abs_Some [OF assms] hdr_ok_def)
  then show ?thesis by (metis not_Some_eq)
qed

lemma mt_get_abs: "hdr_ok m \<Longrightarrow> mt_get m k d = (case hdr_abs m (fold_case k) of None \<Rightarrow> d | Some v \<Rightarrow> v)"
  by (simp add: mt_find_abs [symmetric] mt_get_def split: option.splits)

lemma hdr_ok_ops [inv_intros]:
  "hdr_ok []" "hdr_ok m \<Longrightarrow> hdr_ok (mt_assign k v m)" "hdr_ok m \<Longrightarrow> hdr_ok (mt_erase k m)"
  by (simp_all add: hdr_ok_def hdr.sorted_assign hdr.sorted_erase)

lemma fold_case_cases: "fold_case j = fold_case k \<or> CaseInsensitiveLess k j \<or> CaseInsensitiveLess j k"
  using hdr_equiv by blast

text \<open>Every normal form in use is that of a name, so it suffices to compare the functions on names.\<close>

lemma hdr_abs_eqI:
  assumes "hdr_ok m" "hdr_ok m'" and "\<And>j. map_option snd (mt_find j m') = f (fold_case j)"
    and "\<And>n. n \<notin> range fold_case \<Longrightarrow> f n = None"
  shows "hdr_abs m' = f"
proof
  fix n
  show "hdr_abs m' n = f n"
  proof (cases "n \<in> range fold_case")
    case True
    then obtain j where "n = fold_case j" by blast
    then show ?thesis using assms(3) [of j] mt_find_abs [OF assms(2), of j] by simp
  next
    case False
    have "hdr_abs m' n = None" using hdr_abs_Some [OF assms(2), of n] False by (cases "hdr_abs m' n") auto
    then show ?thesis using assms(4) [OF False] by simp
  qed
qed

lemma hdr_abs_dom: "hdr_ok m \<Longrightarrow> n \<notin> range fold_case \<Longrightarrow> hdr_abs m n = None"
  using hdr_abs_Some [of m n] by (cases "hdr_abs m n") auto

lemma hdr_abs_assign:
  assumes "hdr_ok m"
  shows "hdr_abs (mt_assign k v m) = (hdr_abs m)(fold_case k \<mapsto> v)"
proof (rule hdr_abs_eqI [OF assms hdr_ok_ops(2) [OF assms]])
  fix j
  show "map_option snd (mt_find j (mt_assign k v m)) = ((hdr_abs m)(fold_case k \<mapsto> v)) (fold_case j)"
  proof (cases "fold_case j = fold_case k")
    case True
    have "hdr_abs (mt_assign k v m) (fold_case k) = Some v"
      using hdr.find_assign_same [of m k v] assms mt_find_abs [OF hdr_ok_ops(2) [OF assms], of k k v]
      by (auto simp: hdr_ok_def)
    then show ?thesis using True mt_find_abs [OF hdr_ok_ops(2) [OF assms], of j k v] by simp
  next
    case False
    then have "mt_find j (mt_assign k v m) = mt_find j m"
      using fold_case_cases hdr.find_assign_other [of m k j v] assms by (auto simp: hdr_ok_def)
    then show ?thesis using False mt_find_abs [OF assms, of j] by simp
  qed
qed (use hdr_abs_dom [OF assms] in auto)

lemma hdr_abs_erase:
  assumes "hdr_ok m"
  shows "hdr_abs (mt_erase k m) = (hdr_abs m)(fold_case k := None)"
proof (rule hdr_abs_eqI [OF assms hdr_ok_ops(3) [OF assms]])
  fix j
  show "map_option snd (mt_find j (mt_erase k m)) = ((hdr_abs m)(fold_case k := None)) (fold_case j)"
  proof (cases "fold_case j = fold_case k")
    case True
    have "hdr_abs (mt_erase k m) (fold_case k) = None"
      using hdr.find_erase_same [of fst m k] assms mt_find_abs [OF hdr_ok_ops(3) [OF assms], of k k]
      by (auto simp: hdr_ok_def)
    then show ?thesis using True mt_find_abs [OF hdr_ok_ops(3) [OF assms], of j k] by simp
  next
    case False
    then have "mt_find j (mt_erase k m) = mt_find j m"
      using fold_case_cases hdr.find_erase_other [of fst m k j] assms by (auto simp: hdr_ok_def)
    then show ?thesis using False mt_find_abs [OF assms, of j] by simp
  qed
qed (use hdr_abs_dom [OF assms] in auto)

section \<open>Reading a message back\<close>

text \<open>
  A reference reader: the lines of the head, each ended by CR LF, up to the first empty one, and
  what follows, the body.
\<close>

fun take_line :: "string \<Rightarrow> (string \<times> string) option" where
  "take_line [] = None"
| "take_line (c # cs) =
     (if c = CHR 0x0D \<and> cs \<noteq> [] \<and> hd cs = CHR 0x0A then Some ([], tl cs)
      else map_option (apfst (Cons c)) (take_line cs))"

lemma take_line_length: "take_line s = Some (l, r) \<Longrightarrow> length r < length s"
  by (induction s arbitrary: l) (auto split: if_splits)

function read_head :: "string \<Rightarrow> (string list \<times> string) option" where
  "read_head s =
     (case take_line s of None \<Rightarrow> None
      | Some (l, rest) \<Rightarrow> if l = [] then Some ([], rest) else map_option (apfst (Cons l)) (read_head rest))"
  by pat_completeness auto
termination by (relation "measure length") (auto dest: take_line_length)

declare read_head.simps [simp del]

lemma take_line_append: "CHR 0x0D \<notin> set l \<Longrightarrow> take_line (l @ CRLF @ rest) = Some (l, rest)"
  by (induction l) auto

definition unlines :: "string list \<Rightarrow> string" where
  "unlines ls = concat (map (\<lambda>l. l @ CRLF) ls)"

lemma unlines_simps [simp]:
  "unlines [] = []" "unlines (l # ls) = l @ CRLF @ unlines ls" "unlines (ls @ ls') = unlines ls @ unlines ls'"
  by (simp_all add: unlines_def)

lemma read_head_unlines:
  assumes "\<forall>l \<in> set ls. l \<noteq> [] \<and> CHR 0x0D \<notin> set l"
  shows "read_head (unlines ls @ CRLF @ body) = Some (ls, body)"
  using assms
proof (induction ls)
  case Nil
  then show ?case using take_line_append [of "[]" body] by (subst read_head.simps) simp
next
  case (Cons l ls)
  then show ?case using take_line_append [of l "unlines ls @ CRLF @ body"] by (subst read_head.simps) simp
qed

definition header_lines :: "bool \<Rightarrow> MapType \<Rightarrow> string list" where
  "header_lines websocket hs =
     map (\<lambda>(k, v). k @ '': '' @ v) (filter (\<lambda>(k, v). websocket \<or> fold_case k \<noteq> fold_case ''connection'') hs)"

definition tail_lines :: "bool \<Rightarrow> bool \<Rightarrow> string list" where
  "tail_lines websocket close = (if websocket then [] else [''connection: '' @ (if close then ''close'' else ''keep-alive'')])"

definition length_lines :: "string \<Rightarrow> string list" where
  "length_lines body = (if body = [] then [] else [''content-length: '' @ dec (length body)])"

lemma dump_headers_lines: "dump_headers websocket hs = unlines (header_lines websocket hs)"
  by (induction hs) (auto simp: dump_headers_def header_lines_def strcasecmp_order)

lemma dump_tail_lines:
  "(if \<not> websocket then connection_line close else []) = unlines (tail_lines websocket close)"
  "dump_body body = unlines (length_lines body) @ CRLF @ body"
  by (simp_all add: connection_line_def tail_lines_def dump_body_def length_lines_def)

definition status_line :: "http_response \<Rightarrow> string" where
  "status_line r = version_text (rs_version r) @ '' '' @ dec (nat (rs_status r mod 2 ^ 32)) @ '' ''
     @ (if rs_reason r = [] then HttpStatusToString (rs_status r) else rs_reason r)"

definition request_line :: "http_request \<Rightarrow> string" where
  "request_line r = HttpMethodToString (rq_method r) @ '' '' @ rq_path r @ (if rq_query r = [] then [] else ''?'') @ rq_query r
     @ (if rq_fragment r = [] then [] else ''#'') @ rq_fragment r @ '' '' @ version_text (rq_version r)"

definition rs_lines :: "http_response \<Rightarrow> string list" where
  "rs_lines r = status_line r # header_lines (rs_websocket r) (rs_headers r) @ map (\<lambda>c. ''Set-Cookie: '' @ c) (rs_cookies r)
     @ tail_lines (rs_websocket r) (rs_close r) @ length_lines (rs_body r)"

definition rq_lines :: "http_request \<Rightarrow> string list" where
  "rq_lines r = request_line r # tail_lines (rq_websocket r) (rq_close r)
     @ header_lines (rq_websocket r) (rq_headers r) @ length_lines (rq_body r)"

lemma rs_dump_lines: "rs_dump r = unlines (rs_lines r) @ CRLF @ rs_body r"
proof -
  have "concat (map (\<lambda>c. ''Set-Cookie: '' @ c @ CRLF) cs) = unlines (map (\<lambda>c. ''Set-Cookie: '' @ c) cs)" for cs
    by (induction cs) simp_all
  then show ?thesis
    by (simp only: rs_dump_def rs_lines_def status_line_def dump_headers_lines dump_tail_lines unlines_simps append_assoc)
qed

lemma rq_dump_lines: "rq_dump r = unlines (rq_lines r) @ CRLF @ rq_body r"
  by (simp only: rq_dump_def rq_lines_def request_line_def dump_headers_lines dump_tail_lines unlines_simps append_assoc)

abbreviation no_cr :: "string \<Rightarrow> bool" where "no_cr s \<equiv> CHR 0x0D \<notin> set s"

lemma dec_no_cr: "no_cr (dec n)"
  using dec_digits [of "CHR 0x0D" n] by (auto simp: isdigit_def code_def)

lemma version_no_cr: "no_cr (version_text v)"
  by (simp add: version_text_def dec_no_cr)

lemma method_no_cr: "no_cr (HttpMethodToString m)"
  by (cases m) (simp_all add: HttpMethodToString_def method_index_def HTTP_METHOD_MAP_def)

lemma status_no_cr: "no_cr (HttpStatusToString st)"
proof -
  have "list_all (\<lambda>e. no_cr (snd e)) HTTP_STATUS_MAP" by (simp add: HTTP_STATUS_MAP_def)
  then show ?thesis by (auto simp: HttpStatusToString_def list_all_iff dest!: map_of_SomeD split: option.splits)
qed

lemma lines_no_cr:
  "l \<in> set (tail_lines w c) \<Longrightarrow> l \<noteq> [] \<and> no_cr l" "l \<in> set (length_lines b) \<Longrightarrow> l \<noteq> [] \<and> no_cr l"
  "\<forall>(k, v) \<in> set hs. no_cr k \<and> no_cr v \<Longrightarrow> l \<in> set (header_lines w hs) \<Longrightarrow> l \<noteq> [] \<and> no_cr l"
  by (auto simp: tail_lines_def length_lines_def header_lines_def dec_no_cr split: if_splits)

section \<open>Properties\<close>

text \<open>
  The method table is consistent: printing a method and reading it back gives the method, with
  either reader, and whatever follows the name when the reader works on the text of a request.
  \<open>StringToHttpMethod\<close> accepts exactly the printed name; \<open>CharsToHttpMethod\<close> accepts exactly the texts the
  name is a prefix of, which is unambiguous because no name is a prefix of another.
\<close>

theorem method_names:
  assumes "m \<noteq> INVALID_METHOD"
  shows "StringToHttpMethod (HttpMethodToString m) = m \<and> CharsToHttpMethod (HttpMethodToString m @ rest) = m
    \<and> (StringToHttpMethod s = m \<longleftrightarrow> c_str s = HttpMethodToString m)
    \<and> (CharsToHttpMethod s = m \<longleftrightarrow> prefix (HttpMethodToString m) (c_str s))"
proof -
  have nul: "c_str (HttpMethodToString m) = HttpMethodToString m"
    using method_no_nul [OF method_text_in_table [OF assms]] by simp
  then have "CHR 0x00 \<notin> set (HttpMethodToString m)" by (metis c_str_no_nul)
  then have "c_str (HttpMethodToString m @ rest) = HttpMethodToString m @ c_str rest"
    by (auto simp: c_str_def takeWhile_append)
  then show ?thesis
    using StringToHttpMethod_iff [OF assms] CharsToHttpMethod_iff [OF assms] nul by auto
qed

theorem method_names_witness:
  "CharsToHttpMethod (HttpMethodToString MSEARCH @ '' * HTTP/1.1'') = MSEARCH \<and> CharsToHttpMethod ''GETTING / HTTP/1.1'' = GET"
proof -
  have "prefix (HttpMethodToString GET) (c_str ''GETTING / HTTP/1.1'')"
    by (simp add: HttpMethodToString_def method_index_def HTTP_METHOD_MAP_def c_str_def)
  then show ?thesis using method_names [of MSEARCH "'' * HTTP/1.1''" "[]"] method_names [of GET "[]" "''GETTING / HTTP/1.1''"] by auto
qed

text \<open>
  C18: the header maps of requests and responses behave as functions from names to values that
  ignore the case of the name: setting, deleting, reading and testing a header are updating and
  applying the function, and every operation keeps the map in order.
\<close>

theorem headers_refine:
  assumes "hdr_ok (rq_headers r)" and "hdr_ok (rs_headers p)"
  shows "hdr_ok (rq_headers (rq_setHeader k v r)) \<and> hdr_ok (rq_headers (rq_delHeader k r))
    \<and> hdr_abs (rq_headers (rq_setHeader k v r)) = (hdr_abs (rq_headers r))(fold_case k \<mapsto> v)
    \<and> hdr_abs (rq_headers (rq_delHeader k r)) = (hdr_abs (rq_headers r))(fold_case k := None)
    \<and> rq_getHeader k d r = (case hdr_abs (rq_headers r) (fold_case k) of None \<Rightarrow> d | Some x \<Rightarrow> x)
    \<and> rq_hasHeader k r = hdr_abs (rq_headers r) (fold_case k)
    \<and> hdr_ok (rs_headers (rs_setHeader k v p)) \<and> hdr_ok (rs_headers (rs_delHeader k p))
    \<and> hdr_abs (rs_headers (rs_setHeader k v p)) = (hdr_abs (rs_headers p))(fold_case k \<mapsto> v)
    \<and> hdr_abs (rs_headers (rs_delHeader k p)) = (hdr_abs (rs_headers p))(fold_case k := None)
    \<and> rs_getHeader k d p = (case hdr_abs (rs_headers p) (fold_case k) of None \<Rightarrow> d | Some x \<Rightarrow> x)"
  using hdr_abs_assign [OF assms(1)] hdr_abs_assign [OF assms(2)] hdr_abs_erase [OF assms(1)] hdr_abs_erase [OF assms(2)]
    hdr_ok_ops(2,3) [OF assms(1)] hdr_ok_ops(2,3) [OF assms(2)] mt_get_abs [OF assms(1)] mt_get_abs [OF assms(2)]
    mt_find_abs [OF assms(1)]
  by (simp add: rq_setHeader_def rq_delHeader_def rq_getHeader_def rq_hasHeader_def rs_setHeader_def rs_delHeader_def rs_getHeader_def)

theorem headers_refine_witness:
  "rq_getHeader ''HOST'' ''?'' (rq_setHeader ''Host'' ''a'' (HttpRequest 0x11 True)) = ''a''"
proof -
  let ?r = "rq_setHeader ''Host'' ''a'' (HttpRequest 0x11 True)" and ?p = "HttpResponse 0x11 True"
  have ok: "hdr_ok (rq_headers (HttpRequest 0x11 True))" "hdr_ok (rs_headers ?p)"
    by (simp_all add: HttpRequest_def HttpResponse_def hdr_ok_ops(1))
  have "fold_case ''HOST'' = fold_case ''Host''" by (simp add: fold_case_def c_str_def tolower_def code_def)
  with headers_refine [OF ok, of "''Host''" "''a''"] headers_refine [of ?r ?p "''HOST''" _ "''?''"] ok(2) show ?thesis by simp
qed

text \<open>
  What is sent can be read back: when no name, value or reason contains a carriage return, a
  reader that splits the text at CR LF finds exactly the start line, the headers (with one
  \<open>connection\<close> line that states whether the connection closes, in place of any the user set), the
  cookies and the \<open>content-length\<close> with the length of the body, and then the body, unchanged, even if
  it contains CR LF.
\<close>

theorem message_framing:
  assumes "\<forall>(k, v) \<in> set (rs_headers p). no_cr k \<and> no_cr v" and "\<forall>c \<in> set (rs_cookies p). no_cr c" and "no_cr (rs_reason p)"
    and "\<forall>(k, v) \<in> set (rq_headers r). no_cr k \<and> no_cr v" and "no_cr (rq_path r)" and "no_cr (rq_query r)" and "no_cr (rq_fragment r)"
  shows "read_head (rs_dump p) = Some (rs_lines p, rs_body p) \<and> read_head (rq_dump r) = Some (rq_lines r, rq_body r)"
proof
  have "status_line p \<noteq> []" "no_cr (status_line p)"
    using assms(3) status_no_cr dec_no_cr version_no_cr by (auto simp: status_line_def)
  then have "\<forall>l \<in> set (rs_lines p). l \<noteq> [] \<and> no_cr l"
    using assms(2) by (auto simp: rs_lines_def dest: lines_no_cr(1,2) lines_no_cr(3) [OF assms(1)])
  then show "read_head (rs_dump p) = Some (rs_lines p, rs_body p)" unfolding rs_dump_lines by (rule read_head_unlines)
next
  have "request_line r \<noteq> []" "no_cr (request_line r)"
    using assms(5-7) method_no_cr version_no_cr by (auto simp: request_line_def)
  then have "\<forall>l \<in> set (rq_lines r). l \<noteq> [] \<and> no_cr l"
    by (auto simp: rq_lines_def dest: lines_no_cr(1,2) lines_no_cr(3) [OF assms(4)])
  then show "read_head (rq_dump r) = Some (rq_lines r, rq_body r)" unfolding rq_dump_lines by (rule read_head_unlines)
qed

theorem message_framing_witness:
  "\<exists>ls. read_head (rs_dump ((HttpResponse 0x11 False)\<lparr>rs_body := ''a'' @ CRLF @ ''b''\<rparr>)) = Some (ls, ''a'' @ CRLF @ ''b'')
    \<and> ls ! 2 = ''content-length: '' @ dec 4"
  using message_framing [of "(HttpResponse 0x11 False)\<lparr>rs_body := ''a'' @ CRLF @ ''b''\<rparr>" "HttpRequest 0x11 True"]
  by (auto simp: HttpResponse_def HttpRequest_def rs_lines_def header_lines_def tail_lines_def length_lines_def numeral_eq_Suc)

text \<open>
  Parameters and cookies are only ever those set explicitly: neither the query string, nor a
  form body, nor a \<open>Cookie\<close> header is parsed, whatever the request holds.
\<close>

theorem params_not_parsed:
  "fst (rq_getParam k d r) = mt_get (rq_params r) k d \<and> rq_params (initParam r) = rq_params r
   \<and> fst (rq_getCookie k d r) = mt_get (rq_cookies r) k d \<and> rq_cookies (initParam r) = rq_cookies r
   \<and> fst (rq_hasParam k r) = map_option snd (mt_find k (rq_params r)) \<and> rq_parserParamFlag (initParam r) = rq_parserParamFlag r OR 7"
proof -
  have flags: "rq_parserParamFlag (initParam r) = rq_parserParamFlag r OR 7"
  proof -
    let ?f = "rq_parserParamFlag r"
    have step: "(if f AND w \<noteq> 0 then f else f OR w) = f OR w" if "\<And>n. bit w n \<longleftrightarrow> n = i" for f w :: u8 and i
    proof (cases "bit f i")
      case True
      then have "f OR w = f" by (intro bit_eqI) (auto simp: bit_or_iff that)
      then show ?thesis by simp
    next
      case False
      then have "f AND w = 0" by (intro bit_eqI) (auto simp: bit_and_iff that)
      then show ?thesis by simp
    qed
    have bits: "bit (1 :: u8) n \<longleftrightarrow> n = 0" "bit (2 :: u8) n \<longleftrightarrow> n = 1" "bit (4 :: u8) n \<longleftrightarrow> n = 2" for n
      using bit_exp_iff [of 1 n, where 'a = u8] bit_exp_iff [of 2 n, where 'a = u8] by (auto simp: bit_1_iff)
    have "rq_parserParamFlag (initParam r) = ((?f OR 1) OR 2) OR 4"
      by (simp add: initParam_def initQueryParam_def initBodyParam_def initCookies_def Let_def
          step [OF bits(1)] step [OF bits(2)] step [OF bits(3)] if_distrib [of rq_parserParamFlag] cong: if_cong)
    then show ?thesis by (simp add: or.assoc)
  qed
  then show ?thesis
    by (simp add: rq_getParam_def rq_getCookie_def rq_hasParam_def initParam_def initQueryParam_def initBodyParam_def initCookies_def Let_def)
qed

end
