(* ===== verification/Socket_Stream.thy ===== *)
theory Socket_Stream
  imports C_Strings
begin

text \<open>
  Streams (\<open>stream.h\<close>, \<open>stream.cc\<close>) and streams over sockets (\<open>streams/socket_stream.cc\<close>). The loops of \<open>Stream\<close>
  call the virtual \<open>read\<close> and \<open>write\<close> and are functions of them; the locale states what they need of a
  stream, and the socket stream provides it. The peer and the kernel are part of the state of a
  socket stream: the bytes that arrive and how many each call transfers.
\<close>

section \<open>Transferring a fixed number of bytes\<close>

text \<open>
  The loop of \<open>readFixSize\<close>: the result of the call that ended it, or nothing when all is read, with
  the bytes stored in the buffer so far.
\<close>

function fix_read_loop :: "(nat \<Rightarrow> 's \<Rightarrow> (int \<times> 'b list) \<times> 's) \<Rightarrow> int \<Rightarrow> 's \<Rightarrow> (int option \<times> 'b list) \<times> 's" where
  "fix_read_loop rd left s =
     (if left \<le> 0 then ((None, []), s)
      else case rd (nat left) s of ((len, bs), s') \<Rightarrow>
        if len \<le> 0 then ((Some len, []), s')
        else case fix_read_loop rd (left - len) s' of ((r, cs), s'') \<Rightarrow> ((r, take (nat len) bs @ cs), s''))"
  by pat_completeness auto
termination by (relation "measure (\<lambda>(rd, left, s). nat left)") auto

declare fix_read_loop.simps [simp del]

definition readFixSize :: "(nat \<Rightarrow> 's \<Rightarrow> (int \<times> 'b list) \<times> 's) \<Rightarrow> nat \<Rightarrow> 's \<Rightarrow> (int \<times> 'b list) \<times> 's" where
  "readFixSize rd len s =
     (case fix_read_loop rd (c_int64 (int len)) s of
        ((None, bs), s') \<Rightarrow> ((c_int (int len), bs), s')
      | ((Some e, bs), s') \<Rightarrow> ((c_int e, bs), s'))"

text \<open>The loop of \<open>writeFixSize\<close>, on the bytes that are left.\<close>

function fix_write_loop :: "('b list \<Rightarrow> 's \<Rightarrow> int \<times> 's) \<Rightarrow> 'b list \<Rightarrow> 's \<Rightarrow> int option \<times> 's" where
  "fix_write_loop wr bs s =
     (if bs = [] then (None, s)
      else case wr bs s of (len, s') \<Rightarrow>
        if len \<le> 0 then (Some len, s') else fix_write_loop wr (drop (nat len) bs) s')"
  by pat_completeness auto
termination by (relation "measure (\<lambda>(wr, bs, s). length bs)") (auto simp: diff_less)

declare fix_write_loop.simps [simp del]

definition writeFixSize :: "('b list \<Rightarrow> 's \<Rightarrow> int \<times> 's) \<Rightarrow> 'b list \<Rightarrow> 's \<Rightarrow> int \<times> 's" where
  "writeFixSize wr bs s =
     (case fix_write_loop wr bs s of (None, s') \<Rightarrow> (c_int (int (length bs)), s') | (Some e, s') \<Rightarrow> (c_int e, s'))"

section \<open>Streams over sockets\<close>

text \<open>
  \<open>ss_sock\<close>: the stream has a socket. \<open>ss_in\<close> are the bytes still to arrive, \<open>ss_out\<close> those sent. The
  plans hold the answers of the kernel: the most a call transfers, or zero or a negative number when
  it ends or fails with -1; an exhausted plan is the end of the connection.
\<close>

record 'b sock_stream =
  ss_sock :: bool
  ss_connected :: bool
  ss_owner :: bool
  ss_in :: "'b list"
  ss_rplan :: "int list"
  ss_out :: "'b list"
  ss_wplan :: "int list"

definition ss_isConnected :: "'b sock_stream \<Rightarrow> bool" where
  "ss_isConnected s = (ss_sock s \<and> ss_connected s)"

definition SocketStream :: "bool \<Rightarrow> bool \<Rightarrow> 'b list \<Rightarrow> int list \<Rightarrow> int list \<Rightarrow> 'b sock_stream" where
  "SocketStream connected owner inp rplan wplan =
     \<lparr>ss_sock = True, ss_connected = connected, ss_owner = owner, ss_in = inp, ss_rplan = rplan, ss_out = [], ss_wplan = wplan\<rparr>"

text \<open>The original \<open>recv\<close> and \<open>send\<close> on a connected socket.\<close>

definition sock_recv :: "nat \<Rightarrow> 'b sock_stream \<Rightarrow> (int \<times> 'b list) \<times> 'b sock_stream" where
  "sock_recv len s =
     (case ss_rplan s of [] \<Rightarrow> ((0, []), s)
      | k # ks \<Rightarrow>
        if k \<le> 0 then ((if k = 0 then 0 else - 1, []), s\<lparr>ss_rplan := ks\<rparr>)
        else let n = min (min (nat k) len) (length (ss_in s)) in
             ((int n, take n (ss_in s)), s\<lparr>ss_rplan := ks, ss_in := drop n (ss_in s)\<rparr>))"

definition sock_send :: "'b list \<Rightarrow> 'b sock_stream \<Rightarrow> int \<times> 'b sock_stream" where
  "sock_send bs s =
     (case ss_wplan s of [] \<Rightarrow> (- 1, s)
      | k # ks \<Rightarrow>
        if k \<le> 0 then (if k = 0 then 0 else - 1, s\<lparr>ss_wplan := ks\<rparr>)
        else let n = min (nat k) (length bs) in (int n, s\<lparr>ss_wplan := ks, ss_out := ss_out s @ take n bs\<rparr>))"

definition ss_read :: "nat \<Rightarrow> 'b sock_stream \<Rightarrow> (int \<times> 'b list) \<times> 'b sock_stream" where
  "ss_read len s = (if \<not> ss_isConnected s then ((- 1, []), s) else sock_recv len s)"

definition ss_write :: "'b list \<Rightarrow> 'b sock_stream \<Rightarrow> int \<times> 'b sock_stream" where
  "ss_write bs s = (if \<not> ss_isConnected s then (- 1, s) else sock_send bs s)"

definition ss_close :: "'b sock_stream \<Rightarrow> 'b sock_stream" where
  "ss_close s = (if ss_sock s then s\<lparr>ss_connected := False\<rparr> else s)"

definition ss_destroy :: "'b sock_stream \<Rightarrow> 'b sock_stream" where
  "ss_destroy s = (if ss_owner s \<and> ss_sock s then s\<lparr>ss_connected := False\<rparr> else s)"

section \<open>What the loops need of a stream\<close>

locale byte_stream =
  fixes rd :: "nat \<Rightarrow> 's \<Rightarrow> (int \<times> 'b list) \<times> 's"
    and wr :: "'b list \<Rightarrow> 's \<Rightarrow> int \<times> 's"
    and pending :: "'s \<Rightarrow> 'b list"
    and sent :: "'s \<Rightarrow> 'b list"
  assumes rd_law: "rd n s = ((len, bs), s') \<Longrightarrow>
      - 1 \<le> len \<and> pending s = bs @ pending s' \<and> sent s' = sent s \<and> (0 < len \<longrightarrow> int (length bs) = len \<and> length bs \<le> n) \<and> (len \<le> 0 \<longrightarrow> bs = [])"
    and wr_law: "wr bs s = (len, s') \<Longrightarrow>
      - 1 \<le> len \<and> pending s' = pending s \<and> (0 < len \<longrightarrow> nat len \<le> length bs \<and> sent s' = sent s @ take (nat len) bs)
        \<and> (len \<le> 0 \<longrightarrow> sent s' = sent s)"
begin

lemma stream_read_spec:
  assumes "fix_read_loop rd left s = ((r, bs), s')"
  shows "pending s = bs @ pending s' \<and> sent s' = sent s
    \<and> (r = None \<longrightarrow> int (length bs) = max left 0) \<and> (\<forall>e. r = Some e \<longrightarrow> e \<in> {- 1, 0} \<and> int (length bs) < left)"
  using assms
proof (induction "nat left" arbitrary: left s r bs s' rule: less_induct)
  case less
  show ?case
  proof (cases "left \<le> 0")
    case True
    then show ?thesis using less.prems by (subst (asm) fix_read_loop.simps) simp
  next
    case False
    obtain len xs s1 where rd: "rd (nat left) s = ((len, xs), s1)" by (metis prod.exhaust)
    note l = rd_law [OF rd]
    show ?thesis
    proof (cases "len \<le> 0")
      case True
      then show ?thesis using less.prems False rd l by (subst (asm) fix_read_loop.simps) auto
    next
      case pos: False
      obtain r1 cs s2 where rest: "fix_read_loop rd (left - len) s1 = ((r1, cs), s2)" by (metis prod.exhaust)
      have eq: "r = r1" "bs = take (nat len) xs @ cs" "s' = s2"
        using less.prems False pos rd rest by (auto simp: fix_read_loop.simps [of rd left s])
      have "nat (left - len) < nat left" using pos False by simp
      from less.hyps [OF this rest] l pos eq False show ?thesis by auto
    qed
  qed
qed

lemma stream_write_spec:
  assumes "fix_write_loop wr bs s = (r, s')"
  shows "\<exists>n \<le> length bs. pending s' = pending s \<and> sent s' = sent s @ take n bs
    \<and> (r = None \<longrightarrow> n = length bs) \<and> (\<forall>e. r = Some e \<longrightarrow> e \<in> {- 1, 0} \<and> n < length bs)"
  using assms
proof (induction "length bs" arbitrary: bs s r s' rule: less_induct)
  case less
  show ?case
  proof (cases "bs = []")
    case True
    then show ?thesis using less.prems by (subst (asm) fix_write_loop.simps) simp
  next
    case False
    obtain len s1 where wr: "wr bs s = (len, s1)" by fastforce
    note l = wr_law [OF wr]
    show ?thesis
    proof (cases "len \<le> 0")
      case True
      then have "r = Some len" "s' = s1" using less.prems False wr by (auto simp: fix_write_loop.simps [of wr bs s])
      moreover have "len \<in> {- 1, 0}" using True l by (cases "len = 0") auto
      ultimately show ?thesis using True l False by (intro exI [of _ 0]) auto
    next
      case pos: False
      have rest: "fix_write_loop wr (drop (nat len) bs) s1 = (r, s')"
        using less.prems False pos wr by (simp add: fix_write_loop.simps [of wr bs s])
      have "length (drop (nat len) bs) < length bs" using pos False by simp
      from less.hyps [OF this rest] obtain n where n: "n \<le> length (drop (nat len) bs)" "pending s' = pending s1"
        "sent s' = sent s1 @ take n (drop (nat len) bs)" "r = None \<longrightarrow> n = length (drop (nat len) bs)"
        "\<forall>e. r = Some e \<longrightarrow> e \<in> {- 1, 0} \<and> n < length (drop (nat len) bs)" by blast
      have le: "nat len \<le> length bs" using l pos by simp
      then have "sent s' = sent s @ take (nat len + n) bs" using n(3) l pos by (simp add: take_add)
      then show ?thesis using n l pos le by (intro exI [of _ "nat len + n"]) auto
    qed
  qed
qed

end

section \<open>The socket stream is one\<close>

interpretation sock: byte_stream ss_read ss_write ss_in ss_out
proof
  fix n and s s' :: "'a sock_stream" and len :: int and bs
  assume "ss_read n s = ((len, bs), s')"
  then show "- 1 \<le> len \<and> ss_in s = bs @ ss_in s' \<and> ss_out s' = ss_out s \<and> (0 < len \<longrightarrow> int (length bs) = len \<and> length bs \<le> n) \<and> (len \<le> 0 \<longrightarrow> bs = [])"
    by (auto simp: ss_read_def sock_recv_def Let_def split: if_splits list.splits)
next
  fix bs and s s' :: "'a sock_stream" and len :: int
  assume "ss_write bs s = (len, s')"
  then show "- 1 \<le> len \<and> ss_in s' = ss_in s \<and> (0 < len \<longrightarrow> nat len \<le> length bs \<and> ss_out s' = ss_out s @ take (nat len) bs)
      \<and> (len \<le> 0 \<longrightarrow> ss_out s' = ss_out s)"
    by (auto simp: ss_write_def sock_send_def Let_def split: if_splits list.splits)
qed

section \<open>Properties\<close>

text \<open>
  C22: the fixed-size transfers over a socket, for any way the kernel splits the calls: they end; what
  was read is exactly the next bytes that arrived and what was written exactly the next bytes sent,
  in order and without loss; the result is the length when all was transferred, and 0 or -1, the
  result of the call that ended it, when only a proper prefix was. A complete read of \<open>2 ^ 31\<close> bytes
  or more (below \<open>2 ^ 32\<close>) returns a negative number, like a failure.
\<close>

theorem fixed_size_transfer:
  assumes "readFixSize ss_read n s = ((r, bs), s')" and "n < 2 ^ 32" and "writeFixSize ss_write ws s = (q, t)" and "length ws < 2 ^ 31"
  shows "ss_in s = bs @ ss_in s' \<and> (length bs = n \<and> r = c_int (int n) \<or> length bs < n \<and> r \<in> {- 1, 0})
    \<and> (2 ^ 31 \<le> n \<longrightarrow> r \<le> 0)
    \<and> (\<exists>k \<le> length ws. ss_out t = ss_out s @ take k ws \<and> (k = length ws \<and> q = int k \<or> k < length ws \<and> q \<in> {- 1, 0}))"
proof -
  have n64: "c_int64 (int n) = int n" using c_int64_id [of "int n"] assms(2) by simp
  obtain x where rl: "fix_read_loop ss_read (int n) s = ((x, bs), s')" and r: "r = c_int (case x of None \<Rightarrow> int n | Some e \<Rightarrow> e)"
    using assms(1) by (auto simp: readFixSize_def n64 split: prod.splits option.splits)
  note rs = sock.stream_read_spec [OF rl]
  have rd: "length bs = n \<and> r = c_int (int n) \<or> length bs < n \<and> r \<in> {- 1, 0}"
    using rs r c_int_small by (cases x) auto
  have neg: "r \<le> 0" if "2 ^ 31 \<le> n"
    using rd c_int_high [of "int n"] that assms(2) by auto
  obtain y where wl: "fix_write_loop ss_write ws s = (y, t)" and q: "q = c_int (case y of None \<Rightarrow> int (length ws) | Some e \<Rightarrow> e)"
    using assms(3) by (auto simp: writeFixSize_def split: prod.splits option.splits)
  from sock.stream_write_spec [OF wl] obtain k where k: "k \<le> length ws" "ss_out t = ss_out s @ take k ws"
    "y = None \<longrightarrow> k = length ws" "\<forall>e. y = Some e \<longrightarrow> e \<in> {- 1, 0} \<and> k < length ws" by blast
  have "k = length ws \<and> q = int k \<or> k < length ws \<and> q \<in> {- 1, 0}"
    using k(3,4) q c_int_small c_int_id [of "int (length ws)"] assms(4) by (cases y) auto
  then show ?thesis using rs rd neg k(1,2) by blast
qed

theorem fixed_size_transfer_witness:
  "let s = SocketStream True True [1, 2, 3, 4 :: nat] [1, 5] [2, 9]; (r, s') = readFixSize ss_read 3 s in
   ss_in s = snd r @ ss_in s' \<and> fst r \<in> {- 1, 0, 3}"
proof -
  let ?s = "SocketStream True True [1, 2, 3, 4 :: nat] [1, 5] [2, 9]"
  obtain r bs s' where r: "readFixSize ss_read 3 ?s = ((r, bs), s')" by (metis prod.exhaust)
  obtain q t where q: "writeFixSize ss_write [] ?s = (q, t)" by fastforce
  from fixed_size_transfer [OF r _ q] show ?thesis using r c_int_id [of 3] by auto
qed

end
