(* ===== verification/Ragel_Machine.thy ===== *)
theory Ragel_Machine
  imports C_Strings
begin

text \<open>
  The code Ragel generates for a machine, as it stands in \<open>http/http11_parser.rl.cc\<close> and
  \<open>http/httpclient_parser.rl.cc\<close> (the files the build compiles): a \<open>switch\<close> over the states whose cases test the current character and jump to a
  label, either a state or a block of actions that ends in a jump to a state. A machine is the list of
  its blocks, in the order of the file; running it is shared by the machines.
\<close>

datatype jump = St int | Tr int

text \<open>
  \<open>Case n wide rows default\<close>: the tests of state \<open>n\<close>, each a range of characters and the label it jumps to,
  first match; \<open>wide\<close> says that the character is widened by the condition of the grammar first.
  \<open>Block n actions m\<close>: the label \<open>trn\<close>, its actions and the state it continues with.
\<close>

datatype 'a block = Case int bool "(int \<times> int \<times> jump) list" jump | Block int "'a list" int

text \<open>\<open>char\<close> is signed.\<close>

definition schar :: "char \<Rightarrow> int" where
  "schar c = (if code c < 128 then code c else code c - 256)"

primrec row_jump :: "(int \<times> int \<times> jump) list \<Rightarrow> jump \<Rightarrow> int \<Rightarrow> jump" where
  "row_jump [] d x = d"
| "row_jump (r # rs) d x = (case r of (lo, hi, j) \<Rightarrow> if lo \<le> x \<and> x \<le> hi then j else row_jump rs d x)"

fun find_case :: "'a block list \<Rightarrow> int \<Rightarrow> (bool \<times> (int \<times> int \<times> jump) list \<times> jump) option" where
  "find_case [] n = None"
| "find_case (Case k w rows d # bs) n = (if k = n then Some (w, rows, d) else find_case bs n)"
| "find_case (Block k as m # bs) n = find_case bs n"

fun find_block :: "'a block list \<Rightarrow> int \<Rightarrow> ('a list \<times> int) option" where
  "find_block [] n = None"
| "find_block (Case k w rows d # bs) n = find_block bs n"
| "find_block (Block k as m # bs) n = (if k = n then Some (as, m) else find_block bs n)"

definition follow :: "'a block list \<Rightarrow> jump \<Rightarrow> int \<times> 'a list" where
  "follow bs j =
     (case j of St n \<Rightarrow> (n, [])
      | Tr n \<Rightarrow> (case find_block bs n of Some (as, m) \<Rightarrow> (m, as) | None \<Rightarrow> (0, [])))"

text \<open>The state after a character and the actions on the way; \<open>widec\<close> widens the character in wide states.\<close>

definition machine_step :: "'a block list \<Rightarrow> (int \<Rightarrow> int) \<Rightarrow> int \<Rightarrow> char \<Rightarrow> int \<times> 'a list" where
  "machine_step bs widec cs c =
     (case find_case bs cs of None \<Rightarrow> (0, [])
      | Some (w, rows, d) \<Rightarrow> follow bs (row_jump rows d (if w then widec (schar c) else schar c)))"

text \<open>
  The run from position \<open>p\<close>: it ends at the end of the buffer, in the error state 0 (which does not consume
  the character), and behind the character of an action that breaks out (\<open>fbreak\<close>).
\<close>

fun run :: "(nat \<Rightarrow> 'a \<Rightarrow> 's \<Rightarrow> 's) \<Rightarrow> ('a \<Rightarrow> bool) \<Rightarrow> (int \<Rightarrow> char \<Rightarrow> int \<times> 'a list) \<Rightarrow> int \<Rightarrow> nat \<Rightarrow> string \<Rightarrow> 's \<Rightarrow> int \<times> nat \<times> 's" where
  "run act breaks step cs p [] st = (cs, p, st)"
| "run act breaks step cs p (c # rest) st =
     (case step cs c of (cs', acts) \<Rightarrow>
        if cs' = 0 then (0, p, st)
        else let st' = fold (act p) acts st in
          if list_ex breaks acts then (cs', p + 1, st') else run act breaks step cs' (p + 1) rest st')"

section \<open>Facts about runs\<close>

text \<open>The states a text goes through without an error and without breaking out.\<close>

fun goes :: "('a \<Rightarrow> bool) \<Rightarrow> (int \<Rightarrow> char \<Rightarrow> int \<times> 'a list) \<Rightarrow> int \<Rightarrow> string \<Rightarrow> int option" where
  "goes breaks step cs [] = Some cs"
| "goes breaks step cs (c # rest) =
     (case step cs c of (cs', acts) \<Rightarrow> if cs' = 0 \<or> list_ex breaks acts then None else goes breaks step cs' rest)"

lemma run_bound: "run act breaks step cs p s st = (cs', q, st') \<Longrightarrow> p \<le> q \<and> q \<le> p + length s"
  by (induction s arbitrary: cs p st) (force simp: Let_def split: if_splits prod.splits)+

text \<open>What a run consumes and the state it ends in do not depend on what the actions do.\<close>

lemma run_control:
  "run act breaks step cs p s st = (cs', q, st') \<Longrightarrow> run act2 breaks step cs p2 s st2 = (cs2, q2, st2')
   \<Longrightarrow> cs' = cs2 \<and> q + p2 = q2 + p"
proof (induction s arbitrary: cs p p2 st st2)
  case (Cons c s)
  obtain m as where step: "step cs c = (m, as)" by fastforce
  show ?case
  proof (cases "m = 0 \<or> list_ex breaks as")
    case True
    then show ?thesis using Cons.prems step by (auto simp: Let_def split: if_splits)
  next
    case False
    then have "cs' = cs2 \<and> q + (p2 + 1) = q2 + (p + 1)" using Cons.prems step by (intro Cons.IH) (auto simp: Let_def)
    then show ?thesis by simp
  qed
qed simp

lemma run_append:
  assumes "goes breaks step cs a = Some m"
  shows "run act breaks step cs p (a @ b) st =
    (case run act breaks step cs p a st of (_, q, st') \<Rightarrow> run act breaks step m q b st')"
  using assms by (induction a arbitrary: cs p st) (auto simp: Let_def split: prod.splits if_splits)

lemma run_goes:
  assumes "goes breaks step cs a = Some m"
  shows "run act breaks step cs p a st = (m, p + length a, snd (snd (run act breaks step cs p a st)))"
  using assms
proof (induction a arbitrary: cs p st)
  case (Cons c a)
  obtain m1 as where step: "step cs c = (m1, as)" by fastforce
  with Cons.prems have "goes breaks step m1 a = Some m" by (auto split: if_splits)
  from Cons.IH [OF this, of "p + 1" "fold (act p) as st"] Cons.prems step show ?case
    by (auto simp: Let_def split: if_splits)
qed simp

text \<open>Either a run gets through all of its text, or nothing that follows the text matters.\<close>

lemma run_stops:
  assumes "goes breaks step cs a = None"
  shows "run act breaks step cs p (a @ b) st = run act breaks step cs p a st"
  using assms by (induction a arbitrary: cs p st) (auto simp: Let_def split: prod.splits if_splits)

text \<open>A state that loops on a class of characters without actions.\<close>

lemma run_loop:
  assumes "\<And>c. c \<in> set s \<Longrightarrow> step cs c = (cs, [])" and "cs \<noteq> 0"
  shows "run act breaks step cs p (s @ rest) st = run act breaks step cs (p + length s) rest st"
  using assms(1) by (induction s arbitrary: p) (use assms(2) in auto)

section \<open>Facts about machines\<close>

lemma follow_St [simp]: "follow bs (St n) = (n, [])"
  by (simp add: follow_def)

text \<open>Only the blocks of actions, or only some states, so that they are looked up in a short list.\<close>

primrec is_Block :: "'a block \<Rightarrow> bool" where
  "is_Block (Case n w rows d) = False"
| "is_Block (Block k as m) = True"

lemma follow_filter: "follow (filter is_Block bs) j = follow bs j"
proof -
  have "find_block (filter is_Block bs) n = find_block bs n" for n
    by (induction bs n rule: find_block.induct) auto
  then show ?thesis by (cases j) (simp_all add: follow_def)
qed

primrec in_states :: "int list \<Rightarrow> 'a block \<Rightarrow> bool" where
  "in_states S (Case n w rows d) = List.member S n"
| "in_states S (Block k as m) = False"

lemma find_case_filter: "find_case (filter (in_states S) bs) n = (if n \<in> set S then find_case bs n else None)"
proof (induction bs)
  case (Cons b bs)
  then show ?case by (cases b) auto
qed simp

lemma find_case_member: "find_case bs n = Some (w, rows, d) \<Longrightarrow> Case n w rows d \<in> set bs"
  by (induction bs n rule: find_case.induct) (auto split: if_splits)

lemma row_jump_member: "row_jump rows d x \<in> insert d ((\<lambda>r. snd (snd r)) ` set rows)"
  by (induction rows) (auto simp: case_prod_unfold)

text \<open>A property of the jumps in the list holds of every step.\<close>

lemma machine_step_jump:
  assumes "machine_step bs widec n c = (m, as)" and "m \<noteq> 0"
  shows "\<exists>w rows d j. Case n w rows d \<in> set bs \<and> j \<in> insert d ((\<lambda>r. snd (snd r)) ` set rows) \<and> follow bs j = (m, as)"
proof -
  obtain w rows d where f: "find_case bs n = Some (w, rows, d)"
    using assms by (auto simp: machine_step_def split: option.splits)
  then have "follow bs (row_jump rows d (if w then widec (schar c) else schar c)) = (m, as)"
    using assms(1) by (simp add: machine_step_def)
  with find_case_member [OF f] row_jump_member [of rows d] show ?thesis by metis
qed

section \<open>Jumps on classes of characters\<close>

text \<open>A class of codes and the label a state jumps to on them; many at once, so that a machine is evaluated once.\<close>

definition class_jump :: "'a block list \<Rightarrow> (int \<Rightarrow> int) \<Rightarrow> int \<Rightarrow> int list \<Rightarrow> jump \<Rightarrow> bool" where
  "class_jump bs widec n codes j =
     (case find_case bs n of None \<Rightarrow> False
      | Some (w, rows, d) \<Rightarrow> list_all (\<lambda>x. row_jump rows d (if w then widec x else x) = j) codes)"

lemma class_step:
  "class_jump (filter (in_states S) bs) widec n codes j \<Longrightarrow> schar c \<in> set codes \<Longrightarrow> machine_step bs widec n c = follow bs j"
  by (auto simp: class_jump_def machine_step_def list_all_iff find_case_filter split: option.splits if_splits)

definition class_jumps :: "'a block list \<Rightarrow> (int \<Rightarrow> int) \<Rightarrow> (int \<times> int list \<times> jump) list \<Rightarrow> bool" where
  "class_jumps bs widec l = list_all (\<lambda>(n, codes, j). class_jump bs widec n codes j) l"

lemma class_jumps_step:
  "class_jumps (filter (in_states S) bs) widec l
   \<Longrightarrow> list_all (\<lambda>(n, codes, j). \<forall>c. schar c \<in> set codes \<longrightarrow> machine_step bs widec n c = follow bs j) l"
  by (auto simp: class_jumps_def list_all_iff class_step)

definition follows :: "'a block list \<Rightarrow> (int \<times> int \<times> 'a list) list \<Rightarrow> bool" where
  "follows bs l = list_all (\<lambda>(k, t). follow bs (Tr k) = t) l"

section \<open>Classes of states\<close>

text \<open>All states of \<open>S\<close> go to states of \<open>T\<close> on these codes, with one of the listed sequences of actions.\<close>

definition class_goes :: "'a block list \<Rightarrow> 'a block list \<Rightarrow> int list \<Rightarrow> int list \<Rightarrow> int list \<Rightarrow> 'a list list \<Rightarrow> bool" where
  "class_goes cases blocks S codes T acts =
     list_all (\<lambda>n. case find_case cases n of None \<Rightarrow> False
       | Some (w, rows, d) \<Rightarrow> list_all (\<lambda>x. case follow blocks (row_jump rows d x) of (m, as) \<Rightarrow> List.member T m \<and> List.member acts as) codes) S"

lemma class_goes_step:
  assumes "class_goes (filter (in_states S') bs) (filter is_Block bs) S codes T acts" and "n \<in> set S" and "schar c \<in> set codes"
  shows "\<exists>m as. machine_step bs (\<lambda>x. x) n c = (m, as) \<and> m \<in> set T \<and> as \<in> set acts"
proof -
  obtain w rows d where f: "find_case (filter (in_states S') bs) n = Some (w, rows, d)"
    and j: "list_all (\<lambda>x. case follow (filter is_Block bs) (row_jump rows d x) of (m, as) \<Rightarrow> List.member T m \<and> List.member acts as) codes"
    using assms(1,2) by (auto simp: class_goes_def list_all_iff split: option.splits)
  have "find_case bs n = Some (w, rows, d)" using f by (simp add: find_case_filter split: if_splits)
  then have "machine_step bs (\<lambda>x. x) n c = follow bs (row_jump rows d (schar c))" by (simp add: machine_step_def)
  then show ?thesis using j assms(3) by (cases "machine_step bs (\<lambda>x. x) n c") (auto simp: list_all_iff follow_filter)
qed

text \<open>The same by rows, for states whose default is such a jump: a row either is one or lies outside the codes.\<close>

definition good_jump :: "'a block list \<Rightarrow> int list \<Rightarrow> 'a list list \<Rightarrow> jump \<Rightarrow> bool" where
  "good_jump blocks T acts j = (case follow blocks j of (m, as) \<Rightarrow> List.member T m \<and> List.member acts as)"

definition class_rows :: "'a block list \<Rightarrow> 'a block list \<Rightarrow> int list \<Rightarrow> (int \<times> int) list \<Rightarrow> int list \<Rightarrow> 'a list list \<Rightarrow> bool" where
  "class_rows cases blocks S ranges T acts =
     list_all (\<lambda>n. case find_case cases n of None \<Rightarrow> False
       | Some (w, rows, d) \<Rightarrow> good_jump blocks T acts d
           \<and> list_all (\<lambda>(lo, hi, j). list_all (\<lambda>(a, b). hi < a \<or> b < lo) ranges \<or> good_jump blocks T acts j) rows) S"

definition in_ranges :: "(int \<times> int) list \<Rightarrow> int \<Rightarrow> bool" where
  "in_ranges ranges x \<longleftrightarrow> list_ex (\<lambda>(a, b). a \<le> x \<and> x \<le> b) ranges"

lemma class_rows_step:
  assumes "class_rows (filter (in_states S') bs) (filter is_Block bs) S ranges T acts" and "n \<in> set S" and "in_ranges ranges (schar c)"
  shows "\<exists>m as. machine_step bs (\<lambda>x. x) n c = (m, as) \<and> m \<in> set T \<and> as \<in> set acts"
proof -
  let ?good = "good_jump (filter is_Block bs) T acts"
  obtain w rows d where f: "find_case (filter (in_states S') bs) n = Some (w, rows, d)"
    and j: "?good d" "\<forall>(lo, hi, j) \<in> set rows. list_all (\<lambda>(a, b). hi < a \<or> b < lo) ranges \<or> ?good j"
    using assms(1,2) by (auto simp: class_rows_def list_all_iff split: option.splits)
  have "find_case bs n = Some (w, rows, d)" using f by (simp add: find_case_filter split: if_splits)
  then have step: "machine_step bs (\<lambda>x. x) n c = follow bs (row_jump rows d (schar c))" by (simp add: machine_step_def)
  have "?good (row_jump rows d (schar c))" using j
  proof (induction rows)
    case (Cons r rows)
    obtain lo hi j where r: "r = (lo, hi, j)" by (metis prod.exhaust)
    have "?good j" if "lo \<le> schar c" "schar c \<le> hi"
      using that Cons.prems(2) assms(3) r by (fastforce simp: in_ranges_def list_ex_iff list_all_iff)
    then show ?case using Cons r by simp
  qed simp
  then show ?thesis using step by (cases "machine_step bs (\<lambda>x. x) n c") (auto simp: good_jump_def follow_filter)
qed

text \<open>A class of states that a class of characters does not leave, without actions.\<close>

lemma run_class_loop:
  assumes "\<forall>n \<in> S. \<forall>c \<in> set s. \<exists>m. step n c = (m, []) \<and> m \<in> S" and "0 \<notin> S" and "n \<in> S"
  shows "\<exists>m \<in> S. run act breaks step n p (s @ rest) st = run act breaks step m (p + length s) rest st"
  using assms(1,3)
proof (induction s arbitrary: n p)
  case (Cons c s)
  obtain m where m: "step n c = (m, [])" "m \<in> S" using Cons.prems by auto
  then have "m \<noteq> 0" using assms(2) by metis
  moreover obtain m' where "m' \<in> S" "run act breaks step m (p + 1) (s @ rest) st = run act breaks step m' (p + 1 + length s) rest st"
    using Cons.IH [of m "p + 1"] Cons.prems(1) m(2) by fastforce
  ultimately show ?case using m by (intro bexI [of _ m']) auto
qed auto

end
