(* ===== verification/Http11_Table.thy ===== *)
theory Http11_Table
  imports Ragel_Machine
begin

text \<open>
  The state machine of requests, block by block as in \<open>http/http11_parser.rl.cc\<close>. Consecutive cases that jump to the
  same label are ranges; the actions are those of \<open>http/http11_parser.rl\<close>.
\<close>


datatype rq_action =
    Mark | Start_field | Write_field | Start_value | Write_value | Request_method | Request_uri | Fragment
  | Start_query | Query_string | Http_version | Request_path | Done | Xml | Json

definition h11_1 :: "rq_action block list" where
  "h11_1 = [
     Case 1 False [(60, 60, Tr 2), (64, 64, Tr 3), (48, 57, Tr 0), (65, 90, Tr 0)] (St 0),
     Block 0 [Mark] 2,
     Case 2 False [(32, 32, Tr 4), (48, 57, St 175), (65, 90, St 175)] (St 0),
     Block 4 [Request_method] 3,
     Case 3 True [(32, 32, Tr 6), (33, 33, Tr 7), (35, 35, Tr 8), (37, 37, Tr 9), (47, 47, Tr 10), (59, 59, Tr 7),
       (61, 61, Tr 7), (63, 63, Tr 11), (64, 64, Tr 7), (95, 95, Tr 7), (126, 126, Tr 7), (606, 606, Tr 7),
       (635, 635, Tr 7), (637, 637, Tr 7), (36, 57, Tr 7), (65, 90, Tr 12), (97, 122, Tr 12)] (St 0),
     Block 6 [Mark, Request_path, Request_uri] 4,
     Block 37 [Request_path, Request_uri] 4,
     Block 44 [Mark, Fragment] 4,
     Block 47 [Fragment] 4,
     Block 54 [Start_query, Query_string, Request_uri] 4]"

definition h11_2 :: "rq_action block list" where
  "h11_2 = [
     Block 58 [Query_string, Request_uri] 4,
     Case 4 False [(72, 72, Tr 13)] (St 0),
     Block 13 [Mark] 5,
     Case 5 False [(84, 84, St 6)] (St 0),
     Case 6 False [(84, 84, St 7)] (St 0),
     Case 7 False [(80, 80, St 8)] (St 0),
     Case 8 False [(47, 47, St 9)] (St 0),
     Case 9 False [(49, 49, St 10)] (St 0),
     Case 10 False [(46, 46, St 11)] (St 0),
     Case 11 False [(48, 49, St 12)] (St 0),
     Case 12 False [(10, 10, Tr 21), (13, 13, Tr 22)] (St 0),
     Block 21 [Http_version] 13,
     Block 30 [Start_value, Write_value] 13,
     Block 33 [Write_value] 13,
     Case 13 False [(10, 10, Tr 24), (13, 13, Tr 25), (33, 33, Tr 23), (124, 124, Tr 23), (126, 126, Tr 23),
       (1, 8, Tr 23), (11, 31, Tr 23), (35, 39, Tr 23), (42, 43, Tr 23), (45, 46, Tr 23), (48, 57, Tr 23),
       (65, 90, Tr 23), (94, 122, Tr 23)] (St 0),
     Block 23 [Start_field] 14]"

definition h11_3 :: "rq_action block list" where
  "h11_3 = [
     Case 14 False [(33, 33, St 14), (58, 58, Tr 27), (124, 124, St 14), (126, 126, St 14), (1, 8, St 14),
       (10, 31, St 14), (35, 39, St 14), (42, 43, St 14), (45, 46, St 14), (48, 57, St 14), (65, 90, St 14),
       (94, 122, St 14)] (St 0),
     Block 27 [Write_field] 15,
     Block 29 [Start_value] 15,
     Case 15 False [(0, 0, St 0), (9, 9, Tr 29), (10, 10, Tr 30), (13, 13, Tr 31), (32, 32, Tr 29),
       (127, 127, St 0)] (Tr 28),
     Block 28 [Start_value] 16,
     Case 16 False [(0, 0, St 0), (10, 10, Tr 33), (13, 13, Tr 34), (127, 127, St 0)] (St 16),
     Block 22 [Http_version] 17,
     Block 31 [Start_value, Write_value] 17,
     Block 34 [Write_value] 17,
     Case 17 False [(10, 10, St 13)] (St 0),
     Block 24 [Start_field, Done] 348,
     Block 36 [Done] 348]"

definition h11_4 :: "rq_action block list" where
  "h11_4 = [
     Case 348 False [(33, 33, St 14), (58, 58, Tr 27), (124, 124, St 14), (126, 126, St 14), (1, 8, St 14),
       (10, 31, St 14), (35, 39, St 14), (42, 43, St 14), (45, 46, St 14), (48, 57, St 14), (65, 90, St 14),
       (94, 122, St 14)] (St 0),
     Block 25 [Start_field] 18,
     Case 18 False [(10, 10, Tr 36), (33, 33, St 14), (58, 58, Tr 27), (124, 124, St 14), (126, 126, St 14),
       (1, 8, St 14), (11, 31, St 14), (35, 39, St 14), (42, 43, St 14), (45, 46, St 14), (48, 57, St 14),
       (65, 90, St 14), (94, 122, St 14)] (St 0),
     Block 7 [Mark] 19,
     Case 19 True [(32, 32, Tr 37), (33, 33, St 19), (35, 35, Tr 39), (37, 37, St 24), (47, 47, St 26), (59, 59, St 19),
       (61, 61, St 19), (63, 63, Tr 42), (95, 95, St 19), (126, 126, St 19), (606, 606, St 19), (635, 635, St 19),
       (637, 637, St 19), (36, 57, St 19), (64, 90, St 19), (97, 122, St 19)] (St 0),
     Block 8 [Mark, Request_path, Request_uri] 20]"

definition h11_5 :: "rq_action block list" where
  "h11_5 = [
     Block 39 [Request_path, Request_uri] 20,
     Block 55 [Start_query, Query_string, Request_uri] 20,
     Block 59 [Query_string, Request_uri] 20,
     Case 20 True [(32, 32, Tr 44), (33, 33, Tr 43), (37, 37, Tr 45), (61, 61, Tr 43), (95, 95, Tr 43),
       (126, 126, Tr 43), (606, 606, Tr 43), (635, 635, Tr 43), (637, 637, Tr 43), (- 128, - 1, Tr 43), (36, 59, Tr 43),
       (63, 90, Tr 43), (97, 122, Tr 43)] (St 0),
     Block 43 [Mark] 21,
     Case 21 True [(32, 32, Tr 47), (33, 33, St 21), (37, 37, St 22), (61, 61, St 21), (95, 95, St 21),
       (126, 126, St 21), (606, 606, St 21), (635, 635, St 21), (637, 637, St 21), (- 128, - 1, St 21), (36, 59, St 21),
       (63, 90, St 21), (97, 122, St 21)] (St 0),
     Block 45 [Mark] 22]"

definition h11_6 :: "rq_action block list" where
  "h11_6 = [
     Case 22 False [(48, 57, St 23), (65, 70, St 23), (97, 102, St 23)] (St 0),
     Case 23 False [(48, 57, St 21), (65, 70, St 21), (97, 102, St 21)] (St 0),
     Block 9 [Mark] 24,
     Case 24 False [(48, 57, St 25), (65, 70, St 25), (97, 102, St 25)] (St 0),
     Case 25 False [(48, 57, St 19), (65, 70, St 19), (97, 102, St 19)] (St 0),
     Block 203 [Mark] 26,
     Case 26 True [(32, 32, Tr 37), (33, 33, St 26), (35, 35, Tr 39), (37, 37, St 27), (61, 61, St 26), (63, 63, Tr 42),
       (95, 95, St 26), (126, 126, St 26), (606, 606, St 26), (635, 635, St 26), (637, 637, St 26), (- 128, - 1, St 26),
       (36, 59, St 26), (64, 90, St 26), (97, 122, St 26)] (St 0),
     Block 204 [Mark] 27,
     Case 27 False [(48, 57, St 28), (65, 70, St 28), (97, 102, St 28)] (St 0),
     Case 28 False [(48, 57, St 26), (65, 70, St 26), (97, 102, St 26)] (St 0),
     Block 11 [Mark, Request_path] 29]"

definition h11_7 :: "rq_action block list" where
  "h11_7 = [
     Block 42 [Request_path] 29,
     Case 29 True [(32, 32, Tr 54), (33, 33, Tr 53), (35, 35, Tr 55), (37, 37, Tr 56), (61, 61, Tr 53), (95, 95, Tr 53),
       (126, 126, Tr 53), (606, 606, Tr 53), (635, 635, Tr 53), (637, 637, Tr 53), (- 128, - 1, Tr 53), (36, 59, Tr 53),
       (63, 90, Tr 53), (97, 122, Tr 53)] (St 0),
     Block 53 [Start_query] 30,
     Case 30 True [(32, 32, Tr 58), (33, 33, St 30), (35, 35, Tr 59), (37, 37, St 31), (61, 61, St 30), (95, 95, St 30),
       (126, 126, St 30), (606, 606, St 30), (635, 635, St 30), (637, 637, St 30), (- 128, - 1, St 30), (36, 59, St 30),
       (63, 90, St 30), (97, 122, St 30)] (St 0),
     Block 56 [Start_query] 31,
     Case 31 False [(48, 57, St 32), (65, 70, St 32), (97, 102, St 32)] (St 0),
     Case 32 False [(48, 57, St 30), (65, 70, St 30), (97, 102, St 30)] (St 0),
     Block 10 [Mark] 33]"

definition h11_8 :: "rq_action block list" where
  "h11_8 = [
     Case 33 True [(32, 32, Tr 37), (33, 33, St 26), (35, 35, Tr 39), (37, 37, St 27), (47, 47, St 34), (61, 61, St 26),
       (63, 63, Tr 42), (95, 95, St 26), (126, 126, St 26), (606, 606, St 26), (635, 635, St 26), (637, 637, St 26),
       (- 128, - 1, St 26), (36, 59, St 26), (64, 90, St 26), (97, 122, St 26)] (St 0),
     Case 34 True [(32, 32, Tr 37), (33, 33, St 35), (35, 35, Tr 39), (37, 37, St 36), (47, 47, St 26), (58, 58, St 38),
       (61, 61, St 35), (63, 63, Tr 42), (64, 64, St 42), (91, 91, St 47), (95, 95, St 35), (126, 126, St 35),
       (606, 606, St 35), (635, 635, St 35), (637, 637, St 35), (36, 59, St 35), (65, 90, St 35),
       (97, 122, St 35)] (St 0),
     Case 35 True [(32, 32, Tr 37), (33, 33, St 35), (35, 35, Tr 39), (37, 37, St 36), (47, 47, St 26), (58, 58, St 38),
       (61, 61, St 35), (63, 63, Tr 42), (64, 64, St 42), (95, 95, St 35), (126, 126, St 35), (606, 606, St 35),
       (635, 635, St 35), (637, 637, St 35), (36, 59, St 35), (65, 90, St 35), (97, 122, St 35)] (St 0)]"

definition h11_9 :: "rq_action block list" where
  "h11_9 = [
     Case 36 False [(48, 57, St 37), (65, 70, St 37), (97, 102, St 37)] (St 0),
     Case 37 False [(48, 57, St 35), (65, 70, St 35), (97, 102, St 35)] (St 0),
     Case 38 True [(32, 32, Tr 37), (33, 33, St 39), (35, 35, Tr 39), (37, 37, St 40), (47, 47, St 26), (61, 61, St 39),
       (63, 63, Tr 42), (64, 64, St 42), (95, 95, St 39), (126, 126, St 39), (606, 606, St 39), (635, 635, St 39),
       (637, 637, St 39), (36, 46, St 39), (48, 57, St 38), (58, 59, St 39), (65, 90, St 39), (97, 122, St 39)] (St 0),
     Case 39 True [(33, 33, St 39), (37, 37, St 40), (61, 61, St 39), (64, 64, St 42), (95, 95, St 39),
       (126, 126, St 39), (606, 606, St 39), (635, 635, St 39), (637, 637, St 39), (36, 46, St 39), (48, 59, St 39),
       (65, 90, St 39), (97, 122, St 39)] (St 0),
     Case 40 False [(48, 57, St 41), (65, 70, St 41), (97, 102, St 41)] (St 0)]"

definition h11_10 :: "rq_action block list" where
  "h11_10 = [
     Case 41 False [(48, 57, St 39), (65, 70, St 39), (97, 102, St 39)] (St 0),
     Case 42 True [(32, 32, Tr 37), (33, 33, St 43), (35, 35, Tr 39), (37, 37, St 44), (47, 47, St 26), (58, 58, St 46),
       (61, 61, St 43), (63, 63, Tr 42), (91, 91, St 47), (95, 95, St 43), (126, 126, St 43), (606, 606, St 43),
       (635, 635, St 43), (637, 637, St 43), (36, 59, St 43), (65, 90, St 43), (97, 122, St 43)] (St 0),
     Case 43 True [(32, 32, Tr 37), (33, 33, St 43), (35, 35, Tr 39), (37, 37, St 44), (47, 47, St 26), (58, 58, St 46),
       (61, 61, St 43), (63, 63, Tr 42), (95, 95, St 43), (126, 126, St 43), (606, 606, St 43), (635, 635, St 43),
       (637, 637, St 43), (36, 59, St 43), (65, 90, St 43), (97, 122, St 43)] (St 0),
     Case 44 False [(48, 57, St 45), (65, 70, St 45), (97, 102, St 45)] (St 0),
     Case 45 False [(48, 57, St 43), (65, 70, St 43), (97, 102, St 43)] (St 0),
     Case 46 False [(32, 32, Tr 37), (35, 35, Tr 39), (47, 47, St 26), (63, 63, Tr 42), (48, 57, St 46)] (St 0)]"

definition h11_11 :: "rq_action block list" where
  "h11_11 = [
     Case 47 False [(6, 6, St 48), (58, 58, St 167), (118, 118, St 169), (48, 57, St 91), (65, 70, St 91),
       (97, 102, St 91)] (St 0),
     Case 48 False [(48, 57, St 49), (65, 70, St 49), (97, 102, St 49)] (St 0),
     Case 49 False [(48, 57, St 50), (58, 58, St 53), (65, 70, St 50), (97, 102, St 50)] (St 0),
     Case 50 False [(48, 57, St 51), (58, 58, St 53), (65, 70, St 51), (97, 102, St 51)] (St 0),
     Case 51 False [(48, 57, St 52), (58, 58, St 53), (65, 70, St 52), (97, 102, St 52)] (St 0),
     Case 52 False [(58, 58, St 53)] (St 0),
     Case 53 False [(49, 49, St 84), (50, 50, St 87), (48, 57, St 54), (65, 70, St 90), (97, 102, St 90)] (St 0),
     Case 54 False [(46, 46, St 55), (58, 58, St 80), (48, 57, St 77), (65, 70, St 77), (97, 102, St 77)] (St 0),
     Case 55 False [(49, 49, St 72), (50, 50, St 74), (48, 57, St 56)] (St 0),
     Case 56 False [(46, 46, St 57)] (St 0),
     Case 57 False [(49, 49, St 67), (50, 50, St 69), (48, 57, St 58)] (St 0)]"

definition h11_12 :: "rq_action block list" where
  "h11_12 = [
     Case 58 False [(46, 46, St 59)] (St 0),
     Case 59 False [(49, 49, St 62), (50, 50, St 64), (48, 57, St 60)] (St 0),
     Case 60 False [(93, 93, St 61)] (St 0),
     Case 61 False [(32, 32, Tr 37), (35, 35, Tr 39), (47, 47, St 26), (58, 58, St 46), (63, 63, Tr 42)] (St 0),
     Case 62 False [(48, 57, St 63), (93, 93, St 61)] (St 0),
     Case 63 False [(48, 57, St 60), (93, 93, St 61)] (St 0),
     Case 64 False [(48, 48, St 65), (53, 53, St 66), (93, 93, St 61)] (St 0),
     Case 65 False [(48, 57, St 60)] (St 0),
     Case 66 False [(48, 48, St 60)] (St 0),
     Case 67 False [(46, 46, St 59), (48, 57, St 68)] (St 0),
     Case 68 False [(46, 46, St 59), (48, 57, St 58)] (St 0),
     Case 69 False [(46, 46, St 59), (48, 48, St 70), (53, 53, St 71)] (St 0),
     Case 70 False [(48, 57, St 58)] (St 0),
     Case 71 False [(48, 48, St 58)] (St 0),
     Case 72 False [(46, 46, St 57), (48, 57, St 73)] (St 0),
     Case 73 False [(46, 46, St 57), (48, 57, St 56)] (St 0),
     Case 74 False [(46, 46, St 57), (48, 48, St 75), (53, 53, St 76)] (St 0)]"

definition h11_13 :: "rq_action block list" where
  "h11_13 = [
     Case 75 False [(48, 57, St 56)] (St 0),
     Case 76 False [(48, 48, St 56)] (St 0),
     Case 77 False [(48, 57, St 78), (58, 58, St 80), (65, 70, St 78), (97, 102, St 78)] (St 0),
     Case 78 False [(48, 57, St 79), (58, 58, St 80), (65, 70, St 79), (97, 102, St 79)] (St 0),
     Case 79 False [(58, 58, St 80)] (St 0),
     Case 80 False [(48, 57, St 81), (65, 70, St 81), (97, 102, St 81)] (St 0),
     Case 81 False [(48, 57, St 82), (65, 70, St 82), (93, 93, St 61), (97, 102, St 82)] (St 0),
     Case 82 False [(48, 57, St 83), (65, 70, St 83), (93, 93, St 61), (97, 102, St 83)] (St 0),
     Case 83 False [(48, 57, St 60), (65, 70, St 60), (93, 93, St 61), (97, 102, St 60)] (St 0),
     Case 84 False [(46, 46, St 55), (58, 58, St 80), (48, 57, St 85), (65, 70, St 77), (97, 102, St 77)] (St 0),
     Case 85 False [(46, 46, St 55), (58, 58, St 80), (48, 57, St 86), (65, 70, St 78), (97, 102, St 78)] (St 0)]"

definition h11_14 :: "rq_action block list" where
  "h11_14 = [
     Case 86 False [(46, 46, St 55), (58, 58, St 80), (48, 57, St 79), (65, 70, St 79), (97, 102, St 79)] (St 0),
     Case 87 False [(46, 46, St 55), (48, 48, St 88), (53, 53, St 89), (58, 58, St 80), (49, 57, St 77),
       (65, 70, St 77), (97, 102, St 77)] (St 0),
     Case 88 False [(48, 57, St 86), (58, 58, St 80), (65, 70, St 78), (97, 102, St 78)] (St 0),
     Case 89 False [(48, 48, St 86), (58, 58, St 80), (49, 57, St 78), (65, 70, St 78), (97, 102, St 78)] (St 0),
     Case 90 False [(48, 57, St 77), (58, 58, St 80), (65, 70, St 77), (97, 102, St 77)] (St 0),
     Case 91 False [(48, 57, St 92), (58, 58, St 95), (65, 70, St 92), (97, 102, St 92)] (St 0),
     Case 92 False [(48, 57, St 93), (58, 58, St 95), (65, 70, St 93), (97, 102, St 93)] (St 0),
     Case 93 False [(48, 57, St 94), (58, 58, St 95), (65, 70, St 94), (97, 102, St 94)] (St 0),
     Case 94 False [(58, 58, St 95)] (St 0),
     Case 95 False [(48, 57, St 96), (58, 58, St 166), (65, 70, St 96), (97, 102, St 96)] (St 0)]"

definition h11_15 :: "rq_action block list" where
  "h11_15 = [
     Case 96 False [(48, 57, St 97), (58, 58, St 100), (65, 70, St 97), (97, 102, St 97)] (St 0),
     Case 97 False [(48, 57, St 98), (58, 58, St 100), (65, 70, St 98), (97, 102, St 98)] (St 0),
     Case 98 False [(48, 57, St 99), (58, 58, St 100), (65, 70, St 99), (97, 102, St 99)] (St 0),
     Case 99 False [(58, 58, St 100)] (St 0),
     Case 100 False [(48, 57, St 101), (58, 58, St 165), (65, 70, St 101), (97, 102, St 101)] (St 0),
     Case 101 False [(48, 57, St 102), (58, 58, St 105), (65, 70, St 102), (97, 102, St 102)] (St 0),
     Case 102 False [(48, 57, St 103), (58, 58, St 105), (65, 70, St 103), (97, 102, St 103)] (St 0),
     Case 103 False [(48, 57, St 104), (58, 58, St 105), (65, 70, St 104), (97, 102, St 104)] (St 0),
     Case 104 False [(58, 58, St 105)] (St 0),
     Case 105 False [(48, 57, St 106), (58, 58, St 164), (65, 70, St 106), (97, 102, St 106)] (St 0),
     Case 106 False [(48, 57, St 107), (58, 58, St 110), (65, 70, St 107), (97, 102, St 107)] (St 0)]"

definition h11_16 :: "rq_action block list" where
  "h11_16 = [
     Case 107 False [(48, 57, St 108), (58, 58, St 110), (65, 70, St 108), (97, 102, St 108)] (St 0),
     Case 108 False [(48, 57, St 109), (58, 58, St 110), (65, 70, St 109), (97, 102, St 109)] (St 0),
     Case 109 False [(58, 58, St 110)] (St 0),
     Case 110 False [(48, 57, St 111), (58, 58, St 163), (65, 70, St 111), (97, 102, St 111)] (St 0),
     Case 111 False [(48, 57, St 112), (58, 58, St 115), (65, 70, St 112), (97, 102, St 112)] (St 0),
     Case 112 False [(48, 57, St 113), (58, 58, St 115), (65, 70, St 113), (97, 102, St 113)] (St 0),
     Case 113 False [(48, 57, St 114), (58, 58, St 115), (65, 70, St 114), (97, 102, St 114)] (St 0),
     Case 114 False [(58, 58, St 115)] (St 0),
     Case 115 False [(48, 57, St 116), (58, 58, St 151), (65, 70, St 116), (97, 102, St 116)] (St 0),
     Case 116 False [(48, 57, St 117), (58, 58, St 120), (65, 70, St 117), (97, 102, St 117)] (St 0),
     Case 117 False [(48, 57, St 118), (58, 58, St 120), (65, 70, St 118), (97, 102, St 118)] (St 0)]"

definition h11_17 :: "rq_action block list" where
  "h11_17 = [
     Case 118 False [(48, 57, St 119), (58, 58, St 120), (65, 70, St 119), (97, 102, St 119)] (St 0),
     Case 119 False [(58, 58, St 120)] (St 0),
     Case 120 False [(48, 57, St 121), (58, 58, St 150), (65, 70, St 121), (97, 102, St 121)] (St 0),
     Case 121 False [(48, 57, St 122), (58, 58, St 125), (65, 70, St 122), (97, 102, St 122)] (St 0),
     Case 122 False [(48, 57, St 123), (58, 58, St 125), (65, 70, St 123), (97, 102, St 123)] (St 0),
     Case 123 False [(48, 57, St 124), (58, 58, St 125), (65, 70, St 124), (97, 102, St 124)] (St 0),
     Case 124 False [(58, 58, St 125)] (St 0),
     Case 125 False [(48, 57, St 121), (58, 58, St 126), (65, 70, St 121), (97, 102, St 121)] (St 0),
     Case 126 False [(49, 49, St 143), (50, 50, St 146), (93, 93, St 61), (2, 3, St 48), (48, 57, St 127),
       (65, 70, St 149), (97, 102, St 149)] (St 0),
     Case 127 False [(46, 46, St 55), (58, 58, St 131), (93, 93, St 61), (48, 57, St 128), (65, 70, St 128),
       (97, 102, St 128)] (St 0)]"

definition h11_18 :: "rq_action block list" where
  "h11_18 = [
     Case 128 False [(58, 58, St 131), (93, 93, St 61), (48, 57, St 129), (65, 70, St 129), (97, 102, St 129)] (St 0),
     Case 129 False [(58, 58, St 131), (93, 93, St 61), (48, 57, St 130), (65, 70, St 130), (97, 102, St 130)] (St 0),
     Case 130 False [(58, 58, St 131), (93, 93, St 61)] (St 0),
     Case 131 False [(49, 49, St 136), (50, 50, St 139), (48, 57, St 132), (65, 70, St 142), (97, 102, St 142)] (St 0),
     Case 132 False [(46, 46, St 55), (58, 58, St 80), (93, 93, St 61), (48, 57, St 133), (65, 70, St 133),
       (97, 102, St 133)] (St 0),
     Case 133 False [(58, 58, St 80), (93, 93, St 61), (48, 57, St 134), (65, 70, St 134), (97, 102, St 134)] (St 0),
     Case 134 False [(58, 58, St 80), (93, 93, St 61), (48, 57, St 135), (65, 70, St 135), (97, 102, St 135)] (St 0),
     Case 135 False [(58, 58, St 80), (93, 93, St 61)] (St 0),
     Case 136 False [(46, 46, St 55), (58, 58, St 80), (93, 93, St 61), (48, 57, St 137), (65, 70, St 133),
       (97, 102, St 133)] (St 0)]"

definition h11_19 :: "rq_action block list" where
  "h11_19 = [
     Case 137 False [(46, 46, St 55), (58, 58, St 80), (93, 93, St 61), (48, 57, St 138), (65, 70, St 134),
       (97, 102, St 134)] (St 0),
     Case 138 False [(46, 46, St 55), (58, 58, St 80), (93, 93, St 61), (48, 57, St 135), (65, 70, St 135),
       (97, 102, St 135)] (St 0),
     Case 139 False [(46, 46, St 55), (48, 48, St 140), (53, 53, St 141), (58, 58, St 80), (93, 93, St 61),
       (49, 57, St 133), (65, 70, St 133), (97, 102, St 133)] (St 0),
     Case 140 False [(58, 58, St 80), (93, 93, St 61), (48, 57, St 138), (65, 70, St 134), (97, 102, St 134)] (St 0),
     Case 141 False [(48, 48, St 138), (58, 58, St 80), (93, 93, St 61), (49, 57, St 134), (65, 70, St 134),
       (97, 102, St 134)] (St 0),
     Case 142 False [(58, 58, St 80), (93, 93, St 61), (48, 57, St 133), (65, 70, St 133), (97, 102, St 133)] (St 0),
     Case 143 False [(46, 46, St 55), (58, 58, St 131), (93, 93, St 61), (48, 57, St 144), (65, 70, St 128),
       (97, 102, St 128)] (St 0),
     Case 144 False [(46, 46, St 55), (58, 58, St 131), (93, 93, St 61), (48, 57, St 145), (65, 70, St 129),
       (97, 102, St 129)] (St 0)]"

definition h11_20 :: "rq_action block list" where
  "h11_20 = [
     Case 145 False [(46, 46, St 55), (58, 58, St 131), (93, 93, St 61), (48, 57, St 130), (65, 70, St 130),
       (97, 102, St 130)] (St 0),
     Case 146 False [(46, 46, St 55), (48, 48, St 147), (53, 53, St 148), (58, 58, St 131), (93, 93, St 61),
       (49, 57, St 128), (65, 70, St 128), (97, 102, St 128)] (St 0),
     Case 147 False [(58, 58, St 131), (93, 93, St 61), (48, 57, St 145), (65, 70, St 129), (97, 102, St 129)] (St 0),
     Case 148 False [(48, 48, St 145), (58, 58, St 131), (93, 93, St 61), (49, 57, St 129), (65, 70, St 129),
       (97, 102, St 129)] (St 0),
     Case 149 False [(58, 58, St 131), (93, 93, St 61), (48, 57, St 128), (65, 70, St 128), (97, 102, St 128)] (St 0),
     Case 150 False [(49, 49, St 143), (50, 50, St 146), (2, 3, St 48), (48, 57, St 127), (65, 70, St 149),
       (97, 102, St 149)] (St 0),
     Case 151 False [(49, 49, St 156), (50, 50, St 159), (2, 3, St 48), (48, 57, St 152), (65, 70, St 162),
       (97, 102, St 162)] (St 0),
     Case 152 False [(46, 46, St 55), (58, 58, St 131), (48, 57, St 153), (65, 70, St 153), (97, 102, St 153)] (St 0)]"

definition h11_21 :: "rq_action block list" where
  "h11_21 = [
     Case 153 False [(48, 57, St 154), (58, 58, St 131), (65, 70, St 154), (97, 102, St 154)] (St 0),
     Case 154 False [(48, 57, St 155), (58, 58, St 131), (65, 70, St 155), (97, 102, St 155)] (St 0),
     Case 155 False [(58, 58, St 131)] (St 0),
     Case 156 False [(46, 46, St 55), (58, 58, St 131), (48, 57, St 157), (65, 70, St 153), (97, 102, St 153)] (St 0),
     Case 157 False [(46, 46, St 55), (58, 58, St 131), (48, 57, St 158), (65, 70, St 154), (97, 102, St 154)] (St 0),
     Case 158 False [(46, 46, St 55), (58, 58, St 131), (48, 57, St 155), (65, 70, St 155), (97, 102, St 155)] (St 0),
     Case 159 False [(46, 46, St 55), (48, 48, St 160), (53, 53, St 161), (58, 58, St 131), (49, 57, St 153),
       (65, 70, St 153), (97, 102, St 153)] (St 0),
     Case 160 False [(48, 57, St 158), (58, 58, St 131), (65, 70, St 154), (97, 102, St 154)] (St 0),
     Case 161 False [(48, 48, St 158), (58, 58, St 131), (49, 57, St 154), (65, 70, St 154), (97, 102, St 154)] (St 0)]"

definition h11_22 :: "rq_action block list" where
  "h11_22 = [
     Case 162 False [(48, 57, St 153), (58, 58, St 131), (65, 70, St 153), (97, 102, St 153)] (St 0),
     Case 163 False [(2, 3, St 48), (48, 57, St 49), (65, 70, St 49), (97, 102, St 49)] (St 0),
     Case 164 False [(2, 3, St 48)] (St 0),
     Case 165 False [(3, 3, St 48)] (St 0),
     Case 166 False [(4, 4, St 48)] (St 0),
     Case 167 False [(58, 58, St 168)] (St 0),
     Case 168 False [(49, 49, St 143), (50, 50, St 146), (93, 93, St 61), (2, 5, St 48), (48, 57, St 127),
       (65, 70, St 149), (97, 102, St 149)] (St 0),
     Case 169 False [(48, 57, St 170), (65, 70, St 170), (97, 102, St 170)] (St 0),
     Case 170 False [(46, 46, St 171), (48, 57, St 170), (65, 70, St 170), (97, 102, St 170)] (St 0)]"

definition h11_23 :: "rq_action block list" where
  "h11_23 = [
     Case 171 True [(33, 33, St 172), (36, 36, St 172), (61, 61, St 172), (95, 95, St 172), (126, 126, St 172),
       (606, 606, St 172), (635, 635, St 172), (637, 637, St 172), (38, 46, St 172), (48, 59, St 172), (65, 90, St 172),
       (97, 122, St 172)] (St 0),
     Case 172 True [(33, 33, St 172), (36, 36, St 172), (61, 61, St 172), (93, 93, St 61), (95, 95, St 172),
       (126, 126, St 172), (606, 606, St 172), (635, 635, St 172), (637, 637, St 172), (38, 46, St 172),
       (48, 59, St 172), (65, 90, St 172), (97, 122, St 172)] (St 0),
     Block 12 [Mark] 173]"

definition h11_24 :: "rq_action block list" where
  "h11_24 = [
     Case 173 True [(32, 32, Tr 37), (33, 33, St 19), (35, 35, Tr 39), (37, 37, St 24), (43, 43, St 173),
       (47, 47, St 26), (58, 58, St 174), (59, 59, St 19), (61, 61, St 19), (63, 63, Tr 42), (64, 64, St 19),
       (95, 95, St 19), (126, 126, St 19), (606, 606, St 19), (635, 635, St 19), (637, 637, St 19), (36, 44, St 19),
       (45, 57, St 173), (65, 90, St 173), (97, 122, St 173)] (St 0),
     Case 174 True [(32, 32, Tr 6), (33, 33, Tr 203), (35, 35, Tr 8), (37, 37, Tr 204), (47, 47, Tr 10),
       (61, 61, Tr 203), (63, 63, Tr 11), (95, 95, Tr 203), (126, 126, Tr 203), (606, 606, Tr 203), (635, 635, Tr 203),
       (637, 637, Tr 203), (- 128, - 1, Tr 203), (36, 59, Tr 203), (64, 90, Tr 203), (97, 122, Tr 203)] (St 0),
     Case 175 False [(32, 32, Tr 4), (48, 57, St 176), (65, 90, St 176)] (St 0),
     Case 176 False [(32, 32, Tr 4), (48, 57, St 177), (65, 90, St 177)] (St 0),
     Case 177 False [(32, 32, Tr 4), (48, 57, St 178), (65, 90, St 178)] (St 0)]"

definition h11_25 :: "rq_action block list" where
  "h11_25 = [
     Case 178 False [(32, 32, Tr 4), (48, 57, St 179), (65, 90, St 179)] (St 0),
     Case 179 False [(32, 32, Tr 4), (48, 57, St 180), (65, 90, St 180)] (St 0),
     Case 180 False [(32, 32, Tr 4), (48, 57, St 181), (65, 90, St 181)] (St 0),
     Case 181 False [(32, 32, Tr 4), (48, 57, St 182), (65, 90, St 182)] (St 0),
     Case 182 False [(32, 32, Tr 4), (48, 57, St 183), (65, 90, St 183)] (St 0),
     Case 183 False [(32, 32, Tr 4), (48, 57, St 184), (65, 90, St 184)] (St 0),
     Case 184 False [(32, 32, Tr 4), (48, 57, St 185), (65, 90, St 185)] (St 0),
     Case 185 False [(32, 32, Tr 4), (48, 57, St 186), (65, 90, St 186)] (St 0),
     Case 186 False [(32, 32, Tr 4), (48, 57, St 187), (65, 90, St 187)] (St 0),
     Case 187 False [(32, 32, Tr 4), (48, 57, St 188), (65, 90, St 188)] (St 0),
     Case 188 False [(32, 32, Tr 4), (48, 57, St 189), (65, 90, St 189)] (St 0),
     Case 189 False [(32, 32, Tr 4), (48, 57, St 190), (65, 90, St 190)] (St 0)]"

definition h11_26 :: "rq_action block list" where
  "h11_26 = [
     Case 190 False [(32, 32, Tr 4), (48, 57, St 191), (65, 90, St 191)] (St 0),
     Case 191 False [(32, 32, Tr 4), (48, 57, St 192), (65, 90, St 192)] (St 0),
     Case 192 False [(32, 32, Tr 4), (48, 57, St 193), (65, 90, St 193)] (St 0),
     Case 193 False [(32, 32, Tr 4)] (St 0),
     Block 2 [Mark] 194,
     Case 194 False [(45, 46, St 195), (48, 57, St 195), (65, 90, St 195), (97, 122, St 195)] (St 0),
     Case 195 False [(32, 32, Tr 224), (47, 47, Tr 224), (62, 62, Tr 224), (9, 13, Tr 224), (45, 57, St 195),
       (65, 90, St 195), (97, 122, St 195)] (St 0),
     Block 224 [Request_path] 196,
     Case 196 False [(62, 62, St 197)] (St 196),
     Case 197 False [(0, 0, Tr 227), (62, 62, St 197)] (St 196),
     Block 227 [Xml, Done] 349,
     Block 235 [Json, Done] 349]"

definition h11_27 :: "rq_action block list" where
  "h11_27 = [
     Case 349 False [] (St 0),
     Block 3 [Mark] 198,
     Case 198 True [(32, 32, Tr 228), (33, 33, St 202), (37, 37, St 203), (47, 47, St 208), (59, 59, St 202),
       (61, 61, St 202), (95, 95, St 202), (126, 126, St 202), (606, 606, St 202), (635, 635, St 202),
       (637, 637, St 202), (36, 57, St 202), (64, 90, St 202), (97, 122, St 202)] (St 0),
     Block 228 [Request_path] 199,
     Case 199 False [(123, 123, Tr 232)] (St 0),
     Block 232 [Mark] 200,
     Case 200 False [(125, 125, St 201)] (St 200),
     Case 201 False [(0, 0, Tr 235), (125, 125, St 201)] (St 200),
     Case 202 True [(32, 32, Tr 228), (33, 33, St 202), (37, 37, St 203), (47, 47, St 205), (59, 59, St 202),
       (61, 61, St 202), (95, 95, St 202), (126, 126, St 202), (606, 606, St 202), (635, 635, St 202),
       (637, 637, St 202), (36, 57, St 202), (64, 90, St 202), (97, 122, St 202)] (St 0)]"

definition h11_28 :: "rq_action block list" where
  "h11_28 = [
     Case 203 False [(48, 57, St 204), (65, 70, St 204), (97, 102, St 204)] (St 0),
     Case 204 False [(48, 57, St 202), (65, 70, St 202), (97, 102, St 202)] (St 0),
     Case 205 True [(32, 32, Tr 228), (33, 33, St 205), (37, 37, St 206), (61, 61, St 205), (95, 95, St 205),
       (126, 126, St 205), (606, 606, St 205), (635, 635, St 205), (637, 637, St 205), (- 128, - 1, St 205),
       (36, 59, St 205), (64, 90, St 205), (97, 122, St 205)] (St 0),
     Case 206 False [(48, 57, St 207), (65, 70, St 207), (97, 102, St 207)] (St 0),
     Case 207 False [(48, 57, St 205), (65, 70, St 205), (97, 102, St 205)] (St 0),
     Case 208 True [(32, 32, Tr 228), (33, 33, St 205), (37, 37, St 206), (47, 47, St 209), (61, 61, St 205),
       (95, 95, St 205), (126, 126, St 205), (606, 606, St 205), (635, 635, St 205), (637, 637, St 205),
       (- 128, - 1, St 205), (36, 59, St 205), (64, 90, St 205), (97, 122, St 205)] (St 0)]"

definition h11_29 :: "rq_action block list" where
  "h11_29 = [
     Case 209 True [(32, 32, Tr 228), (33, 33, St 210), (37, 37, St 211), (47, 47, St 205), (58, 58, St 213),
       (61, 61, St 210), (64, 64, St 217), (91, 91, St 222), (95, 95, St 210), (126, 126, St 210), (606, 606, St 210),
       (635, 635, St 210), (637, 637, St 210), (36, 59, St 210), (65, 90, St 210), (97, 122, St 210)] (St 0),
     Case 210 True [(32, 32, Tr 228), (33, 33, St 210), (37, 37, St 211), (47, 47, St 205), (58, 58, St 213),
       (61, 61, St 210), (64, 64, St 217), (95, 95, St 210), (126, 126, St 210), (606, 606, St 210), (635, 635, St 210),
       (637, 637, St 210), (36, 59, St 210), (65, 90, St 210), (97, 122, St 210)] (St 0),
     Case 211 False [(48, 57, St 212), (65, 70, St 212), (97, 102, St 212)] (St 0),
     Case 212 False [(48, 57, St 210), (65, 70, St 210), (97, 102, St 210)] (St 0)]"

definition h11_30 :: "rq_action block list" where
  "h11_30 = [
     Case 213 True [(32, 32, Tr 228), (33, 33, St 214), (37, 37, St 215), (47, 47, St 205), (61, 61, St 214),
       (64, 64, St 217), (95, 95, St 214), (126, 126, St 214), (606, 606, St 214), (635, 635, St 214),
       (637, 637, St 214), (36, 46, St 214), (48, 57, St 213), (58, 59, St 214), (65, 90, St 214),
       (97, 122, St 214)] (St 0),
     Case 214 True [(33, 33, St 214), (37, 37, St 215), (61, 61, St 214), (64, 64, St 217), (95, 95, St 214),
       (126, 126, St 214), (606, 606, St 214), (635, 635, St 214), (637, 637, St 214), (36, 46, St 214),
       (48, 59, St 214), (65, 90, St 214), (97, 122, St 214)] (St 0),
     Case 215 False [(48, 57, St 216), (65, 70, St 216), (97, 102, St 216)] (St 0),
     Case 216 False [(48, 57, St 214), (65, 70, St 214), (97, 102, St 214)] (St 0)]"

definition h11_31 :: "rq_action block list" where
  "h11_31 = [
     Case 217 True [(32, 32, Tr 228), (33, 33, St 218), (37, 37, St 219), (47, 47, St 205), (58, 58, St 221),
       (61, 61, St 218), (91, 91, St 222), (95, 95, St 218), (126, 126, St 218), (606, 606, St 218), (635, 635, St 218),
       (637, 637, St 218), (36, 59, St 218), (65, 90, St 218), (97, 122, St 218)] (St 0),
     Case 218 True [(32, 32, Tr 228), (33, 33, St 218), (37, 37, St 219), (47, 47, St 205), (58, 58, St 221),
       (61, 61, St 218), (95, 95, St 218), (126, 126, St 218), (606, 606, St 218), (635, 635, St 218),
       (637, 637, St 218), (36, 59, St 218), (65, 90, St 218), (97, 122, St 218)] (St 0),
     Case 219 False [(48, 57, St 220), (65, 70, St 220), (97, 102, St 220)] (St 0),
     Case 220 False [(48, 57, St 218), (65, 70, St 218), (97, 102, St 218)] (St 0),
     Case 221 False [(32, 32, Tr 228), (47, 47, St 205), (48, 57, St 221)] (St 0),
     Case 222 False [(6, 6, St 223), (58, 58, St 342), (118, 118, St 344), (48, 57, St 266), (65, 70, St 266),
       (97, 102, St 266)] (St 0)]"

definition h11_32 :: "rq_action block list" where
  "h11_32 = [
     Case 223 False [(48, 57, St 224), (65, 70, St 224), (97, 102, St 224)] (St 0),
     Case 224 False [(48, 57, St 225), (58, 58, St 228), (65, 70, St 225), (97, 102, St 225)] (St 0),
     Case 225 False [(48, 57, St 226), (58, 58, St 228), (65, 70, St 226), (97, 102, St 226)] (St 0),
     Case 226 False [(48, 57, St 227), (58, 58, St 228), (65, 70, St 227), (97, 102, St 227)] (St 0),
     Case 227 False [(58, 58, St 228)] (St 0),
     Case 228 False [(49, 49, St 259), (50, 50, St 262), (48, 57, St 229), (65, 70, St 265), (97, 102, St 265)] (St 0),
     Case 229 False [(46, 46, St 230), (58, 58, St 255), (48, 57, St 252), (65, 70, St 252), (97, 102, St 252)] (St 0),
     Case 230 False [(49, 49, St 247), (50, 50, St 249), (48, 57, St 231)] (St 0),
     Case 231 False [(46, 46, St 232)] (St 0),
     Case 232 False [(49, 49, St 242), (50, 50, St 244), (48, 57, St 233)] (St 0),
     Case 233 False [(46, 46, St 234)] (St 0),
     Case 234 False [(49, 49, St 237), (50, 50, St 239), (48, 57, St 235)] (St 0),
     Case 235 False [(93, 93, St 236)] (St 0)]"

definition h11_33 :: "rq_action block list" where
  "h11_33 = [
     Case 236 False [(32, 32, Tr 228), (47, 47, St 205), (58, 58, St 221)] (St 0),
     Case 237 False [(48, 57, St 238), (93, 93, St 236)] (St 0),
     Case 238 False [(48, 57, St 235), (93, 93, St 236)] (St 0),
     Case 239 False [(48, 48, St 240), (53, 53, St 241), (93, 93, St 236)] (St 0),
     Case 240 False [(48, 57, St 235)] (St 0),
     Case 241 False [(48, 48, St 235)] (St 0),
     Case 242 False [(46, 46, St 234), (48, 57, St 243)] (St 0),
     Case 243 False [(46, 46, St 234), (48, 57, St 233)] (St 0),
     Case 244 False [(46, 46, St 234), (48, 48, St 245), (53, 53, St 246)] (St 0),
     Case 245 False [(48, 57, St 233)] (St 0),
     Case 246 False [(48, 48, St 233)] (St 0),
     Case 247 False [(46, 46, St 232), (48, 57, St 248)] (St 0),
     Case 248 False [(46, 46, St 232), (48, 57, St 231)] (St 0),
     Case 249 False [(46, 46, St 232), (48, 48, St 250), (53, 53, St 251)] (St 0),
     Case 250 False [(48, 57, St 231)] (St 0),
     Case 251 False [(48, 48, St 231)] (St 0)]"

definition h11_34 :: "rq_action block list" where
  "h11_34 = [
     Case 252 False [(48, 57, St 253), (58, 58, St 255), (65, 70, St 253), (97, 102, St 253)] (St 0),
     Case 253 False [(48, 57, St 254), (58, 58, St 255), (65, 70, St 254), (97, 102, St 254)] (St 0),
     Case 254 False [(58, 58, St 255)] (St 0),
     Case 255 False [(48, 57, St 256), (65, 70, St 256), (97, 102, St 256)] (St 0),
     Case 256 False [(48, 57, St 257), (65, 70, St 257), (93, 93, St 236), (97, 102, St 257)] (St 0),
     Case 257 False [(48, 57, St 258), (65, 70, St 258), (93, 93, St 236), (97, 102, St 258)] (St 0),
     Case 258 False [(48, 57, St 235), (65, 70, St 235), (93, 93, St 236), (97, 102, St 235)] (St 0),
     Case 259 False [(46, 46, St 230), (58, 58, St 255), (48, 57, St 260), (65, 70, St 252), (97, 102, St 252)] (St 0),
     Case 260 False [(46, 46, St 230), (58, 58, St 255), (48, 57, St 261), (65, 70, St 253), (97, 102, St 253)] (St 0),
     Case 261 False [(46, 46, St 230), (58, 58, St 255), (48, 57, St 254), (65, 70, St 254), (97, 102, St 254)] (St 0)]"

definition h11_35 :: "rq_action block list" where
  "h11_35 = [
     Case 262 False [(46, 46, St 230), (48, 48, St 263), (53, 53, St 264), (58, 58, St 255), (49, 57, St 252),
       (65, 70, St 252), (97, 102, St 252)] (St 0),
     Case 263 False [(48, 57, St 261), (58, 58, St 255), (65, 70, St 253), (97, 102, St 253)] (St 0),
     Case 264 False [(48, 48, St 261), (58, 58, St 255), (49, 57, St 253), (65, 70, St 253), (97, 102, St 253)] (St 0),
     Case 265 False [(48, 57, St 252), (58, 58, St 255), (65, 70, St 252), (97, 102, St 252)] (St 0),
     Case 266 False [(48, 57, St 267), (58, 58, St 270), (65, 70, St 267), (97, 102, St 267)] (St 0),
     Case 267 False [(48, 57, St 268), (58, 58, St 270), (65, 70, St 268), (97, 102, St 268)] (St 0),
     Case 268 False [(48, 57, St 269), (58, 58, St 270), (65, 70, St 269), (97, 102, St 269)] (St 0),
     Case 269 False [(58, 58, St 270)] (St 0),
     Case 270 False [(48, 57, St 271), (58, 58, St 341), (65, 70, St 271), (97, 102, St 271)] (St 0),
     Case 271 False [(48, 57, St 272), (58, 58, St 275), (65, 70, St 272), (97, 102, St 272)] (St 0)]"

definition h11_36 :: "rq_action block list" where
  "h11_36 = [
     Case 272 False [(48, 57, St 273), (58, 58, St 275), (65, 70, St 273), (97, 102, St 273)] (St 0),
     Case 273 False [(48, 57, St 274), (58, 58, St 275), (65, 70, St 274), (97, 102, St 274)] (St 0),
     Case 274 False [(58, 58, St 275)] (St 0),
     Case 275 False [(48, 57, St 276), (58, 58, St 340), (65, 70, St 276), (97, 102, St 276)] (St 0),
     Case 276 False [(48, 57, St 277), (58, 58, St 280), (65, 70, St 277), (97, 102, St 277)] (St 0),
     Case 277 False [(48, 57, St 278), (58, 58, St 280), (65, 70, St 278), (97, 102, St 278)] (St 0),
     Case 278 False [(48, 57, St 279), (58, 58, St 280), (65, 70, St 279), (97, 102, St 279)] (St 0),
     Case 279 False [(58, 58, St 280)] (St 0),
     Case 280 False [(48, 57, St 281), (58, 58, St 339), (65, 70, St 281), (97, 102, St 281)] (St 0),
     Case 281 False [(48, 57, St 282), (58, 58, St 285), (65, 70, St 282), (97, 102, St 282)] (St 0),
     Case 282 False [(48, 57, St 283), (58, 58, St 285), (65, 70, St 283), (97, 102, St 283)] (St 0)]"

definition h11_37 :: "rq_action block list" where
  "h11_37 = [
     Case 283 False [(48, 57, St 284), (58, 58, St 285), (65, 70, St 284), (97, 102, St 284)] (St 0),
     Case 284 False [(58, 58, St 285)] (St 0),
     Case 285 False [(48, 57, St 286), (58, 58, St 338), (65, 70, St 286), (97, 102, St 286)] (St 0),
     Case 286 False [(48, 57, St 287), (58, 58, St 290), (65, 70, St 287), (97, 102, St 287)] (St 0),
     Case 287 False [(48, 57, St 288), (58, 58, St 290), (65, 70, St 288), (97, 102, St 288)] (St 0),
     Case 288 False [(48, 57, St 289), (58, 58, St 290), (65, 70, St 289), (97, 102, St 289)] (St 0),
     Case 289 False [(58, 58, St 290)] (St 0),
     Case 290 False [(48, 57, St 291), (58, 58, St 326), (65, 70, St 291), (97, 102, St 291)] (St 0),
     Case 291 False [(48, 57, St 292), (58, 58, St 295), (65, 70, St 292), (97, 102, St 292)] (St 0),
     Case 292 False [(48, 57, St 293), (58, 58, St 295), (65, 70, St 293), (97, 102, St 293)] (St 0),
     Case 293 False [(48, 57, St 294), (58, 58, St 295), (65, 70, St 294), (97, 102, St 294)] (St 0)]"

definition h11_38 :: "rq_action block list" where
  "h11_38 = [
     Case 294 False [(58, 58, St 295)] (St 0),
     Case 295 False [(48, 57, St 296), (58, 58, St 325), (65, 70, St 296), (97, 102, St 296)] (St 0),
     Case 296 False [(48, 57, St 297), (58, 58, St 300), (65, 70, St 297), (97, 102, St 297)] (St 0),
     Case 297 False [(48, 57, St 298), (58, 58, St 300), (65, 70, St 298), (97, 102, St 298)] (St 0),
     Case 298 False [(48, 57, St 299), (58, 58, St 300), (65, 70, St 299), (97, 102, St 299)] (St 0),
     Case 299 False [(58, 58, St 300)] (St 0),
     Case 300 False [(48, 57, St 296), (58, 58, St 301), (65, 70, St 296), (97, 102, St 296)] (St 0),
     Case 301 False [(49, 49, St 318), (50, 50, St 321), (93, 93, St 236), (2, 3, St 223), (48, 57, St 302),
       (65, 70, St 324), (97, 102, St 324)] (St 0),
     Case 302 False [(46, 46, St 230), (58, 58, St 306), (93, 93, St 236), (48, 57, St 303), (65, 70, St 303),
       (97, 102, St 303)] (St 0),
     Case 303 False [(58, 58, St 306), (93, 93, St 236), (48, 57, St 304), (65, 70, St 304), (97, 102, St 304)] (St 0)]"

definition h11_39 :: "rq_action block list" where
  "h11_39 = [
     Case 304 False [(58, 58, St 306), (93, 93, St 236), (48, 57, St 305), (65, 70, St 305), (97, 102, St 305)] (St 0),
     Case 305 False [(58, 58, St 306), (93, 93, St 236)] (St 0),
     Case 306 False [(49, 49, St 311), (50, 50, St 314), (48, 57, St 307), (65, 70, St 317), (97, 102, St 317)] (St 0),
     Case 307 False [(46, 46, St 230), (58, 58, St 255), (93, 93, St 236), (48, 57, St 308), (65, 70, St 308),
       (97, 102, St 308)] (St 0),
     Case 308 False [(58, 58, St 255), (93, 93, St 236), (48, 57, St 309), (65, 70, St 309), (97, 102, St 309)] (St 0),
     Case 309 False [(58, 58, St 255), (93, 93, St 236), (48, 57, St 310), (65, 70, St 310), (97, 102, St 310)] (St 0),
     Case 310 False [(58, 58, St 255), (93, 93, St 236)] (St 0),
     Case 311 False [(46, 46, St 230), (58, 58, St 255), (93, 93, St 236), (48, 57, St 312), (65, 70, St 308),
       (97, 102, St 308)] (St 0),
     Case 312 False [(46, 46, St 230), (58, 58, St 255), (93, 93, St 236), (48, 57, St 313), (65, 70, St 309),
       (97, 102, St 309)] (St 0)]"

definition h11_40 :: "rq_action block list" where
  "h11_40 = [
     Case 313 False [(46, 46, St 230), (58, 58, St 255), (93, 93, St 236), (48, 57, St 310), (65, 70, St 310),
       (97, 102, St 310)] (St 0),
     Case 314 False [(46, 46, St 230), (48, 48, St 315), (53, 53, St 316), (58, 58, St 255), (93, 93, St 236),
       (49, 57, St 308), (65, 70, St 308), (97, 102, St 308)] (St 0),
     Case 315 False [(58, 58, St 255), (93, 93, St 236), (48, 57, St 313), (65, 70, St 309), (97, 102, St 309)] (St 0),
     Case 316 False [(48, 48, St 313), (58, 58, St 255), (93, 93, St 236), (49, 57, St 309), (65, 70, St 309),
       (97, 102, St 309)] (St 0),
     Case 317 False [(58, 58, St 255), (93, 93, St 236), (48, 57, St 308), (65, 70, St 308), (97, 102, St 308)] (St 0),
     Case 318 False [(46, 46, St 230), (58, 58, St 306), (93, 93, St 236), (48, 57, St 319), (65, 70, St 303),
       (97, 102, St 303)] (St 0),
     Case 319 False [(46, 46, St 230), (58, 58, St 306), (93, 93, St 236), (48, 57, St 320), (65, 70, St 304),
       (97, 102, St 304)] (St 0),
     Case 320 False [(46, 46, St 230), (58, 58, St 306), (93, 93, St 236), (48, 57, St 305), (65, 70, St 305),
       (97, 102, St 305)] (St 0)]"

definition h11_41 :: "rq_action block list" where
  "h11_41 = [
     Case 321 False [(46, 46, St 230), (48, 48, St 322), (53, 53, St 323), (58, 58, St 306), (93, 93, St 236),
       (49, 57, St 303), (65, 70, St 303), (97, 102, St 303)] (St 0),
     Case 322 False [(58, 58, St 306), (93, 93, St 236), (48, 57, St 320), (65, 70, St 304), (97, 102, St 304)] (St 0),
     Case 323 False [(48, 48, St 320), (58, 58, St 306), (93, 93, St 236), (49, 57, St 304), (65, 70, St 304),
       (97, 102, St 304)] (St 0),
     Case 324 False [(58, 58, St 306), (93, 93, St 236), (48, 57, St 303), (65, 70, St 303), (97, 102, St 303)] (St 0),
     Case 325 False [(49, 49, St 318), (50, 50, St 321), (2, 3, St 223), (48, 57, St 302), (65, 70, St 324),
       (97, 102, St 324)] (St 0),
     Case 326 False [(49, 49, St 331), (50, 50, St 334), (2, 3, St 223), (48, 57, St 327), (65, 70, St 337),
       (97, 102, St 337)] (St 0),
     Case 327 False [(46, 46, St 230), (58, 58, St 306), (48, 57, St 328), (65, 70, St 328), (97, 102, St 328)] (St 0),
     Case 328 False [(48, 57, St 329), (58, 58, St 306), (65, 70, St 329), (97, 102, St 329)] (St 0)]"

definition h11_42 :: "rq_action block list" where
  "h11_42 = [
     Case 329 False [(48, 57, St 330), (58, 58, St 306), (65, 70, St 330), (97, 102, St 330)] (St 0),
     Case 330 False [(58, 58, St 306)] (St 0),
     Case 331 False [(46, 46, St 230), (58, 58, St 306), (48, 57, St 332), (65, 70, St 328), (97, 102, St 328)] (St 0),
     Case 332 False [(46, 46, St 230), (58, 58, St 306), (48, 57, St 333), (65, 70, St 329), (97, 102, St 329)] (St 0),
     Case 333 False [(46, 46, St 230), (58, 58, St 306), (48, 57, St 330), (65, 70, St 330), (97, 102, St 330)] (St 0),
     Case 334 False [(46, 46, St 230), (48, 48, St 335), (53, 53, St 336), (58, 58, St 306), (49, 57, St 328),
       (65, 70, St 328), (97, 102, St 328)] (St 0),
     Case 335 False [(48, 57, St 333), (58, 58, St 306), (65, 70, St 329), (97, 102, St 329)] (St 0),
     Case 336 False [(48, 48, St 333), (58, 58, St 306), (49, 57, St 329), (65, 70, St 329), (97, 102, St 329)] (St 0),
     Case 337 False [(48, 57, St 328), (58, 58, St 306), (65, 70, St 328), (97, 102, St 328)] (St 0)]"

definition h11_43 :: "rq_action block list" where
  "h11_43 = [
     Case 338 False [(2, 3, St 223), (48, 57, St 224), (65, 70, St 224), (97, 102, St 224)] (St 0),
     Case 339 False [(2, 3, St 223)] (St 0),
     Case 340 False [(3, 3, St 223)] (St 0),
     Case 341 False [(4, 4, St 223)] (St 0),
     Case 342 False [(58, 58, St 343)] (St 0),
     Case 343 False [(49, 49, St 318), (50, 50, St 321), (93, 93, St 236), (2, 5, St 223), (48, 57, St 302),
       (65, 70, St 324), (97, 102, St 324)] (St 0),
     Case 344 False [(48, 57, St 345), (65, 70, St 345), (97, 102, St 345)] (St 0),
     Case 345 False [(46, 46, St 346), (48, 57, St 345), (65, 70, St 345), (97, 102, St 345)] (St 0),
     Case 346 True [(33, 33, St 347), (36, 36, St 347), (61, 61, St 347), (95, 95, St 347), (126, 126, St 347),
       (606, 606, St 347), (635, 635, St 347), (637, 637, St 347), (38, 46, St 347), (48, 59, St 347), (65, 90, St 347),
       (97, 122, St 347)] (St 0)]"

definition h11_44 :: "rq_action block list" where
  "h11_44 = [
     Case 347 True [(33, 33, St 347), (36, 36, St 347), (61, 61, St 347), (93, 93, St 236), (95, 95, St 347),
       (126, 126, St 347), (606, 606, St 347), (635, 635, St 347), (637, 637, St 347), (38, 46, St 347),
       (48, 59, St 347), (65, 90, St 347), (97, 122, St 347)] (St 0)]"

definition h11_machine :: "rq_action block list" where
  "h11_machine =
     h11_1 @ h11_2 @ h11_3 @ h11_4 @ h11_5 @ h11_6 @ h11_7 @ h11_8 @
     h11_9 @ h11_10 @ h11_11 @ h11_12 @ h11_13 @ h11_14 @ h11_15 @ h11_16 @
     h11_17 @ h11_18 @ h11_19 @ h11_20 @ h11_21 @ h11_22 @ h11_23 @ h11_24 @
     h11_25 @ h11_26 @ h11_27 @ h11_28 @ h11_29 @ h11_30 @ h11_31 @ h11_32 @
     h11_33 @ h11_34 @ h11_35 @ h11_36 @ h11_37 @ h11_38 @ h11_39 @ h11_40 @
     h11_41 @ h11_42 @ h11_43 @ h11_44"

lemmas h11_defs = h11_machine_def
  h11_1_def h11_2_def h11_3_def h11_4_def h11_5_def h11_6_def h11_7_def h11_8_def
  h11_9_def h11_10_def h11_11_def h11_12_def h11_13_def h11_14_def h11_15_def h11_16_def
  h11_17_def h11_18_def h11_19_def h11_20_def h11_21_def h11_22_def h11_23_def h11_24_def
  h11_25_def h11_26_def h11_27_def h11_28_def h11_29_def h11_30_def h11_31_def h11_32_def
  h11_33_def h11_34_def h11_35_def h11_36_def h11_37_def h11_38_def h11_39_def h11_40_def
  h11_41_def h11_42_def h11_43_def h11_44_def

end
