(* ===== verification/Httpclient_Table.thy ===== *)
theory Httpclient_Table
  imports Ragel_Machine
begin

text \<open>
  The state machine of responses and chunk headers, block by block as in \<open>http/httpclient_parser.rl.cc\<close>; the actions are
  those of \<open>http/httpclient_parser.rl\<close>.
\<close>


datatype rs_action =
    CMark | CStart_field | CWrite_field | CStart_value | CWrite_value | Write_content_len | Write_connection_close
  | Reason_phrase | Status_code | CHttp_version | Chunk_size | Trans_chunked | CDone

definition hcl_1 :: "rs_action block list" where
  "hcl_1 = [
     Case 1 False [(48, 57, Tr 0), (65, 70, Tr 0), (72, 72, Tr 2), (97, 102, Tr 0)] (St 0),
     Block 0 [CMark] 2,
     Case 2 False [(10, 10, Tr 3), (13, 13, Tr 4), (59, 59, Tr 6), (48, 57, St 2), (65, 70, St 2),
       (97, 102, St 2)] (St 0),
     Block 3 [Chunk_size, CDone] 120,
     Block 7 [CDone] 120,
     Block 9 [CWrite_field, CStart_value, CWrite_value, CDone] 120,
     Block 15 [CWrite_value, CDone] 120,
     Block 74 [Write_connection_close, CDone] 120,
     Case 120 False [] (St 0),
     Block 4 [Chunk_size] 3]"

definition hcl_2 :: "rs_action block list" where
  "hcl_2 = [
     Block 10 [CWrite_field, CStart_value, CWrite_value] 3,
     Block 16 [CWrite_value] 3,
     Block 75 [Write_connection_close] 3,
     Case 3 False [(10, 10, Tr 7)] (St 0),
     Block 6 [Chunk_size] 4,
     Block 12 [CWrite_field, CStart_value, CWrite_value] 4,
     Block 18 [CWrite_value] 4,
     Case 4 False [(33, 33, Tr 8), (124, 124, Tr 8), (126, 126, Tr 8), (35, 39, Tr 8), (42, 43, Tr 8), (45, 46, Tr 8),
       (48, 57, Tr 8), (65, 90, Tr 8), (94, 122, Tr 8)] (St 0),
     Block 8 [CStart_field] 5,
     Case 5 False [(10, 10, Tr 9), (13, 13, Tr 10), (33, 33, St 5), (59, 59, Tr 12), (61, 61, Tr 13), (124, 124, St 5),
       (126, 126, St 5), (35, 39, St 5), (42, 43, St 5), (45, 46, St 5), (48, 57, St 5), (65, 90, St 5),
       (94, 122, St 5)] (St 0),
     Block 13 [CWrite_field, CStart_value] 6]"

definition hcl_3 :: "rs_action block list" where
  "hcl_3 = [
     Case 6 False [(33, 33, Tr 14), (124, 124, Tr 14), (126, 126, Tr 14), (35, 39, Tr 14), (42, 43, Tr 14),
       (45, 46, Tr 14), (48, 57, Tr 14), (65, 90, Tr 14), (94, 122, Tr 14)] (St 0),
     Block 14 [CStart_value] 7,
     Case 7 False [(10, 10, Tr 15), (13, 13, Tr 16), (33, 33, St 7), (59, 59, Tr 18), (124, 124, St 7),
       (126, 126, St 7), (35, 39, St 7), (42, 43, St 7), (45, 46, St 7), (48, 57, St 7), (65, 90, St 7),
       (94, 122, St 7)] (St 0),
     Block 2 [CMark] 8,
     Case 8 False [(84, 84, St 9)] (St 0),
     Case 9 False [(84, 84, St 10)] (St 0),
     Case 10 False [(80, 80, St 11)] (St 0),
     Case 11 False [(47, 47, St 12)] (St 0),
     Case 12 False [(48, 57, St 13)] (St 0),
     Case 13 False [(46, 46, St 14), (48, 57, St 13)] (St 0),
     Case 14 False [(48, 57, St 15)] (St 0),
     Case 15 False [(32, 32, Tr 26), (48, 57, St 15)] (St 0),
     Block 26 [CHttp_version] 16,
     Case 16 False [(48, 57, Tr 27)] (St 0),
     Block 27 [CMark] 17]"

definition hcl_4 :: "rs_action block list" where
  "hcl_4 = [
     Case 17 False [(32, 32, Tr 28), (48, 57, St 17)] (St 0),
     Block 28 [Status_code] 18,
     Case 18 False [(10, 10, St 0)] (Tr 30),
     Block 30 [CMark] 19,
     Case 19 False [(10, 10, Tr 32), (13, 13, Tr 33)] (St 19),
     Block 45 [CWrite_value] 20,
     Block 32 [Reason_phrase] 20,
     Block 42 [CStart_value, CWrite_value] 20,
     Block 111 [CWrite_value, Trans_chunked] 20,
     Block 113 [Trans_chunked] 20,
     Block 158 [Write_content_len, CWrite_value] 20,
     Case 20 False [(10, 10, Tr 7), (13, 13, St 3), (33, 33, Tr 35), (67, 67, Tr 36), (84, 84, Tr 37), (99, 99, Tr 36),
       (116, 116, Tr 37), (124, 124, Tr 35), (126, 126, Tr 35), (35, 39, Tr 35), (42, 43, Tr 35), (45, 46, Tr 35),
       (48, 57, Tr 35), (65, 90, Tr 35), (94, 122, Tr 35)] (St 0),
     Block 35 [CStart_field] 21,
     Block 76 [Write_connection_close, CStart_field] 21]"

definition hcl_5 :: "rs_action block list" where
  "hcl_5 = [
     Case 21 False [(33, 33, St 21), (58, 58, Tr 39), (124, 124, St 21), (126, 126, St 21), (35, 39, St 21),
       (42, 43, St 21), (45, 46, St 21), (48, 57, St 21), (65, 90, St 21), (94, 122, St 21)] (St 0),
     Block 41 [CStart_value] 22,
     Block 39 [CWrite_field] 22,
     Case 22 False [(10, 10, Tr 42), (13, 13, Tr 43), (32, 32, Tr 41), (9, 12, Tr 41)] (Tr 40),
     Block 40 [CStart_value] 23,
     Case 23 False [(10, 10, Tr 45), (13, 13, Tr 46)] (St 23),
     Block 46 [CWrite_value] 24,
     Block 33 [Reason_phrase] 24,
     Block 43 [CStart_value, CWrite_value] 24,
     Block 159 [Write_content_len, CWrite_value] 24,
     Case 24 False [(10, 10, St 20)] (St 0),
     Block 36 [CStart_field] 25,
     Block 77 [Write_connection_close, CStart_field] 25]"

definition hcl_6 :: "rs_action block list" where
  "hcl_6 = [
     Case 25 False [(33, 33, St 21), (58, 58, Tr 39), (79, 79, St 26), (111, 111, St 26), (124, 124, St 21),
       (126, 126, St 21), (35, 39, St 21), (42, 43, St 21), (45, 46, St 21), (48, 57, St 21), (65, 90, St 21),
       (94, 122, St 21)] (St 0),
     Case 26 False [(33, 33, St 21), (58, 58, Tr 39), (78, 78, St 27), (110, 110, St 27), (124, 124, St 21),
       (126, 126, St 21), (35, 39, St 21), (42, 43, St 21), (45, 46, St 21), (48, 57, St 21), (65, 90, St 21),
       (94, 122, St 21)] (St 0),
     Case 27 False [(33, 33, St 21), (58, 58, Tr 39), (78, 78, St 28), (84, 84, St 101), (110, 110, St 28),
       (116, 116, St 101), (124, 124, St 21), (126, 126, St 21), (35, 39, St 21), (42, 43, St 21), (45, 46, St 21),
       (48, 57, St 21), (65, 90, St 21), (94, 122, St 21)] (St 0),
     Case 28 False [(33, 33, St 21), (58, 58, Tr 39), (69, 69, St 29), (101, 101, St 29), (124, 124, St 21),
       (126, 126, St 21), (35, 39, St 21), (42, 43, St 21), (45, 46, St 21), (48, 57, St 21), (65, 90, St 21),
       (94, 122, St 21)] (St 0),
     Case 29 False [(33, 33, St 21), (58, 58, Tr 39), (67, 67, St 30), (99, 99, St 30), (124, 124, St 21),
       (126, 126, St 21), (35, 39, St 21), (42, 43, St 21), (45, 46, St 21), (48, 57, St 21), (65, 90, St 21),
       (94, 122, St 21)] (St 0)]"

definition hcl_7 :: "rs_action block list" where
  "hcl_7 = [
     Case 30 False [(33, 33, St 21), (58, 58, Tr 39), (84, 84, St 31), (116, 116, St 31), (124, 124, St 21),
       (126, 126, St 21), (35, 39, St 21), (42, 43, St 21), (45, 46, St 21), (48, 57, St 21), (65, 90, St 21),
       (94, 122, St 21)] (St 0),
     Case 31 False [(33, 33, St 21), (58, 58, Tr 39), (73, 73, St 32), (105, 105, St 32), (124, 124, St 21),
       (126, 126, St 21), (35, 39, St 21), (42, 43, St 21), (45, 46, St 21), (48, 57, St 21), (65, 90, St 21),
       (94, 122, St 21)] (St 0),
     Case 32 False [(33, 33, St 21), (58, 58, Tr 39), (79, 79, St 33), (111, 111, St 33), (124, 124, St 21),
       (126, 126, St 21), (35, 39, St 21), (42, 43, St 21), (45, 46, St 21), (48, 57, St 21), (65, 90, St 21),
       (94, 122, St 21)] (St 0),
     Case 33 False [(33, 33, St 21), (58, 58, Tr 39), (78, 78, St 34), (110, 110, St 34), (124, 124, St 21),
       (126, 126, St 21), (35, 39, St 21), (42, 43, St 21), (45, 46, St 21), (48, 57, St 21), (65, 90, St 21),
       (94, 122, St 21)] (St 0),
     Case 34 False [(33, 33, St 21), (58, 58, Tr 58), (124, 124, St 21), (126, 126, St 21), (35, 39, St 21),
       (42, 43, St 21), (45, 46, St 21), (48, 57, St 21), (65, 90, St 21), (94, 122, St 21)] (St 0)]"

definition hcl_8 :: "rs_action block list" where
  "hcl_8 = [
     Block 59 [CStart_value] 35,
     Block 58 [CWrite_field] 35,
     Case 35 False [(10, 10, Tr 60), (13, 13, Tr 61), (32, 32, Tr 59), (67, 67, Tr 62), (99, 99, Tr 62),
       (9, 12, Tr 59)] (Tr 40),
     Block 60 [CStart_value, CWrite_value] 36,
     Case 36 False [(10, 10, Tr 64), (13, 13, St 89), (32, 32, St 37), (33, 33, Tr 35), (67, 67, Tr 66),
       (84, 84, Tr 37), (99, 99, Tr 66), (116, 116, Tr 37), (124, 124, Tr 35), (126, 126, Tr 35), (9, 12, St 37),
       (35, 39, Tr 35), (42, 43, Tr 35), (45, 46, Tr 35), (48, 57, Tr 35), (65, 90, Tr 35), (94, 122, Tr 35)] (St 0),
     Case 37 False [(32, 32, St 37), (67, 67, St 38), (99, 99, St 38), (9, 13, St 37)] (St 0),
     Case 38 False [(76, 76, St 39), (108, 108, St 39)] (St 0),
     Case 39 False [(79, 79, St 40), (111, 111, St 40)] (St 0),
     Case 40 False [(83, 83, St 41), (115, 115, St 41)] (St 0),
     Case 41 False [(69, 69, St 42), (101, 101, St 42)] (St 0),
     Case 42 False [(10, 10, St 43), (13, 13, St 88)] (St 0),
     Block 136 [CWrite_value] 43]"

definition hcl_9 :: "rs_action block list" where
  "hcl_9 = [
     Case 43 False [(10, 10, Tr 74), (13, 13, Tr 75), (33, 33, Tr 76), (67, 67, Tr 77), (84, 84, Tr 78),
       (99, 99, Tr 77), (116, 116, Tr 78), (124, 124, Tr 76), (126, 126, Tr 76), (35, 39, Tr 76), (42, 43, Tr 76),
       (45, 46, Tr 76), (48, 57, Tr 76), (65, 90, Tr 76), (94, 122, Tr 76)] (St 0),
     Block 37 [CStart_field] 44,
     Block 78 [Write_connection_close, CStart_field] 44,
     Case 44 False [(33, 33, St 21), (58, 58, Tr 39), (82, 82, St 45), (114, 114, St 45), (124, 124, St 21),
       (126, 126, St 21), (35, 39, St 21), (42, 43, St 21), (45, 46, St 21), (48, 57, St 21), (65, 90, St 21),
       (94, 122, St 21)] (St 0),
     Case 45 False [(33, 33, St 21), (58, 58, Tr 39), (65, 65, St 46), (97, 97, St 46), (124, 124, St 21),
       (126, 126, St 21), (35, 39, St 21), (42, 43, St 21), (45, 46, St 21), (48, 57, St 21), (66, 90, St 21),
       (94, 122, St 21)] (St 0),
     Case 46 False [(33, 33, St 21), (58, 58, Tr 39), (78, 78, St 47), (110, 110, St 47), (124, 124, St 21),
       (126, 126, St 21), (35, 39, St 21), (42, 43, St 21), (45, 46, St 21), (48, 57, St 21), (65, 90, St 21),
       (94, 122, St 21)] (St 0)]"

definition hcl_10 :: "rs_action block list" where
  "hcl_10 = [
     Case 47 False [(33, 33, St 21), (58, 58, Tr 39), (83, 83, St 48), (115, 115, St 48), (124, 124, St 21),
       (126, 126, St 21), (35, 39, St 21), (42, 43, St 21), (45, 46, St 21), (48, 57, St 21), (65, 90, St 21),
       (94, 122, St 21)] (St 0),
     Case 48 False [(33, 33, St 21), (58, 58, Tr 39), (70, 70, St 49), (102, 102, St 49), (124, 124, St 21),
       (126, 126, St 21), (35, 39, St 21), (42, 43, St 21), (45, 46, St 21), (48, 57, St 21), (65, 90, St 21),
       (94, 122, St 21)] (St 0),
     Case 49 False [(33, 33, St 21), (58, 58, Tr 39), (69, 69, St 50), (101, 101, St 50), (124, 124, St 21),
       (126, 126, St 21), (35, 39, St 21), (42, 43, St 21), (45, 46, St 21), (48, 57, St 21), (65, 90, St 21),
       (94, 122, St 21)] (St 0),
     Case 50 False [(33, 33, St 21), (58, 58, Tr 39), (82, 82, St 51), (114, 114, St 51), (124, 124, St 21),
       (126, 126, St 21), (35, 39, St 21), (42, 43, St 21), (45, 46, St 21), (48, 57, St 21), (65, 90, St 21),
       (94, 122, St 21)] (St 0),
     Case 51 False [(33, 33, St 21), (45, 45, St 52), (46, 46, St 21), (58, 58, Tr 39), (124, 124, St 21),
       (126, 126, St 21), (35, 39, St 21), (42, 43, St 21), (48, 57, St 21), (65, 90, St 21), (94, 122, St 21)] (St 0)]"

definition hcl_11 :: "rs_action block list" where
  "hcl_11 = [
     Case 52 False [(33, 33, St 21), (58, 58, Tr 39), (69, 69, St 53), (101, 101, St 53), (124, 124, St 21),
       (126, 126, St 21), (35, 39, St 21), (42, 43, St 21), (45, 46, St 21), (48, 57, St 21), (65, 90, St 21),
       (94, 122, St 21)] (St 0),
     Case 53 False [(33, 33, St 21), (58, 58, Tr 39), (78, 78, St 54), (110, 110, St 54), (124, 124, St 21),
       (126, 126, St 21), (35, 39, St 21), (42, 43, St 21), (45, 46, St 21), (48, 57, St 21), (65, 90, St 21),
       (94, 122, St 21)] (St 0),
     Case 54 False [(33, 33, St 21), (58, 58, Tr 39), (67, 67, St 55), (99, 99, St 55), (124, 124, St 21),
       (126, 126, St 21), (35, 39, St 21), (42, 43, St 21), (45, 46, St 21), (48, 57, St 21), (65, 90, St 21),
       (94, 122, St 21)] (St 0),
     Case 55 False [(33, 33, St 21), (58, 58, Tr 39), (79, 79, St 56), (111, 111, St 56), (124, 124, St 21),
       (126, 126, St 21), (35, 39, St 21), (42, 43, St 21), (45, 46, St 21), (48, 57, St 21), (65, 90, St 21),
       (94, 122, St 21)] (St 0),
     Case 56 False [(33, 33, St 21), (58, 58, Tr 39), (68, 68, St 57), (100, 100, St 57), (124, 124, St 21),
       (126, 126, St 21), (35, 39, St 21), (42, 43, St 21), (45, 46, St 21), (48, 57, St 21), (65, 90, St 21),
       (94, 122, St 21)] (St 0)]"

definition hcl_12 :: "rs_action block list" where
  "hcl_12 = [
     Case 57 False [(33, 33, St 21), (58, 58, Tr 39), (73, 73, St 58), (105, 105, St 58), (124, 124, St 21),
       (126, 126, St 21), (35, 39, St 21), (42, 43, St 21), (45, 46, St 21), (48, 57, St 21), (65, 90, St 21),
       (94, 122, St 21)] (St 0),
     Case 58 False [(33, 33, St 21), (58, 58, Tr 39), (78, 78, St 59), (110, 110, St 59), (124, 124, St 21),
       (126, 126, St 21), (35, 39, St 21), (42, 43, St 21), (45, 46, St 21), (48, 57, St 21), (65, 90, St 21),
       (94, 122, St 21)] (St 0),
     Case 59 False [(33, 33, St 21), (58, 58, Tr 39), (71, 71, St 60), (103, 103, St 60), (124, 124, St 21),
       (126, 126, St 21), (35, 39, St 21), (42, 43, St 21), (45, 46, St 21), (48, 57, St 21), (65, 90, St 21),
       (94, 122, St 21)] (St 0),
     Case 60 False [(33, 33, St 21), (58, 58, Tr 95), (124, 124, St 21), (126, 126, St 21), (35, 39, St 21),
       (42, 43, St 21), (45, 46, St 21), (48, 57, St 21), (65, 90, St 21), (94, 122, St 21)] (St 0),
     Block 96 [CStart_value] 61,
     Block 95 [CWrite_field] 61,
     Case 61 False [(10, 10, Tr 97), (13, 13, Tr 98), (32, 32, Tr 96), (67, 67, Tr 99), (99, 99, Tr 99),
       (9, 12, Tr 96)] (Tr 40),
     Block 97 [CStart_value, CWrite_value] 62]"

definition hcl_13 :: "rs_action block list" where
  "hcl_13 = [
     Case 62 False [(10, 10, Tr 101), (13, 13, St 72), (32, 32, St 63), (33, 33, Tr 35), (67, 67, Tr 103),
       (84, 84, Tr 37), (99, 99, Tr 103), (116, 116, Tr 37), (124, 124, Tr 35), (126, 126, Tr 35), (9, 12, St 63),
       (35, 39, Tr 35), (42, 43, Tr 35), (45, 46, Tr 35), (48, 57, Tr 35), (65, 90, Tr 35), (94, 122, Tr 35)] (St 0),
     Case 63 False [(32, 32, St 63), (67, 67, Tr 104), (99, 99, Tr 104), (9, 13, St 63)] (St 0),
     Block 104 [CStart_value] 64,
     Case 64 False [(72, 72, St 65), (104, 104, St 65)] (St 0),
     Case 65 False [(85, 85, St 66), (117, 117, St 66)] (St 0),
     Case 66 False [(78, 78, St 67), (110, 110, St 67)] (St 0),
     Case 67 False [(75, 75, St 68), (107, 107, St 68)] (St 0),
     Case 68 False [(69, 69, St 69), (101, 101, St 69)] (St 0),
     Case 69 False [(68, 68, St 70), (100, 100, St 70)] (St 0),
     Case 70 False [(10, 10, Tr 111), (13, 13, Tr 112)] (St 0),
     Block 112 [CWrite_value] 71,
     Case 71 False [(10, 10, Tr 113)] (St 0),
     Block 101 [CDone] 121]"

definition hcl_14 :: "rs_action block list" where
  "hcl_14 = [
     Case 121 False [(32, 32, St 63), (67, 67, Tr 104), (99, 99, Tr 104), (9, 13, St 63)] (St 0),
     Case 72 False [(10, 10, Tr 101), (32, 32, St 63), (67, 67, Tr 104), (99, 99, Tr 104), (9, 13, St 63)] (St 0),
     Block 103 [CStart_value, CStart_field] 73,
     Case 73 False [(33, 33, St 21), (58, 58, Tr 39), (72, 72, St 74), (79, 79, St 26), (104, 104, St 74),
       (111, 111, St 26), (124, 124, St 21), (126, 126, St 21), (35, 39, St 21), (42, 43, St 21), (45, 46, St 21),
       (48, 57, St 21), (65, 90, St 21), (94, 122, St 21)] (St 0),
     Case 74 False [(33, 33, St 21), (58, 58, Tr 39), (85, 85, St 75), (117, 117, St 75), (124, 124, St 21),
       (126, 126, St 21), (35, 39, St 21), (42, 43, St 21), (45, 46, St 21), (48, 57, St 21), (65, 90, St 21),
       (94, 122, St 21)] (St 0),
     Case 75 False [(33, 33, St 21), (58, 58, Tr 39), (78, 78, St 76), (110, 110, St 76), (124, 124, St 21),
       (126, 126, St 21), (35, 39, St 21), (42, 43, St 21), (45, 46, St 21), (48, 57, St 21), (65, 90, St 21),
       (94, 122, St 21)] (St 0)]"

definition hcl_15 :: "rs_action block list" where
  "hcl_15 = [
     Case 76 False [(33, 33, St 21), (58, 58, Tr 39), (75, 75, St 77), (107, 107, St 77), (124, 124, St 21),
       (126, 126, St 21), (35, 39, St 21), (42, 43, St 21), (45, 46, St 21), (48, 57, St 21), (65, 90, St 21),
       (94, 122, St 21)] (St 0),
     Case 77 False [(33, 33, St 21), (58, 58, Tr 39), (69, 69, St 78), (101, 101, St 78), (124, 124, St 21),
       (126, 126, St 21), (35, 39, St 21), (42, 43, St 21), (45, 46, St 21), (48, 57, St 21), (65, 90, St 21),
       (94, 122, St 21)] (St 0),
     Case 78 False [(33, 33, St 21), (58, 58, Tr 39), (68, 68, St 79), (100, 100, St 79), (124, 124, St 21),
       (126, 126, St 21), (35, 39, St 21), (42, 43, St 21), (45, 46, St 21), (48, 57, St 21), (65, 90, St 21),
       (94, 122, St 21)] (St 0),
     Case 79 False [(10, 10, Tr 111), (13, 13, Tr 112), (33, 33, St 21), (58, 58, Tr 39), (124, 124, St 21),
       (126, 126, St 21), (35, 39, St 21), (42, 43, St 21), (45, 46, St 21), (48, 57, St 21), (65, 90, St 21),
       (94, 122, St 21)] (St 0),
     Block 98 [CStart_value, CWrite_value] 80,
     Case 80 False [(10, 10, St 62), (32, 32, St 63), (67, 67, Tr 104), (99, 99, Tr 104), (9, 13, St 63)] (St 0),
     Block 99 [CStart_value] 81]"

definition hcl_16 :: "rs_action block list" where
  "hcl_16 = [
     Case 81 False [(10, 10, Tr 45), (13, 13, Tr 46), (72, 72, St 82), (104, 104, St 82)] (St 23),
     Case 82 False [(10, 10, Tr 45), (13, 13, Tr 46), (85, 85, St 83), (117, 117, St 83)] (St 23),
     Case 83 False [(10, 10, Tr 45), (13, 13, Tr 46), (78, 78, St 84), (110, 110, St 84)] (St 23),
     Case 84 False [(10, 10, Tr 45), (13, 13, Tr 46), (75, 75, St 85), (107, 107, St 85)] (St 23),
     Case 85 False [(10, 10, Tr 45), (13, 13, Tr 46), (69, 69, St 86), (101, 101, St 86)] (St 23),
     Case 86 False [(10, 10, Tr 45), (13, 13, Tr 46), (68, 68, St 87), (100, 100, St 87)] (St 23),
     Case 87 False [(10, 10, Tr 111), (13, 13, Tr 112)] (St 23),
     Block 137 [CWrite_value] 88,
     Case 88 False [(10, 10, St 43)] (St 0),
     Block 64 [CDone] 122,
     Case 122 False [(32, 32, St 37), (67, 67, St 38), (99, 99, St 38), (9, 13, St 37)] (St 0),
     Case 89 False [(10, 10, Tr 64), (32, 32, St 37), (67, 67, St 38), (99, 99, St 38), (9, 13, St 37)] (St 0),
     Block 66 [CStart_field] 90]"

definition hcl_17 :: "rs_action block list" where
  "hcl_17 = [
     Case 90 False [(33, 33, St 21), (58, 58, Tr 39), (76, 76, St 91), (79, 79, St 26), (108, 108, St 91),
       (111, 111, St 26), (124, 124, St 21), (126, 126, St 21), (35, 39, St 21), (42, 43, St 21), (45, 46, St 21),
       (48, 57, St 21), (65, 90, St 21), (94, 122, St 21)] (St 0),
     Case 91 False [(33, 33, St 21), (58, 58, Tr 39), (79, 79, St 92), (111, 111, St 92), (124, 124, St 21),
       (126, 126, St 21), (35, 39, St 21), (42, 43, St 21), (45, 46, St 21), (48, 57, St 21), (65, 90, St 21),
       (94, 122, St 21)] (St 0),
     Case 92 False [(33, 33, St 21), (58, 58, Tr 39), (83, 83, St 93), (115, 115, St 93), (124, 124, St 21),
       (126, 126, St 21), (35, 39, St 21), (42, 43, St 21), (45, 46, St 21), (48, 57, St 21), (65, 90, St 21),
       (94, 122, St 21)] (St 0),
     Case 93 False [(33, 33, St 21), (58, 58, Tr 39), (69, 69, St 94), (101, 101, St 94), (124, 124, St 21),
       (126, 126, St 21), (35, 39, St 21), (42, 43, St 21), (45, 46, St 21), (48, 57, St 21), (65, 90, St 21),
       (94, 122, St 21)] (St 0),
     Case 94 False [(10, 10, St 43), (13, 13, St 88), (33, 33, St 21), (58, 58, Tr 39), (124, 124, St 21),
       (126, 126, St 21), (35, 39, St 21), (42, 43, St 21), (45, 46, St 21), (48, 57, St 21), (65, 90, St 21),
       (94, 122, St 21)] (St 0)]"

definition hcl_18 :: "rs_action block list" where
  "hcl_18 = [
     Block 61 [CStart_value, CWrite_value] 95,
     Case 95 False [(10, 10, St 36), (32, 32, St 37), (67, 67, St 38), (99, 99, St 38), (9, 13, St 37)] (St 0),
     Block 62 [CStart_value] 96,
     Case 96 False [(10, 10, Tr 45), (13, 13, Tr 46), (76, 76, St 97), (108, 108, St 97)] (St 23),
     Case 97 False [(10, 10, Tr 45), (13, 13, Tr 46), (79, 79, St 98), (111, 111, St 98)] (St 23),
     Case 98 False [(10, 10, Tr 45), (13, 13, Tr 46), (83, 83, St 99), (115, 115, St 99)] (St 23),
     Case 99 False [(10, 10, Tr 45), (13, 13, Tr 46), (69, 69, St 100), (101, 101, St 100)] (St 23),
     Case 100 False [(10, 10, Tr 136), (13, 13, Tr 137)] (St 23),
     Case 101 False [(33, 33, St 21), (58, 58, Tr 39), (69, 69, St 102), (101, 101, St 102), (124, 124, St 21),
       (126, 126, St 21), (35, 39, St 21), (42, 43, St 21), (45, 46, St 21), (48, 57, St 21), (65, 90, St 21),
       (94, 122, St 21)] (St 0),
     Case 102 False [(33, 33, St 21), (58, 58, Tr 39), (78, 78, St 103), (110, 110, St 103), (124, 124, St 21),
       (126, 126, St 21), (35, 39, St 21), (42, 43, St 21), (45, 46, St 21), (48, 57, St 21), (65, 90, St 21),
       (94, 122, St 21)] (St 0)]"

definition hcl_19 :: "rs_action block list" where
  "hcl_19 = [
     Case 103 False [(33, 33, St 21), (58, 58, Tr 39), (84, 84, St 104), (116, 116, St 104), (124, 124, St 21),
       (126, 126, St 21), (35, 39, St 21), (42, 43, St 21), (45, 46, St 21), (48, 57, St 21), (65, 90, St 21),
       (94, 122, St 21)] (St 0),
     Case 104 False [(33, 33, St 21), (45, 45, St 105), (46, 46, St 21), (58, 58, Tr 39), (124, 124, St 21),
       (126, 126, St 21), (35, 39, St 21), (42, 43, St 21), (48, 57, St 21), (65, 90, St 21), (94, 122, St 21)] (St 0),
     Case 105 False [(33, 33, St 21), (58, 58, Tr 39), (76, 76, St 106), (108, 108, St 106), (124, 124, St 21),
       (126, 126, St 21), (35, 39, St 21), (42, 43, St 21), (45, 46, St 21), (48, 57, St 21), (65, 90, St 21),
       (94, 122, St 21)] (St 0),
     Case 106 False [(33, 33, St 21), (58, 58, Tr 39), (69, 69, St 107), (101, 101, St 107), (124, 124, St 21),
       (126, 126, St 21), (35, 39, St 21), (42, 43, St 21), (45, 46, St 21), (48, 57, St 21), (65, 90, St 21),
       (94, 122, St 21)] (St 0),
     Case 107 False [(33, 33, St 21), (58, 58, Tr 39), (78, 78, St 108), (110, 110, St 108), (124, 124, St 21),
       (126, 126, St 21), (35, 39, St 21), (42, 43, St 21), (45, 46, St 21), (48, 57, St 21), (65, 90, St 21),
       (94, 122, St 21)] (St 0)]"

definition hcl_20 :: "rs_action block list" where
  "hcl_20 = [
     Case 108 False [(33, 33, St 21), (58, 58, Tr 39), (71, 71, St 109), (103, 103, St 109), (124, 124, St 21),
       (126, 126, St 21), (35, 39, St 21), (42, 43, St 21), (45, 46, St 21), (48, 57, St 21), (65, 90, St 21),
       (94, 122, St 21)] (St 0),
     Case 109 False [(33, 33, St 21), (58, 58, Tr 39), (84, 84, St 110), (116, 116, St 110), (124, 124, St 21),
       (126, 126, St 21), (35, 39, St 21), (42, 43, St 21), (45, 46, St 21), (48, 57, St 21), (65, 90, St 21),
       (94, 122, St 21)] (St 0),
     Case 110 False [(33, 33, St 21), (58, 58, Tr 39), (72, 72, St 111), (104, 104, St 111), (124, 124, St 21),
       (126, 126, St 21), (35, 39, St 21), (42, 43, St 21), (45, 46, St 21), (48, 57, St 21), (65, 90, St 21),
       (94, 122, St 21)] (St 0),
     Case 111 False [(33, 33, St 21), (58, 58, Tr 148), (124, 124, St 21), (126, 126, St 21), (35, 39, St 21),
       (42, 43, St 21), (45, 46, St 21), (48, 57, St 21), (65, 90, St 21), (94, 122, St 21)] (St 0),
     Block 149 [CStart_value] 112,
     Block 148 [CWrite_field] 112,
     Case 112 False [(10, 10, Tr 150), (13, 13, Tr 151), (32, 32, Tr 149), (9, 12, Tr 149), (48, 57, Tr 152)] (Tr 40)]"

definition hcl_21 :: "rs_action block list" where
  "hcl_21 = [
     Block 150 [CStart_value, CWrite_value] 113,
     Case 113 False [(10, 10, Tr 154), (13, 13, St 116), (32, 32, St 114), (33, 33, Tr 35), (67, 67, Tr 36),
       (84, 84, Tr 37), (99, 99, Tr 36), (116, 116, Tr 37), (124, 124, Tr 35), (126, 126, Tr 35), (9, 12, St 114),
       (35, 39, Tr 35), (42, 43, Tr 35), (45, 46, Tr 35), (48, 57, Tr 156), (65, 90, Tr 35), (94, 122, Tr 35)] (St 0),
     Case 114 False [(9, 13, St 114), (32, 32, St 114), (48, 57, Tr 157)] (St 0),
     Block 157 [CStart_value] 115,
     Case 115 False [(10, 10, Tr 158), (13, 13, Tr 159), (48, 57, St 115)] (St 0),
     Block 154 [CDone] 123,
     Case 123 False [(9, 13, St 114), (32, 32, St 114), (48, 57, Tr 157)] (St 0),
     Case 116 False [(10, 10, Tr 154), (32, 32, St 114), (9, 13, St 114), (48, 57, Tr 157)] (St 0),
     Block 156 [CStart_value, CStart_field] 117,
     Case 117 False [(10, 10, Tr 158), (13, 13, Tr 159), (33, 33, St 21), (58, 58, Tr 39), (124, 124, St 21),
       (126, 126, St 21), (35, 39, St 21), (42, 43, St 21), (45, 46, St 21), (48, 57, St 117), (65, 90, St 21),
       (94, 122, St 21)] (St 0)]"

definition hcl_22 :: "rs_action block list" where
  "hcl_22 = [
     Block 151 [CStart_value, CWrite_value] 118,
     Case 118 False [(10, 10, St 113), (32, 32, St 114), (9, 13, St 114), (48, 57, Tr 157)] (St 0),
     Block 152 [CStart_value] 119,
     Case 119 False [(10, 10, Tr 158), (13, 13, Tr 159), (48, 57, St 119)] (St 23)]"

definition hcl_machine :: "rs_action block list" where
  "hcl_machine =
     hcl_1 @ hcl_2 @ hcl_3 @ hcl_4 @ hcl_5 @ hcl_6 @ hcl_7 @ hcl_8 @
     hcl_9 @ hcl_10 @ hcl_11 @ hcl_12 @ hcl_13 @ hcl_14 @ hcl_15 @ hcl_16 @
     hcl_17 @ hcl_18 @ hcl_19 @ hcl_20 @ hcl_21 @ hcl_22"

lemmas hcl_defs = hcl_machine_def
  hcl_1_def hcl_2_def hcl_3_def hcl_4_def hcl_5_def hcl_6_def hcl_7_def hcl_8_def
  hcl_9_def hcl_10_def hcl_11_def hcl_12_def hcl_13_def hcl_14_def hcl_15_def hcl_16_def
  hcl_17_def hcl_18_def hcl_19_def hcl_20_def hcl_21_def hcl_22_def

end
