(* ===== verification/Http_Parser.thy ===== *)
theory Http_Parser
  imports Http_Message Socket_Stream Http11_Table Httpclient_Table
begin

text \<open>
  The HTTP parsers: \<open>http/http_parser.cc\<close> and the functions around the generated machines in
  \<open>http/http11_parser.rl.cc\<close> and \<open>http/httpclient_parser.rl.cc\<close>. The machines themselves are the theories
  \<open>Http11_Table\<close> and \<open>Httpclient_Table\<close>; here are the actions, which record positions in the parser and
  call the functions that fill the message.
\<close>

text \<open>\<open>std::string(at, n)\<close>: a length beyond \<open>max_size\<close> throws, one beyond the memory behind the pointer is undefined.\<close>

definition std_string :: "string \<Rightarrow> nat \<Rightarrow> fault + string" where
  "std_string at n = (if 2 ^ 62 \<le> n then Inl Logic_Error else if n > length at then Inl Buffer_Overflow else Inr (take n at))"

text \<open>The macro \<open>LEN\<close>: the difference of two positions, as a \<open>size_t\<close>.\<close>

definition LEN :: "nat \<Rightarrow> nat \<Rightarrow> nat" where
  "LEN p start = unat (word_of_nat p - word_of_nat start :: u64)"

section \<open>Parsing requests\<close>

record http_parser =
  hp_cs :: int
  hp_body_start :: nat
  hp_content_len :: int
  hp_nread :: nat
  hp_mark :: nat
  hp_field_start :: nat
  hp_field_len :: nat
  hp_query_start :: nat
  hp_xml_sent :: bool
  hp_json_sent :: bool
  hp_uri_relaxed :: bool

record request_parser =
  rp_parser :: http_parser
  rp_data :: http_request
  rp_error :: int

text \<open>\<open>content_len\<close>, \<open>query_start\<close> and \<open>uri_relaxed\<close> are not reset.\<close>

definition http_parser_start :: int where "http_parser_start = 1"
definition http_parser_first_final :: int where "http_parser_first_final = 348"

definition http_parser_init :: "http_parser \<Rightarrow> http_parser" where
  "http_parser_init hp =
     hp\<lparr>hp_cs := http_parser_start, hp_body_start := 0, hp_content_len := 0, hp_mark := 0, hp_nread := 0, hp_field_len := 0,
        hp_field_start := 0, hp_xml_sent := False, hp_json_sent := False\<rparr>"

definition http_parser_has_error :: "http_parser \<Rightarrow> bool" where
  "http_parser_has_error hp = (hp_cs hp = 0)"

definition http_parser_is_finished :: "http_parser \<Rightarrow> bool" where
  "http_parser_is_finished hp = (hp_cs hp \<ge> http_parser_first_final)"

definition http_parser_finish :: "http_parser \<Rightarrow> int" where
  "http_parser_finish hp = (if http_parser_has_error hp then - 1 else if http_parser_is_finished hp then 1 else 0)"

subsection \<open>The callbacks\<close>

definition on_request_method :: "string \<Rightarrow> nat \<Rightarrow> request_parser \<Rightarrow> fault + request_parser" where
  "on_request_method at len p =
     (let m = CharsToHttpMethod at in
      if m = INVALID_METHOD then Inr (p\<lparr>rp_error := 1000\<rparr>) else Inr (p\<lparr>rp_data := (rp_data p)\<lparr>rq_method := m\<rparr>\<rparr>))"

definition on_request_fragment :: "string \<Rightarrow> nat \<Rightarrow> request_parser \<Rightarrow> fault + request_parser" where
  "on_request_fragment at len p =
     bindE (std_string at len) (\<lambda>s. Inr (p\<lparr>rp_data := (rp_data p)\<lparr>rq_fragment := s\<rparr>\<rparr>))"

definition on_request_path :: "string \<Rightarrow> nat \<Rightarrow> request_parser \<Rightarrow> fault + request_parser" where
  "on_request_path at len p = bindE (std_string at len) (\<lambda>s. Inr (p\<lparr>rp_data := (rp_data p)\<lparr>rq_path := s\<rparr>\<rparr>))"

definition on_request_query :: "string \<Rightarrow> nat \<Rightarrow> request_parser \<Rightarrow> fault + request_parser" where
  "on_request_query at len p = bindE (std_string at len) (\<lambda>s. Inr (p\<lparr>rp_data := (rp_data p)\<lparr>rq_query := s\<rparr>\<rparr>))"

text \<open>The version a text denotes, compared over \<open>len\<close> characters.\<close>

definition parse_version :: "string \<Rightarrow> nat \<Rightarrow> u8 option" where
  "parse_version at len =
     (if strncmp at ''HTTP/1.1'' len = 0 then Some 0x11
      else if strncmp at ''HTTP/1.0'' len = 0 then Some 0x10 else None)"

definition on_request_version :: "string \<Rightarrow> nat \<Rightarrow> request_parser \<Rightarrow> fault + request_parser" where
  "on_request_version at len p =
     (case parse_version at len of Some v \<Rightarrow> Inr (p\<lparr>rp_data := (rp_data p)\<lparr>rq_version := v\<rparr>\<rparr>)
      | None \<Rightarrow> Inr (p\<lparr>rp_error := 1001\<rparr>))"

definition on_request_http_field :: "string \<Rightarrow> nat \<Rightarrow> string \<Rightarrow> nat \<Rightarrow> request_parser \<Rightarrow> fault + request_parser" where
  "on_request_http_field field flen value vlen p =
     (if flen = 0 then Inr p
      else bindE (std_string field flen) (\<lambda>k. bindE (std_string value vlen) (\<lambda>v.
        Inr (p\<lparr>rp_data := rq_setHeader k v (rp_data p)\<rparr>))))"

subsection \<open>The actions\<close>

definition rq_act :: "string \<Rightarrow> nat \<Rightarrow> rq_action \<Rightarrow> request_parser \<Rightarrow> fault + request_parser" where
  "rq_act buffer p a P =
     (let hp = rp_parser P; at = drop (hp_mark hp) buffer; len = LEN p (hp_mark hp) in
      (case a of
         Mark \<Rightarrow> Inr (P\<lparr>rp_parser := hp\<lparr>hp_mark := p\<rparr>\<rparr>)
       | Start_field \<Rightarrow> Inr (P\<lparr>rp_parser := hp\<lparr>hp_field_start := p\<rparr>\<rparr>)
       | Write_field \<Rightarrow> Inr (P\<lparr>rp_parser := hp\<lparr>hp_field_len := LEN p (hp_field_start hp)\<rparr>\<rparr>)
       | Start_value \<Rightarrow> Inr (P\<lparr>rp_parser := hp\<lparr>hp_mark := p\<rparr>\<rparr>)
       | Write_value \<Rightarrow> on_request_http_field (drop (hp_field_start hp) buffer) (hp_field_len hp) at len P
       | Request_method \<Rightarrow> on_request_method at len P
       | Request_uri \<Rightarrow> Inr P
       | Fragment \<Rightarrow> on_request_fragment at len P
       | Start_query \<Rightarrow> Inr (P\<lparr>rp_parser := hp\<lparr>hp_query_start := p\<rparr>\<rparr>)
       | Query_string \<Rightarrow> on_request_query (drop (hp_query_start hp) buffer) (LEN p (hp_query_start hp)) P
       | Http_version \<Rightarrow> on_request_version at len P
       | Request_path \<Rightarrow> on_request_path at len P
       | Done \<Rightarrow>
           if hp_xml_sent hp \<or> hp_json_sent hp
           then Inr (P\<lparr>rp_parser := hp\<lparr>hp_body_start := hp_mark hp, hp_content_len := c_int (int p - int (hp_mark hp) + 1)\<rparr>\<rparr>)
           else Inr (P\<lparr>rp_parser := hp\<lparr>hp_body_start := p + 1\<rparr>\<rparr>)
       | Xml \<Rightarrow> Inr (P\<lparr>rp_parser := hp\<lparr>hp_xml_sent := True\<rparr>\<rparr>)
       | Json \<Rightarrow> Inr (P\<lparr>rp_parser := hp\<lparr>hp_json_sent := True\<rparr>\<rparr>)))"

text \<open>The condition \<open>uri_relaxed\<close> of the grammar shifts the characters it applies to.\<close>

definition rq_widec :: "bool \<Rightarrow> int \<Rightarrow> int" where
  "rq_widec relaxed x = (if x \<in> {94, 123, 125} then 128 + (x + 128) + (if relaxed then 256 else 0) else x)"

definition rq_step :: "bool \<Rightarrow> int \<Rightarrow> char \<Rightarrow> int \<times> rq_action list" where
  "rq_step relaxed = machine_step h11_machine (rq_widec relaxed)"

abbreviation rq_run :: "string \<Rightarrow> bool \<Rightarrow> int \<Rightarrow> nat \<Rightarrow> string \<Rightarrow> fault + request_parser \<Rightarrow> int \<times> nat \<times> (fault + request_parser)" where
  "rq_run buffer relaxed \<equiv> run (\<lambda>p a st. bindE st (rq_act buffer p a)) (\<lambda>a. a = Done) (rq_step relaxed)"

text \<open>
  The lengths of the first assertion are \<open>int\<close>s. The offset is 0 in every call.
\<close>

definition http_parser_execute :: "string \<Rightarrow> request_parser \<Rightarrow> fault + (nat \<times> request_parser)" where
  "http_parser_execute buffer P =
     (let len = length buffer in
      if len = 0 then Inr (0, P)
      else let P = P\<lparr>rp_parser := (rp_parser P)\<lparr>hp_nread := 0, hp_mark := 0, hp_field_len := 0, hp_field_start := 0\<rparr>\<rparr> in
        if int len \<noteq> c_int (int len) then Inl (Assert_Failed ''pointers same distance'')
        else case rq_run buffer (hp_uri_relaxed (rp_parser P)) (hp_cs (rp_parser P)) 0 buffer (Inr P) of (cs, p, st) \<Rightarrow>
          bindE st (\<lambda>P.
            let hp = rp_parser P;
                hp = (if \<not> http_parser_has_error hp then hp\<lparr>hp_cs := cs\<rparr> else hp);
                hp = hp\<lparr>hp_nread := hp_nread hp + p\<rparr> in
            if \<not> hp_nread hp \<le> len then Inl (Assert_Failed ''nread longer than length'')
            else if \<not> hp_body_start hp \<le> len then Inl (Assert_Failed ''body starts after buffer end'')
            else if \<not> hp_mark hp < len then Inl (Assert_Failed ''mark is after buffer end'')
            else if \<not> hp_field_len hp \<le> len then Inl (Assert_Failed ''field has length longer than whole buffer'')
            else if \<not> hp_field_start hp < len then Inl (Assert_Failed ''field starts after buffer end'')
            else Inr (hp_nread hp, P\<lparr>rp_parser := hp\<rparr>)))"

subsection \<open>The parser object\<close>

text \<open>\<open>garbage\<close> is what the memory of the parser holds before.\<close>

definition HttpRequestParser :: "http_parser \<Rightarrow> request_parser" where
  "HttpRequestParser garbage = \<lparr>rp_parser = http_parser_init garbage, rp_data = HttpRequest 0x11 True, rp_error = 0\<rparr>"

definition rp_getContentLength :: "(string \<Rightarrow> u64 option) \<Rightarrow> request_parser \<Rightarrow> u64" where
  "rp_getContentLength lc p = rq_getHeaderAs lc ''content-length'' 0 (rp_data p)"

text \<open>The result is the number of characters parsed and the rest of the data, moved to the front.\<close>

definition rp_execute :: "string \<Rightarrow> request_parser \<Rightarrow> fault + (nat \<times> string \<times> request_parser)" where
  "rp_execute data p = bindE (http_parser_execute data p) (\<lambda>(offset, p). Inr (offset, drop offset data, p))"

definition rp_isFinished :: "request_parser \<Rightarrow> int" where
  "rp_isFinished p = http_parser_finish (rp_parser p)"

definition rp_hasError :: "request_parser \<Rightarrow> bool" where
  "rp_hasError p = (rp_error p \<noteq> 0 \<or> http_parser_has_error (rp_parser p))"

section \<open>Parsing responses\<close>

text \<open>\<open>content_len\<close> and \<open>status\<close> are \<open>int\<close>s.\<close>

record httpclient_parser =
  hc_cs :: int
  hc_body_start :: nat
  hc_content_len :: int
  hc_status :: int
  hc_chunked :: bool
  hc_chunks_done :: bool
  hc_close :: bool
  hc_nread :: nat
  hc_mark :: nat
  hc_field_start :: nat
  hc_field_len :: nat

record response_parser =
  sp_parser :: httpclient_parser
  sp_data :: http_response
  sp_error :: int

definition httpclient_parser_start :: int where "httpclient_parser_start = 1"
definition httpclient_parser_first_final :: int where "httpclient_parser_first_final = 120"

text \<open>The status is not reset.\<close>

definition httpclient_parser_init :: "httpclient_parser \<Rightarrow> httpclient_parser" where
  "httpclient_parser_init hc =
     hc\<lparr>hc_cs := httpclient_parser_start, hc_body_start := 0, hc_content_len := - 1, hc_chunked := False, hc_chunks_done := False,
        hc_mark := 0, hc_nread := 0, hc_field_len := 0, hc_field_start := 0, hc_close := False\<rparr>"

definition httpclient_parser_has_error :: "httpclient_parser \<Rightarrow> bool" where
  "httpclient_parser_has_error hc = (hc_cs hc = 0)"

definition httpclient_parser_is_finished :: "httpclient_parser \<Rightarrow> bool" where
  "httpclient_parser_is_finished hc = (hc_cs hc = httpclient_parser_first_final)"

definition httpclient_parser_finish :: "httpclient_parser \<Rightarrow> int" where
  "httpclient_parser_finish hc = (if httpclient_parser_has_error hc then - 1 else if httpclient_parser_is_finished hc then 1 else 0)"

subsection \<open>The callbacks\<close>

definition on_response_reason :: "string \<Rightarrow> nat \<Rightarrow> response_parser \<Rightarrow> fault + response_parser" where
  "on_response_reason at len p = bindE (std_string at len) (\<lambda>s. Inr (p\<lparr>sp_data := (sp_data p)\<lparr>rs_reason := s\<rparr>\<rparr>))"

text \<open>\<open>atoi\<close> is \<open>strtol\<close> cast to \<open>int\<close>.\<close>

definition on_response_status :: "string \<Rightarrow> nat \<Rightarrow> response_parser \<Rightarrow> fault + response_parser" where
  "on_response_status at len p = Inr (p\<lparr>sp_data := (sp_data p)\<lparr>rs_status := c_int (strtol at 10)\<rparr>\<rparr>)"

definition on_response_version :: "string \<Rightarrow> nat \<Rightarrow> response_parser \<Rightarrow> fault + response_parser" where
  "on_response_version at len p =
     (case parse_version at len of Some v \<Rightarrow> Inr (p\<lparr>sp_data := (sp_data p)\<lparr>rs_version := v\<rparr>\<rparr>)
      | None \<Rightarrow> Inr (p\<lparr>sp_error := 1001\<rparr>))"

definition on_response_http_field :: "string \<Rightarrow> nat \<Rightarrow> string \<Rightarrow> nat \<Rightarrow> response_parser \<Rightarrow> fault + response_parser" where
  "on_response_http_field field flen value vlen p =
     (if flen = 0 then Inr p
      else bindE (std_string field flen) (\<lambda>k. bindE (std_string value vlen) (\<lambda>v.
        Inr (p\<lparr>sp_data := rs_setHeader k v (sp_data p)\<rparr>))))"

subsection \<open>The actions\<close>

definition rs_act :: "string \<Rightarrow> nat \<Rightarrow> rs_action \<Rightarrow> response_parser \<Rightarrow> fault + response_parser" where
  "rs_act buffer p a P =
     (let hc = sp_parser P; at = drop (hc_mark hc) buffer; len = LEN p (hc_mark hc) in
      (case a of
         CMark \<Rightarrow> Inr (P\<lparr>sp_parser := hc\<lparr>hc_mark := p\<rparr>\<rparr>)
       | CStart_field \<Rightarrow> Inr (P\<lparr>sp_parser := hc\<lparr>hc_field_start := p\<rparr>\<rparr>)
       | CWrite_field \<Rightarrow> Inr (P\<lparr>sp_parser := hc\<lparr>hc_field_len := LEN p (hc_field_start hc)\<rparr>\<rparr>)
       | CStart_value \<Rightarrow> Inr (P\<lparr>sp_parser := hc\<lparr>hc_mark := p\<rparr>\<rparr>)
       | Write_content_len \<Rightarrow> Inr (P\<lparr>sp_parser := hc\<lparr>hc_content_len := c_int (strtol at 10)\<rparr>\<rparr>)
       | Write_connection_close \<Rightarrow> Inr (P\<lparr>sp_parser := hc\<lparr>hc_close := True\<rparr>\<rparr>)
       | CWrite_value \<Rightarrow> on_response_http_field (drop (hc_field_start hc) buffer) (hc_field_len hc) at len P
       | Reason_phrase \<Rightarrow> on_response_reason at len P
       | Status_code \<Rightarrow> on_response_status at len (P\<lparr>sp_parser := hc\<lparr>hc_status := c_int (strtol at 10)\<rparr>\<rparr>)
       | CHttp_version \<Rightarrow> on_response_version at len P
       | Chunk_size \<Rightarrow>
           let n = c_int (strtol at 16) in
           Inr (P\<lparr>sp_parser := hc\<lparr>hc_chunked := True, hc_content_len := n, hc_chunks_done := n \<le> 0\<rparr>\<rparr>)
       | Trans_chunked \<Rightarrow> Inr (P\<lparr>sp_parser := hc\<lparr>hc_chunked := True\<rparr>\<rparr>)
       | CDone \<Rightarrow> Inr (P\<lparr>sp_parser := hc\<lparr>hc_body_start := p + 1\<rparr>\<rparr>)))"

definition rs_step :: "int \<Rightarrow> char \<Rightarrow> int \<times> rs_action list" where
  "rs_step = machine_step hcl_machine (\<lambda>x. x)"

abbreviation rs_run :: "string \<Rightarrow> int \<Rightarrow> nat \<Rightarrow> string \<Rightarrow> fault + response_parser \<Rightarrow> int \<times> nat \<times> (fault + response_parser)" where
  "rs_run buffer \<equiv> run (\<lambda>p a st. bindE st (rs_act buffer p a)) (\<lambda>a. a = CDone) rs_step"

text \<open>
  The text ends with a NUL behind the buffer. The result is an \<open>int\<close>, -1 when a check fails.
\<close>

definition httpclient_parser_execute :: "string \<Rightarrow> response_parser \<Rightarrow> fault + (int \<times> response_parser)" where
  "httpclient_parser_execute buffer P =
     (let len = length buffer;
          P = P\<lparr>sp_parser := (sp_parser P)\<lparr>hc_nread := 0, hc_mark := 0, hc_field_len := 0, hc_field_start := 0\<rparr>\<rparr> in
      if int len \<noteq> c_int (int len) then Inl (Assert_Failed ''pointers same distance'')
      else case rs_run buffer (hc_cs (sp_parser P)) 0 buffer (Inr P) of (cs, p, st) \<Rightarrow>
        bindE st (\<lambda>P.
          let hc = (sp_parser P)\<lparr>hc_cs := cs, hc_nread := hc_nread (sp_parser P) + p\<rparr>; P = P\<lparr>sp_parser := hc\<rparr> in
          if \<not> hc_nread hc \<le> len then Inl (Assert_Failed ''nread longer than length'')
          else if \<not> hc_body_start hc \<le> len then Inl (Assert_Failed ''body starts after buffer end'')
          else if \<not> hc_mark hc < len \<or> \<not> hc_field_len hc \<le> len \<or> \<not> hc_field_start hc < len then Inr (- 1, P)
          else Inr (c_int (int (hc_nread hc)), P)))"

subsection \<open>The parser object\<close>

definition HttpResponseParser :: "httpclient_parser \<Rightarrow> response_parser" where
  "HttpResponseParser garbage =
     \<lparr>sp_parser = httpclient_parser_init garbage, sp_data = HttpResponse 0x11 True, sp_error = 0\<rparr>"

definition sp_getContentLength :: "(string \<Rightarrow> u64 option) \<Rightarrow> response_parser \<Rightarrow> u64" where
  "sp_getContentLength lc p = rs_getHeaderAs lc ''content-length'' 0 (sp_data p)"

text \<open>
  With \<open>chunck\<close> the machine is started afresh, for the header of a chunk. The result becomes a \<open>size_t\<close>; one beyond the data, as
  -1 is, moves memory outside it.
\<close>

definition sp_execute :: "string \<Rightarrow> bool \<Rightarrow> response_parser \<Rightarrow> fault + (nat \<times> string \<times> response_parser)" where
  "sp_execute data chunck p =
     (let p = (if chunck then p\<lparr>sp_parser := httpclient_parser_init (sp_parser p)\<rparr> else p) in
      bindE (httpclient_parser_execute data p) (\<lambda>(rt, p).
        let offset = nat (rt mod 2 ^ 64) in
        if offset > length data then Inl Buffer_Overflow else Inr (offset, drop offset data, p)))"

definition sp_isFinished :: "response_parser \<Rightarrow> int" where
  "sp_isFinished p = httpclient_parser_finish (sp_parser p)"

definition sp_hasError :: "response_parser \<Rightarrow> bool" where
  "sp_hasError p = (sp_error p \<noteq> 0 \<or> httpclient_parser_has_error (sp_parser p))"

section \<open>Positions and lengths\<close>

lemma c_int_nat: "int n = c_int (int n) \<longleftrightarrow> n < 2 ^ 31"
  using c_int_id [of "int n"] sint_lt [of "word_of_int (int n) :: u32"] by (fastforce simp: c_int_def)

lemma LEN_le: "a \<le> p \<Longrightarrow> p < 2 ^ 64 \<Longrightarrow> LEN p a = p - a"
proof -
  assume a: "a \<le> p" "p < 2 ^ 64"
  have u: "unat (word_of_nat p :: u64) = p" "unat (word_of_nat a :: u64) = a" using a by (simp_all add: unat_of_nat)
  then have "(word_of_nat a :: u64) \<le> word_of_nat p" using a by (simp add: word_le_nat_alt)
  then show ?thesis using u by (simp add: LEN_def unat_sub)
qed

lemma LEN_wrap: "p < a \<Longrightarrow> a < 2 ^ 64 \<Longrightarrow> LEN p a = p + 2 ^ 64 - a"
proof -
  assume a: "p < a" "a < 2 ^ 64"
  have "int (LEN p a) = (int p - int a) mod 2 ^ 64"
    by (simp add: LEN_def uint_word_ariths uint_nat [symmetric] unsigned_of_nat take_bit_eq_mod zmod_int mod_diff_eq)
  also have "\<dots> = (int p - int a + 2 ^ 64) mod 2 ^ 64" by simp
  also have "\<dots> = int p - int a + 2 ^ 64" using a by (intro mod_pos_pos_trivial) auto
  finally show ?thesis using a by simp
qed

lemma std_string_LEN:
  assumes "a \<le> p" and "p \<le> length buffer" and "length buffer < 2 ^ 31"
  shows "std_string (drop a buffer) (LEN p a) = Inr (take (p - a) (drop a buffer))"
proof -
  have "LEN p a = p - a" using assms by (simp add: LEN_le)
  then show ?thesis using assms by (auto simp: std_string_def)
qed

lemma std_string_segment:
  assumes "drop a buffer = s @ rest" and "a \<le> length buffer" and "length buffer < 2 ^ 31"
  shows "std_string (drop a buffer) (LEN (a + length s) a) = Inr s"
proof -
  have "a + length s \<le> length buffer" using arg_cong [OF assms(1), of length] assms(2) by simp
  then show ?thesis using std_string_LEN [of a "a + length s" buffer] assms by simp
qed


text \<open>
  What holds while position \<open>p\<close> is processed. The flags say that the length of the field name belongs to its
  recorded start, and that the start of the query was recorded in this buffer.
\<close>

definition holds :: "nat \<Rightarrow> nat \<Rightarrow> bool \<times> bool \<Rightarrow> request_parser \<Rightarrow> bool" where
  "holds len p fl P \<longleftrightarrow>
     (case rp_parser P of hp \<Rightarrow>
        hp_mark hp \<le> p \<and> hp_field_start hp \<le> p \<and> hp_mark hp < len \<and> hp_field_start hp < len \<and> hp_field_len hp \<le> len
        \<and> hp_body_start hp \<le> len \<and> hp_nread hp = 0
        \<and> (fst fl \<longrightarrow> hp_field_start hp + hp_field_len hp \<le> p) \<and> (snd fl \<longrightarrow> hp_query_start hp \<le> p))"

text \<open>How actions change the flags; an action that needs a flag which is not set has no result.\<close>

fun act_flags :: "rq_action list \<Rightarrow> bool \<times> bool \<Rightarrow> (bool \<times> bool) option" where
  "act_flags [] fl = Some fl"
| "act_flags (a # as) (f, q) =
     (case a of
        Start_field \<Rightarrow> act_flags as (False, q)
      | Write_field \<Rightarrow> act_flags as (True, q)
      | Write_value \<Rightarrow> if f then act_flags as (f, q) else None
      | Start_query \<Rightarrow> act_flags as (f, True)
      | Query_string \<Rightarrow> if q then act_flags as (f, q) else None
      | _ \<Rightarrow> act_flags as (f, q))"

lemma rq_act_holds:
  assumes "holds (length buffer) p (f, q) P" and "p < length buffer" and "length buffer < 2 ^ 31" and "act_flags [a] (f, q) = Some fl"
  shows "\<exists>P'. rq_act buffer p a P = Inr P' \<and> holds (length buffer) p fl P' \<and> hp_cs (rp_parser P') = hp_cs (rp_parser P)"
proof -
  note b = assms(1) [unfolded holds_def, simplified] 
  have L: "LEN p s = p - s" if "s \<le> p" for s using that assms(2,3) by (simp add: LEN_le)
  have S: "std_string (drop s buffer) (LEN p s) = Inr (take (p - s) (drop s buffer))" if "s \<le> p" for s
    using that assms(2,3) by (intro std_string_LEN) auto
  have F: "std_string (drop s buffer) n = Inr (take n (drop s buffer))" if "s + n \<le> p" for s n
    using that assms(2,3) by (auto simp: std_string_def)
  show ?thesis
    using assms(2-4) b 
    by (cases a) (auto simp: rq_act_def holds_def L S F on_request_method_def on_request_fragment_def on_request_path_def on_request_query_def
        on_request_version_def on_request_http_field_def rq_setHeader_def Let_def split: option.splits if_splits)
qed

lemma fold_acts_holds:
  assumes "act_flags as fl = Some fl'" and "holds (length buffer) p fl P" and "p < length buffer" and "length buffer < 2 ^ 31"
  shows "\<exists>P'. fold (\<lambda>a st. bindE st (rq_act buffer p a)) as (Inr P) = Inr P' \<and> holds (length buffer) p fl' P'
    \<and> hp_cs (rp_parser P') = hp_cs (rp_parser P)"
  using assms(1,2)
proof (induction as arbitrary: fl P)
  case (Cons a as)
  obtain f q where fl: "fl = (f, q)" by fastforce
  obtain fl1 where one: "act_flags [a] (f, q) = Some fl1" and rest: "act_flags as fl1 = Some fl'"
    using Cons.prems(1) by (cases a) (auto simp: fl split: if_splits)
  from rq_act_holds [OF Cons.prems(2) [unfolded fl] assms(3,4) one] obtain P1
    where "rq_act buffer p a P = Inr P1" "holds (length buffer) p fl1 P1" "hp_cs (rp_parser P1) = hp_cs (rp_parser P)" by blast
  with Cons.IH [OF rest] show ?case by fastforce
qed auto

text \<open>The states in which a header name, or the query, is being read.\<close>

definition in_name :: "int \<Rightarrow> bool" where "in_name n \<longleftrightarrow> n = 14 \<or> n = 18 \<or> n = 348"
definition in_query :: "int \<Rightarrow> bool" where "in_query n \<longleftrightarrow> n = 30 \<or> n = 31 \<or> n = 32"

definition jump_flags :: "rq_action block list \<Rightarrow> int \<Rightarrow> jump \<Rightarrow> bool" where
  "jump_flags ts n j =
     (case follow ts j of (m, as) \<Rightarrow> m = 0 \<or>
        (case act_flags as (\<not> in_name n, in_query n) of None \<Rightarrow> False
         | Some (f, q) \<Rightarrow> (f \<or> in_name m) \<and> (q \<or> \<not> in_query m) \<and> (Done \<in> set as \<longrightarrow> http_parser_first_final \<le> m)))"

fun block_flags :: "rq_action block list \<Rightarrow> rq_action block \<Rightarrow> bool" where
  "block_flags ts (Block k as m) = True"
| "block_flags ts (Case n w rows d) = (jump_flags ts n d \<and> list_all (\<lambda>(lo, hi, j). jump_flags ts n j) rows)"

text \<open>The blocks of actions of the machine, collected.\<close>

lemma h11_actions: "filter is_Block h11_machine = [
     Block 0 [Mark] 2,
     Block 4 [Request_method] 3,
     Block 6 [Mark, Request_path, Request_uri] 4,
     Block 37 [Request_path, Request_uri] 4,
     Block 44 [Mark, Fragment] 4,
     Block 47 [Fragment] 4,
     Block 54 [Start_query, Query_string, Request_uri] 4,
     Block 58 [Query_string, Request_uri] 4,
     Block 13 [Mark] 5,
     Block 21 [Http_version] 13,
     Block 30 [Start_value, Write_value] 13,
     Block 33 [Write_value] 13,
     Block 23 [Start_field] 14,
     Block 27 [Write_field] 15,
     Block 29 [Start_value] 15,
     Block 28 [Start_value] 16,
     Block 22 [Http_version] 17,
     Block 31 [Start_value, Write_value] 17,
     Block 34 [Write_value] 17,
     Block 24 [Start_field, Done] 348,
     Block 36 [Done] 348,
     Block 25 [Start_field] 18,
     Block 7 [Mark] 19,
     Block 8 [Mark, Request_path, Request_uri] 20,
     Block 39 [Request_path, Request_uri] 20,
     Block 55 [Start_query, Query_string, Request_uri] 20,
     Block 59 [Query_string, Request_uri] 20,
     Block 43 [Mark] 21,
     Block 45 [Mark] 22,
     Block 9 [Mark] 24,
     Block 203 [Mark] 26,
     Block 204 [Mark] 27,
     Block 11 [Mark, Request_path] 29,
     Block 42 [Request_path] 29,
     Block 53 [Start_query] 30,
     Block 56 [Start_query] 31,
     Block 10 [Mark] 33,
     Block 12 [Mark] 173,
     Block 2 [Mark] 194,
     Block 224 [Request_path] 196,
     Block 227 [Xml, Done] 349,
     Block 235 [Json, Done] 349,
     Block 3 [Mark] 198,
     Block 228 [Request_path] 199,
     Block 232 [Mark] 200]"
  by (simp only: h11_machine_def filter_append) code_simp

lemma machine_flags: "list_all (block_flags (filter is_Block h11_machine)) h11_machine"
  by (simp only: h11_actions, simp only: h11_machine_def list_all_append) code_simp

lemma rq_step_flags:
  assumes "rq_step r n c = (m, as)" and "m \<noteq> 0"
  shows "\<exists>f q. act_flags as (\<not> in_name n, in_query n) = Some (f, q) \<and> (in_name m \<or> f) \<and> (in_query m \<longrightarrow> q)
    \<and> (Done \<in> set as \<longrightarrow> http_parser_first_final \<le> m)"
proof -
  from machine_step_jump [OF assms [unfolded rq_step_def]] obtain w rows d j
    where b: "Case n w rows d \<in> set h11_machine" and j: "j \<in> insert d ((\<lambda>r. snd (snd r)) ` set rows)" "follow h11_machine j = (m, as)"
    by blast
  have "block_flags (filter is_Block h11_machine) (Case n w rows d)" using machine_flags b by (simp only: list_all_iff)
  then have "jump_flags (filter is_Block h11_machine) n j" using j(1) by (auto simp: list_all_iff)
  then show ?thesis using j(2) assms(2) by (auto simp: jump_flags_def follow_filter split: option.splits)
qed

lemma holds_mono: "holds len p (f, q) P \<Longrightarrow> (f' \<longrightarrow> f) \<Longrightarrow> (q' \<longrightarrow> q) \<Longrightarrow> p \<le> p' \<Longrightarrow> holds len p' (f', q') P"
  by (auto simp: holds_def)

lemma rq_run_holds:
  assumes "holds (length buffer) p (\<not> in_name cs, in_query cs) P" and "p + length s = length buffer" and "length buffer < 2 ^ 31"
  shows "\<exists>cs' q P'. rq_run buffer r cs p s (Inr P) = (cs', q, Inr P') \<and> holds (length buffer) q (False, False) P'
    \<and> hp_cs (rp_parser P') = hp_cs (rp_parser P) \<and> (q = length buffer \<or> cs' = 0 \<or> http_parser_first_final \<le> cs')"
  using assms(1,2)
proof (induction s arbitrary: cs p P)
  case Nil
  then show ?case using holds_mono by fastforce
next
  case (Cons c s)
  obtain m as where step: "rq_step r cs c = (m, as)" by fastforce
  show ?case
  proof (cases "m = 0")
    case True
    then show ?thesis using Cons.prems(1) step holds_mono by fastforce
  next
    case False
    from rq_step_flags [OF step False] obtain f q where fl: "act_flags as (\<not> in_name cs, in_query cs) = Some (f, q)"
      "in_name m \<or> f" "in_query m \<longrightarrow> q" "Done \<in> set as \<longrightarrow> http_parser_first_final \<le> m" by blast
    have "p < length buffer" using Cons.prems(2) by simp
    from fold_acts_holds [OF fl(1) Cons.prems(1) this assms(3)] obtain P1 where
      P1: "fold (\<lambda>a st. bindE st (rq_act buffer p a)) as (Inr P) = Inr P1" "holds (length buffer) p (f, q) P1"
        "hp_cs (rp_parser P1) = hp_cs (rp_parser P)" by blast
    have nx: "holds (length buffer) (p + 1) (\<not> in_name m, in_query m) P1"
      using holds_mono [OF P1(2), of "\<not> in_name m" "in_query m" "p + 1"] fl by auto
    show ?thesis
    proof (cases "list_ex (\<lambda>a. a = Done) as")
      case True
      have "holds (length buffer) (p + 1) (False, False) P1" using holds_mono [OF P1(2), of False False "p + 1"] by simp
      then show ?thesis using True False step P1 fl(4) by (auto simp: list_ex_iff)
    next
      case go: False
      have "p + 1 + length s = length buffer" using Cons.prems(2) by simp
      from Cons.IH [OF nx this] show ?thesis using False go step P1 by simp
    qed
  qed
qed

lemma execute_safe:
  assumes "hp_body_start (rp_parser P) \<le> length buffer" and "\<not> in_query (hp_cs (rp_parser P))" and "length buffer < 2 ^ 31"
  shows "\<exists>n P'. http_parser_execute buffer P = Inr (n, P') \<and> n \<le> length buffer
    \<and> (n < length buffer \<longrightarrow> http_parser_finish (rp_parser P') \<noteq> 0)"
proof (cases "buffer = []")
  case False
  let ?P = "P\<lparr>rp_parser := (rp_parser P)\<lparr>hp_nread := 0, hp_mark := 0, hp_field_len := 0, hp_field_start := 0\<rparr>\<rparr>"
  have "holds (length buffer) 0 (\<not> in_name (hp_cs (rp_parser P)), in_query (hp_cs (rp_parser P))) ?P"
    using assms False by (auto simp: holds_def)
  from rq_run_holds [OF this _ assms(3), where s = buffer and r = "hp_uri_relaxed (rp_parser P)"] obtain cs' q P'
    where run: "rq_run buffer (hp_uri_relaxed (rp_parser P)) (hp_cs (rp_parser P)) 0 buffer (Inr ?P) = (cs', q, Inr P')"
      and h: "holds (length buffer) q (False, False) P'" and e: "q = length buffer \<or> cs' = 0 \<or> http_parser_first_final \<le> cs'" by auto
  have "q \<le> length buffer" using run_bound [OF run] by simp
  moreover have "c_int (int (length buffer)) = int (length buffer)" using assms(3) by (simp add: c_int_id)
  ultimately show ?thesis using run h e False
    by (auto simp: http_parser_execute_def holds_def Let_def http_parser_has_error_def http_parser_is_finished_def http_parser_finish_def)
qed (simp add: http_parser_execute_def)

text \<open>A parser that is fed buffers while it is neither finished nor failed, as every caller does.\<close>

inductive fed :: "request_parser \<Rightarrow> bool" where
  fed_new: "fed (HttpRequestParser garbage)"
| fed_more: "fed P \<Longrightarrow> http_parser_finish (rp_parser P) = 0 \<Longrightarrow> http_parser_execute buffer P = Inr (n, P') \<Longrightarrow> fed P'"

lemma act_body_start:
  "a \<noteq> Done \<Longrightarrow> rq_act b p a P = Inr P' \<Longrightarrow> hp_body_start (rp_parser P') = hp_body_start (rp_parser P)"
  by (cases a) (auto simp: rq_act_def Let_def bindE_def on_request_method_def on_request_fragment_def on_request_path_def on_request_query_def
      on_request_version_def on_request_http_field_def split: sum.splits if_splits option.splits)

lemma acts_fault: "fold (\<lambda>a st. bindE st (rq_act b p a)) as (Inl e) = Inl e"
  by (induction as) auto

lemma acts_body_start:
  "Done \<notin> set as \<Longrightarrow> fold (\<lambda>a st. bindE st (rq_act b p a)) as (Inr P) = Inr P' \<Longrightarrow> hp_body_start (rp_parser P') = hp_body_start (rp_parser P)"
proof (induction as arbitrary: P)
  case (Cons a as)
  then obtain Q where Q: "rq_act b p a P = Inr Q" by (cases "rq_act b p a P") (auto simp: acts_fault)
  have "hp_body_start (rp_parser P') = hp_body_start (rp_parser Q)" using Cons Q by auto
  then show ?case using Cons.prems(1) act_body_start [OF _ Q] by auto
qed simp

lemma run_fault: "run (\<lambda>p a st. bindE st (act p a)) breaks step cs p s (Inl e) = (cs', q, st) \<Longrightarrow> st = Inl e"
proof (induction s arbitrary: cs p)
  case (Cons c s)
  have "fold (\<lambda>a st. bindE st (act p a)) as (Inl e) = Inl e" for as by (induction as) auto
  with Cons show ?case by (auto simp: Let_def split: prod.splits if_splits)
qed simp

lemma run_body_start:
  assumes "rq_run b r cs p s (Inr P) = (cs', q, Inr P')" and "hp_body_start (rp_parser P) = 0"
  shows "hp_body_start (rp_parser P') = 0 \<or> http_parser_first_final \<le> cs'"
  using assms
proof (induction s arbitrary: cs p P)
  case (Cons c s)
  obtain m as where step: "rq_step r cs c = (m, as)" by fastforce
  show ?case
  proof (cases "m = 0")
    case True
    then show ?thesis using Cons.prems step by simp
  next
    case False
    then have final: "Done \<in> set as \<longrightarrow> http_parser_first_final \<le> m" using rq_step_flags [OF step] by blast
    obtain st where st: "fold (\<lambda>a st. bindE st (rq_act b p a)) as (Inr P) = st" by simp
    show ?thesis
    proof (cases "Done \<in> set as")
      case True
      then have "cs' = m" using Cons.prems(1) step False by (auto simp: Let_def list_ex_iff)
      then show ?thesis using final True by simp
    next
      case go: False
      then have rec: "rq_run b r m (p + 1) s st = (cs', q, Inr P')" using Cons.prems(1) step False st by (auto simp: Let_def list_ex_iff)
      then obtain Q where Q: "st = Inr Q" by (cases st) (auto dest: run_fault)
      then show ?thesis using Cons.IH rec acts_body_start [OF go] st Cons.prems(2) by auto
    qed
  qed
qed simp

lemma fed_body_start: "fed P \<Longrightarrow> http_parser_finish (rp_parser P) = 0 \<Longrightarrow> hp_body_start (rp_parser P) = 0"
proof (induction rule: fed.induct)
  case (fed_new garbage)
  then show ?case by (simp add: HttpRequestParser_def http_parser_init_def)
next
  case (fed_more P buffer n P')
  show ?case
  proof (cases "buffer = []")
    case True
    then show ?thesis using fed_more by (simp add: http_parser_execute_def)
  next
    case False
    let ?P = "P\<lparr>rp_parser := (rp_parser P)\<lparr>hp_nread := 0, hp_mark := 0, hp_field_len := 0, hp_field_start := 0\<rparr>\<rparr>"
    obtain cs q st where run: "rq_run buffer (hp_uri_relaxed (rp_parser ?P)) (hp_cs (rp_parser ?P)) 0 buffer (Inr ?P) = (cs, q, st)" by (metis prod.exhaust)
    obtain Q where Q: "st = Inr Q" "hp_body_start (rp_parser P') = hp_body_start (rp_parser Q)"
        "hp_cs (rp_parser P') = (if hp_cs (rp_parser Q) = 0 then 0 else cs)"
      using fed_more.hyps(3) run False by (cases st) (auto simp: http_parser_execute_def Let_def http_parser_has_error_def split: if_splits)
    have "hp_body_start (rp_parser ?P) = 0" using fed_more.IH fed_more.hyps(2) by simp
    from run_body_start [OF run [unfolded Q(1)] this] show ?thesis using Q(2,3) fed_more.prems
      by (auto simp: http_parser_finish_def http_parser_has_error_def http_parser_is_finished_def http_parser_first_final_def split: if_splits)
  qed
qed

section \<open>Properties\<close>

text \<open>
  C21: the request parser is safe on any bytes. However it was fed before, a parser that is neither finished nor failed nor inside a
  query takes the next buffer, of fewer than \<open>2 ^ 31\<close> bytes, without failing an assertion, throwing or reading outside
  the buffer; it consumes at most the buffer, and less than all of it only when the request is
  complete or malformed. A larger buffer fails the assertion about the distance of the pointers.
\<close>

theorem request_parse_safe:
  assumes "fed P" and "http_parser_finish (rp_parser P) = 0" and "\<not> in_query (hp_cs (rp_parser P))"
  shows "if length buffer < 2 ^ 31
    then \<exists>n P'. http_parser_execute buffer P = Inr (n, P') \<and> n \<le> length buffer \<and> (n < length buffer \<longrightarrow> http_parser_finish (rp_parser P') \<noteq> 0)
    else http_parser_execute buffer P = Inl (Assert_Failed ''pointers same distance'')"
proof (cases "length buffer < 2 ^ 31")
  case True
  then show ?thesis using execute_safe [of P buffer] fed_body_start [OF assms(1,2)] assms(3) by simp
next
  case False
  then have "int (length buffer) \<noteq> c_int (int (length buffer))" "buffer \<noteq> []" using c_int_nat [of "length buffer"] by auto
  then show ?thesis using False unfolding http_parser_execute_def Let_def by simp
qed

definition blank_parser :: http_parser where
  "blank_parser = \<lparr>hp_cs = 0, hp_body_start = 0, hp_content_len = 0, hp_nread = 0, hp_mark = 0, hp_field_start = 0, hp_field_len = 0,
     hp_query_start = 0, hp_xml_sent = False, hp_json_sent = False, hp_uri_relaxed = False\<rparr>"

theorem request_parse_safe_witness:
  "\<exists>n P'. http_parser_execute ''GET /a'' (HttpRequestParser blank_parser) = Inr (n, P') \<and> n \<le> 6"
  using request_parse_safe [OF fed_new, of blank_parser "''GET /a''"]
  by (auto simp: HttpRequestParser_def http_parser_init_def blank_parser_def in_query_def http_parser_start_def http_parser_finish_def
      http_parser_has_error_def http_parser_is_finished_def http_parser_first_final_def)

end
