(* ===== verification/Http_Grammar.thy ===== *)
theory Http_Grammar
  imports Http_Parser
begin

text \<open>
  What the request machine accepts: the jumps of its states on the classes of characters of a request
  line and of header lines, and from them the effect of parsing a request.
\<close>

section \<open>Jumps of the machine\<close>

text \<open>The classes of characters, by their codes: URI text, tokens, methods, hexadecimal digits
  and header values; a path does not start with two slashes, a value not with a blank.\<close>

definition uri_codes :: "int list" where
  "uri_codes = [- 128..- 1] @ [33, 36] @ [38..59] @ [61] @ [64..90] @ [95] @ [97..122] @ [126]"
definition segment_codes :: "int list" where "segment_codes = filter (\<lambda>x. x \<noteq> 47) uri_codes"
definition query_codes :: "int list" where "query_codes = 63 # uri_codes"
definition hex_codes :: "int list" where "hex_codes = [48..57] @ [65..70] @ [97..102]"
definition method_codes :: "int list" where "method_codes = [48..57] @ [65..90]"
definition token_codes :: "int list" where
  "token_codes = [33] @ [35..39] @ [42, 43, 45, 46] @ [48..57] @ [65..90] @ [94..122] @ [124, 126]"
definition name_codes :: "int list" where "name_codes = [1..8] @ [10..31] @ token_codes"
definition value_codes :: "int list" where "value_codes = [- 128..- 1] @ [1..9] @ [11, 12] @ [14..126]"
definition start_codes :: "int list" where "start_codes = filter (\<lambda>x. x \<noteq> 9 \<and> x \<noteq> 32) value_codes"

text \<open>The jumps of a request line and of header lines.\<close>

lemma jumps_path: "class_jumps (filter (in_states [3, 26, 27, 28, 33]) h11_machine) (rq_widec r) [
    (3, [47], Tr 10),
    (33, segment_codes, St 26),
    (33, [37], St 27),
    (33, [32], Tr 37),
    (33, [35], Tr 39),
    (33, [63], Tr 42),
    (26, uri_codes, St 26),
    (26, [37], St 27),
    (26, [32], Tr 37),
    (26, [35], Tr 39),
    (26, [63], Tr 42),
    (27, hex_codes, St 28),
    (28, hex_codes, St 26)]"
  by (simp only: h11_machine_def filter_append) code_simp

lemma jumps_query: "class_jumps (filter (in_states [29, 30, 31, 32]) h11_machine) (rq_widec r) [
    (29, query_codes, Tr 53),
    (29, [37], Tr 56),
    (29, [32], Tr 54),
    (29, [35], Tr 55),
    (30, query_codes, St 30),
    (30, [37], St 31),
    (30, [32], Tr 58),
    (30, [35], Tr 59),
    (31, hex_codes, St 32),
    (32, hex_codes, St 30)]"
  by (simp only: h11_machine_def filter_append) code_simp

lemma jumps_fragment: "class_jumps (filter (in_states [20, 21, 22, 23]) h11_machine) (rq_widec r) [
    (20, query_codes, Tr 43),
    (20, [37], Tr 45),
    (20, [32], Tr 44),
    (21, query_codes, St 21),
    (21, [37], St 22),
    (21, [32], Tr 47),
    (22, hex_codes, St 23),
    (23, hex_codes, St 21)]"
  by (simp only: h11_machine_def filter_append) code_simp

lemma jumps_version: "class_jumps (filter (in_states [4, 5, 6, 7, 8, 9, 10, 11, 12, 17]) h11_machine) (rq_widec r) [
    (4, [72], Tr 13),
    (5, [84], St 6),
    (6, [84], St 7),
    (7, [80], St 8),
    (8, [47], St 9),
    (9, [49], St 10),
    (10, [46], St 11),
    (11, [48, 49], St 12),
    (12, [13], Tr 22),
    (17, [10], St 13)]"
  by (simp only: h11_machine_def filter_append) code_simp

lemma jumps_header: "class_jumps (filter (in_states [13, 14, 15, 16, 18]) h11_machine) (rq_widec r) [
    (13, token_codes, Tr 23),
    (14, name_codes, St 14),
    (14, [58], Tr 27),
    (15, [32], Tr 29),
    (15, start_codes, Tr 28),
    (15, [13], Tr 31),
    (16, value_codes, St 16),
    (16, [13], Tr 34),
    (13, [13], Tr 25),
    (18, [10], Tr 36)]"
  by (simp only: h11_machine_def filter_append) code_simp

lemma jumps_method: "class_jumps (filter (in_states ([1, 2] @ [175..193])) h11_machine) (rq_widec r)
    ([(1, method_codes, Tr 0), (2, method_codes, St 175), (2, [32], Tr 4)]
     @ map (\<lambda>n. (n, method_codes, St (n + 1))) [175..192] @ map (\<lambda>n. (n, [32], Tr 4)) [175..193])"
  by (simp only: h11_machine_def filter_append) code_simp

lemma blocks: "follows (filter is_Block h11_machine) [
    (0, 2, [Mark]),
    (4, 3, [Request_method]),
    (10, 33, [Mark]),
    (37, 4, [Request_path, Request_uri]),
    (39, 20, [Request_path, Request_uri]),
    (42, 29, [Request_path]),
    (53, 30, [Start_query]),
    (56, 31, [Start_query]),
    (54, 4, [Start_query, Query_string, Request_uri]),
    (55, 20, [Start_query, Query_string, Request_uri]),
    (58, 4, [Query_string, Request_uri]),
    (59, 20, [Query_string, Request_uri]),
    (43, 21, [Mark]),
    (45, 22, [Mark]),
    (44, 4, [Mark, Fragment]),
    (47, 4, [Fragment]),
    (13, 5, [Mark]),
    (22, 17, [Http_version]),
    (23, 14, [Start_field]),
    (27, 15, [Write_field]),
    (29, 15, [Start_value]),
    (28, 16, [Start_value]),
    (31, 17, [Start_value, Write_value]),
    (34, 17, [Write_value]),
    (25, 18, [Start_field]),
    (36, 348, [Done])]"
  by (simp only: h11_machine_def filter_append) code_simp

lemmas block_follow = blocks [simplified follows_def follow_filter list.pred_inject prod.case]

lemmas path_steps = class_jumps_step [OF jumps_path, folded rq_step_def, simplified block_follow follow_St list.pred_inject prod.case]
lemmas query_steps = class_jumps_step [OF jumps_query, folded rq_step_def, simplified block_follow follow_St list.pred_inject prod.case]
lemmas fragment_steps = class_jumps_step [OF jumps_fragment, folded rq_step_def, simplified block_follow follow_St list.pred_inject prod.case]
lemmas version_steps = class_jumps_step [OF jumps_version, folded rq_step_def, simplified block_follow follow_St list.pred_inject prod.case]
lemmas header_steps = class_jumps_step [OF jumps_header, folded rq_step_def, simplified block_follow follow_St list.pred_inject prod.case]

lemma schar_simps [simp]:
  "schar (CHR '' '') = 32" "schar (CHR ''#'') = 35" "schar (CHR ''%'') = 37" "schar (CHR ''/'') = 47" "schar (CHR ''?'') = 63"
  "schar (CHR '':'') = 58" "schar (CHR ''H'') = 72" "schar (CHR ''T'') = 84" "schar (CHR ''P'') = 80" "schar (CHR ''.'') = 46"
  "schar (CHR ''0'') = 48" "schar (CHR ''1'') = 49" "schar (CHR 0x0D) = 13" "schar (CHR 0x0A) = 10"
  by (simp_all add: schar_def code_def)

lemma schar_inj: "schar c = schar d \<longleftrightarrow> c = d"
  using code_range [of c] code_range [of d] code_eq_iff [of c d] by (auto simp: schar_def split: if_splits)

lemma schar_slash: "schar c = 47 \<longleftrightarrow> c = CHR ''/''"
  using schar_inj [of c "CHR ''/''"] by simp

section \<open>Text with escapes\<close>

fun escaped :: "int list \<Rightarrow> string \<Rightarrow> bool" where
  "escaped C [] = True"
| "escaped C (c # s) =
     (if c = CHR ''%'' then (case s of d # e # t \<Rightarrow> schar d \<in> set hex_codes \<and> schar e \<in> set hex_codes \<and> escaped C t | _ \<Rightarrow> False)
      else schar c \<in> set C \<and> escaped C s)"

text \<open>Three states that read such text: the loop and the two digits of an escape.\<close>

definition reads_escaped :: "(int \<Rightarrow> char \<Rightarrow> int \<times> 'a list) \<Rightarrow> int list \<Rightarrow> int \<Rightarrow> int \<Rightarrow> int \<Rightarrow> bool" where
  "reads_escaped step C a b d \<longleftrightarrow> a \<noteq> 0 \<and> b \<noteq> 0 \<and> d \<noteq> 0
     \<and> (\<forall>c. schar c \<in> set C \<longrightarrow> step a c = (a, [])) \<and> step a (CHR ''%'') = (b, [])
     \<and> (\<forall>c. schar c \<in> set hex_codes \<longrightarrow> step b c = (d, []) \<and> step d c = (a, []))"

lemma run_step:
  "step cs c = (m, as) \<Longrightarrow> m \<noteq> 0 \<Longrightarrow> \<not> list_ex breaks as
   \<Longrightarrow> run act breaks step cs p (c # rest) st = run act breaks step m (p + 1) rest (fold (act p) as st)"
  by (simp add: Let_def)

lemma run_escaped:
  assumes "reads_escaped step C a b d" and "escaped C s"
  shows "run act breaks step a p (s @ rest) st = run act breaks step a (p + length s) rest st"
  using assms
proof (induction C s arbitrary: p rule: escaped.induct)
  case (2 C c s)
  show ?case
  proof (cases "c = CHR ''%''")
    case True
    with "2.prems" obtain h i t where "s = h # i # t" "schar h \<in> set hex_codes" "schar i \<in> set hex_codes" "escaped C t"
      by (auto split: list.splits)
    then show ?thesis using "2.IH"(1) [OF True] "2.prems" True by (simp add: reads_escaped_def)
  next
    case False
    then have "step a c = (a, [])" "a \<noteq> 0" "escaped C s" using "2.prems" by (auto simp: reads_escaped_def)
    then show ?thesis using "2.IH"(2) [OF False "2.prems"(1)] by simp
  qed
qed simp

text \<open>An entry state whose first character runs actions before the loop.\<close>

lemma run_escaped_entry:
  assumes "reads_escaped step C a b d" and "escaped C s" and "s \<noteq> []"
    and "\<And>c. schar c \<in> set C' \<Longrightarrow> step e c = (a, as)" and "step e (CHR ''%'') = (b, as)" and "\<not> list_ex breaks as"
    and "schar (hd s) \<in> set C' \<or> hd s = CHR ''%''"
  shows "run act breaks step e p (s @ rest) st = run act breaks step a (p + length s) rest (fold (act p) as st)"
proof (cases "hd s = CHR ''%''")
  case True
  with assms(2,3) obtain h i t where s: "s = CHR ''%'' # h # i # t" "schar h \<in> set hex_codes" "schar i \<in> set hex_codes" "escaped C t"
    by (cases s) (auto split: list.splits)
  then show ?thesis using run_escaped [OF assms(1) s(4), of act breaks] assms by (simp add: reads_escaped_def run_step)
next
  case False
  with assms(2,3) obtain c t where s: "s = c # t" "escaped C t" by (cases s) auto
  have "step e c = (a, as)" "a \<noteq> 0" using assms(1,4,7) s False by (auto simp: reads_escaped_def)
  then show ?thesis using run_escaped [OF assms(1) s(2), of act breaks] assms(6) s(1) by (simp add: run_step)
qed

section \<open>The parts of a request\<close>

lemma rq_escaped_entry:
  assumes "reads_escaped (rq_step r) C a b d" and "escaped C s" and "s \<noteq> []" and "schar (hd s) \<in> set C' \<or> hd s = CHR ''%''"
    and "\<And>c. schar c \<in> set C' \<Longrightarrow> rq_step r e c = (a, as)" and "rq_step r e (CHR ''%'') = (b, as)" and "Done \<notin> set as"
  shows "rq_run buffer r e p (s @ rest) st = rq_run buffer r a (p + length s) rest (fold (\<lambda>a st. bindE st (rq_act buffer p a)) as st)"
  using assms by (intro run_escaped_entry) (auto simp: list_ex_iff)

lemma rq_escaped:
  "reads_escaped (rq_step r) C a b d \<Longrightarrow> escaped C s \<Longrightarrow> rq_run buffer r a p (s @ rest) st = rq_run buffer r a (p + length s) rest st"
  by (rule run_escaped)

lemma reads_uri:
  "reads_escaped (rq_step r) uri_codes 26 27 28"
  "reads_escaped (rq_step r) query_codes 30 31 32"
  "reads_escaped (rq_step r) query_codes 21 22 23"
  by (simp_all add: reads_escaped_def path_steps query_steps fragment_steps)

abbreviation (input) keeps :: "request_parser \<Rightarrow> http_parser \<Rightarrow> bool" where
  "keeps P hp \<equiv> hp_cs hp = hp_cs (rp_parser P) \<and> hp_xml_sent hp = hp_xml_sent (rp_parser P) \<and> hp_json_sent hp = hp_json_sent (rp_parser P)"

definition path_text :: "string \<Rightarrow> bool" where
  "path_text s = (case s of [] \<Rightarrow> False | c # t \<Rightarrow> c = CHR ''/'' \<and> escaped uri_codes t \<and> (t = [] \<or> hd t \<noteq> CHR ''/''))"

lemma act_simps:
  "rq_act buffer p Mark P = Inr (P\<lparr>rp_parser := (rp_parser P)\<lparr>hp_mark := p\<rparr>\<rparr>)"
  "rq_act buffer p Start_query P = Inr (P\<lparr>rp_parser := (rp_parser P)\<lparr>hp_query_start := p\<rparr>\<rparr>)"
  "rq_act buffer p Start_field P = Inr (P\<lparr>rp_parser := (rp_parser P)\<lparr>hp_field_start := p\<rparr>\<rparr>)"
  "rq_act buffer p Start_value P = Inr (P\<lparr>rp_parser := (rp_parser P)\<lparr>hp_mark := p\<rparr>\<rparr>)"
  "rq_act buffer p Request_uri P = Inr P"
  by (simp_all add: rq_act_def Let_def)

lemma act_text:
  assumes "drop a buffer = s @ rest" and "a \<le> length buffer" and "length buffer < 2 ^ 31" and "p = a + length s"
  shows "hp_mark (rp_parser P) = a \<Longrightarrow> rq_act buffer p Request_path P = Inr (P\<lparr>rp_data := (rp_data P)\<lparr>rq_path := s\<rparr>\<rparr>)"
    and "hp_query_start (rp_parser P) = a \<Longrightarrow> rq_act buffer p Query_string P = Inr (P\<lparr>rp_data := (rp_data P)\<lparr>rq_query := s\<rparr>\<rparr>)"
    and "hp_mark (rp_parser P) = a \<Longrightarrow> rq_act buffer p Fragment P = Inr (P\<lparr>rp_data := (rp_data P)\<lparr>rq_fragment := s\<rparr>\<rparr>)"
proof -
  have "std_string (s @ rest) (LEN p a) = Inr s" using std_string_segment [OF assms(1-3)] assms(1,4) by simp
  with assms(1) show "hp_mark (rp_parser P) = a \<Longrightarrow> rq_act buffer p Request_path P = Inr (P\<lparr>rp_data := (rp_data P)\<lparr>rq_path := s\<rparr>\<rparr>)"
    and "hp_query_start (rp_parser P) = a \<Longrightarrow> rq_act buffer p Query_string P = Inr (P\<lparr>rp_data := (rp_data P)\<lparr>rq_query := s\<rparr>\<rparr>)"
    and "hp_mark (rp_parser P) = a \<Longrightarrow> rq_act buffer p Fragment P = Inr (P\<lparr>rp_data := (rp_data P)\<lparr>rq_fragment := s\<rparr>\<rparr>)"
    by (simp_all add: rq_act_def Let_def on_request_path_def on_request_query_def on_request_fragment_def)
qed

text \<open>The states 33 and 26 end the path alike.\<close>

lemma run_path:
  assumes "path_text s"
  shows "\<exists>n \<in> {33, 26}. rq_run buffer r 3 p (s @ rest) (Inr P)
    = rq_run buffer r n (p + length s) rest (Inr (P\<lparr>rp_parser := (rp_parser P)\<lparr>hp_mark := p\<rparr>\<rparr>))"
proof -
  obtain t where s: "s = CHR ''/'' # t" "escaped uri_codes t" "t = [] \<or> hd t \<noteq> CHR ''/''"
    using assms by (auto simp: path_text_def split: list.splits)
  have first: "rq_run buffer r 3 p (s @ rest) (Inr P) = rq_run buffer r 33 (p + 1) (t @ rest) (Inr (P\<lparr>rp_parser := (rp_parser P)\<lparr>hp_mark := p\<rparr>\<rparr>))"
    using s(1) by (simp add: path_steps act_simps)
  show ?thesis
  proof (cases "t = []")
    case True
    then show ?thesis using first s(1) by auto
  next
    case False
    have first_char: "schar (hd t) \<in> set segment_codes \<or> hd t = CHR ''%''"
      using s(2,3) False by (cases t) (auto simp: segment_codes_def schar_slash split: if_splits)
    have "rq_run buffer r 33 (p + 1) (t @ rest) st = rq_run buffer r 26 (p + 1 + length t) rest st" for st
      using rq_escaped_entry [OF reads_uri(1) s(2) False first_char, of r 33 "[]"] by (simp add: path_steps)
    then show ?thesis using first s(1) by simp
  qed
qed

lemma act_text_at:
  assumes "drop a buffer = s @ rest" and "a \<le> length buffer" and "length buffer < 2 ^ 31"
  shows "hp_mark (rp_parser P) = a \<Longrightarrow> rq_act buffer (a + length s) Request_path P = Inr (P\<lparr>rp_data := (rp_data P)\<lparr>rq_path := s\<rparr>\<rparr>)"
    and "hp_query_start (rp_parser P) = a \<Longrightarrow> rq_act buffer (a + length s) Query_string P = Inr (P\<lparr>rp_data := (rp_data P)\<lparr>rq_query := s\<rparr>\<rparr>)"
    and "hp_mark (rp_parser P) = a \<Longrightarrow> rq_act buffer (a + length s) Fragment P = Inr (P\<lparr>rp_data := (rp_data P)\<lparr>rq_fragment := s\<rparr>\<rparr>)"
  using act_text [OF assms refl] by simp_all

lemma run_query:
  assumes "escaped query_codes s" and "t = CHR '' '' \<and> n = 4 \<or> t = CHR ''#'' \<and> n = 20"
    and "drop p buffer = s @ t # rest" and "p \<le> length buffer" and "length buffer < 2 ^ 31"
  shows "rq_run buffer r 29 p (s @ t # rest) (Inr P) = rq_run buffer r n (p + length s + 1) rest
    (Inr (P\<lparr>rp_parser := (rp_parser P)\<lparr>hp_query_start := p\<rparr>, rp_data := (rp_data P)\<lparr>rq_query := s\<rparr>\<rparr>))"
proof (cases "s = []")
  case True
  then show ?thesis using assms(2) act_text_at(2) [OF assms(3-5)] by (auto simp: query_steps act_simps)
next
  case False
  then have first: "schar (hd s) \<in> set query_codes \<or> hd s = CHR ''%''" using assms(1) by (cases s) (auto split: if_splits)
  let ?P = "P\<lparr>rp_parser := (rp_parser P)\<lparr>hp_query_start := p\<rparr>\<rparr>"
  have "rq_run buffer r 29 p (s @ t # rest) (Inr P) = rq_run buffer r 30 (p + length s) (t # rest) (Inr ?P)"
    using rq_escaped_entry [OF reads_uri(2) assms(1) False first, of r 29 "[Start_query]"] by (simp add: query_steps act_simps)
  then show ?thesis using assms(2) act_text_at(2) [OF assms(3-5)] by (auto simp: query_steps act_simps)
qed

lemma run_fragment:
  assumes "escaped query_codes s" and "drop p buffer = s @ CHR '' '' # rest" and "p \<le> length buffer" and "length buffer < 2 ^ 31"
  shows "rq_run buffer r 20 p (s @ CHR '' '' # rest) (Inr P) = rq_run buffer r 4 (p + length s + 1) rest
    (Inr (P\<lparr>rp_parser := (rp_parser P)\<lparr>hp_mark := p\<rparr>, rp_data := (rp_data P)\<lparr>rq_fragment := s\<rparr>\<rparr>))"
proof (cases "s = []")
  case True
  then show ?thesis using act_text_at(3) [OF assms(2-4)] by (auto simp: fragment_steps act_simps)
next
  case False
  then have first: "schar (hd s) \<in> set query_codes \<or> hd s = CHR ''%''" using assms(1) by (cases s) (auto split: if_splits)
  let ?P = "P\<lparr>rp_parser := (rp_parser P)\<lparr>hp_mark := p\<rparr>\<rparr>"
  have "rq_run buffer r 20 p (s @ CHR '' '' # rest) (Inr P) = rq_run buffer r 21 (p + length s) (CHR '' '' # rest) (Inr ?P)"
    using rq_escaped_entry [OF reads_uri(3) assms(1) False first, of r 20 "[Mark]"] by (simp add: fragment_steps act_simps)
  then show ?thesis using act_text_at(3) [OF assms(2-4)] by (auto simp: fragment_steps act_simps)
qed

definition query_part :: "string option \<Rightarrow> string" where
  "query_part q = (case q of None \<Rightarrow> [] | Some s \<Rightarrow> CHR ''?'' # s)"

definition fragment_part :: "string option \<Rightarrow> string" where
  "fragment_part f = (case f of None \<Rightarrow> [] | Some s \<Rightarrow> CHR ''#'' # s)"

definition set_target :: "string \<Rightarrow> string option \<Rightarrow> string option \<Rightarrow> http_request \<Rightarrow> http_request" where
  "set_target path q f d =
     (let d = d\<lparr>rq_path := path\<rparr>; d = (case q of None \<Rightarrow> d | Some s \<Rightarrow> d\<lparr>rq_query := s\<rparr>) in
      case f of None \<Rightarrow> d | Some s \<Rightarrow> d\<lparr>rq_fragment := s\<rparr>)"

definition target_parser :: "nat \<Rightarrow> string option \<Rightarrow> string option \<Rightarrow> http_parser \<Rightarrow> http_parser" where
  "target_parser p q f hp =
     (let hp = (case q of None \<Rightarrow> hp | Some s \<Rightarrow> hp\<lparr>hp_query_start := p + 1\<rparr>) in
      case f of None \<Rightarrow> hp | Some s \<Rightarrow> hp\<lparr>hp_mark := p + length (query_part q) + 1\<rparr>)"

lemma target_parser_keeps [simp]:
  "hp_cs (target_parser p q f hp) = hp_cs hp" "hp_xml_sent (target_parser p q f hp) = hp_xml_sent hp"
  "hp_json_sent (target_parser p q f hp) = hp_json_sent hp"
  by (simp_all add: target_parser_def Let_def split: option.splits)

text \<open>From the end of the path, in one of its two states, to the blank behind the target.\<close>

lemma run_after_path:
  assumes n: "n = 33 \<or> n = 26" and q: "\<And>s. q = Some s \<Longrightarrow> escaped query_codes s" and f: "\<And>s. f = Some s \<Longrightarrow> escaped query_codes s"
    and b: "drop p buffer = path @ query_part q @ fragment_part f @ CHR '' '' # rest" and p: "p \<le> length buffer" "length buffer < 2 ^ 31"
    and m: "hp_mark (rp_parser P) = p"
  shows "rq_run buffer r n (p + length path) (query_part q @ fragment_part f @ CHR '' '' # rest) (Inr P)
    = rq_run buffer r 4 (p + length path + length (query_part q) + length (fragment_part f) + 1) rest
        (Inr (P\<lparr>rp_parser := target_parser (p + length path) q f (rp_parser P), rp_data := set_target path q f (rp_data P)\<rparr>))"
proof -
  note path = act_text_at(1) [OF b p m]
  have len: "p + length path + length (query_part q) + length (fragment_part f) + 1 \<le> length buffer"
    using arg_cong [OF b, of length] p(1) by simp
  have step: "rq_step r n (CHR '' '') = (4, [Request_path, Request_uri])" "rq_step r n (CHR ''#'') = (20, [Request_path, Request_uri])"
    "rq_step r n (CHR ''?'') = (29, [Request_path])" using n by (auto simp: path_steps)
  have dq: "drop (p + length path + 1) buffer = s @ fragment_part f @ CHR '' '' # rest" if "q = Some s" for s
    using arg_cong [OF b, of "drop (length path + 1)"] that by (simp add: query_part_def add.commute)
  have df: "drop (p + length path + length (query_part q) + 1) buffer = s @ CHR '' '' # rest" if "f = Some s" for s
    using arg_cong [OF b, of "drop (length path + length (query_part q) + 1)"] that
    by (simp add: fragment_part_def add.commute add.left_commute)
  consider "q = None" "f = None" | g where "q = None" "f = Some g" | s where "q = Some s" "f = None" | s g where "q = Some s" "f = Some g"
    by (cases q; cases f) auto
  then show ?thesis
  proof cases
    case 1
    then show ?thesis using step path by (simp add: query_part_def fragment_part_def act_simps set_target_def target_parser_def)
  next
    case 2
    then show ?thesis
      using step path run_fragment [OF f [OF 2(2)] df [OF 2(2)]] len p(2)
      by (simp add: query_part_def fragment_part_def act_simps set_target_def target_parser_def add.commute add.left_commute)
  next
    case 3
    then show ?thesis
      using step path run_query [OF q [OF 3(1)], of "CHR '' ''" 4 "p + length path + 1" buffer rest] dq [OF 3(1)] len p(2)
      by (simp add: query_part_def fragment_part_def act_simps set_target_def target_parser_def add.commute add.left_commute)
  next
    case 4
    then show ?thesis
      using step path run_query [OF q [OF 4(1)], of "CHR ''#''" 20 "p + length path + 1" buffer "g @ CHR '' '' # rest"]
        run_fragment [OF f [OF 4(2)] df [OF 4(2)]] dq [OF 4(1)] len p(2)
      by (simp add: query_part_def fragment_part_def act_simps set_target_def target_parser_def add.commute add.left_commute)
  qed
qed

text \<open>The state after \<open>k\<close> characters of the method.\<close>

definition method_state :: "nat \<Rightarrow> int" where
  "method_state k = (if k = 0 then 1 else if k = 1 then 2 else int k + 173)"

definition method_text :: "string \<Rightarrow> bool" where
  "method_text m \<longleftrightarrow> m \<noteq> [] \<and> length m \<le> 20 \<and> (\<forall>c \<in> set m. schar c \<in> set method_codes)"

lemma method_steps:
  "schar c \<in> set method_codes \<Longrightarrow> rq_step r 1 c = (2, [Mark])"
  "schar c \<in> set method_codes \<Longrightarrow> 1 \<le> k \<Longrightarrow> k < 20 \<Longrightarrow> rq_step r (method_state k) c = (method_state (k + 1), [])"
  "1 \<le> k \<Longrightarrow> k \<le> 20 \<Longrightarrow> rq_step r (method_state k) (CHR '' '') = (3, [Request_method])"
proof -
  note j = class_jumps_step [OF jumps_method, folded rq_step_def, unfolded list_all_iff, rule_format]
  show "schar c \<in> set method_codes \<Longrightarrow> rq_step r 1 c = (2, [Mark])"
    using j [of "(1, method_codes, Tr 0)"] by (simp add: block_follow)
  show "rq_step r (method_state k) c = (method_state (k + 1), [])" if c: "schar c \<in> set method_codes" and k: "1 \<le> k" "k < 20"
  proof (cases "k = 1")
    case True
    then show ?thesis using j [of "(2, method_codes, St 175)"] c by (simp add: method_state_def)
  next
    case False
    then have "int k + 173 \<in> set [175..192]" using k by (auto simp del: upto_rec_numeral)
    then show ?thesis using j [of "(int k + 173, method_codes, St (int k + 173 + 1))"] c k False by (auto simp: method_state_def image_iff simp del: upto_rec_numeral)
  qed
  show "rq_step r (method_state k) (CHR '' '') = (3, [Request_method])" if k: "1 \<le> k" "k \<le> 20"
  proof (cases "k = 1")
    case True
    then show ?thesis using j [of "(2, [32], Tr 4)"] by (simp add: method_state_def block_follow)
  next
    case False
    then have "int k + 173 \<in> set [175..193]" using k by (auto simp del: upto_rec_numeral)
    then show ?thesis using j [of "(int k + 173, [32], Tr 4)"] k False by (auto simp: method_state_def block_follow image_iff simp del: upto_rec_numeral)
  qed
qed

lemma run_method_rest:
  assumes "\<forall>c \<in> set m. schar c \<in> set method_codes" and "1 \<le> k" and "k + length m \<le> 20"
  shows "rq_run buffer r (method_state k) p (m @ rest) st = rq_run buffer r (method_state (k + length m)) (p + length m) rest st"
  using assms
proof (induction m arbitrary: k p)
  case (Cons c m)
  have "rq_step r (method_state k) c = (method_state (k + 1), [])" using Cons.prems by (intro method_steps) auto
  moreover have "method_state (k + 1) \<noteq> 0" by (simp add: method_state_def)
  ultimately show ?case using Cons.IH [of "k + 1" "p + 1"] Cons.prems by simp
qed simp

lemma run_method:
  assumes m: "method_text m" and b: "drop p buffer = m @ CHR '' '' # rest" and M: "CharsToHttpMethod (m @ CHR '' '' # rest) = M" "M \<noteq> INVALID_METHOD"
  shows "rq_run buffer r 1 p (m @ CHR '' '' # rest) (Inr P) = rq_run buffer r 3 (p + length m + 1) rest
    (Inr (P\<lparr>rp_parser := (rp_parser P)\<lparr>hp_mark := p\<rparr>, rp_data := (rp_data P)\<lparr>rq_method := M\<rparr>\<rparr>))"
proof -
  obtain c t where ct: "m = c # t" "schar c \<in> set method_codes" "\<forall>c \<in> set t. schar c \<in> set method_codes" "length t \<le> 19"
    using m by (cases m) (auto simp: method_text_def)
  let ?P = "P\<lparr>rp_parser := (rp_parser P)\<lparr>hp_mark := p\<rparr>\<rparr>"
  have "rq_run buffer r 1 p (m @ CHR '' '' # rest) (Inr P) = rq_run buffer r (method_state 1) (p + 1) (t @ CHR '' '' # rest) (Inr ?P)"
    using ct(1) method_steps(1) [OF ct(2)] by (simp add: act_simps method_state_def)
  also have "\<dots> = rq_run buffer r (method_state (1 + length t)) (p + 1 + length t) (CHR '' '' # rest) (Inr ?P)"
    using ct by (intro run_method_rest) auto
  also have "\<dots> = rq_run buffer r 3 (p + length m + 1) rest (rq_act buffer (p + length m) Request_method ?P)"
    using method_steps(3) [of "1 + length t" r] ct(1,4) by simp
  also have "rq_act buffer (p + length m) Request_method ?P = Inr (?P\<lparr>rp_data := (rp_data P)\<lparr>rq_method := M\<rparr>\<rparr>)"
    using b M by (simp add: rq_act_def on_request_method_def)
  finally show ?thesis by simp
qed

lemma run_version:
  assumes "d = CHR ''0'' \<and> v = 0x10 \<or> d = CHR ''1'' \<and> v = 0x11" and b: "drop p buffer = ''HTTP/1.'' @ d # CRLF @ rest"
    and "p \<le> length buffer" "length buffer < 2 ^ 31"
  shows "rq_run buffer r 4 p (''HTTP/1.'' @ d # CRLF @ rest) (Inr P) = rq_run buffer r 13 (p + 10) rest
    (Inr (P\<lparr>rp_parser := (rp_parser P)\<lparr>hp_mark := p\<rparr>, rp_data := (rp_data P)\<lparr>rq_version := v\<rparr>\<rparr>))"
proof -
  have ver: "parse_version (''HTTP/1.'' @ d # CRLF @ rest) 8 = Some v"
    using assms(1) by (auto simp: parse_version_def strncmp_eq c_str_def numeral_eq_Suc)
  have len: "LEN (p + 8) p = 8" using assms(3,4) arg_cong [OF b, of length] by (simp add: LEN_le)
  show ?thesis using assms(1) b ver len
    by (auto simp: version_steps act_simps rq_act_def on_request_version_def Let_def numeral_eq_Suc)
qed

section \<open>Header lines\<close>

definition field_ok :: "string \<times> string \<Rightarrow> bool" where
  "field_ok kv = (case kv of (k, v) \<Rightarrow> k \<noteq> [] \<and> schar (hd k) \<in> set token_codes \<and> (\<forall>c \<in> set (tl k). schar c \<in> set name_codes)
     \<and> (\<forall>c \<in> set v. schar c \<in> set value_codes) \<and> (v \<noteq> [] \<longrightarrow> schar (hd v) \<in> set start_codes))"

definition field_line :: "string \<times> string \<Rightarrow> string" where
  "field_line kv = (case kv of (k, v) \<Rightarrow> k @ '': '' @ v @ CRLF)"

lemma act_value:
  assumes "drop a buffer = k @ rest" "drop b buffer = v @ rest'" "a \<le> length buffer" "b \<le> length buffer" "length buffer < 2 ^ 31"
    and "hp_field_start (rp_parser P) = a" "hp_field_len (rp_parser P) = length k" "hp_mark (rp_parser P) = b" "k \<noteq> []"
  shows "rq_act buffer (b + length v) Write_value P = Inr (P\<lparr>rp_data := rq_setHeader k v (rp_data P)\<rparr>)"
proof -
  have "std_string (v @ rest') (LEN (b + length v) b) = Inr v" using std_string_segment [OF assms(2,4,5)] assms(2) by simp
  moreover have "length k \<le> length buffer" using arg_cong [OF assms(1), of length] by simp
  then have "std_string (k @ rest) (length k) = Inr k" using assms(5) by (simp add: std_string_def)
  ultimately show ?thesis using assms by (simp add: rq_act_def on_request_http_field_def)
qed

lemma run_field:
  assumes ok: "field_ok (k, v)" and b: "drop p buffer = field_line (k, v) @ rest" and p: "p \<le> length buffer" "length buffer < 2 ^ 31"
  shows "rq_run buffer r 13 p (field_line (k, v) @ rest) (Inr P) = rq_run buffer r 13 (p + length (field_line (k, v))) rest
    (Inr (P\<lparr>rp_parser := (rp_parser P)\<lparr>hp_field_start := p, hp_field_len := length k, hp_mark := p + length k + 2\<rparr>,
              rp_data := rq_setHeader k v (rp_data P)\<rparr>))"
proof -
  let ?tail = "'': '' @ v @ CRLF @ rest"
  obtain c t where k: "k = c # t" "schar c \<in> set token_codes" "\<forall>c \<in> set t. schar c \<in> set name_codes"
    using ok by (cases k) (auto simp: field_ok_def)
  let ?P1 = "P\<lparr>rp_parser := (rp_parser P)\<lparr>hp_field_start := p\<rparr>\<rparr>"
  have b': "drop p buffer = k @ ?tail" using b by (simp add: field_line_def)
  have bv: "drop (p + length k + 2) buffer = v @ CRLF @ rest"
    using arg_cong [OF b', of "drop (length k + 2)"] by (simp add: add.commute add.left_commute)
  have len: "p + length k + 2 + length v + 2 \<le> length buffer" using arg_cong [OF b', of length] p by simp
  have name: "rq_run buffer r 13 p (k @ ?tail) (Inr P) = rq_run buffer r 14 (p + length k) ?tail (Inr ?P1)"
    using run_loop [of t "rq_step r" 14 "\<lambda>p a st. bindE st (rq_act buffer p a)" "\<lambda>a. a = Done" "p + 1" ?tail "Inr ?P1"] k
    by (simp add: header_steps act_simps)
  let ?P2 = "P\<lparr>rp_parser := (rp_parser P)\<lparr>hp_field_start := p, hp_field_len := length k, hp_mark := p + length k + 1\<rparr>\<rparr>"
  have "LEN (p + length k) p = length k" using len p by (simp add: LEN_le)
  then have wf: "rq_act buffer (p + length k) Write_field ?P1 = Inr (?P1\<lparr>rp_parser := (rp_parser ?P1)\<lparr>hp_field_len := length k\<rparr>\<rparr>)"
    by (simp add: rq_act_def)
  have colon: "rq_run buffer r 14 (p + length k) ?tail (Inr ?P1) = rq_run buffer r 15 (p + length k + 2) (v @ CRLF @ rest) (Inr ?P2)"
    by (simp add: header_steps act_simps wf)
  let ?P3 = "?P2\<lparr>rp_parser := (rp_parser ?P2)\<lparr>hp_mark := p + length k + 2\<rparr>\<rparr>"
  have val: "rq_act buffer (p + length k + 2 + length v) Write_value ?P3 = Inr (?P3\<lparr>rp_data := rq_setHeader k v (rp_data P)\<rparr>)"
    using act_value [OF b' bv _ _ p(2), of ?P3] len p k(1) by simp
  have "rq_run buffer r 15 (p + length k + 2) (v @ CRLF @ rest) (Inr ?P2)
      = rq_run buffer r 13 (p + length k + 2 + length v + 2) rest (Inr (?P3\<lparr>rp_data := rq_setHeader k v (rp_data P)\<rparr>))"
  proof (cases v)
    case Nil
    then show ?thesis using val by (simp add: header_steps version_steps act_simps)
  next
    case (Cons c t)
    have "schar c \<in> set start_codes" "\<forall>c \<in> set t. schar c \<in> set value_codes" using ok Cons by (auto simp: field_ok_def)
    then show ?thesis
      using run_loop [of t "rq_step r" 16 "\<lambda>p a st. bindE st (rq_act buffer p a)" "\<lambda>a. a = Done" "p + length k + 3" "CRLF @ rest" "Inr ?P3"]
        val Cons by (simp add: header_steps version_steps act_simps numeral_3_eq_3)
  qed
  then show ?thesis using name colon by (simp add: field_line_def add.assoc)
qed

definition set_fields :: "(string \<times> string) list \<Rightarrow> http_request \<Rightarrow> http_request" where
  "set_fields hs = fold (\<lambda>(k, v). rq_setHeader k v) hs"

lemma run_fields:
  assumes "\<forall>kv \<in> set hs. field_ok kv" and "drop p buffer = concat (map field_line hs) @ rest" and "p \<le> length buffer" and "length buffer < 2 ^ 31"
  shows "\<exists>hp. rq_run buffer r 13 p (concat (map field_line hs) @ rest) (Inr P) = rq_run buffer r 13 (p + length (concat (map field_line hs))) rest
    (Inr (P\<lparr>rp_parser := hp, rp_data := set_fields hs (rp_data P)\<rparr>)) \<and> keeps P hp"
  using assms(1-3)
proof (induction hs arbitrary: p P)
  case Nil
  show ?case by (rule exI [of _ "rp_parser P"]) (simp add: set_fields_def)
next
  case (Cons kv hs)
  obtain k v where kv: "kv = (k, v)" by fastforce
  let ?l = "length (field_line (k, v))"
  let ?P = "P\<lparr>rp_parser := (rp_parser P)\<lparr>hp_field_start := p, hp_field_len := length k, hp_mark := p + length k + 2\<rparr>,
              rp_data := rq_setHeader k v (rp_data P)\<rparr>"
  have b: "drop p buffer = field_line (k, v) @ concat (map field_line hs) @ rest" using Cons.prems(2) kv by simp
  have "drop (p + ?l) buffer = concat (map field_line hs) @ rest" using arg_cong [OF b, of "drop ?l"] by (simp add: add.commute)
  moreover have "p + ?l \<le> length buffer" using arg_cong [OF b, of length] Cons.prems(3) by simp
  ultimately obtain hp where hp: "rq_run buffer r 13 (p + ?l) (concat (map field_line hs) @ rest) (Inr ?P)
      = rq_run buffer r 13 (p + ?l + length (concat (map field_line hs))) rest (Inr (?P\<lparr>rp_parser := hp, rp_data := set_fields hs (rp_data ?P)\<rparr>))"
    "keeps ?P hp"
    using Cons.IH [of "p + ?l" ?P] Cons.prems(1) by auto
  have "rq_run buffer r 13 p (field_line (k, v) @ concat (map field_line hs) @ rest) (Inr P)
      = rq_run buffer r 13 (p + ?l) (concat (map field_line hs) @ rest) (Inr ?P)"
    using run_field [OF _ b Cons.prems(3) assms(4)] Cons.prems(1) kv by simp
  with hp show ?case using kv by (intro exI [of _ hp]) (simp add: set_fields_def add.assoc)
qed

lemma run_end:
  assumes "\<not> hp_xml_sent (rp_parser P)" and "\<not> hp_json_sent (rp_parser P)"
  shows "rq_run buffer r 13 p (CRLF @ body) (Inr P) =
    (348, p + 2, Inr (P\<lparr>rp_parser := (rp_parser P)\<lparr>hp_field_start := p, hp_body_start := p + 2\<rparr>\<rparr>))"
  using assms by (simp add: header_steps act_simps rq_act_def)

section \<open>A whole request\<close>

definition head_text :: "string \<Rightarrow> string \<Rightarrow> string option \<Rightarrow> string option \<Rightarrow> char \<Rightarrow> (string \<times> string) list \<Rightarrow> string" where
  "head_text m path q f d hs =
     m @ CHR '' '' # path @ query_part q @ fragment_part f @ CHR '' '' # ''HTTP/1.'' @ d # CRLF @ concat (map field_line hs) @ CRLF"

text \<open>From the end of the path, which starts at the mark, to the end of the head.\<close>

lemma run_rest:
  assumes n: "n = 33 \<or> n = 26" and q: "\<And>s. q = Some s \<Longrightarrow> escaped query_codes s" and f: "\<And>s. f = Some s \<Longrightarrow> escaped query_codes s"
    and d: "d = CHR ''0'' \<and> v = 0x10 \<or> d = CHR ''1'' \<and> v = 0x11" and hs: "\<forall>kv \<in> set hs. field_ok kv"
    and b: "drop p b = path @ query_part q @ fragment_part f @ CHR '' '' # ''HTTP/1.'' @ d # CRLF @ concat (map field_line hs) @ CRLF @ body"
    and p: "p \<le> length b" and len: "length b < 2 ^ 31" and P: "\<not> hp_xml_sent (rp_parser P)" "\<not> hp_json_sent (rp_parser P)" "hp_mark (rp_parser P) = p"
  shows "\<exists>hp. rq_run b r n (p + length path) (query_part q @ fragment_part f @ CHR '' '' # ''HTTP/1.'' @ d # CRLF @ concat (map field_line hs) @ CRLF @ body) (Inr P)
    = (348, length b - length body, Inr (P\<lparr>rp_parser := hp, rp_data := set_fields hs ((set_target path q f (rp_data P))\<lparr>rq_version := v\<rparr>)\<rparr>))"
proof -
  let ?t5 = "CRLF @ body" let ?t4 = "concat (map field_line hs) @ ?t5" let ?t3 = "''HTTP/1.'' @ d # CRLF @ ?t4"
  let ?u = "query_part q @ fragment_part f @ CHR '' '' # ?t3"
  define p3 where "p3 = p + length path + length (query_part q) + length (fragment_part f) + 1"
  define p5 where "p5 = p3 + 10 + length (concat (map field_line hs))"
  let ?P3 = "P\<lparr>rp_parser := target_parser (p + length path) q f (rp_parser P), rp_data := set_target path q f (rp_data P)\<rparr>"
  have r3: "rq_run b r n (p + length path) ?u (Inr P) = rq_run b r 4 p3 ?t3 (Inr ?P3)"
    using run_after_path [OF n q f b p len P(3)] by (simp only: p3_def)
  have at3: "drop p3 b = ?t3" "p3 \<le> length b"
    using arg_cong [OF b, of "drop (length path + length (query_part q) + length (fragment_part f) + 1)"] arg_cong [OF b, of length] p
    by (simp_all add: p3_def add.commute add.left_commute)
  let ?P4 = "?P3\<lparr>rp_parser := (rp_parser ?P3)\<lparr>hp_mark := p3\<rparr>, rp_data := (rp_data ?P3)\<lparr>rq_version := v\<rparr>\<rparr>"
  have r4: "rq_run b r 4 p3 ?t3 (Inr ?P3) = rq_run b r 13 (p3 + 10) ?t4 (Inr ?P4)"
    by (rule run_version [OF d at3 len])
  have at4: "drop (p3 + 10) b = ?t4" "p3 + 10 \<le> length b"
    using arg_cong [OF at3(1), of "drop 10"] arg_cong [OF at3(1), of length] at3(2) by (simp_all add: add.commute numeral_eq_Suc)
  obtain hp where hp: "rq_run b r 13 (p3 + 10) ?t4 (Inr ?P4) = rq_run b r 13 p5 ?t5 (Inr (?P4\<lparr>rp_parser := hp, rp_data := set_fields hs (rp_data ?P4)\<rparr>))"
    "keeps ?P4 hp"
    using run_fields [OF hs at4 len, of r ?P4] unfolding p5_def by blast
  have r5: "rq_run b r 13 p5 ?t5 (Inr (?P4\<lparr>rp_parser := hp, rp_data := set_fields hs (rp_data ?P4)\<rparr>)) =
      (348, p5 + 2, Inr (?P4\<lparr>rp_parser := hp\<lparr>hp_field_start := p5, hp_body_start := p5 + 2\<rparr>, rp_data := set_fields hs (rp_data ?P4)\<rparr>))"
    using run_end [of "?P4\<lparr>rp_parser := hp, rp_data := set_fields hs (rp_data ?P4)\<rparr>" b r p5 body] hp(2) P by simp
  have l: "p5 + 2 = length b - length body" using arg_cong [OF at4(1), of length] at4(2) by (simp add: p5_def)
  show ?thesis using r3 r4 hp(1) r5 l by (intro exI) simp
qed

lemma run_request:
  assumes m: "method_text m" "CharsToHttpMethod (head_text m path q f d hs @ body) = M" "M \<noteq> INVALID_METHOD"
    and path: "path_text path" and q: "\<And>s. q = Some s \<Longrightarrow> escaped query_codes s" and f: "\<And>s. f = Some s \<Longrightarrow> escaped query_codes s"
    and d: "d = CHR ''0'' \<and> v = 0x10 \<or> d = CHR ''1'' \<and> v = 0x11" and hs: "\<forall>kv \<in> set hs. field_ok kv"
    and len: "length (head_text m path q f d hs @ body) < 2 ^ 31" and P: "\<not> hp_xml_sent (rp_parser P)" "\<not> hp_json_sent (rp_parser P)"
  shows "\<exists>hp. rq_run (head_text m path q f d hs @ body) r 1 0 (head_text m path q f d hs @ body) (Inr P)
    = (348, length (head_text m path q f d hs), Inr (P\<lparr>rp_parser := hp,
         rp_data := set_fields hs ((set_target path q f ((rp_data P)\<lparr>rq_method := M\<rparr>))\<lparr>rq_version := v\<rparr>)\<rparr>))"
proof -
  let ?b = "head_text m path q f d hs @ body"
  let ?u = "query_part q @ fragment_part f @ CHR '' '' # ''HTTP/1.'' @ d # CRLF @ concat (map field_line hs) @ CRLF @ body"
  have b: "?b = m @ CHR '' '' # path @ ?u" by (simp add: head_text_def)
  let ?p = "length m + 1" let ?M = "P\<lparr>rp_parser := (rp_parser P)\<lparr>hp_mark := 0\<rparr>, rp_data := (rp_data P)\<lparr>rq_method := M\<rparr>\<rparr>"
  have r1: "rq_run ?b r 1 0 (m @ CHR '' '' # path @ ?u) (Inr P) = rq_run ?b r 3 ?p (path @ ?u) (Inr ?M)"
    using run_method [OF m(1), of 0 ?b "path @ ?u"] m(2,3) b by simp
  let ?N = "?M\<lparr>rp_parser := (rp_parser ?M)\<lparr>hp_mark := ?p\<rparr>\<rparr>"
  obtain n where n: "n = 33 \<or> n = 26" "rq_run ?b r 3 ?p (path @ ?u) (Inr ?M) = rq_run ?b r n (?p + length path) ?u (Inr ?N)"
    using run_path [OF path, of ?b r ?p ?u ?M] by blast
  have "drop ?p ?b = path @ ?u" "?p \<le> length ?b" unfolding b by simp_all
  from run_rest [OF n(1) q f d hs this len, of ?N r] P obtain hp where
    "rq_run ?b r n (?p + length path) ?u (Inr ?N) = (348, length ?b - length body, Inr (?N\<lparr>rp_parser := hp,
       rp_data := set_fields hs ((set_target path q f (rp_data ?N))\<lparr>rq_version := v\<rparr>)\<rparr>))" by auto
  then show ?thesis using r1 n(2) unfolding b [symmetric] by (intro exI) simp
qed

end
