(* ===== verification/Http_Wire.thy ===== *)
theory Http_Wire
  imports Http_Grammar
begin

text \<open>
  Whole requests through the parser: what \<open>HttpRequest::dump\<close> sends is read back, and what happens to a request
  that arrives in two reads or whose header lines are not as they should be.
\<close>

section \<open>Parsing a whole buffer\<close>

lemma parse_request:
  assumes m: "method_text m" "CharsToHttpMethod (head_text m path q f d hs @ body) = M" "M \<noteq> INVALID_METHOD"
    and path: "path_text path" and q: "\<And>s. q = Some s \<Longrightarrow> escaped query_codes s" and f: "\<And>s. f = Some s \<Longrightarrow> escaped query_codes s"
    and d: "d = CHR ''0'' \<and> v = 0x10 \<or> d = CHR ''1'' \<and> v = 0x11" and hs: "\<forall>kv \<in> set hs. field_ok kv"
    and len: "length (head_text m path q f d hs @ body) < 2 ^ 31"
  shows "\<exists>P. rp_execute (head_text m path q f d hs @ body) (HttpRequestParser g) = Inr (length (head_text m path q f d hs), body, P)
    \<and> rp_data P = set_fields hs ((set_target path q f ((HttpRequest 0x11 True)\<lparr>rq_method := M\<rparr>))\<lparr>rq_version := v\<rparr>)
    \<and> rp_isFinished P = 1 \<and> \<not> rp_hasError P"
proof -
  let ?b = "head_text m path q f d hs @ body" let ?P = "HttpRequestParser g"
  let ?Q = "?P\<lparr>rp_parser := (rp_parser ?P)\<lparr>hp_nread := 0, hp_mark := 0, hp_field_len := 0, hp_field_start := 0\<rparr>\<rparr>"
  have start: "hp_body_start (rp_parser ?P) = 0" "hp_cs (rp_parser ?P) = 1" "rp_error ?P = 0" "rp_data ?P = HttpRequest 0x11 True"
    "\<not> hp_xml_sent (rp_parser ?P)" "\<not> hp_json_sent (rp_parser ?P)"
    by (simp_all add: HttpRequestParser_def http_parser_init_def http_parser_start_def)
  obtain n P' where ex: "http_parser_execute ?b ?P = Inr (n, P')"
    using execute_safe [OF _ _ len, of ?P] start by (auto simp: in_query_def)
  obtain hp where run: "rq_run ?b (hp_uri_relaxed (rp_parser ?Q)) 1 0 ?b (Inr ?Q) = (348, length (head_text m path q f d hs),
      Inr (?Q\<lparr>rp_parser := hp, rp_data := set_fields hs ((set_target path q f ((rp_data ?Q)\<lparr>rq_method := M\<rparr>))\<lparr>rq_version := v\<rparr>)\<rparr>))"
    using run_request [OF m path q f d hs len, of ?Q] start(5,6) by fastforce
  have "holds (length ?b) 0 (\<not> in_name (hp_cs (rp_parser ?Q)), in_query (hp_cs (rp_parser ?Q))) ?Q"
    using start by (auto simp: holds_def in_query_def head_text_def)
  from rq_run_holds [OF this _ len, of ?b "hp_uri_relaxed (rp_parser ?Q)"] run start(2)
  have hp: "hp_nread hp = 0" "hp_cs hp = 1" by (auto simp: holds_def)
  have ne: "length ?b \<noteq> 0" by (simp add: head_text_def)
  have "n = length (head_text m path q f d hs) \<and> rp_data P' = set_fields hs ((set_target path q f ((HttpRequest 0x11 True)\<lparr>rq_method := M\<rparr>))\<lparr>rq_version := v\<rparr>)
    \<and> rp_error P' = 0 \<and> hp_cs (rp_parser P') = 348"
    using ex run ne start hp unfolding http_parser_execute_def Let_def c_int_nat by (auto simp: http_parser_has_error_def split: if_splits)
  then show ?thesis using ex
    by (simp add: rp_execute_def rp_isFinished_def rp_hasError_def http_parser_finish_def http_parser_has_error_def
        http_parser_is_finished_def http_parser_first_final_def)
qed

section \<open>Requests on the wire\<close>

text \<open>The header lines \<open>rq_dump\<close> sends.\<close>

definition sent_fields :: "http_request \<Rightarrow> (string \<times> string) list" where
  "sent_fields r = (if rq_websocket r then [] else [(''connection'', if rq_close r then ''close'' else ''keep-alive'')])
     @ filter (\<lambda>(k, v). rq_websocket r \<or> fold_case k \<noteq> fold_case ''connection'') (rq_headers r)
     @ (if rq_body r = [] then [] else [(''content-length'', dec (length (rq_body r)))])"

definition nonempty :: "string \<Rightarrow> string option" where
  "nonempty s = (if s = [] then None else Some s)"

text \<open>What the parser can read back.\<close>

definition wire_ok :: "http_request \<Rightarrow> bool" where
  "wire_ok r \<longleftrightarrow> rq_method r \<noteq> INVALID_METHOD \<and> rq_method r \<noteq> MSEARCH \<and> path_text (rq_path r)
     \<and> escaped query_codes (rq_query r) \<and> escaped query_codes (rq_fragment r) \<and> (rq_version r = 0x10 \<or> rq_version r = 0x11)
     \<and> (\<forall>kv \<in> set (rq_headers r). field_ok kv) \<and> hdr_ok (rq_headers r)"

lemma method_texts: "list_all (\<lambda>e. fst e = MSEARCH \<or> method_text (snd e)) HTTP_METHOD_MAP"
  by code_simp

lemma method_text_ok: "m \<noteq> INVALID_METHOD \<Longrightarrow> m \<noteq> MSEARCH \<Longrightarrow> method_text (HttpMethodToString m)"
  using method_texts method_text_in_table [of m] by (auto simp: list_all_iff)

lemma method_read:
  assumes "M \<noteq> INVALID_METHOD" and "M \<noteq> MSEARCH"
  shows "method_text (HttpMethodToString M)" "CharsToHttpMethod (HttpMethodToString M @ t) = M"
proof -
  have "CHR 0x00 \<notin> set (HttpMethodToString M)"
    using method_names_ok method_text_in_table [OF assms(1)] by (auto simp: method_names_ok_def list_all_iff)
  then have "c_str (HttpMethodToString M @ t) = HttpMethodToString M @ c_str t" unfolding c_str_def by (intro takeWhile_append2) auto
  then show "CharsToHttpMethod (HttpMethodToString M @ t) = M" using CharsToHttpMethod_iff [OF assms(1)] by simp
qed (rule method_text_ok [OF assms])

lemma rq_dump_head:
  assumes "rq_version r = 0x10 \<and> d = CHR ''0'' \<or> rq_version r = 0x11 \<and> d = CHR ''1''"
  shows "rq_dump r = head_text (HttpMethodToString (rq_method r)) (rq_path r) (nonempty (rq_query r)) (nonempty (rq_fragment r)) d (sent_fields r) @ rq_body r"
proof -
  have v: "version_text (rq_version r) = ''HTTP/1.'' @ [d]"
  proof -
    have one: "dec n = [digit n]" if "n < 10" for n using that by (subst dec.simps) simp
    have "digit 0 = CHR ''0''" "digit 1 = CHR ''1''" by code_simp+
    then show ?thesis using assms by (auto simp: version_text_def one)
  qed
  have h: "dump_headers w hs = concat (map field_line (filter (\<lambda>(k, v). w \<or> fold_case k \<noteq> fold_case ''connection'') hs))" for w hs
    by (induction hs) (auto simp: dump_headers_def field_line_def strcasecmp_order)
  show ?thesis
  proof -
    have "(if \<not> rq_websocket r then connection_line (rq_close r) else []) = concat (map field_line (if rq_websocket r then [] else [(''connection'', if rq_close r then ''close'' else ''keep-alive'')]))"
      by (simp add: field_line_def connection_line_def)
    moreover have "dump_body (rq_body r) = concat (map field_line (if rq_body r = [] then [] else [(''content-length'', dec (length (rq_body r)))])) @ CRLF @ rq_body r"
      by (simp add: field_line_def dump_body_def)
    moreover have "(if s = [] then [] else ''?'') @ s @ t = query_part (nonempty s) @ t" "(if s = [] then [] else ''#'') @ s @ t = fragment_part (nonempty s) @ t" for s t
      by (simp_all add: query_part_def fragment_part_def nonempty_def)
    ultimately show ?thesis unfolding rq_dump_def v h head_text_def sent_fields_def by (simp only: append_assoc append.simps map_append concat_append)
  qed
qed

lemma field_ok_dec: "field_ok (''content-length'', dec n)"
proof -
  have d: "schar c \<in> {48..57}" if "c \<in> set (dec n)" for c using dec_digits [OF that] by (auto simp: isdigit_def schar_def)
  have sub: "{48..57} \<subseteq> set start_codes" "{48..57} \<subseteq> set value_codes" by (auto simp: start_codes_def value_codes_def simp del: upto_rec_numeral)
  have k: "schar (hd ''content-length'') \<in> set token_codes" "list_all (\<lambda>c. schar c \<in> set name_codes) (tl ''content-length'')" by code_simp+
  have "schar (hd (dec n)) \<in> {48..57}" by (rule d) simp
  then show ?thesis using d sub k by (auto simp: field_ok_def list_all_iff)
qed

lemma field_ok_connection: "field_ok (''connection'', ''close'')" "field_ok (''connection'', ''keep-alive'')"
  by code_simp+

lemma sent_fields_ok: "wire_ok r \<Longrightarrow> \<forall>kv \<in> set (sent_fields r). field_ok kv"
  using field_ok_dec field_ok_connection by (auto simp: sent_fields_def wire_ok_def)

text \<open>Setting fields one after the other: the last value of a name counts.\<close>

lemma set_fields_simps:
  "rq_method (set_fields hs r) = rq_method r" "rq_path (set_fields hs r) = rq_path r" "rq_query (set_fields hs r) = rq_query r"
  "rq_fragment (set_fields hs r) = rq_fragment r" "rq_version (set_fields hs r) = rq_version r"
  "rq_body (set_fields hs r) = rq_body r" "rq_close (set_fields hs r) = rq_close r"
  by (induction hs arbitrary: r) (auto simp: set_fields_def rq_setHeader_def)

lemma set_fields_abs:
  assumes "hdr_ok (rq_headers r)"
  shows "hdr_ok (rq_headers (set_fields hs r)) \<and> hdr_abs (rq_headers (set_fields hs r)) =
    hdr_abs (rq_headers r) ++ map_of (rev (map (\<lambda>(k, v). (fold_case k, v)) hs))"
  using assms
proof (induction hs arbitrary: r)
  case (Cons kv hs)
  obtain k v where kv: "kv = (k, v)" by fastforce
  have "hdr_ok (rq_headers (rq_setHeader k v r))" using Cons.prems by (simp add: rq_setHeader_def hdr_ok_ops)
  from Cons.IH [OF this] show ?case using kv hdr_abs_assign [OF Cons.prems, of k v]
    by (auto simp: set_fields_def rq_setHeader_def map_add_def fun_eq_iff split: option.splits)
qed (simp add: set_fields_def)

lemma map_of_rev_distinct: "distinct (map fst xs) \<Longrightarrow> map_of (rev xs) = map_of xs"
  by (subst map_of_inject_set) (simp_all add: rev_map [symmetric])

lemma map_of_sent:
  assumes "wire_ok r" and "n \<notin> {fold_case ''connection'', fold_case ''content-length''}"
  shows "map_of (rev (map (\<lambda>(k, v). (fold_case k, v)) (sent_fields r))) n = hdr_abs (rq_headers r) n"
proof -
  let ?f = "\<lambda>(k, v :: string). (fold_case k, v)" let ?h = "rq_headers r"
  let ?P = "\<lambda>(k, v :: string). rq_websocket r \<or> fold_case k \<noteq> fold_case ''connection''"
  have d: "distinct (map fst (map ?f ?h))" using assms(1) hdr_distinct by (simp add: wire_ok_def)
  have "distinct (map fst (map ?f (filter ?P ?h)))" using d unfolding map_map by (rule distinct_map_filter)
  then have "map_of (rev (map ?f (filter ?P ?h))) n = map_of (map ?f (filter ?P ?h)) n" by (simp only: map_of_rev_distinct)
  also have "map_of (map ?f (filter ?P hs)) n = map_of (map ?f hs) n" for hs using assms(2) by (induction hs) auto
  finally show ?thesis using assms(2) by (auto simp: sent_fields_def hdr_abs_def map_add_def split: option.splits)
qed

lemma map_of_sent_special:
  assumes "wire_ok r"
  shows "\<not> rq_websocket r \<Longrightarrow> map_of (rev (map (\<lambda>(k, v). (fold_case k, v)) (sent_fields r))) (fold_case ''connection'')
      = Some (if rq_close r then ''close'' else ''keep-alive'')"
    and "rq_body r \<noteq> [] \<Longrightarrow> map_of (rev (map (\<lambda>(k, v). (fold_case k, v)) (sent_fields r))) (fold_case ''content-length'') = Some (dec (length (rq_body r)))"
proof -
  let ?f = "\<lambda>(k, v :: string). (fold_case k, v)" let ?c = "fold_case ''connection''"
  have ne: "?c \<noteq> fold_case ''content-length''" by code_simp
  have "map_of (rev (map ?f (filter (\<lambda>(k, v). rq_websocket r \<or> fold_case k \<noteq> ?c) hs))) ?c = None" if "\<not> rq_websocket r" for hs
    using that by (auto simp: map_of_eq_None_iff)
  then show "\<not> rq_websocket r \<Longrightarrow> map_of (rev (map ?f (sent_fields r))) ?c = Some (if rq_close r then ''close'' else ''keep-alive'')"
    using ne by (auto simp: sent_fields_def map_add_def split: option.splits)
  show "rq_body r \<noteq> [] \<Longrightarrow> map_of (rev (map ?f (sent_fields r))) (fold_case ''content-length'') = Some (dec (length (rq_body r)))"
    by (simp add: sent_fields_def)
qed

text \<open>The text of a request up to its body, and what reading it leaves behind: \<open>D\<close> is the parsed request.\<close>

definition rq_head :: "http_request \<Rightarrow> string" where
  "rq_head r = take (length (rq_dump r) - length (rq_body r)) (rq_dump r)"

lemma rq_dump_split: "rq_dump r = rq_head r @ rq_body r"
proof -
  have "dump_body b = (if b = [] then CRLF else ''content-length: '' @ dec (length b) @ CRLF @ CRLF) @ b" for b
    by (simp add: dump_body_def)
  then obtain h where "dump_body (rq_body r) = h @ rq_body r" by blast
  then obtain h where "rq_dump r = h @ rq_body r" unfolding rq_dump_def by (metis append_assoc)
  then show ?thesis by (simp add: rq_head_def)
qed

lemma rq_head_ne: "rq_head r \<noteq> []"
proof
  assume "rq_head r = []"
  then have "length (rq_dump r) = length (rq_body r)" by (simp add: rq_dump_split)
  moreover have "length (dump_body (rq_body r)) \<ge> length (rq_body r)" by (simp add: dump_body_def)
  ultimately show False unfolding rq_dump_def length_append by simp
qed

definition same_request :: "http_request \<Rightarrow> http_request \<Rightarrow> bool" where
  "same_request r D \<longleftrightarrow> rq_method D = rq_method r \<and> rq_path D = rq_path r \<and> rq_query D = rq_query r
     \<and> rq_fragment D = rq_fragment r \<and> rq_version D = rq_version r
     \<and> (\<forall>k x. fold_case k \<noteq> fold_case ''connection'' \<and> fold_case k \<noteq> fold_case ''content-length'' \<longrightarrow> rq_getHeader k x D = rq_getHeader k x r)"

lemma head_parsed:
  assumes "wire_ok r" and "length (rq_head r @ rest) < 2 ^ 31"
  shows "\<exists>P. rp_execute (rq_head r @ rest) (HttpRequestParser g) = Inr (length (rq_head r), rest, P)
    \<and> rp_isFinished P = 1 \<and> \<not> rp_hasError P \<and> same_request r (rp_data P) \<and> rq_body (rp_data P) = [] \<and> hdr_ok (rq_headers (rp_data P))
    \<and> hdr_abs (rq_headers (rp_data P)) = map_of (rev (map (\<lambda>(k, v). (fold_case k, v)) (sent_fields r)))"
proof -
  obtain d where d: "rq_version r = 0x10 \<and> d = CHR ''0'' \<or> rq_version r = 0x11 \<and> d = CHR ''1''" using assms(1) by (auto simp: wire_ok_def)
  let ?m = "HttpMethodToString (rq_method r)" let ?q = "nonempty (rq_query r)" let ?f = "nonempty (rq_fragment r)"
  let ?head = "head_text ?m (rq_path r) ?q ?f d (sent_fields r)"
  have head: "rq_head r = ?head" using rq_dump_head [OF d] rq_dump_split [of r] by simp
  have m: "rq_method r \<noteq> INVALID_METHOD" "rq_method r \<noteq> MSEARCH" using assms(1) by (auto simp: wire_ok_def)
  have M: "CharsToHttpMethod (?head @ rest) = rq_method r" using method_read(2) [OF m] by (simp add: head_text_def)
  have len: "length (?head @ rest) < 2 ^ 31" using assms(2) by (simp add: head)
  have "path_text (rq_path r)" "\<And>s. ?q = Some s \<Longrightarrow> escaped query_codes s" "\<And>s. ?f = Some s \<Longrightarrow> escaped query_codes s"
    using assms(1) by (auto simp: wire_ok_def nonempty_def split: if_splits)
  from parse_request [OF method_read(1) [OF m] M m(1) this _ sent_fields_ok [OF assms(1)] len, of "rq_version r" g] d
  obtain P where P: "rp_execute (?head @ rest) (HttpRequestParser g) = Inr (length ?head, rest, P)"
    "rp_data P = set_fields (sent_fields r) ((set_target (rq_path r) ?q ?f ((HttpRequest 0x11 True)\<lparr>rq_method := rq_method r\<rparr>))\<lparr>rq_version := rq_version r\<rparr>)"
    "rp_isFinished P = 1" "\<not> rp_hasError P" by blast
  let ?t = "(set_target (rq_path r) ?q ?f ((HttpRequest 0x11 True)\<lparr>rq_method := rq_method r\<rparr>))\<lparr>rq_version := rq_version r\<rparr>"
  have t: "rq_method ?t = rq_method r" "rq_path ?t = rq_path r" "rq_query ?t = rq_query r" "rq_fragment ?t = rq_fragment r" "rq_headers ?t = []" "rq_body ?t = []"
    by (auto simp: set_target_def nonempty_def HttpRequest_def Let_def)
  have h: "hdr_ok (rq_headers (rp_data P))" "hdr_abs (rq_headers (rp_data P)) = map_of (rev (map (\<lambda>(k, v). (fold_case k, v)) (sent_fields r)))"
    using set_fields_abs [of ?t "sent_fields r"] t(5) P(2) by (simp_all add: hdr_ok_ops hdr_abs_def)
  have "hdr_ok (rq_headers r)" using assms(1) by (simp add: wire_ok_def)
  then have "rq_getHeader k x (rp_data P) = rq_getHeader k x r" if "fold_case k \<noteq> fold_case ''connection'' \<and> fold_case k \<noteq> fold_case ''content-length''" for k x
    using map_of_sent [OF assms(1), of "fold_case k"] that h by (simp add: rq_getHeader_def mt_get_abs)
  then have "same_request r (rp_data P)" "rq_body (rp_data P) = []" using t by (auto simp: same_request_def P(2) set_fields_simps)
  then show ?thesis using P(1,3,4) h unfolding head by blast
qed

text \<open>
  C23: what \<open>HttpRequest::dump\<close> sends is what the request parser reads. For a request whose parts are legal
  text, and a buffer of fewer than \<open>2 ^ 31\<close> bytes, the parser, from any state of its memory, consumes exactly the head of the dumped text, ends
  finished and without error, leaves the body and whatever follows in the buffer, and has the method,
  path, query, fragment and version of the request, its headers up to \<open>connection\<close> and \<open>content-length\<close>,
  and these two as they were computed for the wire.
\<close>

theorem request_wire_roundtrip:
  assumes "wire_ok r" and "length (rq_dump r @ extra) < 2 ^ 31"
  shows "\<exists>P. rp_execute (rq_dump r @ extra) (HttpRequestParser g) = Inr (length (rq_dump r) - length (rq_body r), rq_body r @ extra, P)
    \<and> rp_isFinished P = 1 \<and> \<not> rp_hasError P
    \<and> rq_method (rp_data P) = rq_method r \<and> rq_path (rp_data P) = rq_path r \<and> rq_query (rp_data P) = rq_query r
    \<and> rq_fragment (rp_data P) = rq_fragment r \<and> rq_version (rp_data P) = rq_version r
    \<and> (\<forall>k x. fold_case k \<noteq> fold_case ''connection'' \<and> fold_case k \<noteq> fold_case ''content-length'' \<longrightarrow> rq_getHeader k x (rp_data P) = rq_getHeader k x r)
    \<and> (\<not> rq_websocket r \<longrightarrow> rq_getHeader ''connection'' [] (rp_data P) = (if rq_close r then ''close'' else ''keep-alive''))
    \<and> (rq_body r \<noteq> [] \<longrightarrow> rq_getHeader ''content-length'' [] (rp_data P) = dec (length (rq_body r)))"
proof -
  have "length (rq_head r @ rq_body r @ extra) < 2 ^ 31" using assms(2) by (simp add: rq_dump_split)
  from head_parsed [OF assms(1) this, of g] map_of_sent_special [OF assms(1)] show ?thesis
    by (fastforce simp: rq_dump_split same_request_def rq_getHeader_def mt_get_abs)
qed

definition sample_request :: http_request where
  "sample_request = (HttpRequest 0x11 False)\<lparr>rq_path := ''/a'', rq_query := ''x=1'', rq_body := ''hi''\<rparr>"

theorem request_wire_roundtrip_witness:
  "\<exists>P. rp_isFinished P = 1 \<and> rq_path (rp_data P) = ''/a'' \<and> rq_query (rp_data P) = ''x=1''
    \<and> rp_execute (rq_dump sample_request @ ''GET'') (HttpRequestParser blank_parser) = Inr (length (rq_dump sample_request) - 2, ''hiGET'', P)"
proof -
  have "wire_ok sample_request" by code_simp
  moreover have "length (rq_dump sample_request @ ''GET'') < 100" by code_simp
  then have "length (rq_dump sample_request @ ''GET'') < 2 ^ 31" by simp
  ultimately show ?thesis
    using request_wire_roundtrip [of sample_request "''GET''" blank_parser] by (auto simp: sample_request_def)
qed

section \<open>Requests in two reads\<close>

text \<open>A request whose target is cut by the end of a read.\<close>

definition restart :: "request_parser \<Rightarrow> request_parser" where
  "restart P = P\<lparr>rp_parser := (rp_parser P)\<lparr>hp_nread := 0, hp_mark := 0, hp_field_len := 0, hp_field_start := 0\<rparr>\<rparr>"

lemma execute_run:
  assumes run: "rq_run b (hp_uri_relaxed (rp_parser P)) (hp_cs (rp_parser P)) 0 b (Inr (restart P)) = (cs, q, Inr Q)" and b: "b \<noteq> []" "length b < 2 ^ 31"
    and P: "hp_cs (rp_parser P) \<noteq> 0" "\<not> in_query (hp_cs (rp_parser P))" "hp_body_start (rp_parser P) \<le> length b"
  shows "rp_execute b P = Inr (q, drop q b, Q\<lparr>rp_parser := (rp_parser Q)\<lparr>hp_cs := cs, hp_nread := q\<rparr>\<rparr>)"
proof -
  obtain n Q' where ex: "http_parser_execute b P = Inr (n, Q')" using execute_safe [OF P(3,2) b(2)] by blast
  have "holds (length b) 0 (\<not> in_name (hp_cs (rp_parser (restart P))), in_query (hp_cs (rp_parser (restart P)))) (restart P)"
    using P b by (auto simp: holds_def restart_def)
  from rq_run_holds [OF this _ b(2), of b "hp_uri_relaxed (rp_parser P)"] run P(1)
  have Q: "hp_nread (rp_parser Q) = 0" "hp_cs (rp_parser Q) \<noteq> 0" by (auto simp: holds_def restart_def)
  have "http_parser_execute b P = Inr (q, Q\<lparr>rp_parser := (rp_parser Q)\<lparr>hp_cs := cs, hp_nread := q\<rparr>\<rparr>)"
    using ex run b(1) Q unfolding http_parser_execute_def Let_def restart_def by (auto simp: http_parser_has_error_def split: if_splits)
  then show ?thesis by (simp add: rp_execute_def)
qed

lemma run_to_path:
  assumes "M \<noteq> INVALID_METHOD" and "M \<noteq> MSEARCH" and "path_text path" and b: "b = HttpMethodToString M @ CHR '' '' # path @ rest"
  shows "\<exists>n. (n = 33 \<or> n = 26) \<and> rq_run b r 1 0 b (Inr P) = rq_run b r n (length (HttpMethodToString M) + 1 + length path) rest
    (Inr (P\<lparr>rp_data := (rp_data P)\<lparr>rq_method := M\<rparr>, rp_parser := (rp_parser P)\<lparr>hp_mark := length (HttpMethodToString M) + 1\<rparr>\<rparr>))"
proof -
  let ?p = "length (HttpMethodToString M) + 1" let ?M = "P\<lparr>rp_parser := (rp_parser P)\<lparr>hp_mark := 0\<rparr>, rp_data := (rp_data P)\<lparr>rq_method := M\<rparr>\<rparr>"
  have "rq_run b r 1 0 b (Inr P) = rq_run b r 3 ?p (path @ rest) (Inr ?M)"
    using run_method [OF method_read(1) [OF assms(1,2)], of 0 b "path @ rest" M] method_read(2) [OF assms(1,2)] assms(1) b by simp
  moreover obtain n where "n = 33 \<or> n = 26" "rq_run b r 3 ?p (path @ rest) (Inr ?M)
      = rq_run b r n (?p + length path) rest (Inr (?M\<lparr>rp_parser := (rp_parser ?M)\<lparr>hp_mark := ?p\<rparr>\<rparr>))"
    using run_path [OF assms(3), of b r ?p rest ?M] by blast
  ultimately show ?thesis by (intro exI [of _ n]) simp
qed

lemma start_facts:
  "hp_cs (rp_parser (HttpRequestParser g)) = 1" "hp_body_start (rp_parser (HttpRequestParser g)) = 0" "rp_error (HttpRequestParser g) = 0"
  "\<not> hp_xml_sent (rp_parser (HttpRequestParser g))" "\<not> hp_json_sent (rp_parser (HttpRequestParser g))"
  by (simp_all add: HttpRequestParser_def http_parser_init_def http_parser_start_def)

text \<open>
  C24: a request that arrives in two reads (of fewer than \<open>2 ^ 31\<close> bytes each), cut inside its path, is accepted as a complete request without
  error, but its path is only the part that came with the second read: the parser restarts its marks
  in every call, while the text before was consumed with the call before.
\<close>

theorem split_path_lost:
  assumes M: "M \<noteq> INVALID_METHOD" "M \<noteq> MSEARCH" and p1: "path_text p1" and p2: "escaped uri_codes p2" "p2 = [] \<or> hd p2 \<noteq> CHR ''/''"
    and q: "\<And>s. q = Some s \<Longrightarrow> escaped query_codes s" and f: "\<And>s. f = Some s \<Longrightarrow> escaped query_codes s"
    and d: "d = CHR ''0'' \<and> v = 0x10 \<or> d = CHR ''1'' \<and> v = 0x11" and hs: "\<forall>kv \<in> set hs. field_ok kv"
    and b1: "b1 = HttpMethodToString M @ CHR '' '' # p1"
    and b2: "b2 = p2 @ query_part q @ fragment_part f @ CHR '' '' # ''HTTP/1.'' @ d # CRLF @ concat (map field_line hs) @ CRLF @ body"
    and len: "length b1 < 2 ^ 31" "length b2 < 2 ^ 31"
  shows "\<exists>P1 P2. rp_execute b1 (HttpRequestParser g) = Inr (length b1, [], P1) \<and> rp_isFinished P1 = 0 \<and> \<not> rp_hasError P1
    \<and> rp_execute b2 P1 = Inr (length b2 - length body, body, P2) \<and> rp_isFinished P2 = 1 \<and> \<not> rp_hasError P2
    \<and> rq_method (rp_data P2) = M \<and> rq_version (rp_data P2) = v \<and> rq_path (rp_data P2) = p2"
proof -
  let ?P = "HttpRequestParser g" let ?r = "hp_uri_relaxed (rp_parser ?P)"
  have rel: "hp_uri_relaxed (rp_parser (restart P)) = hp_uri_relaxed (rp_parser P)" for P by (simp add: restart_def)
  let ?A = "(restart ?P)\<lparr>rp_data := (rp_data (restart ?P))\<lparr>rq_method := M\<rparr>, rp_parser := (rp_parser (restart ?P))\<lparr>hp_mark := length (HttpMethodToString M) + 1\<rparr>\<rparr>"
  obtain n where n: "n = 33 \<or> n = 26" "rq_run b1 ?r 1 0 b1 (Inr (restart ?P)) = (n, length b1, Inr ?A)"
    using run_to_path [OF M p1, of b1 "[]" ?r "restart ?P"] b1 by (auto simp: restart_def)
  define P1 where "P1 = ?A\<lparr>rp_parser := (rp_parser ?A)\<lparr>hp_cs := n, hp_nread := length b1\<rparr>\<rparr>"
  have e1: "rp_execute b1 ?P = Inr (length b1, [], P1)"
    using execute_run [of b1 ?P n "length b1" ?A] n(2) len(1) b1 start_facts by (simp add: P1_def in_query_def)
  have P1: "hp_cs (rp_parser P1) = n" "rp_error P1 = 0" "hp_body_start (rp_parser P1) = 0" "\<not> hp_xml_sent (rp_parser P1)"
    "\<not> hp_json_sent (rp_parser P1)" "rq_method (rp_data P1) = M"
    using start_facts by (simp_all add: P1_def restart_def)
  let ?r = "hp_uri_relaxed (rp_parser P1)"
  let ?u = "query_part q @ fragment_part f @ CHR '' '' # ''HTTP/1.'' @ d # CRLF @ concat (map field_line hs) @ CRLF @ body"
  have second: "\<exists>k. (k = 33 \<or> k = 26) \<and> rq_run b2 ?r n 0 (p2 @ ?u) st = rq_run b2 ?r k (length p2) ?u st" for st
  proof (cases "p2 = []")
    case True
    then show ?thesis using n(1) by auto
  next
    case False
    then have c: "schar (hd p2) \<in> set segment_codes \<or> hd p2 = CHR ''%''"
      using p2 by (cases p2) (auto simp: segment_codes_def schar_slash split: if_splits)
    from n(1) show ?thesis
    proof
      assume "n = 33"
      then show ?thesis using rq_escaped_entry [OF reads_uri(1) p2(1) False c, of ?r n "[]" b2 0 ?u st] by (auto simp: path_steps)
    next
      assume "n = 26"
      then show ?thesis using rq_escaped [OF reads_uri(1) [of ?r] p2(1), of b2 0 ?u st] by (intro exI [of _ 26]) simp
    qed
  qed
  then obtain k where k: "k = 33 \<or> k = 26" "rq_run b2 ?r n 0 (p2 @ ?u) (Inr (restart P1)) = rq_run b2 ?r k (length p2) ?u (Inr (restart P1))" by blast
  have b2': "drop 0 b2 = p2 @ ?u" using b2 by simp
  from run_rest [OF k(1) q f d hs b2' _ len(2), of "restart P1" ?r] P1 obtain hp where
    run2: "rq_run b2 ?r n 0 b2 (Inr (restart P1)) = (348, length b2 - length body, Inr ((restart P1)\<lparr>rp_parser := hp,
      rp_data := set_fields hs ((set_target p2 q f (rp_data (restart P1)))\<lparr>rq_version := v\<rparr>)\<rparr>))"
    using k(2) b2 by (auto simp: restart_def)
  from execute_run [of b2 P1 348 "length b2 - length body", unfolded P1(1), OF run2] obtain P2 where
    e2: "rp_execute b2 P1 = Inr (length b2 - length body, drop (length b2 - length body) b2, P2)" and
    P2: "hp_cs (rp_parser P2) = 348" "rp_error P2 = 0" "rp_data P2 = set_fields hs ((set_target p2 q f (rp_data P1))\<lparr>rq_version := v\<rparr>)"
    using n(1) P1 len(2) b2 by (auto simp: in_query_def restart_def)
  have suffix: "drop (length (xs @ ys) - length ys) (xs @ ys) = ys" for xs ys :: string by simp
  have "b2 = (p2 @ query_part q @ fragment_part f @ CHR '' '' # ''HTTP/1.'' @ d # CRLF @ concat (map field_line hs) @ CRLF) @ body"
    using b2 by simp
  then have "drop (length b2 - length body) b2 = body" using suffix by metis
  moreover have "rq_path (rp_data P2) = p2" "rq_method (rp_data P2) = M" "rq_version (rp_data P2) = v"
    using P1(6) by (auto simp: P2(3) set_fields_simps set_target_def Let_def split: option.splits)
  ultimately show ?thesis using e1 e2 P1(1,2) n(1) P2(1,2)
    by (auto simp: rp_isFinished_def rp_hasError_def http_parser_finish_def http_parser_has_error_def http_parser_is_finished_def http_parser_first_final_def)
qed

theorem split_path_lost_witness:
  "\<exists>P1 P2. rp_execute ''GET /a'' (HttpRequestParser blank_parser) = Inr (6, [], P1)
    \<and> rp_execute (''b HTTP/1.1'' @ CRLF @ CRLF) P1 = Inr (14, [], P2) \<and> rp_isFinished P2 = 1 \<and> rq_path (rp_data P2) = ''b''"
proof -
  have m: "HttpMethodToString GET = ''GET''" by code_simp
  have "path_text ''/a''" "escaped uri_codes ''b''" by code_simp+
  then show ?thesis
    using split_path_lost [of GET "''/a''" "''b''" None None "CHR ''1''" "0x11" "[]" "''GET /a''" "''b HTTP/1.1'' @ CRLF @ CRLF" "[]" blank_parser]
    by (auto simp: m query_part_def fragment_part_def)
qed

text \<open>
  A request that arrives in two reads, cut inside its query, makes the parser throw: when the rest of the
  query is shorter than the position at which the query started in the first read, the length of the
  query wraps around and \<open>std::string\<close> throws \<open>std::length_error\<close>, out of \<open>execute\<close>.
\<close>

theorem split_query_throws:
  assumes M: "M \<noteq> INVALID_METHOD" "M \<noteq> MSEARCH" and path: "path_text path" and q: "escaped query_codes q1" "q1 \<noteq> []" "escaped query_codes q2"
    and b1: "b1 = HttpMethodToString M @ CHR '' '' # path @ CHR ''?'' # q1" and b2: "b2 = q2 @ CHR '' '' # rest"
    and len: "length b1 < 2 ^ 31" "length b2 < 2 ^ 31" and short: "length q2 < length (HttpMethodToString M) + length path + 2"
  shows "\<exists>P1. rp_execute b1 (HttpRequestParser g) = Inr (length b1, [], P1) \<and> rp_isFinished P1 = 0 \<and> \<not> rp_hasError P1
    \<and> rp_execute b2 P1 = Inl Logic_Error"
proof -
  let ?P = "HttpRequestParser g" let ?r = "hp_uri_relaxed (rp_parser ?P)" let ?m = "length (HttpMethodToString M) + 1"
  let ?A = "(restart ?P)\<lparr>rp_data := (rp_data (restart ?P))\<lparr>rq_method := M\<rparr>, rp_parser := (rp_parser (restart ?P))\<lparr>hp_mark := ?m\<rparr>\<rparr>"
  let ?q = "?m + length path + 1"
  obtain n where n: "n = 33 \<or> n = 26" "rq_run b1 ?r 1 0 b1 (Inr (restart ?P)) = rq_run b1 ?r n (?m + length path) (CHR ''?'' # q1) (Inr ?A)"
    using run_to_path [OF M path b1] by blast
  let ?B = "?A\<lparr>rp_data := (rp_data ?A)\<lparr>rq_path := path\<rparr>\<rparr>"
  have b1': "drop ?m b1 = path @ CHR ''?'' # q1" "?m \<le> length b1" using b1 by simp_all
  have "rq_run b1 ?r n (?m + length path) (CHR ''?'' # q1) (Inr ?A) = rq_run b1 ?r 29 ?q q1 (Inr ?B)"
    using act_text_at(1) [OF b1' len(1), of ?A] n(1) by (auto simp: path_steps act_simps)
  moreover have c: "schar (hd q1) \<in> set query_codes \<or> hd q1 = CHR ''%''" using q by (cases q1) (auto split: if_splits)
  let ?C = "?B\<lparr>rp_parser := (rp_parser ?B)\<lparr>hp_query_start := ?q\<rparr>\<rparr>"
  have "rq_run b1 ?r 29 ?q (q1 @ []) (Inr ?B) = rq_run b1 ?r 30 (?q + length q1) [] (Inr ?C)"
    using rq_escaped_entry [OF reads_uri(2) [of ?r] q(1,2) c, of 29 "[Start_query]" b1 ?q "[]" "Inr ?B"] by (simp add: query_steps act_simps)
  moreover have "?q + length q1 = length b1" using b1 by simp
  ultimately have run1: "rq_run b1 ?r 1 0 b1 (Inr (restart ?P)) = (30, length b1, Inr ?C)" using n(2) by simp
  define P1 where "P1 = ?C\<lparr>rp_parser := (rp_parser ?C)\<lparr>hp_cs := 30, hp_nread := length b1\<rparr>\<rparr>"
  have e1: "rp_execute b1 ?P = Inr (length b1, [], P1)"
    using execute_run [of b1 ?P 30 "length b1" ?C] run1 len(1) b1 start_facts by (simp add: P1_def in_query_def)
  have P1: "hp_cs (rp_parser P1) = 30" "rp_error P1 = 0" "hp_query_start (rp_parser P1) = ?q"
    using start_facts by (simp_all add: P1_def restart_def)
  let ?r = "hp_uri_relaxed (rp_parser P1)"
  have "?q < 2 ^ 31" using len(1) b1 by simp
  then have "LEN (length q2) ?q = length q2 + 2 ^ 64 - ?q" using short by (intro LEN_wrap) auto
  then have "std_string at (LEN (length q2) ?q) = Inl Logic_Error" for at using \<open>?q < 2 ^ 31\<close> by (simp add: std_string_def)
  then have throw: "rq_act b2 (length q2) Query_string (restart P1) = Inl Logic_Error"
    using P1(3) by (simp add: rq_act_def on_request_query_def restart_def)
  have "rq_run b2 ?r 30 0 b2 (Inr (restart P1)) = rq_run b2 ?r 30 (length q2) (CHR '' '' # rest) (Inr (restart P1))"
    using rq_escaped [OF reads_uri(2) [of ?r] q(3), of b2 0 "CHR '' '' # rest"] b2 by simp
  also have "\<dots> = rq_run b2 ?r 4 (length q2 + 1) rest (Inl Logic_Error)"
    using throw by (simp add: query_steps)
  finally obtain cs k st where run2: "rq_run b2 ?r 30 0 b2 (Inr (restart P1)) = (cs, k, st)" "rq_run b2 ?r 4 (length q2 + 1) rest (Inl Logic_Error) = (cs, k, st)"
    by (metis prod.exhaust)
  have "st = Inl Logic_Error" by (rule run_fault [OF run2(2)])
  then have "rp_execute b2 P1 = Inl Logic_Error"
    using run2(1) P1(1) b2 len(2) c_int_nat [of "length b2"] unfolding restart_def
    by (auto simp: rp_execute_def http_parser_execute_def Let_def split: prod.splits)
  then show ?thesis using e1 P1
    by (auto simp: rp_isFinished_def rp_hasError_def http_parser_finish_def http_parser_has_error_def http_parser_is_finished_def http_parser_first_final_def)
qed

theorem split_query_throws_witness:
  "\<exists>P1. rp_execute ''GET /?x='' (HttpRequestParser blank_parser) = Inr (8, [], P1) \<and> rp_isFinished P1 = 0
    \<and> rp_execute ''1 HTTP/1.1'' P1 = Inl Logic_Error"
proof -
  have m: "HttpMethodToString GET = ''GET''" by code_simp
  have "path_text ''/''" "escaped query_codes ''x=''" "escaped query_codes ''1''" by code_simp+
  then show ?thesis
    using split_query_throws [of GET "''/''" "''x=''" "''1''" "''GET /?x=''" "''1 HTTP/1.1''" "''HTTP/1.1''" blank_parser]
    by (auto simp: m)
qed

section \<open>Header lines without a colon\<close>

text \<open>
  A header line without a colon swallows what follows it, line ends and even the blank line that
  should end the head included, up to the next colon: the parser accepts such a request without error,
  with a header whose name contains the line ends, and the header behind the blank line is not seen
  under its own name. (The grammar writes the control characters as the difference \<open>0 - 31\<close>.)
\<close>

theorem header_name_swallows:
  assumes M: "M \<noteq> INVALID_METHOD" "M \<noteq> MSEARCH" and x: "x \<noteq> []" "\<forall>c \<in> set x. schar c \<in> set token_codes"
    and y: "y \<noteq> []" "\<forall>c \<in> set y. schar c \<in> set token_codes"
    and v: "\<forall>c \<in> set v. schar c \<in> set value_codes" "v \<noteq> [] \<longrightarrow> schar (hd v) \<in> set start_codes"
    and b: "b = HttpMethodToString M @ '' / HTTP/1.1'' @ CRLF @ x @ CRLF @ CRLF @ y @ '': '' @ v @ CRLF @ CRLF @ body" and len: "length b < 2 ^ 31"
  shows "\<exists>P. rp_execute b (HttpRequestParser g) = Inr (length b - length body, body, P) \<and> rp_isFinished P = 1 \<and> \<not> rp_hasError P
    \<and> rq_hasHeader (x @ CRLF @ CRLF @ y) (rp_data P) = Some v \<and> rq_hasHeader y (rp_data P) = None"
proof -
  let ?k = "x @ CRLF @ CRLF @ y" let ?m = "HttpMethodToString M"
  have sub: "set token_codes \<subseteq> set name_codes" "13 \<in> set name_codes" "10 \<in> set name_codes"
    by (auto simp: name_codes_def)
  have "schar (hd ?k) \<in> set token_codes" using x by simp
  moreover have "\<forall>c \<in> set ?k. schar c \<in> set name_codes" using x y sub by auto
  then have "\<forall>c \<in> set (tl ?k). schar c \<in> set name_codes" using list.set_sel(2) [of ?k] x(1) by blast
  ultimately have f: "\<forall>kv \<in> set [(?k, v)]. field_ok kv" using v by (auto simp: field_ok_def)
  have b': "b = head_text ?m ''/'' None None (CHR ''1'') [(?k, v)] @ body"
    using b by (simp add: head_text_def query_part_def fragment_part_def field_line_def)
  have meth: "CharsToHttpMethod (head_text ?m ''/'' None None (CHR ''1'') [(?k, v)] @ body) = M"
    using method_read(2) [OF M] by (simp add: head_text_def)
  have p: "path_text ''/''" by (simp add: path_text_def)
  from parse_request [where q = None and f = None and d = "CHR ''1''" and v = "0x11" and g = g, OF method_read(1) [OF M] meth M(1) p _ _ _ f] len [unfolded b'] obtain P where
    P: "rp_execute b (HttpRequestParser g) = Inr (length (head_text ?m ''/'' None None (CHR ''1'') [(?k, v)]), body, P)"
      "rp_data P = set_fields [(?k, v)] ((set_target ''/'' None None ((HttpRequest 0x11 True)\<lparr>rq_method := M\<rparr>))\<lparr>rq_version := 0x11\<rparr>)"
      "rp_isFinished P = 1" "\<not> rp_hasError P"
    unfolding b' by auto
  have h: "rq_headers (rp_data P) = mt_assign ?k v []"
    by (simp add: P(2) set_fields_def rq_setHeader_def set_target_def HttpRequest_def)
  have abs: "hdr_abs (rq_headers (rp_data P)) = [fold_case ?k \<mapsto> v]" "hdr_ok (rq_headers (rp_data P))"
    unfolding h using hdr_abs_assign [of "[]" ?k v] by (simp_all add: hdr_ok_ops hdr_abs_def)
  have nul: "CHR 0x00 \<notin> set t" if "\<forall>c \<in> set t. schar c \<in> set token_codes" for t
  proof -
    have "schar (CHR 0x00) \<notin> set token_codes" by code_simp
    then show ?thesis using that by auto
  qed
  have "length (fold_case ?k) \<noteq> length (fold_case y)"
    using nul [OF x(2)] nul [OF y(2)] x(1) by (simp add: fold_case_def c_str_id)
  then have ne: "fold_case y \<noteq> fold_case ?k" by metis
  show ?thesis using P(1,3,4) abs ne mt_find_abs [OF abs(2)] by (intro exI [of _ P]) (simp add: b' rq_hasHeader_def)
qed

theorem header_name_swallows_witness:
  "\<exists>P. rp_execute (''GET / HTTP/1.1'' @ CRLF @ ''a'' @ CRLF @ CRLF @ ''host: b'' @ CRLF @ CRLF) (HttpRequestParser blank_parser) = Inr (32, [], P)
    \<and> rp_isFinished P = 1 \<and> rq_hasHeader ''host'' (rp_data P) = None"
proof -
  have m: "HttpMethodToString GET = ''GET''" by code_simp
  have "list_all (\<lambda>c. schar c \<in> set token_codes) ''a''" "list_all (\<lambda>c. schar c \<in> set token_codes) ''host''"
    "list_all (\<lambda>c. schar c \<in> set value_codes) ''b''" "schar (CHR ''b'') \<in> set start_codes" by code_simp+
  then show ?thesis
    using header_name_swallows [of GET "''a''" "''host''" "''b''"
        "''GET / HTTP/1.1'' @ CRLF @ ''a'' @ CRLF @ CRLF @ ''host: b'' @ CRLF @ CRLF" "[]" blank_parser]
    by (auto simp: m)
qed

end
