(* ===== verification/Http_Session.thy ===== *)
theory Http_Session
  imports Http_Wire
begin

text \<open>
  Sessions (\<open>http/http_session.cc\<close>): receiving a request from a socket, through the buffer and the parser, and
  sending a response. The size of the buffer is the configured \<open>http.request.buffer_size\<close>; \<open>lc\<close> is the
  conversion of \<open>boost::lexical_cast\<close> to \<open>uint64_t\<close>; the memory a new parser finds is a function of the state.
\<close>

section \<open>Receiving and sending\<close>

type_synonym session = "char sock_stream"

lemma ss_read_plan: "ss_read n s = ((len, bs), s') \<Longrightarrow> 0 < len \<Longrightarrow> length (ss_rplan s') < length (ss_rplan s)"
  by (auto simp: ss_read_def sock_recv_def Let_def split: if_splits list.splits)

text \<open>
  The loop of \<open>recvRequest\<close>: \<open>data\<close> is what earlier reads left in the buffer. The result is nothing when the
  session was closed, else the data behind the head and the parser.
\<close>

function recv_head :: "nat \<Rightarrow> string \<Rightarrow> request_parser \<Rightarrow> session \<Rightarrow> (fault + (string \<times> request_parser) option) \<times> session" where
  "recv_head buff_size data parser s =
     (case ss_read (buff_size - length data) s of ((len, bs), s') \<Rightarrow>
        if len \<le> 0 then (Inr None, ss_close s')
        else case rp_execute (data @ bs) parser of
            Inl e \<Rightarrow> (Inl e, s')
          | Inr (nparse, rest, parser') \<Rightarrow>
              if rp_hasError parser' then (Inr None, ss_close s')
              else if int (length rest) = c_int (int buff_size) then (Inr None, ss_close s')
              else if rp_isFinished parser' \<noteq> 0 then (Inr (Some (rest, parser')), s')
              else recv_head buff_size rest parser' s')"
  by pat_completeness auto
termination by (relation "measure (\<lambda>(n, data, parser, s). length (ss_rplan s))") (auto dest!: ss_read_plan [OF sym])

declare recv_head.simps [simp del]

text \<open>
  What follows the loop: the body. A length that \<open>std::string::resize\<close> cannot hold throws; a positive result of
  \<open>readFixSize\<close> means that all was read.
\<close>

definition recv_body :: "(string \<Rightarrow> u64 option) \<Rightarrow> string \<Rightarrow> request_parser \<Rightarrow> session \<Rightarrow> (fault + http_request option) \<times> session" where
  "recv_body lc data parser s =
     (let len = sint (rp_getContentLength lc parser); offset = int (length data) in
      if 0 < len then
        if 2 ^ 62 \<le> len then (Inl Logic_Error, s)
        else let body = (if offset \<le> len then data else take (nat len) data); left = len - offset in
          if 0 < left then
            (case readFixSize ss_read (nat left) s of ((r, bs), s) \<Rightarrow>
               if r \<le> 0 then (Inr None, ss_close s)
               else (Inr (Some (rq_init ((rp_data parser)\<lparr>rq_body := body @ bs\<rparr>))), s))
          else (Inr (Some (rq_init ((rp_data parser)\<lparr>rq_body := body\<rparr>))), s)
      else (Inr (Some (rq_init (rp_data parser))), s))"

definition recvRequest :: "(string \<Rightarrow> u64 option) \<Rightarrow> nat \<Rightarrow> (session \<Rightarrow> http_parser) \<Rightarrow> session \<Rightarrow> (fault + http_request option) \<times> session" where
  "recvRequest lc buff_size garbage s =
     (case recv_head buff_size [] (HttpRequestParser (garbage s)) s of
        (Inl e, s) \<Rightarrow> (Inl e, s)
      | (Inr None, s) \<Rightarrow> (Inr None, s)
      | (Inr (Some (data, parser)), s) \<Rightarrow> recv_body lc data parser s)"

definition sendResponse :: "http_response \<Rightarrow> session \<Rightarrow> int \<times> session" where
  "sendResponse rsp s = writeFixSize ss_write (rs_dump rsp) s"

definition sendRequest :: "http_request \<Rightarrow> session \<Rightarrow> int \<times> session" where
  "sendRequest rq s = writeFixSize ss_write (rq_dump rq) s"

section \<open>The socket never grows\<close>

text \<open>What receiving does to the session: it consumes incoming bytes and sends nothing.\<close>

definition consumed :: "session \<Rightarrow> session \<Rightarrow> bool" where
  "consumed s s' \<longleftrightarrow> ss_out s' = ss_out s \<and> ss_wplan s' = ss_wplan s \<and> suffix (ss_in s') (ss_in s) \<and> suffix (ss_rplan s') (ss_rplan s)
     \<and> ss_sock s' = ss_sock s \<and> ss_owner s' = ss_owner s"

lemma consumed_refl: "consumed s s" by (simp add: consumed_def)

lemma consumed_trans [trans]: "consumed s t \<Longrightarrow> consumed t u \<Longrightarrow> consumed s u"
  unfolding consumed_def by (metis suffix_order.trans)

lemma consumed_close: "consumed s t \<Longrightarrow> consumed s (ss_close t)"
  by (simp add: consumed_def ss_close_def)

lemma consumed_read: "ss_read n s = (r, s') \<Longrightarrow> consumed s s' \<and> ss_connected s' = ss_connected s"
  by (auto simp: ss_read_def sock_recv_def consumed_def Let_def suffix_drop suffix_ConsI split: if_splits list.splits)

lemma consumed_fix_loop: "fix_read_loop ss_read left s = (r, s') \<Longrightarrow> consumed s s' \<and> ss_connected s' = ss_connected s"
proof (induction "nat left" arbitrary: left s r s' rule: less_induct)
  case less
  obtain len xs s1 where rd: "ss_read (nat left) s = ((len, xs), s1)" by (metis prod.exhaust)
  show ?case
  proof (cases "0 < left \<and> 0 < len")
    case True
    then obtain r1 where "fix_read_loop ss_read (left - len) s1 = (r1, s')" 
      using less.prems rd by (auto simp: fix_read_loop.simps [of ss_read left s] split: prod.splits)
    then have "consumed s1 s' \<and> ss_connected s' = ss_connected s1" using True by (intro less.hyps [of "left - len"]) auto
    then show ?thesis using consumed_trans consumed_read [OF rd] by blast
  next
    case False
    then show ?thesis using less.prems rd consumed_read [OF rd] consumed_refl
      by (auto simp: fix_read_loop.simps [of ss_read left s] split: if_splits)
  qed
qed

lemma consumed_fix: "readFixSize ss_read n s = (r, s') \<Longrightarrow> consumed s s'"
  by (auto simp: readFixSize_def split: prod.splits option.splits dest: consumed_fix_loop)

lemma consumed_head: "recv_head n data parser s = (r, s') \<Longrightarrow> consumed s s'"
proof (induction n data parser s arbitrary: r s' rule: recv_head.induct)
  case (1 buff_size data parser s)
  obtain len bs s1 where rd: "ss_read (buff_size - length data) s = ((len, bs), s1)" by (metis prod.exhaust)
  note c = conjunct1 [OF consumed_read [OF rd]]
  from 1(2) show ?case using c consumed_close [OF c] consumed_trans [OF c 1(1) [OF rd [symmetric] refl]]
    by (subst (asm) recv_head.simps) (auto simp: rd split: if_splits sum.splits prod.splits)
qed

lemma consumed_body: "recv_body lc data parser s = (r, s') \<Longrightarrow> consumed s s'"
  by (auto simp: recv_body_def Let_def consumed_refl split: prod.splits if_splits dest!: consumed_fix intro: consumed_close)

lemma consumed_recv: "recvRequest lc n g s = (r, s') \<Longrightarrow> consumed s s'"
  by (auto simp: recvRequest_def split: prod.splits sum.splits option.splits dest!: consumed_head dest: consumed_body intro: consumed_trans)

lemma recv_head_plan: "recv_head n data parser s = (Inr (Some x), s') \<Longrightarrow> length (ss_rplan s') < length (ss_rplan s)"
proof (induction n data parser s arbitrary: s' rule: recv_head.induct)
  case (1 buff_size data parser s)
  obtain len bs s1 where rd: "ss_read (buff_size - length data) s = ((len, bs), s1)" by (metis prod.exhaust)
  from 1(2) show ?case using ss_read_plan [OF rd] less_trans [OF 1(1) [OF rd [symmetric] refl] ss_read_plan [OF rd]]
    by (subst (asm) recv_head.simps) (auto simp: rd split: if_splits sum.splits prod.splits)
qed

lemma recv_plan:
  assumes "recvRequest lc n g s = (Inr (Some rq), s')"
  shows "length (ss_rplan s') < length (ss_rplan s)"
proof -
  obtain data parser t where h: "recv_head n [] (HttpRequestParser (g s)) s = (Inr (Some (data, parser)), t)"
    "recv_body lc data parser t = (Inr (Some rq), s')"
    using assms by (auto simp: recvRequest_def split: prod.splits sum.splits option.splits)
  have "length (ss_rplan s') \<le> length (ss_rplan t)" using consumed_body [OF h(2)] by (simp add: consumed_def suffix_length_le)
  then show ?thesis using recv_head_plan [OF h(1)] by simp
qed

section \<open>Receiving what was sent\<close>

text \<open>The conversion reads what the stream printed.\<close>

definition reads_dec :: "(string \<Rightarrow> u64 option) \<Rightarrow> bool" where
  "reads_dec lc \<longleftrightarrow> (\<forall>n < 2 ^ 64. lc (dec n) = Some (word_of_nat n))"

definition cast_u64 :: "string \<Rightarrow> u64 option" where
  "cast_u64 s = (if s \<noteq> [] \<and> list_all isdigit s \<and> atoi s < 2 ^ 64 then Some (word_of_int (atoi s)) else None)"

lemma reads_dec_cast: "reads_dec cast_u64"
  using atoi_dec [of "[]"] dec_digits by (auto simp: reads_dec_def cast_u64_def list_all_iff)

text \<open>What a first read of at most \<open>k\<close> bytes transfers.\<close>

definition first_read :: "nat \<Rightarrow> int \<Rightarrow> session \<Rightarrow> nat" where
  "first_read buff k s = min (min (nat k) buff) (length (ss_in s))"

lemma fix_read_succeeds:
  assumes "ss_isConnected s" and "\<forall>j \<in> set (ss_rplan s). 0 < j" and "nat left \<le> length (ss_rplan s)" and "nat left \<le> length (ss_in s)"
  shows "\<exists>bs s'. fix_read_loop ss_read left s = ((None, bs), s')"
  using assms
proof (induction "nat left" arbitrary: left s rule: less_induct)
  case less
  show ?case
  proof (cases "left \<le> 0")
    case True
    then show ?thesis by (simp add: fix_read_loop.simps)
  next
    case False
    then obtain j ks where plan: "ss_rplan s = j # ks" using less.prems(3) by (cases "ss_rplan s") auto
    define n where "n = min (min (nat j) (nat left)) (length (ss_in s))"
    let ?s = "s\<lparr>ss_rplan := ks, ss_in := drop n (ss_in s)\<rparr>"
    have n: "0 < n" "n \<le> nat left" "n \<le> length (ss_in s)" using less.prems plan False by (auto simp: n_def)
    have rd: "ss_read (nat left) s = ((int n, take n (ss_in s)), ?s)"
      using less.prems(1,2) plan by (simp add: ss_read_def sock_recv_def Let_def n_def)
    have left: "nat (left - int n) = nat left - n" by (simp add: nat_diff_distrib')
    have "nat left - n \<le> length ks" using less.prems(3) plan n(1) by simp
    moreover have "nat left - n \<le> length (ss_in s) - n" using less.prems(4) by (rule diff_le_mono)
    moreover have "nat left - n < nat left" using n(1) False by simp
    ultimately have "\<exists>bs s'. fix_read_loop ss_read (left - int n) ?s = ((None, bs), s')"
      using less.prems(1,2) plan by (intro less.hyps) (simp_all add: left ss_isConnected_def)
    then show ?thesis using rd n(1) False by (auto simp: fix_read_loop.simps [of ss_read left s])
  qed
qed

lemma recv_head_first:
  assumes "wire_ok r" and "ss_isConnected s" and "ss_in s = rq_head r @ rest" and "ss_rplan s = k # ks" and "n = first_read buff k s"
    and "length (rq_head r) \<le> n" and "buff < 2 ^ 31"
  shows "\<exists>P. recv_head buff [] (HttpRequestParser g) s =
      (Inr (Some (take (n - length (rq_head r)) rest, P)), s\<lparr>ss_rplan := ks, ss_in := drop n (ss_in s)\<rparr>)
    \<and> same_request r (rp_data P) \<and> rq_body (rp_data P) = [] \<and> hdr_ok (rq_headers (rp_data P))
    \<and> hdr_abs (rq_headers (rp_data P)) = map_of (rev (map (\<lambda>(k, v). (fold_case k, v)) (sent_fields r)))"
proof -
  have pos: "0 < n" using rq_head_ne [of r] assms(6) by (cases "rq_head r") auto
  have k: "0 < k" using pos by (simp add: assms(5) first_read_def split: if_splits)
  have n: "n \<le> buff" "n \<le> length (ss_in s)" by (simp_all add: assms(5) first_read_def)
  have rd: "ss_read buff s = ((int n, take n (ss_in s)), s\<lparr>ss_rplan := ks, ss_in := drop n (ss_in s)\<rparr>)"
    using assms(2,4) k by (simp add: ss_read_def sock_recv_def Let_def assms(5) first_read_def)
  let ?rest = "take (n - length (rq_head r)) rest"
  have data: "take n (ss_in s) = rq_head r @ ?rest" using assms(3,6) by simp
  have len: "length (rq_head r @ ?rest) < 2 ^ 31" using n(1) assms(7) by (simp add: data [symmetric])
  from head_parsed [OF assms(1) len, of g] obtain P where
    P: "rp_execute (rq_head r @ ?rest) (HttpRequestParser g) = Inr (length (rq_head r), ?rest, P)" "rp_isFinished P = 1" "\<not> rp_hasError P"
      "same_request r (rp_data P)" "rq_body (rp_data P) = []" "hdr_ok (rq_headers (rp_data P))"
      "hdr_abs (rq_headers (rp_data P)) = map_of (rev (map (\<lambda>(k, v). (fold_case k, v)) (sent_fields r)))" by blast
  have "length ?rest < buff" using n rq_head_ne [of r] assms(3,6) by (cases "rq_head r") auto
  then have "int (length ?rest) \<noteq> c_int (int buff)" using c_int_id [of "int buff"] assms(7) by simp
  then show ?thesis using P pos by (intro exI [of _ P]) (simp add: recv_head.simps [of buff "[]"] rd data)
qed

lemma sent_length:
  assumes "wire_ok r" and "hdr_ok (rq_headers D)" and "hdr_abs (rq_headers D) = map_of (rev (map (\<lambda>(k, v). (fold_case k, v)) (sent_fields r)))"
    and "reads_dec lc" and "rq_body r \<noteq> [] \<or> rq_hasHeader ''content-length'' r = None" and "length (rq_body r) < 2 ^ 63"
  shows "sint (rq_getHeaderAs lc ''content-length'' 0 D) = int (length (rq_body r))"
proof -
  have find: "mt_find ''content-length'' m = None \<longleftrightarrow> hdr_abs m (fold_case ''content-length'') = None"
    "hdr_abs m (fold_case ''content-length'') = Some v \<Longrightarrow> \<exists>k. mt_find ''content-length'' m = Some (k, v)" if "hdr_ok m" for m v
    using mt_find_abs [OF that, of "''content-length''"] by (auto simp: option.map_sel split: option.splits)
  show ?thesis
  proof (cases "rq_body r = []")
    case True
    have "hdr_abs (rq_headers r) (fold_case ''content-length'') = None" using assms(1,5) True find(1) by (auto simp: wire_ok_def rq_hasHeader_def)
    then have "fold_case ''content-length'' \<notin> (\<lambda>(k, v). fold_case k) ` set (rq_headers r)"
      unfolding hdr_abs_def map_of_eq_None_iff by force
    moreover have "fold_case ''connection'' \<noteq> fold_case ''content-length''" by code_simp
    ultimately have "hdr_abs (rq_headers D) (fold_case ''content-length'') = None"
      using True unfolding assms(3) map_of_eq_None_iff by (auto simp: sent_fields_def)
    then show ?thesis using True find(1) [OF assms(2)] by (simp add: rq_getHeaderAs_def getAs_def)
  next
    case False
    then have "hdr_abs (rq_headers D) (fold_case ''content-length'') = Some (dec (length (rq_body r)))"
      using map_of_sent_special(2) [OF assms(1)] assms(3) by simp
    from find(2) [OF assms(2) this] have "rq_getHeaderAs lc ''content-length'' 0 D = word_of_nat (length (rq_body r))"
      using assms(4,6) by (auto simp: rq_getHeaderAs_def getAs_def reads_dec_def)
    then show ?thesis using assms(6) c_int64_id [of "int (length (rq_body r))"] by (simp add: c_int64_def)
  qed
qed

text \<open>The rest of a body of which \<open>data\<close> is in the buffer.\<close>

lemma fix_read_rest:
  fixes s :: session
  assumes small: "length body < 2 ^ 31" and conn: "ss_isConnected s" and data: "data @ ss_in s = body @ extra" and less: "length data < length body"
  shows "\<exists>r bs s1. readFixSize ss_read (length body - length data) s = ((r, bs), s1)
    \<and> (if 0 < r then data @ bs = body \<and> ss_in s1 = extra \<and> ss_isConnected s1
       else \<not> ((\<forall>j \<in> set (ss_rplan s). 0 < j) \<and> length body \<le> length data + length (ss_rplan s)))"
proof -
  let ?left = "length body - length data"
  obtain tl where body: "body = data @ tl" "ss_in s = tl @ extra"
    using data less by (metis append_eq_append_conv_if append_eq_conv_conj append_take_drop_id less_imp_le)
  have c64: "c_int64 (int ?left) = int ?left" using small by (intro c_int64_id) auto
  obtain x bs s1 where rl: "fix_read_loop ss_read (int ?left) s = ((x, bs), s1)" by (metis prod.exhaust)
  note rs = sock.stream_read_spec [OF rl]
  have rd: "readFixSize ss_read ?left s = ((case x of None \<Rightarrow> int ?left | Some e \<Rightarrow> e, bs), s1)"
    using rl rs c_int_id [of "int ?left"] c_int_small small by (auto simp: readFixSize_def c64 split: option.splits)
  show ?thesis
  proof (cases x)
    case None
    then have "bs = tl" "ss_in s1 = extra" using rs body less by (auto simp: append_eq_append_conv)
    moreover have "ss_isConnected s1" using conn consumed_fix_loop [OF rl] by (simp add: ss_isConnected_def consumed_def)
    moreover have "0 < int ?left" using less by linarith
    ultimately show ?thesis using None rd body(1) by simp
  next
    case (Some e)
    then have "e \<le> 0" using rs by auto
    moreover have "\<not> ((\<forall>j \<in> set (ss_rplan s). 0 < j) \<and> length body \<le> length data + length (ss_rplan s))"
      using fix_read_succeeds [OF conn, of "int ?left"] rl Some body by auto
    ultimately show ?thesis using Some rd by simp
  qed
qed

text \<open>The body behind a head that was read, with the first bytes of it already in the buffer.\<close>

lemma recv_body_spec:
  assumes len: "sint (rp_getContentLength lc P) = int (length body)" and small: "length body < 2 ^ 31" and conn: "ss_isConnected s"
    and data: "data @ ss_in s = body @ extra"
  shows "\<exists>res s'. recv_body lc data P s = (Inr res, s')
    \<and> (case res of None \<Rightarrow> \<not> ss_isConnected s' \<and> length data < length body
        | Some D \<Rightarrow> D = rq_init ((rp_data P)\<lparr>rq_body := if body = [] then rq_body (rp_data P) else body\<rparr>)
            \<and> ss_isConnected s' \<and> ss_in s' = (if length data \<le> length body then extra else ss_in s))
    \<and> (length data < length body \<and> (\<forall>j \<in> set (ss_rplan s). 0 < j) \<and> length body \<le> length data + length (ss_rplan s) \<longrightarrow> res \<noteq> None)"
proof (cases "length data < length body")
  case False
  then have "take (length body) data = body" using arg_cong [OF data, of "take (length body)"] by simp
  moreover have "ss_in s = extra" if "length data = length body" using that data by (simp add: append_eq_append_conv)
  ultimately show ?thesis using False len small conn data
    by (cases "body = []") (auto simp: recv_body_def Let_def c_int_id)
next
  case True
  from fix_read_rest [OF small conn data True] obtain r bs s1 where
    rd: "readFixSize ss_read (length body - length data) s = ((r, bs), s1)" and
    res: "if 0 < r then data @ bs = body \<and> ss_in s1 = extra \<and> ss_isConnected s1
       else \<not> ((\<forall>j \<in> set (ss_rplan s). 0 < j) \<and> length body \<le> length data + length (ss_rplan s))" by blast
  have "nat (int (length body) - int (length data)) = length body - length data" by simp
  moreover have "0 < int (length body)" using True by linarith
  ultimately show ?thesis using rd res True len small
    by (auto simp: recv_body_def Let_def ss_isConnected_def ss_close_def split: if_splits)
qed


text \<open>What the whole function makes of a request whose head arrives with the first read.\<close>

definition received :: "http_request \<Rightarrow> http_request \<Rightarrow> bool" where
  "received r D \<longleftrightarrow> same_request r D \<and> rq_body D = rq_body r \<and> (\<not> rq_websocket r \<longrightarrow> rq_close D = rq_close r)"

lemma recv_request:
  assumes r: "wire_ok r" "rq_body r \<noteq> [] \<or> rq_hasHeader ''content-length'' r = None" "length (rq_body r) < 2 ^ 31" and lc: "reads_dec lc"
    and s: "ss_isConnected s" "ss_in s = rq_dump r @ extra" "ss_rplan s = k # ks"
    and n: "n = first_read buff k s" "length (rq_head r) \<le> n" "buff < 2 ^ 31"
  shows "\<exists>res s'. recvRequest lc buff g s = (Inr res, s')
    \<and> (case res of None \<Rightarrow> \<not> ss_isConnected s' \<and> n < length (rq_dump r)
        | Some D \<Rightarrow> received r D \<and> ss_isConnected s' \<and> ss_in s' = drop (max n (length (rq_dump r))) (ss_in s))
    \<and> (n < length (rq_dump r) \<and> (\<forall>j \<in> set ks. 0 < j) \<and> length (rq_dump r) \<le> n + length ks \<longrightarrow> res \<noteq> None)"
proof -
  let ?data = "take (n - length (rq_head r)) (rq_body r @ extra)" let ?s = "s\<lparr>ss_rplan := ks, ss_in := drop n (ss_in s)\<rparr>"
  have inp: "ss_in s = rq_head r @ rq_body r @ extra" using s(2) by (simp add: rq_dump_split)
  from recv_head_first [OF r(1) s(1) inp s(3) n, of "g s"] obtain P where
    P: "recv_head buff [] (HttpRequestParser (g s)) s = (Inr (Some (?data, P)), ?s)" "same_request r (rp_data P)" "rq_body (rp_data P) = []"
      "hdr_ok (rq_headers (rp_data P))" "hdr_abs (rq_headers (rp_data P)) = map_of (rev (map (\<lambda>(k, v). (fold_case k, v)) (sent_fields r)))" by blast
  have len: "sint (rp_getContentLength lc P) = int (length (rq_body r))"
    using sent_length [OF r(1) P(4,5) lc r(2)] r(3) by (simp add: rp_getContentLength_def)
  have behind: "drop n (h @ x) = drop (n - length h) x" if "length h \<le> n" for h x :: string using that by simp
  have data: "?data @ ss_in ?s = rq_body r @ extra" using behind [OF n(2), of "rq_body r @ extra"] by (simp add: inp del: drop_append take_append)
  have le: "n \<le> length (ss_in s)" by (simp add: n(1) first_read_def)
  have ld: "length ?data = n - length (rq_head r)" using le inp by simp
  from recv_body_spec [OF len r(3) _ data] s(1) obtain res s' where b: "recv_body lc ?data P ?s = (Inr res, s')"
    "case res of None \<Rightarrow> \<not> ss_isConnected s' \<and> length ?data < length (rq_body r)
        | Some D \<Rightarrow> D = rq_init ((rp_data P)\<lparr>rq_body := if rq_body r = [] then rq_body (rp_data P) else rq_body r\<rparr>)
            \<and> ss_isConnected s' \<and> ss_in s' = (if length ?data \<le> length (rq_body r) then extra else ss_in ?s)"
    "length ?data < length (rq_body r) \<and> (\<forall>j \<in> set ks. 0 < j) \<and> length (rq_body r) \<le> length ?data + length ks \<longrightarrow> res \<noteq> None"
    by (auto simp: ss_isConnected_def)
  have run: "recvRequest lc buff g s = (Inr res, s')" using P(1) b(1) by (simp add: recvRequest_def)
  let ?D = "rq_init ((rp_data P)\<lparr>rq_body := if rq_body r = [] then rq_body (rp_data P) else rq_body r\<rparr>)"
  have conn: "rq_getHeader ''connection'' [] (rp_data P) = (if rq_close r then ''close'' else ''keep-alive'')" if "\<not> rq_websocket r"
    using map_of_sent_special(1) [OF r(1) that] P(4,5) by (simp add: rq_getHeader_def mt_get_abs)
  have cmp: "strcasecmp ''close'' ''keep-alive'' \<noteq> 0" "strcasecmp ''keep-alive'' ''keep-alive'' = 0" by code_simp+
  have D: "received r ?D" using P(2,3) conn cmp
    by (auto simp: received_def same_request_def rq_init_def Let_def rq_getHeader_def)
  have dump: "length (rq_dump r) = length (rq_head r) + length (rq_body r)" by (simp add: rq_dump_split)
  have rest: "(if length ?data \<le> length (rq_body r) then extra else ss_in ?s) = drop (max n (length (rq_dump r))) (ss_in s)"
    using n(2) dump unfolding ld inp by (auto simp: max_def)
  show ?thesis using run b(2,3) D rest n(2) dump unfolding ld
    by (intro exI [of _ res] exI [of _ s']) (auto split: option.splits)
qed

section \<open>Properties\<close>

text \<open>
  C26: \<open>recvRequest\<close> returns the request that \<open>sendRequest\<close> sent: when the head arrives with the first read,
  then whatever part of the body comes with it and however the rest is split, the result is a request with
  the same method, target, version, headers, body and keep-alive flag, and the session is still open; or,
  only if the body is cut off, the session is closed and there is no request. With a socket that keeps
  delivering there is a request.
\<close>

theorem send_recv_request:
  assumes "wire_ok r" and "rq_body r \<noteq> [] \<or> rq_hasHeader ''content-length'' r = None" and "length (rq_dump r) < 2 ^ 31" and "reads_dec lc"
    and "ss_isConnected c" and "ss_out c = []" and "sendRequest r c = (q, c')" and "0 < q"
    and "ss_isConnected s" and "ss_in s = ss_out c'" and "ss_rplan s = k # ks"
    and "length (rq_head r) \<le> first_read buff k s" and "buff < 2 ^ 31"
  shows "\<exists>res s'. recvRequest lc buff g s = (Inr res, s')
    \<and> (case res of None \<Rightarrow> \<not> ss_isConnected s' \<and> first_read buff k s < length (rq_dump r)
        | Some D \<Rightarrow> received r D \<and> ss_isConnected s' \<and> ss_in s' = [])
    \<and> ((\<forall>j \<in> set ks. 0 < j) \<and> length (rq_dump r) \<le> first_read buff k s + length ks \<longrightarrow> res \<noteq> None)"
proof -
  obtain x where wl: "fix_write_loop ss_write (rq_dump r) c = (x, c')" and q: "q = c_int (case x of None \<Rightarrow> int (length (rq_dump r)) | Some e \<Rightarrow> e)"
    using assms(7) by (auto simp: sendRequest_def writeFixSize_def split: prod.splits option.splits)
  from sock.stream_write_spec [OF wl] obtain m where m: "ss_out c' = take m (rq_dump r)" "x = None \<longrightarrow> m = length (rq_dump r)" "\<forall>e. x = Some e \<longrightarrow> e \<in> {- 1, 0}"
    using assms(6) by auto
  have "x = None" using q m(3) assms(8) c_int_small by (cases x) auto
  then have "ss_out c' = rq_dump r" using m by simp
  then have inp: "ss_in s = rq_dump r @ []" using assms(10) by simp
  have "length (rq_body r) < 2 ^ 31" using assms(3) by (simp add: rq_dump_split)
  from recv_request [OF assms(1,2) this assms(4,9) inp assms(11) refl assms(12,13), of g] obtain res s' where
    R: "recvRequest lc buff g s = (Inr res, s')"
      "case res of None \<Rightarrow> \<not> ss_isConnected s' \<and> first_read buff k s < length (rq_dump r)
        | Some D \<Rightarrow> received r D \<and> ss_isConnected s' \<and> ss_in s' = drop (max (first_read buff k s) (length (rq_dump r))) (ss_in s)"
      "first_read buff k s < length (rq_dump r) \<and> (\<forall>j \<in> set ks. 0 < j) \<and> length (rq_dump r) \<le> first_read buff k s + length ks \<longrightarrow> res \<noteq> None"
    by blast
  then show ?thesis using inp by (intro exI [of _ res] exI [of _ s']) (auto split: option.splits)
qed

lemma sample_ok: "wire_ok sample_request" "rq_body sample_request \<noteq> []" "length (rq_head sample_request) = 66" "length (rq_dump sample_request) = 68"
  by code_simp+

theorem send_recv_request_witness:
  "let c = snd (sendRequest sample_request (SocketStream True True [] [] [40, 70])); s = SocketStream True True (ss_out c) [67, 1] [] in
   \<exists>D s'. recvRequest cast_u64 4096 (\<lambda>_. blank_parser) s = (Inr (Some D), s') \<and> rq_body D = ''hi'' \<and> rq_path D = ''/a'' \<and> ss_in s' = []"
proof -
  let ?c = "SocketStream True True [] [] [40, 70]"
  obtain q c' where c: "sendRequest sample_request ?c = (q, c')" by fastforce
  let ?s = "SocketStream True True (ss_out c') [67, 1] []"
  have "0 < fst (sendRequest sample_request ?c)" "length (ss_out (snd (sendRequest sample_request ?c))) = 68" by code_simp+
  then have q: "0 < q" "length (ss_out c') = 68" by (simp_all add: c)
  have first: "length (rq_head sample_request) \<le> first_read 4096 67 ?s" by (simp add: sample_ok first_read_def SocketStream_def q)
  from send_recv_request [OF sample_ok(1) _ _ reads_dec_cast _ _ c q(1) _ _ _ first, of "[1]" "\<lambda>_. blank_parser"] first q(2)
  have "\<exists>D s'. recvRequest cast_u64 4096 (\<lambda>_. blank_parser) ?s = (Inr (Some D), s') \<and> received sample_request D \<and> ss_in s' = []"
    by (auto simp: sample_ok SocketStream_def ss_isConnected_def first_read_def split: option.splits)
  moreover have "rq_body sample_request = ''hi''" "rq_path sample_request = ''/a''" by (simp_all add: sample_request_def)
  ultimately show ?thesis by (auto simp: c received_def same_request_def)
qed

text \<open>
  Bytes that arrive in the same read as a whole request and belong to the next one are lost: the buffer
  is local to \<open>recvRequest\<close>. Of two pipelined requests that arrive together the first is returned and the
  second is never seen; waiting for it ends with the connection.
\<close>

theorem pipelined_request_lost:
  assumes "wire_ok r" and "rq_body r \<noteq> [] \<or> rq_hasHeader ''content-length'' r = None" and "reads_dec lc"
    and "ss_isConnected s" and "ss_in s = rq_dump r @ rq_dump r'" and "ss_rplan s = int (length (ss_in s)) # ks"
    and "length (ss_in s) \<le> buff" and "buff < 2 ^ 31"
  shows "\<exists>D s' s''. recvRequest lc buff g s = (Inr (Some D), s') \<and> received r D
    \<and> recvRequest lc buff g' s' = (Inr None, s'') \<and> \<not> ss_isConnected s''"
proof -
  have n: "first_read buff (int (length (ss_in s))) s = length (ss_in s)" using assms(7) by (simp add: first_read_def)
  have "length (rq_body r) < 2 ^ 31" "length (rq_head r) \<le> length (ss_in s)" using assms(5,7,8) by (simp_all add: rq_dump_split)
  from recv_request [OF assms(1,2) this(1) assms(3-6) n [symmetric] this(2) assms(8), of g] obtain D s' where
    D: "recvRequest lc buff g s = (Inr (Some D), s')" "received r D" "ss_isConnected s'" "ss_in s' = []"
    using assms(5) by (auto split: option.splits)
  obtain len bs s1 where rd: "ss_read buff s' = ((len, bs), s1)" by (metis prod.exhaust)
  then have "len \<le> 0" using D(3,4) by (auto simp: ss_read_def sock_recv_def Let_def split: list.splits if_splits)
  then have "recvRequest lc buff g' s' = (Inr None, ss_close s1)"
    by (simp add: recvRequest_def recv_head.simps rd)
  then show ?thesis using D by (auto simp: ss_isConnected_def ss_close_def)
qed

theorem pipelined_request_lost_witness:
  "let s = SocketStream True True (rq_dump sample_request @ rq_dump sample_request) [136, 50] [] in
   \<exists>D s' s''. recvRequest cast_u64 4096 (\<lambda>_. blank_parser) s = (Inr (Some D), s') \<and> rq_body D = ''hi''
    \<and> recvRequest cast_u64 4096 (\<lambda>_. blank_parser) s' = (Inr None, s'') \<and> \<not> ss_isConnected s''"
  using pipelined_request_lost [OF sample_ok(1) _ reads_dec_cast, of "SocketStream True True (rq_dump sample_request @ rq_dump sample_request) [136, 50] []"
      sample_request "[50]" 4096 "\<lambda>_. blank_parser" "\<lambda>_. blank_parser"] sample_ok
  by (auto simp: SocketStream_def ss_isConnected_def received_def sample_request_def)

end
