(* ===== verification/Servlet.thy ===== *)
theory Servlet
  imports Http_Session
begin

text \<open>
  Servlets and their dispatch (\<open>http/servlet.cc\<close>, \<open>http/servlet.h\<close>). A callback may change the request, the response
  and the session. The function \<open>fnmatch\<close> of the C library is an argument; it returns 0 on a match.
\<close>

section \<open>Servlets\<close>

type_synonym callback = "http_request \<Rightarrow> http_response \<Rightarrow> session \<Rightarrow> int \<times> http_request \<times> http_response \<times> session"

text \<open>The name and the page of \<open>NotFoundServlet\<close>. Other subclasses of \<open>Servlet\<close> are the callbacks of \<open>Function_Servlet\<close>.\<close>

datatype servlet = Function_Servlet callback | Not_Found_Servlet string string

definition FunctionServlet :: "callback \<Rightarrow> servlet" where
  "FunctionServlet cb = Function_Servlet cb"

definition NotFoundServlet :: "string \<Rightarrow> servlet" where
  "NotFoundServlet name = Not_Found_Servlet name
     (''<html><head><title>404 Not Found''
      @ ''</title></head><body><center><h1>404 Not Found</h1></center>''
      @ ''<hr><center>'' @ name @ ''</center></body></html>'')"

definition not_found_handle :: "string \<Rightarrow> callback" where
  "not_found_handle content rq rsp s =
     (0, rq, (rs_setHeader ''Content-Type'' ''text/html'' (rs_setHeader ''Server'' ''sylar/1.0.0'' (rsp\<lparr>rs_status := 404\<rparr>)))\<lparr>rs_body := content\<rparr>, s)"

primrec servlet_handle :: "servlet \<Rightarrow> callback" where
  "servlet_handle (Function_Servlet cb) = cb"
| "servlet_handle (Not_Found_Servlet name content) = not_found_handle content"

primrec servlet_getName :: "servlet \<Rightarrow> string" where
  "servlet_getName (Function_Servlet cb) = ''FunctionServlet''"
| "servlet_getName (Not_Found_Servlet name content) = ''NotFoundServlet''"

text \<open>A creator holds a pointer to a servlet, which may be null, and so may the pointer to the creator.\<close>

datatype creator = HoldServletCreator "servlet option"

primrec creator_get :: "creator \<Rightarrow> servlet option" where
  "creator_get (HoldServletCreator slt) = slt"

primrec creator_getName :: "creator \<Rightarrow> fault + string" where
  "creator_getName (HoldServletCreator slt) = (case slt of None \<Rightarrow> Inl Null_Deref | Some x \<Rightarrow> Inr (servlet_getName x))"

definition deref_get :: "creator option \<Rightarrow> fault + servlet option" where
  "deref_get c = (case c of None \<Rightarrow> Inl Null_Deref | Some x \<Rightarrow> Inr (creator_get x))"

section \<open>The dispatch table\<close>

record servlet_dispatch =
  sd_datas :: "string \<Rightarrow> creator option option"
  sd_globs :: "(string \<times> creator option) list"
  sd_default :: "servlet option"

definition ServletDispatch :: servlet_dispatch where
  "ServletDispatch = \<lparr>sd_datas = (\<lambda>_. None), sd_globs = [], sd_default = Some (NotFoundServlet ''webserve/1.0'')\<rparr>"

definition addServletCreator :: "string \<Rightarrow> creator option \<Rightarrow> servlet_dispatch \<Rightarrow> servlet_dispatch" where
  "addServletCreator uri c d = d\<lparr>sd_datas := (sd_datas d)(uri \<mapsto> c)\<rparr>"

definition addServlet :: "string \<Rightarrow> servlet option \<Rightarrow> servlet_dispatch \<Rightarrow> servlet_dispatch" where
  "addServlet uri slt d = d\<lparr>sd_datas := (sd_datas d)(uri \<mapsto> Some (HoldServletCreator slt))\<rparr>"

definition addServletCallback :: "string \<Rightarrow> callback \<Rightarrow> servlet_dispatch \<Rightarrow> servlet_dispatch" where
  "addServletCallback uri cb d = d\<lparr>sd_datas := (sd_datas d)(uri \<mapsto> Some (HoldServletCreator (Some (FunctionServlet cb))))\<rparr>"

text \<open>The loop that erases the first entry of a URI.\<close>

fun erase_glob :: "string \<Rightarrow> (string \<times> creator option) list \<Rightarrow> (string \<times> creator option) list" where
  "erase_glob uri [] = []"
| "erase_glob uri (e # es) = (if fst e = uri then es else e # erase_glob uri es)"

definition addGlobServletCreator :: "string \<Rightarrow> creator option \<Rightarrow> servlet_dispatch \<Rightarrow> servlet_dispatch" where
  "addGlobServletCreator uri c d = d\<lparr>sd_globs := erase_glob uri (sd_globs d) @ [(uri, c)]\<rparr>"

definition addGlobServlet :: "string \<Rightarrow> servlet option \<Rightarrow> servlet_dispatch \<Rightarrow> servlet_dispatch" where
  "addGlobServlet uri slt d = d\<lparr>sd_globs := erase_glob uri (sd_globs d) @ [(uri, Some (HoldServletCreator slt))]\<rparr>"

definition addGlobServletCallback :: "string \<Rightarrow> callback \<Rightarrow> servlet_dispatch \<Rightarrow> servlet_dispatch" where
  "addGlobServletCallback uri cb d = addGlobServlet uri (Some (FunctionServlet cb)) d"

definition delServlet :: "string \<Rightarrow> servlet_dispatch \<Rightarrow> servlet_dispatch" where
  "delServlet uri d = d\<lparr>sd_datas := (sd_datas d)(uri := None)\<rparr>"

definition delGlobServlet :: "string \<Rightarrow> servlet_dispatch \<Rightarrow> servlet_dispatch" where
  "delGlobServlet uri d = d\<lparr>sd_globs := erase_glob uri (sd_globs d)\<rparr>"

definition getServlet :: "string \<Rightarrow> servlet_dispatch \<Rightarrow> fault + servlet option" where
  "getServlet uri d = (case sd_datas d uri of None \<Rightarrow> Inr None | Some c \<Rightarrow> deref_get c)"

fun find_glob :: "(string \<Rightarrow> bool) \<Rightarrow> (string \<times> creator option) list \<Rightarrow> creator option option" where
  "find_glob f [] = None"
| "find_glob f (e # es) = (if f (fst e) then Some (snd e) else find_glob f es)"

definition getGlobServlet :: "string \<Rightarrow> servlet_dispatch \<Rightarrow> fault + servlet option" where
  "getGlobServlet uri d = (case find_glob (\<lambda>p. p = uri) (sd_globs d) of None \<Rightarrow> Inr None | Some c \<Rightarrow> deref_get c)"

definition getMatchedServlet :: "(string \<Rightarrow> string \<Rightarrow> int) \<Rightarrow> string \<Rightarrow> servlet_dispatch \<Rightarrow> fault + servlet option" where
  "getMatchedServlet fnmatch uri d =
     (case sd_datas d uri of
        Some c \<Rightarrow> deref_get c
      | None \<Rightarrow>
        (case find_glob (\<lambda>p. fnmatch (c_str p) (c_str uri) = 0) (sd_globs d) of
           Some c \<Rightarrow> deref_get c
         | None \<Rightarrow> Inr (sd_default d)))"

definition listAllServletCreator :: "servlet_dispatch \<Rightarrow> (string \<Rightarrow> creator option option) \<Rightarrow> string \<Rightarrow> creator option option" where
  "listAllServletCreator d infos = infos ++ sd_datas d"

definition listAllGlobServletCreator :: "servlet_dispatch \<Rightarrow> (string \<Rightarrow> creator option option) \<Rightarrow> string \<Rightarrow> creator option option" where
  "listAllGlobServletCreator d infos = fold (\<lambda>(k, c) m. m(k \<mapsto> c)) (sd_globs d) infos"

definition dispatch_handle :: "(string \<Rightarrow> string \<Rightarrow> int) \<Rightarrow> servlet_dispatch \<Rightarrow> http_request \<Rightarrow> http_response \<Rightarrow> session
    \<Rightarrow> fault + (int \<times> http_request \<times> http_response \<times> session)" where
  "dispatch_handle fnmatch d rq rsp s =
     bindE (getMatchedServlet fnmatch (rq_path rq) d) (\<lambda>slt.
       (case slt of None \<Rightarrow> Inr (0, rq, rsp, s)
        | Some x \<Rightarrow> (case servlet_handle x rq rsp s of (_, rq, rsp, s) \<Rightarrow> Inr (0, rq, rsp, s))))"

section \<open>The table as a history\<close>

datatype dispatch_op =
    Add_Servlet string "creator option" | Add_Glob string "creator option" | Del_Servlet string | Del_Glob string
  | Set_Default "servlet option"

primrec dispatch_step :: "dispatch_op \<Rightarrow> servlet_dispatch \<Rightarrow> servlet_dispatch" where
  "dispatch_step (Add_Servlet u c) d = addServletCreator u c d"
| "dispatch_step (Add_Glob u c) d = addGlobServletCreator u c d"
| "dispatch_step (Del_Servlet u) d = delServlet u d"
| "dispatch_step (Del_Glob u) d = delGlobServlet u d"
| "dispatch_step (Set_Default s) d = d\<lparr>sd_default := s\<rparr>"

lemma other_adds:
  "addServlet u s = dispatch_step (Add_Servlet u (Some (HoldServletCreator s)))"
  "addServletCallback u f = dispatch_step (Add_Servlet u (Some (HoldServletCreator (Some (FunctionServlet f)))))"
  "addGlobServlet u s = dispatch_step (Add_Glob u (Some (HoldServletCreator s)))"
  "addGlobServletCallback u f = dispatch_step (Add_Glob u (Some (HoldServletCreator (Some (FunctionServlet f)))))"
  by (auto simp: addServlet_def addServletCreator_def addServletCallback_def addGlobServlet_def addGlobServletCreator_def addGlobServletCallback_def)

text \<open>
  The meaning of a history, oldest operation first: the last operation on a URI decides what is registered
  for it; the patterns that are registered are in the order of their last registration.
\<close>

fun on_exact :: "string \<Rightarrow> dispatch_op \<Rightarrow> bool" where
  "on_exact u (Add_Servlet v c) = (u = v)"
| "on_exact u (Del_Servlet v) = (u = v)"
| "on_exact u _ = False"

fun last_exact :: "string \<Rightarrow> dispatch_op list \<Rightarrow> creator option option" where
  "last_exact u [] = None"
| "last_exact u (Add_Servlet v c # h) = (if u = v \<and> \<not> list_ex (on_exact u) h then Some c else last_exact u h)"
| "last_exact u (_ # h) = last_exact u h"

fun on_glob :: "string \<Rightarrow> dispatch_op \<Rightarrow> bool" where
  "on_glob u (Add_Glob v c) = (u = v)"
| "on_glob u (Del_Glob v) = (u = v)"
| "on_glob u _ = False"

fun live_globs :: "dispatch_op list \<Rightarrow> (string \<times> creator option) list" where
  "live_globs [] = []"
| "live_globs (Add_Glob u c # h) = (if list_ex (on_glob u) h then live_globs h else (u, c) # live_globs h)"
| "live_globs (_ # h) = live_globs h"

fun last_default :: "servlet option \<Rightarrow> dispatch_op list \<Rightarrow> servlet option" where
  "last_default d [] = d"
| "last_default d (Set_Default s # h) = last_default s h"
| "last_default d (_ # h) = last_default d h"

lemma last_exact_None: "\<not> list_ex (on_exact u) h \<Longrightarrow> last_exact u h = None"
  by (induction u h rule: last_exact.induct) auto

lemma last_exact_snoc:
  "last_exact u (h @ [x]) = (case x of Add_Servlet v c \<Rightarrow> if u = v then Some c else last_exact u h
     | Del_Servlet v \<Rightarrow> if u = v then None else last_exact u h | _ \<Rightarrow> last_exact u h)"
proof (induction h)
  case (Cons y h)
  then show ?case using last_exact_None [of u h] by (cases y; cases x) auto
qed (cases x, simp_all)

lemma live_globs_snoc:
  "live_globs (h @ [x]) = (case x of Add_Glob u c \<Rightarrow> filter (\<lambda>e. fst e \<noteq> u) (live_globs h) @ [(u, c)]
     | Del_Glob u \<Rightarrow> filter (\<lambda>e. fst e \<noteq> u) (live_globs h) | _ \<Rightarrow> live_globs h)"
proof (induction h)
  case (Cons y h)
  then show ?case by (cases y; cases x) auto
qed (cases x, simp_all)

lemma last_default_snoc: "last_default d (h @ [x]) = (case x of Set_Default s \<Rightarrow> s | _ \<Rightarrow> last_default d h)"
  by (induction d h rule: last_default.induct) (auto split: dispatch_op.splits)

lemma live_globs_distinct: "distinct (map fst (live_globs h))"
  by (induction h rule: rev_induct) (auto simp: live_globs_snoc distinct_map_filter split: dispatch_op.splits)

lemma erase_glob_filter: "distinct (map fst es) \<Longrightarrow> erase_glob u es = filter (\<lambda>e. fst e \<noteq> u) es"
proof (induction u es rule: erase_glob.induct)
  case (2 u e es)
  have "filter (\<lambda>e. fst e \<noteq> u) es = es" if "u \<notin> set (map fst es)" using that by (intro filter_True) auto
  then show ?case using 2 by auto
qed simp

definition dispatch_after :: "dispatch_op list \<Rightarrow> servlet_dispatch" where
  "dispatch_after h = fold dispatch_step h ServletDispatch"

lemma dispatch_history:
  "dispatch_after h =
     \<lparr>sd_datas = (\<lambda>u. last_exact u h), sd_globs = live_globs h, sd_default = last_default (Some (NotFoundServlet ''webserve/1.0'')) h\<rparr>"
proof (induction h rule: rev_induct)
  case (snoc x h)
  then show ?case using live_globs_distinct [of h]
    by (cases x) (auto simp: last_exact_snoc live_globs_snoc last_default_snoc erase_glob_filter addServletCreator_def addGlobServletCreator_def
        delServlet_def delGlobServlet_def fun_eq_iff dispatch_after_def)
qed (simp add: ServletDispatch_def dispatch_after_def)

section \<open>Properties\<close>

text \<open>
  C27: after any registrations and removals a request is dispatched to the servlet last registered for
  exactly its path; else to that of the first pattern that matches, in the order of last registration;
  else to the default. The exact and the pattern lookup return what was last registered, or nothing.
\<close>

theorem dispatch_refines:
  "getMatchedServlet fnmatch u (dispatch_after h) =
      (case last_exact u h of Some c \<Rightarrow> deref_get c
       | None \<Rightarrow> (case filter (\<lambda>(p, c). fnmatch (c_str p) (c_str u) = 0) (live_globs h) of (p, c) # _ \<Rightarrow> deref_get c
         | [] \<Rightarrow> Inr (last_default (Some (NotFoundServlet ''webserve/1.0'')) h)))
   \<and> getServlet u (dispatch_after h) = (case last_exact u h of None \<Rightarrow> Inr None | Some c \<Rightarrow> deref_get c)
   \<and> getGlobServlet u (dispatch_after h) = (case map_of (live_globs h) u of None \<Rightarrow> Inr None | Some c \<Rightarrow> deref_get c)
   \<and> distinct (map fst (sd_globs (dispatch_after h)))"
proof -
  have glob: "find_glob f es = (case filter (\<lambda>(p, c). f p) es of [] \<Rightarrow> None | (p, c) # _ \<Rightarrow> Some c)" for f es
    by (induction es) auto
  have key: "find_glob (\<lambda>p. p = u) es = map_of es u" for es by (induction es) auto
  show ?thesis unfolding dispatch_history getMatchedServlet_def getServlet_def getGlobServlet_def servlet_dispatch.select_convs key
    by (auto simp: glob live_globs_distinct split: option.splits list.splits)
qed

end
