(* ===== verification/Http_Server.thy ===== *)
theory Http_Server
  imports Servlet
begin

text \<open>
  The HTTP server (\<open>http/http_server.cc\<close>): the loop that serves a client. Servlets may do anything to the
  session, so the loop may not end; the result is then \<open>None\<close>.
\<close>

section \<open>Serving a client\<close>

text \<open>What the server uses of its surroundings: \<open>fnmatch\<close>, the conversion of numbers, the size of the buffer and the memory of new parsers.\<close>

record web_env =
  we_fnmatch :: "string \<Rightarrow> string \<Rightarrow> int"
  we_cast :: "string \<Rightarrow> u64 option"
  we_buffer_size :: nat
  we_garbage :: "session \<Rightarrow> http_parser"

record http_server =
  hs_name :: string
  hs_isKeepalive :: bool
  hs_dispatch :: servlet_dispatch

definition HttpServer :: "bool \<Rightarrow> http_server" where
  "HttpServer keepalive = \<lparr>hs_name = ''sylar/1.0.0'', hs_isKeepalive = keepalive, hs_dispatch = ServletDispatch\<rparr>"

definition hs_setName :: "string \<Rightarrow> http_server \<Rightarrow> http_server" where
  "hs_setName v srv = srv\<lparr>hs_name := v\<rparr>"

definition hs_setServletDispatch :: "servlet_dispatch \<Rightarrow> http_server \<Rightarrow> http_server" where
  "hs_setServletDispatch v srv = srv\<lparr>hs_dispatch := v\<rparr>"

text \<open>One round; the flag of the result says that the loop goes on. An exception leaves the session as it is.\<close>

definition new_response :: "http_server \<Rightarrow> http_request \<Rightarrow> http_response" where
  "new_response srv rq = rs_setHeader ''Server'' (hs_name srv) (HttpResponse (rq_version rq) (rq_close rq \<or> \<not> hs_isKeepalive srv))"

definition serve_once :: "web_env \<Rightarrow> http_server \<Rightarrow> session \<Rightarrow> (fault + bool) \<times> session" where
  "serve_once env srv s =
     (case recvRequest (we_cast env) (we_buffer_size env) (we_garbage env) s of
        (Inl e, s) \<Rightarrow> (Inl e, s)
      | (Inr None, s) \<Rightarrow> (Inr False, s)
      | (Inr (Some rq), s) \<Rightarrow>
          (case dispatch_handle (we_fnmatch env) (hs_dispatch srv) rq (new_response srv rq) s of
             Inl e \<Rightarrow> (Inl e, s)
           | Inr (_, rq, rsp, s) \<Rightarrow>
               (case sendResponse rsp s of (_, s) \<Rightarrow> (Inr (\<not> (\<not> hs_isKeepalive srv \<or> rq_close rq)), s))))"

partial_function (option) serve_loop :: "web_env \<Rightarrow> http_server \<Rightarrow> session \<Rightarrow> ((fault + unit) \<times> session) option" where
  "serve_loop env srv s =
     (case serve_once env srv s of
        (Inl e, s) \<Rightarrow> Some (Inl e, s)
      | (Inr go, s) \<Rightarrow> if go then serve_loop env srv s else Some (Inr (), ss_close s))"

definition handleClient :: "web_env \<Rightarrow> http_server \<Rightarrow> session \<Rightarrow> ((fault + unit) \<times> session) option" where
  "handleClient env srv client = serve_loop env srv client"

section \<open>The loop ends\<close>

text \<open>A servlet that does not give the session more to read.\<close>

definition polite :: "servlet \<Rightarrow> bool" where
  "polite x \<longleftrightarrow> (\<forall>rq rsp s. case servlet_handle x rq rsp s of (_, _, _, s') \<Rightarrow> length (ss_rplan s') \<le> length (ss_rplan s))"

definition polite_dispatch :: "servlet_dispatch \<Rightarrow> bool" where
  "polite_dispatch d \<longleftrightarrow> (\<forall>x. (\<exists>u. sd_datas d u = Some (Some (HoldServletCreator (Some x)))) \<or> (\<exists>u. (u, Some (HoldServletCreator (Some x))) \<in> set (sd_globs d))
     \<or> sd_default d = Some x \<longrightarrow> polite x)"

lemma polite_not_found: "polite (Not_Found_Servlet n c)"
  by (simp add: polite_def not_found_handle_def)

lemma find_glob_in: "find_glob f es = Some c \<Longrightarrow> \<exists>u. (u, c) \<in> set es"
  by (induction f es rule: find_glob.induct) (auto split: if_splits)

lemma matched_polite:
  assumes "polite_dispatch d" and "getMatchedServlet fm u d = Inr (Some x)"
  shows "polite x"
proof -
  have get: "deref_get c = Inr (Some x) \<Longrightarrow> c = Some (HoldServletCreator (Some x))" for c
    by (auto simp: deref_get_def split: option.splits) (metis creator.exhaust creator_get.simps)
  show ?thesis using assms get find_glob_in [of _ "sd_globs d"]
    by (auto simp: polite_dispatch_def getMatchedServlet_def split: option.splits) metis+
qed

lemma write_plan: "ss_write bs s = (r, s') \<Longrightarrow> ss_rplan s' = ss_rplan s"
  by (auto simp: ss_write_def sock_send_def Let_def split: if_splits list.splits)

lemma fix_write_plan: "fix_write_loop ss_write bs s = (r, s') \<Longrightarrow> ss_rplan s' = ss_rplan s"
proof (induction "length bs" arbitrary: bs s rule: less_induct)
  case less
  obtain len s1 where wr: "ss_write bs s = (len, s1)" by fastforce
  show ?case
  proof (cases "bs \<noteq> [] \<and> 0 < len")
    case True
    then have "fix_write_loop ss_write (drop (nat len) bs) s1 = (r, s')" using less.prems wr by (simp add: fix_write_loop.simps [of ss_write bs s])
    moreover have "length (drop (nat len) bs) < length bs" using True by simp
    ultimately show ?thesis using less.hyps write_plan [OF wr] by fastforce
  next
    case False
    then show ?thesis using less.prems wr write_plan [OF wr] by (auto simp: fix_write_loop.simps [of ss_write bs s] split: if_splits)
  qed
qed

lemma send_plan: "sendResponse rsp s = (r, s') \<Longrightarrow> ss_rplan s' = ss_rplan s"
  by (auto simp: sendResponse_def writeFixSize_def split: prod.splits option.splits dest: fix_write_plan)

lemma serve_once_plan:
  assumes "polite_dispatch (hs_dispatch srv)" and "serve_once env srv s = (Inr True, s')"
  shows "length (ss_rplan s') < length (ss_rplan s)"
proof -
  obtain rq s1 where r: "recvRequest (we_cast env) (we_buffer_size env) (we_garbage env) s = (Inr (Some rq), s1)"
    using assms(2) by (auto simp: serve_once_def split: prod.splits sum.splits option.splits)
  obtain n rq' rsp s2 where d: "dispatch_handle (we_fnmatch env) (hs_dispatch srv) rq (new_response srv rq) s1 = Inr (n, rq', rsp, s2)"
    using assms(2) r by (auto simp: serve_once_def split: sum.splits)
  have "length (ss_rplan s2) \<le> length (ss_rplan s1)"
    using d matched_polite [OF assms(1)] by (fastforce simp: dispatch_handle_def polite_def bindE_def split: sum.splits option.splits prod.splits)
  then show ?thesis using recv_plan [OF r] assms(2) r d send_plan by (fastforce simp: serve_once_def split: prod.splits)
qed

section \<open>One request\<close>

text \<open>A request that arrives, in however many reads: the head in the first one, the rest before the socket ends.\<close>

definition delivers :: "web_env \<Rightarrow> http_request \<Rightarrow> session \<Rightarrow> bool" where
  "delivers env r s \<longleftrightarrow> ss_isConnected s \<and> prefix (rq_dump r) (ss_in s) \<and> we_buffer_size env < 2 ^ 31 \<and> reads_dec (we_cast env)
     \<and> (case ss_rplan s of [] \<Rightarrow> False | k # ks \<Rightarrow> length (rq_head r) \<le> first_read (we_buffer_size env) k s
          \<and> (\<forall>j \<in> set ks. 0 < j) \<and> length (rq_dump r) \<le> first_read (we_buffer_size env) k s + length ks)"

definition plain_request :: "http_request \<Rightarrow> bool" where
  "plain_request r \<longleftrightarrow> wire_ok r \<and> (rq_body r \<noteq> [] \<or> rq_hasHeader ''content-length'' r = None) \<and> length (rq_body r) < 2 ^ 31"

lemma delivered:
  assumes "plain_request r" and "delivers env r s"
  shows "\<exists>D s'. recvRequest (we_cast env) (we_buffer_size env) g s = (Inr (Some D), s') \<and> received r D \<and> ss_isConnected s' \<and> consumed s s'"
proof -
  obtain extra where inp: "ss_in s = rq_dump r @ extra" using assms(2) by (auto simp: delivers_def prefix_def)
  obtain k ks where plan: "ss_rplan s = k # ks" using assms(2) by (auto simp: delivers_def split: list.splits)
  let ?n = "first_read (we_buffer_size env) k s"
  have n: "length (rq_head r) \<le> ?n" "we_buffer_size env < 2 ^ 31" "\<forall>j \<in> set ks. 0 < j" "length (rq_dump r) \<le> ?n + length ks" "reads_dec (we_cast env)" "ss_isConnected s"
    using assms(2) plan by (auto simp: delivers_def)
  have r: "wire_ok r" "rq_body r \<noteq> [] \<or> rq_hasHeader ''content-length'' r = None" "length (rq_body r) < 2 ^ 31"
    using assms(1) by (auto simp: plain_request_def)
  from recv_request [OF r n(5,6) inp plan refl n(1,2), of g] n(3,4) obtain D s' where
    "recvRequest (we_cast env) (we_buffer_size env) g s = (Inr (Some D), s')" "received r D" "ss_isConnected s'"
    by (auto split: option.splits)
  then show ?thesis using consumed_recv by blast
qed

section \<open>Properties\<close>

definition sample_env :: web_env where
  "sample_env = \<lparr>we_fnmatch = (\<lambda>p s. if p = s then 0 else 1), we_cast = cast_u64, we_buffer_size = 4096, we_garbage = (\<lambda>_. blank_parser)\<rparr>"

abbreviation (input) sample_session :: session where
  "sample_session \<equiv> SocketStream True True (rq_dump sample_request) [67, 1] [1000]"

lemma sample_delivered: "plain_request sample_request" "delivers sample_env sample_request sample_session"
  using sample_ok by (auto simp: plain_request_def sample_request_def delivers_def sample_env_def SocketStream_def ss_isConnected_def first_read_def reads_dec_cast)

text \<open>
  C28: serving a client ends, whatever the client sends and however the kernel splits it, when no servlet
  gives the session more to read: each round consumes a read. In the end the session is closed,
  unless an exception left the loop.
\<close>

theorem handleClient_ends:
  assumes "polite_dispatch (hs_dispatch srv)"
  shows "\<exists>r s'. handleClient env srv s = Some (r, s') \<and> (r = Inr () \<longrightarrow> \<not> ss_isConnected s')"
proof (induction "length (ss_rplan s)" arbitrary: s rule: less_induct)
  case less
  obtain r s1 where once: "serve_once env srv s = (r, s1)" by fastforce
  show ?case
  proof (cases "r = Inr True")
    case True
    have "length (ss_rplan s1) < length (ss_rplan s)" using serve_once_plan [OF assms] once True by blast
    from less.hyps [OF this] show ?thesis using once True by (simp add: handleClient_def serve_loop.simps [of env srv s])
  next
    case False
    then show ?thesis using once
      by (auto simp: handleClient_def serve_loop.simps [of env srv s] ss_close_def ss_isConnected_def split: sum.splits if_splits)
  qed
qed

theorem handleClient_ends_witness:
  "\<exists>r s'. handleClient sample_env (HttpServer True) sample_session = Some (r, s') \<and> (r = Inr () \<longrightarrow> \<not> ss_isConnected s')"
proof (rule handleClient_ends)
  show "polite_dispatch (hs_dispatch (HttpServer True))"
    by (auto simp: HttpServer_def polite_dispatch_def ServletDispatch_def NotFoundServlet_def polite_not_found)
qed

text \<open>
  C29: a request that a client sent and that arrives is served: the servlet registered for its path is called,
  once, with that request and a fresh response of its version; what the servlet makes of the response is
  sent; then the server takes the next request if it keeps connections alive and the request is not
  marked close, and else closes the session.
\<close>

theorem request_served:
  assumes "plain_request r" and "delivers env r s" and "getMatchedServlet (we_fnmatch env) (rq_path r) (hs_dispatch srv) = Inr (Some x)"
  shows "\<exists>D s1 code D' rsp s2 n s3. received r D \<and> consumed s s1 \<and> servlet_handle x D (new_response srv D) s1 = (code, D', rsp, s2)
    \<and> sendResponse rsp s2 = (n, s3)
    \<and> handleClient env srv s = (if hs_isKeepalive srv \<and> \<not> rq_close D' then handleClient env srv s3 else Some (Inr (), ss_close s3))"
proof -
  from delivered [OF assms(1,2), of "we_garbage env"] obtain D s1 where
    D: "recvRequest (we_cast env) (we_buffer_size env) (we_garbage env) s = (Inr (Some D), s1)" "received r D" "consumed s s1" by blast
  obtain code D' rsp s2 where h: "servlet_handle x D (new_response srv D) s1 = (code, D', rsp, s2)" by (metis prod.exhaust)
  obtain n s3 where send: "sendResponse rsp s2 = (n, s3)" by fastforce
  have "dispatch_handle (we_fnmatch env) (hs_dispatch srv) D (new_response srv D) s1 = Inr (0, D', rsp, s2)"
    using assms(3) D(2) h by (simp add: dispatch_handle_def received_def same_request_def)
  then have "serve_once env srv s = (Inr (hs_isKeepalive srv \<and> \<not> rq_close D'), s3)" using D(1) send by (simp add: serve_once_def)
  then have "handleClient env srv s = (if hs_isKeepalive srv \<and> \<not> rq_close D' then handleClient env srv s3 else Some (Inr (), ss_close s3))"
    by (simp add: handleClient_def serve_loop.simps [of env srv s])
  then show ?thesis using D(2,3) h send by blast
qed

theorem request_served_witness:
  "let echo = FunctionServlet (\<lambda>rq rsp s. (0, rq, rsp\<lparr>rs_body := rq_body rq\<rparr>, s));
       srv = hs_setServletDispatch (addServlet ''/a'' (Some echo) ServletDispatch) (HttpServer False) in
   \<exists>D s1 n s3. rq_body D = ''hi'' \<and> sendResponse ((new_response srv D)\<lparr>rs_body := ''hi''\<rparr>) s1 = (n, s3)
     \<and> handleClient sample_env srv sample_session = Some (Inr (), ss_close s3)"
proof -
  let ?echo = "FunctionServlet (\<lambda>rq rsp s. (0, rq, rsp\<lparr>rs_body := rq_body rq\<rparr>, s))"
  let ?srv = "hs_setServletDispatch (addServlet ''/a'' (Some ?echo) ServletDispatch) (HttpServer False)"
  have m: "getMatchedServlet (we_fnmatch sample_env) (rq_path sample_request) (hs_dispatch ?srv) = Inr (Some ?echo)"
    by (simp add: hs_setServletDispatch_def addServlet_def getMatchedServlet_def deref_get_def sample_request_def)
  have "rq_body sample_request = ''hi''" by (simp add: sample_request_def)
  moreover from request_served [OF sample_delivered m] obtain D s1 code D' rsp s2 n s3 where
    D: "received sample_request D" "servlet_handle ?echo D (new_response ?srv D) s1 = (code, D', rsp, s2)" "sendResponse rsp s2 = (n, s3)"
      "handleClient sample_env ?srv sample_session = (if hs_isKeepalive ?srv \<and> \<not> rq_close D' then handleClient sample_env ?srv s3 else Some (Inr (), ss_close s3))"
    by blast
  have "\<not> hs_isKeepalive ?srv" by (simp add: hs_setServletDispatch_def HttpServer_def)
  then have "handleClient sample_env ?srv sample_session = Some (Inr (), ss_close s3)" using D(4) by simp
  moreover have "rsp = (new_response ?srv D)\<lparr>rs_body := rq_body D\<rparr>" "s2 = s1" using D(2) by (auto simp: FunctionServlet_def)
  moreover have "rq_body D = rq_body sample_request" using D(1) by (simp add: received_def)
  ultimately show ?thesis using D(3) unfolding Let_def by (intro exI [of _ D] exI [of _ s1] exI [of _ n] exI [of _ s3]) simp
qed

text \<open>What a server without servlets sends.\<close>

definition not_found_page :: string where
  "not_found_page = ''<html><head><title>404 Not Found</title></head><body><center><h1>404 Not Found</h1></center><hr><center>webserve/1.0</center></body></html>''"

definition not_found_text :: "u8 \<Rightarrow> string" where
  "not_found_text v = version_text v @ '' 404 Not Found'' @ CRLF @ ''Content-Type: text/html'' @ CRLF @ ''Server: sylar/1.0.0'' @ CRLF
     @ ''connection: close'' @ CRLF @ ''content-length: 139'' @ CRLF @ CRLF @ not_found_page"

lemma not_found_dump:
  assumes "\<not> hs_isKeepalive srv"
  shows "\<exists>rsp. not_found_handle not_found_page D (new_response srv D) s = (0, D, rsp, s) \<and> rs_dump rsp = not_found_text (rq_version D)"
proof -
  have h: "mt_assign ''Content-Type'' ''text/html'' (mt_assign ''Server'' ''sylar/1.0.0'' (mt_assign ''Server'' name []))
      = [(''Content-Type'', ''text/html''), (''Server'', ''sylar/1.0.0'')]" for name by code_simp
  have d: "dec 404 = ''404''" "dec 139 = ''139''" "length not_found_page = 139" "not_found_page \<noteq> []" "HttpStatusToString 404 = ''Not Found''" by code_simp+
  have c: "strcasecmp ''Content-Type'' ''connection'' \<noteq> 0" "strcasecmp ''Server'' ''connection'' \<noteq> 0" by code_simp+
  show ?thesis using assms
    by (simp add: not_found_handle_def new_response_def HttpResponse_def rs_setHeader_def h rs_dump_def d dump_body_def dump_headers_def c
        connection_line_def not_found_text_def)
qed

lemma ss_send_prefix:
  assumes "sendResponse rsp s = (n, s')"
  shows "\<exists>m. ss_out s' = ss_out s @ take m (rs_dump rsp)"
    and "ss_isConnected s \<Longrightarrow> ss_wplan s = w # ws \<Longrightarrow> int (length (rs_dump rsp)) \<le> w \<Longrightarrow> ss_out s' = ss_out s @ rs_dump rsp"
proof -
  obtain x where wl: "fix_write_loop ss_write (rs_dump rsp) s = (x, s')"
    using assms by (auto simp: sendResponse_def writeFixSize_def split: prod.splits option.splits)
  show "\<exists>m. ss_out s' = ss_out s @ take m (rs_dump rsp)" using sock.stream_write_spec [OF wl] by blast
  show "ss_out s' = ss_out s @ rs_dump rsp" if "ss_isConnected s" "ss_wplan s = w # ws" "int (length (rs_dump rsp)) \<le> w"
  proof -
    have "rs_dump rsp \<noteq> [] \<Longrightarrow> 0 < w" using that(3) by (cases "rs_dump rsp") auto
    with that wl show ?thesis by (auto simp: fix_write_loop.simps [of ss_write "rs_dump rsp"] fix_write_loop.simps [of ss_write "[]"] ss_write_def sock_send_def Let_def split: if_splits)
  qed
qed

text \<open>
  A server without servlets answers any request with the page of \<open>NotFoundServlet\<close>: the bytes sent are a
  prefix of the status line 404, its headers and the page, all of it when the kernel takes it in one call;
  a server that does not keep connections alive then closes the session. The header \<open>Server\<close> is that of
  the servlet, whatever the name of the server.
\<close>

lemma unknown_path_404:
  assumes "plain_request r" and "delivers env r s" and "hs_dispatch srv = ServletDispatch" and "\<not> hs_isKeepalive srv"
  shows "\<exists>s' m. handleClient env srv s = Some (Inr (), s') \<and> \<not> ss_isConnected s' \<and> ss_out s' = ss_out s @ take m (not_found_text (rq_version r))
    \<and> (\<forall>w ws. ss_wplan s = w # ws \<and> int (length (not_found_text (rq_version r))) \<le> w \<longrightarrow> ss_out s' = ss_out s @ not_found_text (rq_version r))"
proof -
  from delivered [OF assms(1,2), of "we_garbage env"] obtain D s1 where
    D: "recvRequest (we_cast env) (we_buffer_size env) (we_garbage env) s = (Inr (Some D), s1)" "received r D" "ss_isConnected s1" "consumed s s1" by blast
  obtain rsp where rsp: "not_found_handle not_found_page D (new_response srv D) s1 = (0, D, rsp, s1)" "rs_dump rsp = not_found_text (rq_version D)"
    using not_found_dump [OF assms(4)] by blast
  obtain n s3 where send: "sendResponse rsp s1 = (n, s3)" by fastforce
  have "NotFoundServlet ''webserve/1.0'' = Not_Found_Servlet ''webserve/1.0'' not_found_page" by (simp add: NotFoundServlet_def not_found_page_def)
  then have "dispatch_handle (we_fnmatch env) (hs_dispatch srv) D (new_response srv D) s1 = Inr (0, D, rsp, s1)"
    using rsp(1) by (simp add: dispatch_handle_def assms(3) ServletDispatch_def getMatchedServlet_def)
  then have "serve_once env srv s = (Inr False, s3)" using D(1) send assms(4) by (simp add: serve_once_def)
  then have "handleClient env srv s = Some (Inr (), ss_close s3)" by (simp add: handleClient_def serve_loop.simps [of env srv s])
  moreover have "\<not> ss_isConnected (ss_close s3)" "ss_out (ss_close s3) = ss_out s3" by (auto simp: ss_close_def ss_isConnected_def)
  moreover have "rq_version D = rq_version r" "ss_out s1 = ss_out s" "ss_wplan s1 = ss_wplan s"
    using D(2,4) by (simp_all add: received_def same_request_def consumed_def)
  ultimately show ?thesis using ss_send_prefix [OF send] D(3) rsp(2) by auto
qed

end
