(* ===== verification/Http_Connection.thy ===== *)
theory Http_Connection
  imports Http_Session
begin

text \<open>
  HTTP clients (\<open>http/http_connection.cc\<close>): receiving a response, with a body of known length or in chunks. As in
  \<open>Http_Session\<close> the buffer size, the conversion of numbers and the memory of new parsers are arguments.
\<close>

section \<open>The head of a response\<close>

function recv_response_head :: "nat \<Rightarrow> string \<Rightarrow> response_parser \<Rightarrow> session \<Rightarrow> (fault + (string \<times> response_parser) option) \<times> session" where
  "recv_response_head buff_size data parser s =
     (case ss_read (buff_size - length data) s of ((len, bs), s') \<Rightarrow>
        if len \<le> 0 then (Inr None, ss_close s')
        else case sp_execute (data @ bs) False parser of
            Inl e \<Rightarrow> (Inl e, s')
          | Inr (nparse, rest, parser') \<Rightarrow>
              if sp_hasError parser' then (Inr None, ss_close s')
              else if int (length rest) = c_int (int buff_size) then (Inr None, ss_close s')
              else if sp_isFinished parser' \<noteq> 0 then (Inr (Some (rest, parser')), s')
              else recv_response_head buff_size rest parser' s')"
  by pat_completeness auto
termination by (relation "measure (\<lambda>(n, data, parser, s). length (ss_rplan s))") (auto dest!: ss_read_plan [OF sym])

declare recv_response_head.simps [simp del]

section \<open>Chunks\<close>

text \<open>
  The inner loop, which reads the header of a chunk: every call of the parser starts it afresh, on what the
  call before left. The first round reads only when the buffer is empty.
\<close>

function chunk_head :: "nat \<Rightarrow> bool \<Rightarrow> string \<Rightarrow> response_parser \<Rightarrow> session \<Rightarrow> (fault + (string \<times> response_parser) option) \<times> session" where
  "chunk_head buff_size begin data parser s =
     (case (if \<not> begin \<or> data = [] then ss_read (buff_size - length data) s else ((1, []), s)) of ((rt, bs), s') \<Rightarrow>
        if rt \<le> 0 then (Inr None, ss_close s')
        else case sp_execute (data @ bs) True parser of
            Inl e \<Rightarrow> (Inl e, s')
          | Inr (nparse, rest, parser') \<Rightarrow>
              if sp_hasError parser' then (Inr None, ss_close s')
              else if int (length rest) = c_int (int buff_size) then (Inr None, ss_close s')
              else if sp_isFinished parser' \<noteq> 0 then (Inr (Some (rest, parser')), s')
              else chunk_head buff_size False rest parser' s')"
  by pat_completeness auto
termination
  by (relation "measures [\<lambda>(n, b, data, parser, s). length (ss_rplan s), \<lambda>(n, b, data, parser, s). if b then 1 else 0]")
     (auto dest!: ss_read_plan [OF sym] split: if_splits)

declare chunk_head.simps [simp del]

text \<open>The rest of a chunk that is not in the buffer; nothing when the session was closed.\<close>

function read_left :: "nat \<Rightarrow> int \<Rightarrow> session \<Rightarrow> string option \<times> session" where
  "read_left buff_size left s =
     (if left \<le> 0 then (Some [], s)
      else case ss_read (nat (if left > c_int (int buff_size) then c_int (int buff_size) else left)) s of ((rt, bs), s') \<Rightarrow>
        if rt \<le> 0 then (None, ss_close s')
        else case read_left buff_size (left - rt) s' of (r, s'') \<Rightarrow> (map_option ((@) bs) r, s''))"
  by pat_completeness auto
termination by (relation "measure (\<lambda>(n, left, s). length (ss_rplan s))") (auto dest!: ss_read_plan [OF sym])

declare read_left.simps [simp del]

text \<open>
  The body of a chunk of \<open>n\<close> bytes, behind its header: the new body and what is left in the buffer. A negative
  \<open>n\<close> is an enormous length for \<open>std::string::append\<close>, and so is a body of less than two bytes, made shorter by two.
\<close>

definition chunk_data :: "nat \<Rightarrow> int \<Rightarrow> string \<Rightarrow> string \<Rightarrow> session \<Rightarrow> (fault + (string \<times> string) option) \<times> session" where
  "chunk_data buff_size n body data s =
     (let len = int (length data) in
      if c_int (n + 2) \<le> len then
        if n < 0 then (Inl Logic_Error, s)
        else (Inr (Some (body @ take (nat n) data, drop (nat n + 2) data)), s)
      else case read_left buff_size (c_int (n - len + 2)) s of
          (None, s) \<Rightarrow> (Inr None, s)
        | (Some behind, s) \<Rightarrow> let body = body @ data @ behind in
            if length body < 2 then (Inl Logic_Error, s) else (Inr (Some (take (length body - 2) body, [])), s))"

text \<open>When the header of a chunk was read, fewer bytes are to be read or fewer are in the buffer.\<close>

lemma run_moves: "run act breaks step cs p s st = (cs', q, st') \<Longrightarrow> p < q \<or> cs' = cs \<or> cs' = 0"
proof (cases s)
  case (Cons c t)
  moreover assume "run act breaks step cs p s st = (cs', q, st')"
  ultimately show ?thesis using run_bound [of act breaks step _ "p + 1" t] by (fastforce simp: Let_def split: prod.splits if_splits)
qed simp

lemma client_executes:
  assumes "httpclient_parser_execute b P = Inr (rt, P')"
  shows "\<exists>cs k Q. rs_run b (hc_cs (sp_parser P)) 0 b
      (Inr (P\<lparr>sp_parser := (sp_parser P)\<lparr>hc_nread := 0, hc_mark := 0, hc_field_len := 0, hc_field_start := 0\<rparr>\<rparr>)) = (cs, k, Inr Q)
    \<and> P' = Q\<lparr>sp_parser := (sp_parser Q)\<lparr>hc_cs := cs, hc_nread := hc_nread (sp_parser Q) + k\<rparr>\<rparr>
    \<and> (rt = - 1 \<or> rt = int (hc_nread (sp_parser Q) + k)) \<and> hc_nread (sp_parser Q) + k \<le> length b \<and> length b < 2 ^ 31"
proof -
  let ?q = "P\<lparr>sp_parser := (sp_parser P)\<lparr>hc_nread := 0, hc_mark := 0, hc_field_len := 0, hc_field_start := 0\<rparr>\<rparr>"
  obtain cs k st where run: "rs_run b (hc_cs (sp_parser P)) 0 b (Inr ?q) = (cs, k, st)" by (metis prod.exhaust)
  have len: "length b < 2 ^ 31" using assms unfolding httpclient_parser_execute_def Let_def c_int_nat by (auto split: if_splits)
  obtain Q where Q: "st = Inr Q" using assms run by (cases st) (auto simp: httpclient_parser_execute_def Let_def split: if_splits)
  have "c_int (int x + int y) = int x + int y" if "x + y \<le> length b" for x y using that len c_int_nat [of "x + y"] by simp
  then show ?thesis using assms run len unfolding Q httpclient_parser_execute_def Let_def
    by (intro exI [of _ cs] exI [of _ k] exI [of _ Q]) (auto split: if_splits)
qed

lemma sp_executes:
  assumes "sp_execute data ck p = Inr (n, rest, p')"
  shows "\<exists>rt. httpclient_parser_execute data (if ck then p\<lparr>sp_parser := httpclient_parser_init (sp_parser p)\<rparr> else p) = Inr (rt, p')
    \<and> rest = drop n data \<and> n = nat (rt mod 2 ^ 64) \<and> n \<le> length data"
proof (cases "httpclient_parser_execute data (if ck then p\<lparr>sp_parser := httpclient_parser_init (sp_parser p)\<rparr> else p)")
  case (Inr r)
  obtain rt q where r: "r = (rt, q)" by fastforce
  show ?thesis using assms unfolding sp_execute_def Let_def Inr r bindE_simps prod.case by (auto split: if_splits)
qed (use assms in \<open>simp add: sp_execute_def\<close>)

lemma sp_execute_moves:
  assumes "sp_execute data True p = Inr (n, rest, p')" and "sp_isFinished p' \<noteq> 0" and "\<not> sp_hasError p'"
  shows "length rest < length data"
proof -
  let ?p = "p\<lparr>sp_parser := httpclient_parser_init (sp_parser p)\<rparr>"
  obtain rt where ex: "httpclient_parser_execute data ?p = Inr (rt, p')" and rest: "rest = drop n data" "n = nat (rt mod 2 ^ 64)" "n \<le> length data"
    using sp_executes [OF assms(1)] by auto
  let ?q = "?p\<lparr>sp_parser := (sp_parser ?p)\<lparr>hc_nread := 0, hc_mark := 0, hc_field_len := 0, hc_field_start := 0\<rparr>\<rparr>"
  from client_executes [OF ex] obtain cs k Q where run: "rs_run data (hc_cs (sp_parser ?p)) 0 data (Inr ?q) = (cs, k, Inr Q)"
    and p': "p' = Q\<lparr>sp_parser := (sp_parser Q)\<lparr>hc_cs := cs, hc_nread := hc_nread (sp_parser Q) + k\<rparr>\<rparr>"
    and rt: "rt = - 1 \<or> rt = int (hc_nread (sp_parser Q) + k)" "hc_nread (sp_parser Q) + k \<le> length data" "length data < 2 ^ 31" by blast
  have "hc_cs (sp_parser ?p) = 1" by (simp add: httpclient_parser_init_def httpclient_parser_start_def)
  moreover have "cs = 120"
    using assms(2,3) p' by (auto simp: sp_isFinished_def sp_hasError_def httpclient_parser_finish_def httpclient_parser_is_finished_def
        httpclient_parser_first_final_def split: if_splits)
  ultimately have "0 < k" using run_moves [OF run] by auto
  moreover have "int (hc_nread (sp_parser Q) + k) mod 2 ^ 64 = int (hc_nread (sp_parser Q) + k)" using rt(2,3) by (intro mod_pos_pos_trivial) auto
  ultimately have "n \<noteq> 0" using rt rest(2,3) by auto
  then show ?thesis using rest(1,3) by simp
qed

lemma chunk_head_less:
  assumes "chunk_head n b data p s = (Inr (Some (rest, p')), s')"
  shows "length (ss_rplan s') < length (ss_rplan s) \<or> b \<and> s' = s \<and> length rest < length data"
  using assms
proof (induction n b data p s rule: chunk_head.induct)
  case (1 buff_size b data parser s)
  obtain rt bs s1 where rd: "(if \<not> b \<or> data = [] then ss_read (buff_size - length data) s else ((1, []), s)) = ((rt, bs), s1)" by (metis prod.exhaust)
  have less: "0 < rt \<Longrightarrow> length (ss_rplan s1) < length (ss_rplan s) \<or> s1 = s \<and> bs = [] \<and> b"
    using rd ss_read_plan [of "buff_size - length data" s rt bs s1] by (cases "\<not> b \<or> data = []") auto
  note step = "1.prems" [unfolded chunk_head.simps [of buff_size b data parser s] rd prod.case]
  obtain m r' q where ex: "0 < rt" "sp_execute (data @ bs) True parser = Inr (m, r', q)" "\<not> sp_hasError q"
    using step by (auto split: if_splits sum.splits)
  show ?case
  proof (cases "sp_isFinished q = 0")
    case True
    then have rec: "int (length r') \<noteq> c_int (int buff_size)" "chunk_head buff_size False r' q s1 = (Inr (Some (rest, p')), s')"
      using step ex by (simp_all split: if_splits)
    have "length (ss_rplan s') < length (ss_rplan s1)"
      using "1.IH" [OF rd [symmetric] refl _ ex(2) refl refl ex(3) rec(1) _ rec(2)] ex(1) True by auto
    then show ?thesis using less ex(1) by auto
  next
    case False
    then have "r' = rest" "q = p'" "s1 = s'" using step ex
      by (auto split: if_splits)
    then show ?thesis using less ex sp_execute_moves [OF ex(2) False ex(3)] by auto
  qed
qed

lemma consumed_left: "read_left n left s = (r, s') \<Longrightarrow> consumed s s'"
proof (induction n left s arbitrary: r s' rule: read_left.induct)
  case (1 n left s)
  let ?k = "nat (if left > c_int (int n) then c_int (int n) else left)"
  obtain rt bs s1 where rd: "ss_read ?k s = ((rt, bs), s1)" by (metis prod.exhaust)
  note step = "1.prems" [unfolded read_left.simps [of n left s] rd prod.case] and c = conjunct1 [OF consumed_read [OF rd]]
  show ?case
  proof (cases "0 < left \<and> 0 < rt")
    case True
    then obtain r1 where "read_left n (left - rt) s1 = (r1, s')" using step by (auto split: prod.splits)
    then show ?thesis using "1.IH" [OF _ rd [symmetric] refl] True consumed_trans [OF c] by auto
  next
    case False
    then show ?thesis using step c consumed_refl by (auto split: if_splits intro: consumed_close)
  qed
qed

lemma chunk_data_less:
  assumes "chunk_data n k body data s = (Inr (Some (body', data')), s')"
  shows "length (ss_rplan s') \<le> length (ss_rplan s) \<and> length data' \<le> length data"
proof (cases "c_int (k + 2) \<le> int (length data)")
  case True
  then show ?thesis using assms by (auto simp: chunk_data_def Let_def split: if_splits)
next
  case False
  then obtain r where r: "read_left n (c_int (k - int (length data) + 2)) s = (Some r, s')" "data' = []"
    using assms by (auto simp: chunk_data_def Let_def split: if_splits prod.splits option.splits)
  then show ?thesis using suffix_length_le [of "ss_rplan s'" "ss_rplan s"] consumed_left [OF r(1)] by (simp add: consumed_def)
qed

text \<open>All chunks: the body and the parser in the end.\<close>

function recv_chunks :: "nat \<Rightarrow> string \<Rightarrow> string \<Rightarrow> response_parser \<Rightarrow> session \<Rightarrow> (fault + (string \<times> response_parser) option) \<times> session" where
  "recv_chunks buff_size body data parser s =
     (case chunk_head buff_size True data parser s of
        (Inl e, s') \<Rightarrow> (Inl e, s')
      | (Inr None, s') \<Rightarrow> (Inr None, s')
      | (Inr (Some (rest, parser')), s') \<Rightarrow>
          (case chunk_data buff_size (hc_content_len (sp_parser parser')) body rest s' of
             (Inl e, s'') \<Rightarrow> (Inl e, s'')
           | (Inr None, s'') \<Rightarrow> (Inr None, s'')
           | (Inr (Some (body', data')), s'') \<Rightarrow>
               if hc_chunks_done (sp_parser parser') then (Inr (Some (body', parser')), s'')
               else recv_chunks buff_size body' data' parser' s''))"
  by pat_completeness auto
termination
proof (relation "measures [\<lambda>(n, body, data, parser, s). length (ss_rplan s), \<lambda>(n, body, data, parser, s). length data]")
  fix n :: nat and body data parser s s' and r :: "fault + (string \<times> response_parser) option" and x a rest parser' s'' and q :: "fault + (string \<times> string) option" and y b body' data'
  assume h: "(r, s') = chunk_head n True data parser s" "r = Inr x" "x = Some a" "(rest, parser') = a"
    and d: "(q, s'') = chunk_data n (hc_content_len (sp_parser parser')) body rest s'" "q = Inr y" "y = Some b" "(body', data') = b"
    and "\<not> hc_chunks_done (sp_parser parser')"
  have "chunk_head n True data parser s = (Inr (Some (rest, parser')), s')" using h by simp
  moreover have "chunk_data n (hc_content_len (sp_parser parser')) body rest s' = (Inr (Some (body', data')), s'')" using d by simp
  ultimately show "((n, body', data', parser', s''), n, body, data, parser, s)
      \<in> measures [\<lambda>(n, body, data, parser, s). length (ss_rplan s), \<lambda>(n, body, data, parser, s). length data]"
    using chunk_head_less chunk_data_less by (fastforce simp: le_less)
qed simp

declare recv_chunks.simps [simp del]

section \<open>Whole responses\<close>

text \<open>A body of known length, into a local buffer; the flag says that it is complete.\<close>

definition recv_plain_body :: "(string \<Rightarrow> u64 option) \<Rightarrow> string \<Rightarrow> response_parser \<Rightarrow> session \<Rightarrow> (fault + string option) \<times> session" where
  "recv_plain_body lc data parser s =
     (let len = sint (sp_getContentLength lc parser); offset = int (length data) in
      if 0 < len then
        if 2 ^ 62 \<le> len then (Inl Logic_Error, s)
        else let body = (if offset \<le> len then data else take (nat len) data); left = len - offset in
          if 0 < left then
            (case readFixSize ss_read (nat left) s of ((r, bs), s) \<Rightarrow>
               if r \<le> 0 then (Inr None, ss_close s) else (Inr (Some (body @ bs)), s))
          else (Inr (Some body), s)
      else (Inr (Some []), s))"

text \<open>The code that would store the body in the response is commented out: the body is dropped.\<close>

definition recvResponse :: "(string \<Rightarrow> u64 option) \<Rightarrow> nat \<Rightarrow> (session \<Rightarrow> httpclient_parser) \<Rightarrow> session \<Rightarrow> (fault + http_response option) \<times> session" where
  "recvResponse lc buff_size garbage s =
     (case recv_response_head buff_size [] (HttpResponseParser (garbage s)) s of
        (Inl e, s) \<Rightarrow> (Inl e, s)
      | (Inr None, s) \<Rightarrow> (Inr None, s)
      | (Inr (Some (data, parser)), s) \<Rightarrow>
          if hc_chunked (sp_parser parser) then
            (case recv_chunks buff_size [] data parser s of
               (Inl e, s) \<Rightarrow> (Inl e, s)
             | (Inr None, s) \<Rightarrow> (Inr None, s)
             | (Inr (Some (body, parser)), s) \<Rightarrow> (Inr (Some (sp_data parser)), s))
          else
            (case recv_plain_body lc data parser s of
               (Inl e, s) \<Rightarrow> (Inl e, s)
             | (Inr None, s) \<Rightarrow> (Inr None, s)
             | (Inr (Some body), s) \<Rightarrow> (Inr (Some (sp_data parser)), s)))"

section \<open>Headers of chunks\<close>

lemma jumps_chunk: "class_jumps (filter (in_states [1, 2, 3]) hcl_machine) (\<lambda>x. x) [
    (1, hex_codes, Tr 0),
    (2, hex_codes, St 2),
    (2, [13], Tr 4),
    (3, [10], Tr 7)]"
  by (simp only: hcl_machine_def filter_append) code_simp

lemma chunk_blocks: "follows (filter is_Block hcl_machine) [(0, 2, [CMark]), (4, 3, [Chunk_size]), (7, 120, [CDone])]"
  by (simp only: hcl_machine_def filter_append) code_simp

lemmas chunk_follow = chunk_blocks [simplified follows_def follow_filter list.pred_inject prod.case]
lemmas chunk_steps = class_jumps_step [OF jumps_chunk, folded rs_step_def, simplified chunk_follow follow_St list.pred_inject prod.case]

text \<open>Hexadecimal text and its value.\<close>

definition hex_text :: "string \<Rightarrow> bool" where
  "hex_text h \<longleftrightarrow> h \<noteq> [] \<and> (\<forall>c \<in> set h. schar c \<in> set hex_codes)"

lemma hex_digit:
  assumes "schar c \<in> set hex_codes"
  shows "digit_value c < 16" "\<not> isspace c" "c \<noteq> CHR ''-''" "c \<noteq> CHR ''+''" "tolower c \<noteq> 120"
proof -
  have "schar c = code c" using assms code_range [of c] by (auto simp: schar_def hex_codes_def split: if_splits)
  then have "code c \<in> {48..57} \<union> {65..70} \<union> {97..102}" using assms by (auto simp: hex_codes_def simp del: upto_rec_numeral)
  then show "digit_value c < 16" "\<not> isspace c" "c \<noteq> CHR ''-''" "c \<noteq> CHR ''+''" "tolower c \<noteq> 120"
    by (auto simp: digit_value_def isdigit_def isspace_def tolower_def code_def)
qed

lemma number_value_pos: "0 \<le> number_value 16 s"
proof -
  have "0 \<le> foldl (\<lambda>a c. a * 16 + digit_value c) a s" if "0 \<le> a" for a s
    using that by (induction s arbitrary: a) (auto simp: digit_value_def isdigit_def)
  then show ?thesis unfolding number_value_def by simp
qed

text \<open>The size \<open>strtol\<close> reads, which stops at the largest \<open>long\<close>.\<close>

definition chunk_size :: "string \<Rightarrow> int" where
  "chunk_size h = min (2 ^ 63 - 1) (number_value 16 h)"

lemma chunk_size_id: "number_value 16 h < 2 ^ 63 \<Longrightarrow> chunk_size h = number_value 16 h"
  by (simp add: chunk_size_def)

lemma strtol_hex:
  assumes "hex_text h"
  shows "strtol (h @ CHR 0x0D # rest) 16 = chunk_size h"
proof -
  obtain c t where h: "h = c # t" using assms(1) by (cases h) (auto simp: hex_text_def)
  have d: "\<forall>c \<in> set h. digit_value c < 16" using assms(1) hex_digit by (auto simp: hex_text_def)
  have c: "\<not> isspace c" "c \<noteq> CHR ''-''" "c \<noteq> CHR ''+''" using assms(1) hex_digit(2-4) h by (auto simp: hex_text_def)
  let ?s = "c # t @ CHR 0x0D # rest"
  have "tolower (hd (t @ CHR 0x0D # rest)) \<noteq> 120"
    using assms(1) hex_digit(5) h by (cases t) (auto simp: hex_text_def tolower_def code_def)
  then have x: "(case ?s of z # x # d # _ \<Rightarrow> if z = CHR ''0'' \<and> tolower x = 120 \<and> digit_value d < 16 then drop 2 ?s else ?s | _ \<Rightarrow> ?s) = ?s"
    by (auto split: list.splits)
  have cr: "digit_value (CHR 0x0D) = 99" by code_simp
  have v: "number_value 16 (h @ CHR 0x0D # rest) = number_value 16 h"
    using d cr by (simp add: number_value_def takeWhile_append takeWhile_eq_all_conv [THEN iffD2])
  have "strtol ?s 16 = max (- (2 ^ 63)) (min (2 ^ 63 - 1) (number_value 16 ?s))"
    unfolding strtol_def Let_def by (simp only: dropWhile.simps c if_False if_True list.sel list.distinct x simp_thms insert_iff empty_iff)
  then show ?thesis using v number_value_pos [of h] h by (simp add: chunk_size_def)
qed

lemma run_chunk_head:
  assumes "hex_text h" and b_def: "b = h @ CRLF @ rest" and n_def: "n = c_int (chunk_size h)"
  shows "rs_run b 1 0 b (Inr P) = (120, length h + 2, Inr (P\<lparr>sp_parser := (sp_parser P)\<lparr>hc_mark := 0, hc_chunked := True, hc_content_len := n,
    hc_chunks_done := n \<le> 0, hc_body_start := length h + 2\<rparr>\<rparr>))"
proof -
  obtain c t where h: "h = c # t" using assms(1) by (cases h) (auto simp: hex_text_def)
  have hx: "schar c \<in> set hex_codes" "\<forall>c \<in> set t. schar c \<in> set hex_codes" using assms(1) h by (auto simp: hex_text_def)
  let ?P = "P\<lparr>sp_parser := (sp_parser P)\<lparr>hc_mark := 0\<rparr>\<rparr>"
  have "rs_run b 1 0 b (Inr P) = rs_run b 2 1 (t @ CRLF @ rest) (Inr ?P)"
    using hx(1) h by (simp add: chunk_steps rs_act_def b_def)
  also have "\<dots> = rs_run b 2 (length h) (CRLF @ rest) (Inr ?P)"
    using run_loop [of t rs_step 2 "\<lambda>p a st. bindE st (rs_act b p a)" "\<lambda>a. a = CDone" 1 "CRLF @ rest" "Inr ?P"] hx(2) h chunk_steps by simp
  finally show ?thesis
    using strtol_hex [OF assms(1), of "CHR 0x0A # rest"] by (simp add: chunk_steps rs_act_def Let_def b_def n_def)
qed

lemma head_executes:
  assumes "hex_text h" and "length (h @ CRLF @ rest) < 2 ^ 31"
  shows "\<exists>p'. sp_execute (h @ CRLF @ rest) True p = Inr (length h + 2, rest, p') \<and> sp_isFinished p' = 1 \<and> sp_error p' = sp_error p
    \<and> sp_data p' = sp_data p \<and> hc_content_len (sp_parser p') = c_int (chunk_size h)
    \<and> hc_chunks_done (sp_parser p') = (c_int (chunk_size h) \<le> 0)"
  using assms(1) assms(2) [folded c_int_nat, symmetric] c_int_id [of "2 + int (length h)"] assms(2)
  by (simp add: sp_execute_def Let_def httpclient_parser_execute_def httpclient_parser_init_def httpclient_parser_start_def
      nat_add_distrib run_chunk_head [OF assms(1) refl refl, simplified] sp_isFinished_def httpclient_parser_finish_def httpclient_parser_has_error_def
      httpclient_parser_is_finished_def httpclient_parser_first_final_def)

text \<open>A header in the buffer is read without reading from the socket.\<close>

lemma chunk_head_buffered:
  assumes "hex_text h" and "sp_error p = 0" and "length (h @ CRLF @ rest) < buff" and "buff < 2 ^ 31"
  shows "\<exists>p'. chunk_head buff True (h @ CRLF @ rest) p s = (Inr (Some (rest, p')), s) \<and> sp_error p' = 0
    \<and> hc_content_len (sp_parser p') = c_int (chunk_size h) \<and> hc_chunks_done (sp_parser p') = (c_int (chunk_size h) \<le> 0)"
proof -
  have "length (h @ CRLF @ rest) < 2 ^ 31" using assms(3,4) by linarith
  from head_executes [OF assms(1) this, of p] obtain p' where
    p: "sp_execute (h @ CRLF @ rest) True p = Inr (length h + 2, rest, p')" "sp_isFinished p' = 1" "sp_error p' = 0"
      "hc_content_len (sp_parser p') = c_int (chunk_size h)" "hc_chunks_done (sp_parser p') = (c_int (chunk_size h) \<le> 0)"
    using assms(2) by auto
  have "\<not> sp_hasError p'" using p(2,3) by (auto simp: sp_hasError_def sp_isFinished_def httpclient_parser_finish_def)
  moreover have "int (length rest) \<noteq> c_int (int buff)" using assms(3,4) c_int_id [of "int buff"] by simp
  ultimately show ?thesis using p by (intro exI [of _ p']) (simp add: chunk_head.simps [of buff True])
qed

section \<open>Properties\<close>

text \<open>The text of a body in chunks: the sizes in hexadecimal, with the chunks and their line ends.\<close>

definition chunk_ok :: "string \<times> string \<Rightarrow> bool" where
  "chunk_ok hc = (case hc of (h, c) \<Rightarrow> hex_text h \<and> number_value 16 h = int (length c))"

definition chunk_text :: "string \<times> string \<Rightarrow> string" where
  "chunk_text hc = (case hc of (h, c) \<Rightarrow> h @ CRLF @ c @ CRLF)"

text \<open>
  C32: a body sent in chunks that is in the buffer is decoded: the chunks are concatenated, up to the chunk of
  size zero, without reading from the socket and without an error.
\<close>

theorem chunks_decoded:
  assumes "\<forall>hc \<in> set cs. chunk_ok hc \<and> snd hc \<noteq> []" and "chunk_ok (z, [])" and "sp_error p = 0"
    and "length (concat (map chunk_text cs) @ chunk_text (z, []) @ extra) < buff" and "buff < 2 ^ 31"
  shows "\<exists>p'. recv_chunks buff body (concat (map chunk_text cs) @ chunk_text (z, []) @ extra) p s
    = (Inr (Some (body @ concat (map snd cs), p')), s)"
  using assms(1,3,4)
proof (induction cs arbitrary: body p)
  case Nil
  have data: "concat (map chunk_text []) @ chunk_text (z, []) @ extra = z @ CRLF @ CRLF @ extra" by (simp add: chunk_text_def)
  have z: "hex_text z" "number_value 16 z = 0" using assms(2) by (simp_all add: chunk_ok_def)
  have "length (z @ CRLF @ CRLF @ extra) < buff" using Nil.prems(3) unfolding data .
  from chunk_head_buffered [OF z(1) Nil.prems(2) this assms(5), of s] z(2) obtain p' where
    "chunk_head buff True (z @ CRLF @ CRLF @ extra) p s = (Inr (Some (CRLF @ extra, p')), s)"
    "hc_content_len (sp_parser p') = 0" "hc_chunks_done (sp_parser p')" by (auto simp: c_int_id chunk_size_def)
  then show ?case unfolding data by (subst recv_chunks.simps) (simp add: chunk_data_def Let_def c_int_id)
next
  case (Cons hc cs)
  obtain h c where hc: "hc = (h, c)" by fastforce
  let ?more = "concat (map chunk_text cs) @ chunk_text (z, []) @ extra"
  have data: "concat (map chunk_text (hc # cs)) @ chunk_text (z, []) @ extra = h @ CRLF @ c @ CRLF @ ?more" by (simp add: chunk_text_def hc)
  have h: "hex_text h" "number_value 16 h = int (length c)" "c \<noteq> []" using Cons.prems(1) by (simp_all add: chunk_ok_def hc)
  have len: "length (h @ CRLF @ c @ CRLF @ ?more) < buff" using Cons.prems(3) unfolding data .
  have n: "c_int (int (length c)) = int (length c)" "c_int (int (length c) + 2) = int (length c) + 2"
    using len assms(5) by (simp_all add: c_int_id)
  from chunk_head_buffered [OF h(1) Cons.prems(2) len assms(5), of s] chunk_size_id [of h] h(2) n(1) len assms(5) obtain p' where
    p: "chunk_head buff True (h @ CRLF @ c @ CRLF @ ?more) p s = (Inr (Some (c @ CRLF @ ?more, p')), s)" "sp_error p' = 0"
    "hc_content_len (sp_parser p') = int (length c)" "hc_chunks_done (sp_parser p') = (int (length c) \<le> 0)" by auto
  have "chunk_data buff (int (length c)) body (c @ CRLF @ ?more) s = (Inr (Some (body @ c, ?more)), s)"
    by (simp add: chunk_data_def Let_def n(2))
  moreover have "length ?more < buff" using len by simp
  with Cons.IH [of p' "body @ c"] Cons.prems(1) p(2) obtain q where
    "recv_chunks buff (body @ c) ?more p' s = (Inr (Some ((body @ c) @ concat (map snd cs), q)), s)" by auto
  ultimately show ?case unfolding data using p h(3) by (subst recv_chunks.simps) (simp add: hc)
qed

text \<open>
  C33: the size of a chunk is taken modulo \<open>2 ^ 32\<close>, as an \<open>int\<close>, whatever number of hexadecimal digits denotes it.
  When what results is negative, \<open>std::string::append\<close> takes it for an enormous length and the exception
  \<open>std::length_error\<close> leaves \<open>recvResponse\<close> (only -1 with nothing behind the header reads on). When it is zero the body ends, although the
  chunk is not empty. Otherwise a chunk of that size is taken, here from the buffer, and what follows it for the next header.
\<close>

theorem chunk_size_overflow:
  assumes "hex_text h" and "sp_error p = 0" and "length (h @ CRLF @ rest) < buff" and "buff < 2 ^ 31" and "m = nat (chunk_size h mod 2 ^ 32)"
  shows "if 2 ^ 31 \<le> m then m \<noteq> 2 ^ 32 - 1 \<or> rest \<noteq> [] \<longrightarrow> recv_chunks buff body (h @ CRLF @ rest) p s = (Inl Logic_Error, s)
    else m + 2 \<le> length rest \<longrightarrow> (\<exists>p'. sp_error p' = 0 \<and> recv_chunks buff body (h @ CRLF @ rest) p s
      = (if m = 0 then (Inr (Some (body, p')), s) else recv_chunks buff (body @ take m rest) (drop (m + 2) rest) p' s))"
proof -
  have m: "int m = chunk_size h mod 2 ^ 32" "m < 2 ^ 32" using assms(5) by simp_all
  have "c_int x = (x + 2 ^ 31) mod 2 ^ 32 - 2 ^ 31" for x unfolding c_int_def int_word_sint by simp
  then have n: "c_int (chunk_size h) = c_int (int m)" by (simp add: m(1) mod_add_left_eq)
  from chunk_head_buffered [OF assms(1-4), of s] n obtain p' where
    p': "chunk_head buff True (h @ CRLF @ rest) p s = (Inr (Some (rest, p')), s)" "sp_error p' = 0"
      "hc_content_len (sp_parser p') = c_int (int m)" "hc_chunks_done (sp_parser p') = (c_int (int m) \<le> 0)" by auto
  show ?thesis
  proof (cases "2 ^ 31 \<le> m")
    case True
    let ?n = "int m - 2 ^ 32"
    have "c_int (int m) = ?n" using True m(2) by (intro c_int_high) auto
    moreover have "c_int (?n + 2) = ?n + 2" "?n < 0" using True m(2) by (auto intro: c_int_id)
    moreover have "?n + 2 \<le> int (length rest)" if "m \<noteq> 2 ^ 32 - 1 \<or> rest \<noteq> []"
      using that m(2) by (cases rest) auto
    ultimately have "chunk_data buff (c_int (int m)) body rest s = (Inl Logic_Error, s)" if "m \<noteq> 2 ^ 32 - 1 \<or> rest \<noteq> []"
      using that by (simp add: chunk_data_def Let_def)
    then have "recv_chunks buff body (h @ CRLF @ rest) p s = (Inl Logic_Error, s)" if "m \<noteq> 2 ^ 32 - 1 \<or> rest \<noteq> []"
      using that p'(1,3) by (subst recv_chunks.simps) simp
    then show ?thesis using True by (simp only: if_True) blast
  next
    case False
    then have c: "c_int (int m) = int m" by (simp add: c_int_id)
    show ?thesis
    proof (cases "m + 2 \<le> length rest")
      case fits: True
      have "c_int (int m + 2) = int m + 2" using fits assms(3,4) by (intro c_int_id) auto
      then have "chunk_data buff (int m) body rest s = (Inr (Some (body @ take m rest, drop (m + 2) rest)), s)"
        using fits by (simp add: chunk_data_def Let_def nat_add_distrib)
      then have "recv_chunks buff body (h @ CRLF @ rest) p s
          = (if m = 0 then (Inr (Some (body, p')), s) else recv_chunks buff (body @ take m rest) (drop (m + 2) rest) p' s)"
        using p' c unfolding recv_chunks.simps [of buff body "h @ CRLF @ rest"] by simp
      then show ?thesis using False p'(2) by auto
    qed (use False in simp)
  qed
qed

definition blank_client :: httpclient_parser where
  "blank_client = \<lparr>hc_cs = 0, hc_body_start = 0, hc_content_len = 0, hc_status = 0, hc_chunked = False, hc_chunks_done = False, hc_close = False,
     hc_nread = 0, hc_mark = 0, hc_field_start = 0, hc_field_len = 0\<rparr>"

definition idle_session :: session where
  "idle_session = SocketStream True True [] [] []"

theorem chunks_decoded_witness:
  "\<exists>p'. recv_chunks 4096 [] (''2'' @ CRLF @ ''hi'' @ CRLF @ ''1'' @ CRLF @ ''!'' @ CRLF @ ''0'' @ CRLF @ CRLF)
    (HttpResponseParser blank_client) idle_session = (Inr (Some (''hi!'', p')), idle_session)"
proof -
  have "\<forall>hc \<in> set [(''2'', ''hi''), (''1'', ''!'')]. chunk_ok hc \<and> snd hc \<noteq> []" "chunk_ok (''0'', [])"
    by (simp_all add: chunk_ok_def hex_text_def hex_codes_def schar_def code_def number_value_def digit_value_def isdigit_def)
  from chunks_decoded [OF this, of "HttpResponseParser blank_client" "[]" 4096 "[]" idle_session] show ?thesis
    by (simp add: HttpResponseParser_def chunk_text_def)
qed

theorem chunk_size_overflow_witness:
  "recv_chunks 4096 [] (''80000000'' @ CRLF) (HttpResponseParser blank_client) idle_session = (Inl Logic_Error, idle_session)
    \<and> (\<exists>p'. recv_chunks 4096 [] (''100000000'' @ CRLF @ ''ab'') (HttpResponseParser blank_client) idle_session = (Inr (Some ([], p')), idle_session))"
proof -
  have h: "hex_text ''80000000''" "hex_text ''100000000''"
    and n: "nat (chunk_size ''80000000'' mod 2 ^ 32) = 2 ^ 31" "nat (chunk_size ''100000000'' mod 2 ^ 32) = 0"
    by (simp_all add: hex_text_def hex_codes_def schar_def code_def chunk_size_def number_value_def digit_value_def isdigit_def)
  show ?thesis using chunk_size_overflow [OF h(1), of "HttpResponseParser blank_client" "[]" 4096 _ "[]" idle_session]
      chunk_size_overflow [OF h(2), of "HttpResponseParser blank_client" "''ab''" 4096 _ "[]" idle_session]
    unfolding n by (auto simp: HttpResponseParser_def)
qed

text \<open>
  When the header of a chunk arrives in two reads the digits that came first are forgotten: the parser is
  started afresh for every read, and what it consumed before is gone. The chunk has the size that the
  second part denotes.
\<close>

theorem split_chunk_header:
  assumes "hex_text h1" and "hex_text h2" and "number_value 16 h2 < 2 ^ 31" and "sp_error p = 0"
    and "ss_isConnected s" and "ss_in s = h2 @ CRLF @ rest" and "ss_rplan s = k # ks" and "int (length (ss_in s)) \<le> k"
    and "length h1 < buff" and "length (ss_in s) < buff" and "buff < 2 ^ 31"
  shows "\<exists>p' s'. chunk_head buff True h1 p s = (Inr (Some (rest, p')), s') \<and> ss_in s' = [] \<and> hc_content_len (sp_parser p') = number_value 16 h2"
proof -
  let ?p = "p\<lparr>sp_parser := httpclient_parser_init (sp_parser p)\<rparr>"
  obtain c t where h: "h1 = c # t" "schar c \<in> set hex_codes" "\<forall>c \<in> set t. schar c \<in> set hex_codes"
    using assms(1) by (cases h1) (auto simp: hex_text_def)
  have first: "rs_run h1 1 0 h1 (Inr P) = (2, length h1, Inr (P\<lparr>sp_parser := (sp_parser P)\<lparr>hc_mark := 0\<rparr>\<rparr>))" for P
    using run_loop [of t rs_step 2 "\<lambda>p a st. bindE st (rs_act h1 p a)" "\<lambda>a. a = CDone" 1 "[]"] h chunk_steps by (simp add: rs_act_def)
  have "h1 \<noteq> []" using h(1) by simp
  then obtain q where
    q: "sp_execute h1 True p = Inr (length h1, [], q)" "sp_isFinished q = 0" "sp_error q = 0" "\<not> sp_hasError q"
    using assms(4) assms(9,11) c_int_nat [of "length h1"] by (simp add: sp_execute_def Let_def httpclient_parser_execute_def httpclient_parser_init_def httpclient_parser_start_def first
      sp_isFinished_def sp_hasError_def httpclient_parser_finish_def httpclient_parser_has_error_def httpclient_parser_is_finished_def
      httpclient_parser_first_final_def)
  let ?s = "s\<lparr>ss_rplan := ks, ss_in := []\<rparr>"
  have rd: "ss_read buff s = ((int (length (ss_in s)), ss_in s), ?s)"
  proof -
    have "min (min (nat k) buff) (length (ss_in s)) = length (ss_in s)" "0 < k" using assms(6,8,10) by auto
    then show ?thesis using assms(5,7) by (simp add: ss_read_def sock_recv_def Let_def)
  qed
  have "length (h2 @ CRLF @ rest) < 2 ^ 31" using assms(6,10,11) by simp
  from head_executes [OF assms(2) this, of q] assms(3) q(3) chunk_size_id [of h2] obtain p' where
    p: "sp_execute (h2 @ CRLF @ rest) True q = Inr (length h2 + 2, rest, p')" "sp_isFinished p' = 1" "sp_error p' = 0"
      "hc_content_len (sp_parser p') = c_int (number_value 16 h2)" by auto
  have "\<not> sp_hasError p'" using p(2,3) by (auto simp: sp_hasError_def sp_isFinished_def httpclient_parser_finish_def)
  moreover have "int (length rest) \<noteq> c_int (int buff)" "0 \<noteq> c_int (int buff)" using assms(6,10,11) c_int_id [of "int buff"] by simp_all
  ultimately have "chunk_head buff False [] q s = (Inr (Some (rest, p')), ?s)"
    using p assms(6) by (simp add: chunk_head.simps [of buff False] rd)
  then have "chunk_head buff True h1 p s = (Inr (Some (rest, p')), ?s)"
    using q \<open>h1 \<noteq> []\<close> \<open>0 \<noteq> c_int (int buff)\<close> by (simp add: chunk_head.simps [of buff True])
  moreover have "c_int (number_value 16 h2) = number_value 16 h2" using number_value_pos [of h2] assms(3) by (intro c_int_id) auto
  ultimately show ?thesis using p(4) by simp
qed

theorem split_chunk_header_witness:
  "\<exists>p' s'. chunk_head 4096 True ''1'' (HttpResponseParser blank_client) (SocketStream True True (''0'' @ CRLF @ ''abc'') [6] []) = (Inr (Some (''abc'', p')), s')
    \<and> hc_content_len (sp_parser p') = 0"
proof -
  have h: "hex_text ''1''" "hex_text ''0''" "number_value 16 ''0'' = 0"
    by (simp_all add: hex_text_def hex_codes_def schar_def code_def number_value_def digit_value_def isdigit_def)
  then show ?thesis
    using split_chunk_header [OF h(1,2), of "HttpResponseParser blank_client" "SocketStream True True (''0'' @ CRLF @ ''abc'') [6] []" "''abc''" 6 "[]" 4096]
    by (auto simp: HttpResponseParser_def SocketStream_def ss_isConnected_def)
qed

text \<open>No action of the parser touches the body of the response.\<close>

definition bodyless :: "fault + response_parser \<Rightarrow> bool" where
  "bodyless st = (case st of Inl _ \<Rightarrow> True | Inr P \<Rightarrow> rs_body (sp_data P) = [])"

lemma rs_act_bodyless: "bodyless st \<Longrightarrow> bodyless (bindE st (rs_act b p a))"
  by (cases st; cases a) (auto simp: bodyless_def rs_act_def Let_def bindE_def on_response_http_field_def on_response_reason_def on_response_status_def
      on_response_version_def rs_setHeader_def split: sum.splits option.splits)

lemma run_bodyless: "bodyless st \<Longrightarrow> rs_run b cs p s st = (cs', q, st') \<Longrightarrow> bodyless st'"
proof (induction s arbitrary: cs p st)
  case (Cons c s)
  have "bodyless (fold (\<lambda>a st. bindE st (rs_act b p a)) as st)" for as
    using Cons.prems(1) by (induction as arbitrary: st) (auto intro: rs_act_bodyless)
  with Cons show ?case by (auto simp: Let_def split: prod.splits if_splits)
qed simp

lemma execute_bodyless:
  assumes "sp_execute data ck p = Inr (n, rest, p')" and "rs_body (sp_data p) = []"
  shows "rs_body (sp_data p') = []"
proof -
  obtain rt where ex: "httpclient_parser_execute data (if ck then p\<lparr>sp_parser := httpclient_parser_init (sp_parser p)\<rparr> else p) = Inr (rt, p')"
    using sp_executes [OF assms(1)] by blast
  from client_executes [OF this] obtain c a cs k Q where run: "rs_run data a 0 data (Inr (p\<lparr>sp_parser := c\<rparr>)) = (cs, k, Inr Q)" "sp_data p' = sp_data Q"
    by (cases ck) auto
  from run_bodyless [OF _ run(1)] show ?thesis using assms(2) run(2) by (simp add: bodyless_def)
qed

lemma head_bodyless:
  "recv_response_head n data p s = (Inr (Some (rest, p')), s') \<Longrightarrow> rs_body (sp_data p) = [] \<Longrightarrow> rs_body (sp_data p') = []"
proof (induction n data p s rule: recv_response_head.induct)
  case (1 n data p s)
  obtain len bs s1 where rd: "ss_read (n - length data) s = ((len, bs), s1)" by (metis prod.exhaust)
  note step = "1.prems"(1) [unfolded recv_response_head.simps [of n data p s] rd prod.case]
  show ?case using step "1.IH" [OF rd [symmetric] refl] "1.prems"(2) execute_bodyless
    by (fastforce split: if_splits sum.splits prod.splits)
qed

lemma chunk_head_bodyless:
  "chunk_head n b data p s = (Inr (Some (rest, p')), s') \<Longrightarrow> rs_body (sp_data p) = [] \<Longrightarrow> rs_body (sp_data p') = []"
proof (induction n b data p s rule: chunk_head.induct)
  case (1 n b data p s)
  obtain rt bs s1 where rd: "(if \<not> b \<or> data = [] then ss_read (n - length data) s else ((1, []), s)) = ((rt, bs), s1)" by (metis prod.exhaust)
  note step = "1.prems"(1) [unfolded chunk_head.simps [of n b data p s] rd prod.case]
  show ?case using step "1.IH" [OF rd [symmetric] refl] "1.prems"(2) execute_bodyless
    by (fastforce split: if_splits sum.splits prod.splits)
qed

lemma chunks_bodyless:
  "recv_chunks n body data p s = (Inr (Some (body', p')), s') \<Longrightarrow> rs_body (sp_data p) = [] \<Longrightarrow> rs_body (sp_data p') = []"
proof (induction n body data p s rule: recv_chunks.induct)
  case (1 n body data p s)
  then show ?case by (subst (asm) (2) recv_chunks.simps) (auto split: prod.splits sum.splits option.splits if_splits dest: chunk_head_bodyless)
qed

end
