(* ===== verification/Http_Reply.thy ===== *)
theory Http_Reply
  imports Http_Connection
begin

text \<open>
  Whole responses through the parser: what \<open>HttpResponse::dump\<close> sends is read back by the client. The states of the
  machine that read a header line are grouped into classes, one for the name, one behind the colon, one for
  the value and one behind the carriage return; on the way the machine watches for three names.
\<close>

section \<open>Classes of states\<close>

lemmas rs_goes_step = class_goes_step [where bs = hcl_machine, folded rs_step_def]
lemmas rs_rows_step = class_rows_step [where bs = hcl_machine, folded rs_step_def]

text \<open>The flag says that the name may be \<open>Transfer-Encoding\<close>.\<close>

definition name_states :: "bool \<Rightarrow> int list" where
  "name_states t = 21 # [25..34] @ [101..111] @ (if t then [44..60] else [])"
definition colon_states :: "bool \<Rightarrow> int list" where "colon_states t = [22, 35, 112] @ (if t then [61] else [])"
definition value_states :: "bool \<Rightarrow> int list" where "value_states t = [23, 119] @ [96..100] @ (if t then [81..87] else [])"
definition cr_states :: "bool \<Rightarrow> int list" where "cr_states t = [24, 88] @ (if t then [71] else [])"

definition text_ranges :: "(int \<times> int) list" where "text_ranges = [(- 128, 9), (11, 12), (14, 127)]"
definition first_ranges :: "(int \<times> int) list" where "first_ranges = [(- 128, 8), (14, 31), (33, 127)]"
definition not_t_codes :: "int list" where "not_t_codes = filter (\<lambda>x. x \<noteq> 84 \<and> x \<noteq> 116) token_codes"

lemma goes_start: "class_goes (filter (in_states [20, 43]) hcl_machine) (filter is_Block hcl_machine) [20, 43] (if t then token_codes else not_t_codes) (name_states t)
    [[CStart_field], [Write_connection_close, CStart_field]]"
  unfolding hcl_machine_def filter_append by (cases t) (simp_all only: if_True if_False, code_simp+)

lemma goes_name: "class_goes (filter (in_states (name_states True)) hcl_machine) (filter is_Block hcl_machine) (name_states t) token_codes (name_states t) [[]]"
  unfolding hcl_machine_def filter_append by (cases t) (simp_all only: if_True if_False, code_simp+)

lemma goes_colon: "class_goes (filter (in_states (name_states True)) hcl_machine) (filter is_Block hcl_machine) (name_states t) [58] (colon_states t) [[CWrite_field]]"
  unfolding hcl_machine_def filter_append by (cases t) (simp_all only: if_True if_False, code_simp+)

lemma goes_blank: "class_goes (filter (in_states (colon_states True)) hcl_machine) (filter is_Block hcl_machine) (colon_states t) [32] (colon_states t) [[CStart_value]]"
  unfolding hcl_machine_def filter_append by (cases t) (simp_all only: if_True if_False, code_simp+)

lemma goes_first: "class_rows (filter (in_states (colon_states True)) hcl_machine) (filter is_Block hcl_machine) (colon_states t) first_ranges (value_states t) [[CStart_value]]"
  unfolding hcl_machine_def filter_append by (cases t) (simp_all only: if_True if_False, code_simp+)

lemma goes_value: "class_rows (filter (in_states (value_states True)) hcl_machine) (filter is_Block hcl_machine) (value_states t) text_ranges (value_states t) [[]]"
  unfolding hcl_machine_def filter_append by (cases t) (simp_all only: if_True if_False, code_simp+)

lemma goes_cr: "class_goes (filter (in_states (value_states True)) hcl_machine) (filter is_Block hcl_machine) (value_states t) [13] (cr_states t)
    [[CWrite_value], [Write_content_len, CWrite_value]]"
  unfolding hcl_machine_def filter_append by (cases t) (simp_all only: if_True if_False, code_simp+)

lemma goes_lf: "class_goes (filter (in_states (cr_states True)) hcl_machine) (filter is_Block hcl_machine) (cr_states t) [10] [20, 43]
    (if t then [[], [Trans_chunked]] else [[]])"
  unfolding hcl_machine_def filter_append by (cases t) (simp_all only: if_True if_False, code_simp+)

lemma goes_end: "class_goes (filter (in_states [20, 43]) hcl_machine) (filter is_Block hcl_machine) [20, 43] [13] [3] [[], [Write_connection_close]]"
  unfolding hcl_machine_def filter_append by code_simp

text \<open>The status line and the end of the head.\<close>

definition digit_codes :: "int list" where "digit_codes = [48..57]"
definition reason_codes :: "int list" where "reason_codes = [- 128..9] @ [11, 12] @ [14..127]"

lemma jumps_status: "class_jumps (filter (in_states ([1, 3] @ [8..19] @ [24])) hcl_machine) (\<lambda>x. x) [
    (1, [72], Tr 2), (8, [84], St 9), (9, [84], St 10), (10, [80], St 11), (11, [47], St 12),
    (12, digit_codes, St 13), (13, [46], St 14), (14, digit_codes, St 15), (15, [32], Tr 26),
    (16, digit_codes, Tr 27), (17, digit_codes, St 17), (17, [32], Tr 28),
    (18, reason_codes, Tr 30), (19, reason_codes, St 19), (19, [13], Tr 33), (24, [10], St 20), (3, [10], Tr 7)]"
  by (simp only: hcl_machine_def filter_append) code_simp

lemma status_blocks: "follows (filter is_Block hcl_machine)
    [(2, 8, [CMark]), (26, 16, [CHttp_version]), (27, 17, [CMark]), (28, 18, [Status_code]), (30, 19, [CMark]), (33, 24, [Reason_phrase]), (7, 120, [CDone])]"
  by (simp only: hcl_machine_def filter_append) code_simp

lemmas status_follow = status_blocks [simplified follows_def follow_filter list.pred_inject prod.case]
lemmas status_steps = class_jumps_step [OF jumps_status, folded rs_step_def, simplified status_follow follow_St list.pred_inject prod.case]

section \<open>Header lines\<close>

text \<open>A header line the client reads back; \<open>t\<close> allows names that start like \<open>Transfer-Encoding\<close>.\<close>

definition reply_field :: "bool \<Rightarrow> string \<times> string \<Rightarrow> bool" where
  "reply_field t kv = (case kv of (k, v) \<Rightarrow> k \<noteq> [] \<and> (\<forall>c \<in> set k. schar c \<in> set token_codes) \<and> (t \<or> schar (hd k) \<in> set not_t_codes)
     \<and> v \<noteq> [] \<and> in_ranges first_ranges (schar (hd v)) \<and> (\<forall>c \<in> set (tl v). in_ranges text_ranges (schar c)))"

text \<open>What holds of the parser between header lines, for a buffer of length \<open>len\<close>.\<close>

definition reply_parser :: "nat \<Rightarrow> httpclient_parser \<Rightarrow> httpclient_parser \<Rightarrow> bool" where
  "reply_parser len hc hc' \<longleftrightarrow> hc_nread hc' = hc_nread hc \<and> hc_mark hc' < len \<and> hc_field_start hc' < len \<and> hc_field_len hc' \<le> len"

lemma class_loop:
  assumes "\<forall>n \<in> S. \<forall>c \<in> set s. \<exists>m. rs_step n c = (m, []) \<and> m \<in> S" and "0 \<notin> S" and "n \<in> S"
  shows "\<exists>m \<in> S. rs_run b n p (s @ rest) st = rs_run b m (p + length s) rest st"
  by (rule run_class_loop [OF assms])

lemma state_sets: "0 \<notin> set (name_states t)" "0 \<notin> set (colon_states t)" "0 \<notin> set (value_states t)" "0 \<notin> set (cr_states t)"
  by (auto simp: name_states_def colon_states_def value_states_def cr_states_def)

lemma reply_step:
  "rs_step n c = (m, as) \<Longrightarrow> m \<noteq> 0 \<Longrightarrow> CDone \<notin> set as
   \<Longrightarrow> rs_run b n p (c # rest) st = rs_run b m (p + 1) rest (fold (\<lambda>a st. bindE st (rs_act b p a)) as st)"
  by (rule run_step) (auto simp: list_ex_iff)

lemma reply_acts:
  "rs_act b p CMark P = Inr (P\<lparr>sp_parser := (sp_parser P)\<lparr>hc_mark := p\<rparr>\<rparr>)"
  "rs_act b p CStart_field P = Inr (P\<lparr>sp_parser := (sp_parser P)\<lparr>hc_field_start := p\<rparr>\<rparr>)"
  "rs_act b p CWrite_field P = Inr (P\<lparr>sp_parser := (sp_parser P)\<lparr>hc_field_len := LEN p (hc_field_start (sp_parser P))\<rparr>\<rparr>)"
  "rs_act b p CStart_value P = Inr (P\<lparr>sp_parser := (sp_parser P)\<lparr>hc_mark := p\<rparr>\<rparr>)"
  "rs_act b p Write_connection_close P = Inr (P\<lparr>sp_parser := (sp_parser P)\<lparr>hc_close := True\<rparr>\<rparr>)"
  "rs_act b p Trans_chunked P = Inr (P\<lparr>sp_parser := (sp_parser P)\<lparr>hc_chunked := True\<rparr>\<rparr>)"
  "rs_act b p Write_content_len P =
     Inr (P\<lparr>sp_parser := (sp_parser P)\<lparr>hc_content_len := c_int (strtol (drop (hc_mark (sp_parser P)) b) 10)\<rparr>\<rparr>)"
  by (simp_all add: rs_act_def Let_def)

lemma run_reply_field:
  assumes ok: "reply_field t (k, v)" and n: "n \<in> {20, 43}" and b: "drop p b = field_line (k, v) @ rest" and p: "p \<le> length b" "length b < 2 ^ 31"
  shows "\<exists>m hc. m \<in> {20, 43} \<and> rs_run b n p (field_line (k, v) @ rest) (Inr P)
      = rs_run b m (p + length (field_line (k, v))) rest (Inr (P\<lparr>sp_parser := hc, sp_data := rs_setHeader k v (sp_data P)\<rparr>))
    \<and> reply_parser (length b) (sp_parser P) hc \<and> (t \<or> hc_chunked hc = hc_chunked (sp_parser P))"
proof -
  let ?k = "length k" and ?v = "length v"
  obtain kc kt where k: "k = kc # kt" using ok by (cases k) (auto simp: reply_field_def)
  obtain vc vt where v: "v = vc # vt" using ok by (cases v) (auto simp: reply_field_def)
  have b': "drop p b = k @ '': '' @ v @ CRLF @ rest" using b by (simp add: field_line_def)
  have len: "p + ?k + 2 + ?v + 2 \<le> length b" using arg_cong [OF b', of length] p by simp
  have at: "drop (p + ?k + 2) b = v @ CRLF @ rest"
    using arg_cong [OF b', of "drop (?k + 2)"] by (simp add: add.commute add.left_commute)
  have "schar kc \<in> set (if t then token_codes else not_t_codes)" using ok k by (auto simp: reply_field_def not_t_codes_def)
  from rs_goes_step [OF goes_start _ this, of n] n obtain m1 as1 where
    s1: "rs_step n kc = (m1, as1)" "m1 \<in> set (name_states t)" "as1 \<in> {[CStart_field], [Write_connection_close, CStart_field]}" by auto
  define P1 where "P1 = (if as1 = [CStart_field] then P else P\<lparr>sp_parser := (sp_parser P)\<lparr>hc_close := True\<rparr>\<rparr>)"
  let ?P1 = "P1\<lparr>sp_parser := (sp_parser P1)\<lparr>hc_field_start := p\<rparr>\<rparr>"
  have "m1 \<noteq> 0" using s1(2) state_sets by metis
  then have r1: "rs_run b n p (k @ '': '' @ v @ CRLF @ rest) (Inr P) = rs_run b m1 (p + 1) (kt @ '': '' @ v @ CRLF @ rest) (Inr ?P1)"
    using s1 reply_step [OF s1(1), of b p "kt @ '': '' @ v @ CRLF @ rest" "Inr P"] k by (auto simp: reply_acts P1_def)
  have "\<forall>n \<in> set (name_states t). \<forall>c \<in> set kt. \<exists>m. rs_step n c = (m, []) \<and> m \<in> set (name_states t)"
    using rs_goes_step [OF goes_name, of _ t] ok k by (fastforce simp: reply_field_def)
  from class_loop [OF this state_sets(1) s1(2), of b "p + 1" "'': '' @ v @ CRLF @ rest" "Inr ?P1"] obtain m2 where
    s2: "m2 \<in> set (name_states t)" "rs_run b m1 (p + 1) (kt @ '': '' @ v @ CRLF @ rest) (Inr ?P1) = rs_run b m2 (p + ?k) ('': '' @ v @ CRLF @ rest) (Inr ?P1)"
    using k by auto
  obtain m3 where s3: "rs_step m2 (CHR '':'') = (m3, [CWrite_field])" "m3 \<in> set (colon_states t)"
    using rs_goes_step [OF goes_colon s2(1), of "CHR '':''"] by auto
  obtain m4 where s4: "rs_step m3 (CHR '' '') = (m4, [CStart_value])" "m4 \<in> set (colon_states t)"
    using rs_goes_step [OF goes_blank s3(2), of "CHR '' ''"] by auto
  obtain m5 where s5: "rs_step m4 vc = (m5, [CStart_value])" "m5 \<in> set (value_states t)"
    using rs_rows_step [OF goes_first s4(2), of vc] ok v by (auto simp: reply_field_def)
  have "\<forall>n \<in> set (value_states t). \<forall>c \<in> set vt. \<exists>m. rs_step n c = (m, []) \<and> m \<in> set (value_states t)"
    using rs_rows_step [OF goes_value, of _ t] ok v by (fastforce simp: reply_field_def)
  note vloop = class_loop [OF this state_sets(3) s5(2)]
  have L: "LEN (p + ?k) p = ?k" using len p by (simp add: LEN_le)
  let ?P5 = "P1\<lparr>sp_parser := (sp_parser P1)\<lparr>hc_field_start := p, hc_field_len := ?k, hc_mark := p + ?k + 2\<rparr>\<rparr>"
  have pos: "p + ?k + 3 + length vt = p + ?k + 2 + ?v" using v by simp
  have nz: "m3 \<noteq> 0" "m4 \<noteq> 0" "m5 \<noteq> 0" using s3(2) s4(2) s5(2) state_sets by metis+
  have "rs_run b m2 (p + ?k) ('': '' @ v @ CRLF @ rest) (Inr ?P1) = rs_run b m5 (p + ?k + 3) (vt @ CRLF @ rest) (Inr ?P5)"
    using v by (simp add: s3(1) s4(1) s5(1) nz reply_acts L numeral_3_eq_3)
  also obtain m6 where s6: "m6 \<in> set (value_states t)" "rs_run b m5 (p + ?k + 3) (vt @ CRLF @ rest) (Inr ?P5) = rs_run b m6 (p + ?k + 2 + ?v) (CRLF @ rest) (Inr ?P5)"
    using vloop [of b "p + ?k + 3" "CRLF @ rest" "Inr ?P5", unfolded pos] by blast
  note s6(2)
  finally have r2: "rs_run b m2 (p + ?k) ('': '' @ v @ CRLF @ rest) (Inr ?P1) = rs_run b m6 (p + ?k + 2 + ?v) (CRLF @ rest) (Inr ?P5)" .
  obtain m7 as7 where s7: "rs_step m6 (CHR 0x0D) = (m7, as7)" "m7 \<in> set (cr_states t)" "as7 \<in> {[CWrite_value], [Write_content_len, CWrite_value]}"
    using rs_goes_step [OF goes_cr s6(1), of "CHR 0x0D"] by auto
  obtain m8 as8 where s8: "rs_step m7 (CHR 0x0A) = (m8, as8)" "m8 \<in> {20, 43}" "as8 = [] \<or> t \<and> as8 = [Trans_chunked]"
    using rs_goes_step [OF goes_lf s7(2), of "CHR 0x0A"] by (auto split: if_splits)
  define P7 where "P7 = (if as7 = [CWrite_value] then ?P5
     else ?P5\<lparr>sp_parser := (sp_parser ?P5)\<lparr>hc_content_len := c_int (strtol (drop (p + ?k + 2) b) 10)\<rparr>\<rparr>)"
  have key: "std_string (k @ '': '' @ v @ CRLF @ rest) ?k = Inr k" using len p by (simp add: std_string_def)
  have val: "std_string (v @ CRLF @ rest) (LEN (p + ?k + 2 + ?v) (p + ?k + 2)) = Inr v"
    using std_string_segment [OF at _ p(2)] at len by simp
  have "k \<noteq> []" using k by simp
  have w: "rs_act b (p + ?k + 2 + ?v) CWrite_value P7 = Inr (P7\<lparr>sp_data := rs_setHeader k v (sp_data P)\<rparr>)"
    using key val \<open>k \<noteq> []\<close> at [simplified] by (auto simp: P7_def P1_def rs_act_def Let_def on_response_http_field_def b')
  define P8 where "P8 = (let Q = P7\<lparr>sp_data := rs_setHeader k v (sp_data P)\<rparr> in if as8 = [] then Q else Q\<lparr>sp_parser := (sp_parser Q)\<lparr>hc_chunked := True\<rparr>\<rparr>)"
  have "m7 \<noteq> 0" "m8 \<noteq> 0" using s7(2) s8(2) state_sets by auto
  then have r3: "rs_run b m6 (p + ?k + 2 + ?v) (CRLF @ rest) (Inr ?P5) = rs_run b m8 (p + ?k + 2 + ?v + 2) rest (Inr P8)"
    using s7(3) s8(3) w by (auto simp: s7(1) s8(1) reply_acts P7_def P8_def Let_def)
  have "P8 = P\<lparr>sp_parser := sp_parser P8, sp_data := rs_setHeader k v (sp_data P)\<rparr>"
    by (auto simp: P8_def P7_def P1_def Let_def)
  moreover have "reply_parser (length b) (sp_parser P) (sp_parser P8)" "t \<or> hc_chunked (sp_parser P8) = hc_chunked (sp_parser P)"
    using len s8(3) by (auto simp: P8_def P7_def P1_def Let_def reply_parser_def)
  ultimately show ?thesis using r1 s2(2) r2 r3 s8(2)
    by (intro exI [of _ m8] exI [of _ "sp_parser P8"]) (simp add: field_line_def add.assoc)
qed

definition set_reply_fields :: "(string \<times> string) list \<Rightarrow> http_response \<Rightarrow> http_response" where
  "set_reply_fields hs = fold (\<lambda>(k, v). rs_setHeader k v) hs"

lemma run_reply_fields:
  assumes "\<forall>kv \<in> set hs. reply_field t kv" and "n \<in> {20, 43}" and "drop p b = concat (map field_line hs) @ rest" and "p \<le> length b" and "length b < 2 ^ 31"
    and "reply_parser (length b) hc0 (sp_parser P)"
  shows "\<exists>m hc. m \<in> {20, 43} \<and> rs_run b n p (concat (map field_line hs) @ rest) (Inr P)
      = rs_run b m (p + length (concat (map field_line hs))) rest (Inr (P\<lparr>sp_parser := hc, sp_data := set_reply_fields hs (sp_data P)\<rparr>))
    \<and> reply_parser (length b) hc0 hc \<and> (t \<or> hc_chunked hc = hc_chunked (sp_parser P))"
  using assms(1-4,6)
proof (induction hs arbitrary: n p P)
  case Nil
  then show ?case by (intro exI [of _ n] exI [of _ "sp_parser P"]) (auto simp: set_reply_fields_def)
next
  case (Cons kv hs)
  obtain k v where kv: "kv = (k, v)" by fastforce
  let ?more = "concat (map field_line hs) @ rest" let ?l = "length (field_line (k, v))"
  have b: "drop p b = field_line (k, v) @ ?more" using Cons.prems(3) kv by simp
  have le: "p + ?l \<le> length b" using arg_cong [OF b, of length] Cons.prems(4) by simp
  have "drop (p + ?l) b = ?more" using arg_cong [OF b, of "drop ?l"] by (simp add: add.commute)
  moreover from run_reply_field [OF _ Cons.prems(2) b Cons.prems(4) assms(5), of t P] Cons.prems(1) kv obtain m hc where
    m: "m \<in> {20, 43}" "rs_run b n p (field_line (k, v) @ ?more) (Inr P) = rs_run b m (p + ?l) ?more (Inr (P\<lparr>sp_parser := hc, sp_data := rs_setHeader k v (sp_data P)\<rparr>))"
      "reply_parser (length b) (sp_parser P) hc" "t \<or> hc_chunked hc = hc_chunked (sp_parser P)" by auto
  moreover have "reply_parser (length b) hc0 hc" using m(3) Cons.prems(5) by (simp add: reply_parser_def)
  ultimately obtain m' hc' where "m' \<in> {20, 43}" "rs_run b m (p + ?l) ?more (Inr (P\<lparr>sp_parser := hc, sp_data := rs_setHeader k v (sp_data P)\<rparr>))
      = rs_run b m' (p + ?l + length (concat (map field_line hs))) rest (Inr (P\<lparr>sp_parser := hc', sp_data := set_reply_fields hs (rs_setHeader k v (sp_data P))\<rparr>))"
      "reply_parser (length b) hc0 hc'" "t \<or> hc_chunked hc' = hc_chunked hc"
    using Cons.IH [of m "p + ?l" "P\<lparr>sp_parser := hc, sp_data := rs_setHeader k v (sp_data P)\<rparr>"] Cons.prems(1) le by auto
  then show ?case using m by (intro exI [of _ m'] exI [of _ hc']) (auto simp: kv set_reply_fields_def add.assoc)
qed

section \<open>The status line\<close>

lemma strtol_dec:
  assumes "n < 2 ^ 63" and "rest = [] \<or> 10 \<le> digit_value (hd rest)"
  shows "strtol (dec n @ rest) 10 = int n"
proof -
  have d: "isdigit c" if "c \<in> set (dec n)" for c using dec_digits that .
  obtain c t where c: "dec n = c # t" by (cases "dec n") auto
  have h: "\<not> isspace c" "c \<noteq> CHR ''-''" "c \<noteq> CHR ''+''" using d [of c] c by (auto simp: isdigit_def isspace_def code_def)
  let ?s = "c # t @ rest"
  have x: "(case ?s of z # x # d # _ \<Rightarrow> if (10 :: int) = 16 \<and> z = CHR ''0'' \<and> tolower x = 120 \<and> digit_value d < 16 then drop 2 ?s else ?s | _ \<Rightarrow> ?s) = ?s"
    by (auto split: list.splits)
  have tw: "takeWhile (\<lambda>c. digit_value c < 10) (dec n @ rest) = dec n"
  proof -
    have "takeWhile (\<lambda>c. digit_value c < 10) rest = []" using assms(2) by (cases rest) auto
    moreover have "digit_value c < 10" if "c \<in> set (dec n)" for c using d [OF that] by (auto simp: digit_value_def isdigit_def)
    ultimately show ?thesis by (simp add: takeWhile_append takeWhile_eq_all_conv [THEN iffD2])
  qed
  have "foldl (\<lambda>a c. a * 10 + digit_value c) a s = foldl (\<lambda>a c. a * 10 + (code c - 48)) a s" if "\<forall>c \<in> set s. isdigit c" for a s
    using that by (induction s arbitrary: a) (auto simp: digit_value_def)
  then have "number_value 10 (dec n @ rest) = int n" using d foldl_dec [of n] unfolding number_value_def tw by simp
  moreover have "strtol ?s 10 = max (- (2 ^ 63)) (min (2 ^ 63 - 1) (number_value 10 ?s))"
    unfolding strtol_def Let_def
    by (simp only: dropWhile.simps h if_False if_True list.sel list.distinct simp_thms insert_iff empty_iff x)
  ultimately show ?thesis using assms c by simp
qed

lemma digit_value_blank: "digit_value (CHR '' '') = 99" by code_simp

lemma run_status:
  assumes "d = CHR ''0'' \<and> v = 0x10 \<or> d = CHR ''1'' \<and> v = 0x11" and "st < 2 ^ 31" and "reason \<noteq> []" and "\<forall>c \<in> set reason. schar c \<in> set reason_codes"
    and b: "b = ''HTTP/1.'' @ d # '' '' @ dec st @ '' '' @ reason @ CRLF @ rest" and "length b < 2 ^ 31"
  shows "\<exists>hc. rs_run b 1 0 b (Inr P) = rs_run b 20 (length b - length rest) rest (Inr (P\<lparr>sp_parser := hc,
      sp_data := (sp_data P)\<lparr>rs_version := v, rs_status := int st, rs_reason := reason\<rparr>\<rparr>))
    \<and> hc_nread hc = hc_nread (sp_parser P) \<and> hc_field_start hc = hc_field_start (sp_parser P) \<and> hc_field_len hc = hc_field_len (sp_parser P)
    \<and> hc_mark hc < length b \<and> hc_chunked hc = hc_chunked (sp_parser P)"
proof -
  obtain c t where c: "dec st = c # t" by (cases "dec st") auto
  obtain rc rt where r: "reason = rc # rt" using assms(3) by (cases reason) auto
  have dig: "schar c \<in> set digit_codes" if "isdigit c" for c
    using that code_range [of c] by (auto simp: schar_def isdigit_def digit_codes_def simp del: upto_rec_numeral)
  have ct: "schar c \<in> set digit_codes" "\<forall>c \<in> set t. schar c \<in> set digit_codes" using dec_digits [of _ st] dig c by auto
  have dd: "schar d \<in> set digit_codes" "(49 :: int) \<in> set digit_codes" using assms(1) by (auto simp: digit_codes_def)
  let ?l = "length (dec st)" let ?q = "10 + length (dec st)"
  let ?tail = "CHR '' '' # reason @ CRLF @ rest"
  let ?P1 = "P\<lparr>sp_data := (sp_data P)\<lparr>rs_version := v\<rparr>, sp_parser := (sp_parser P)\<lparr>hc_mark := 9\<rparr>\<rparr>"
  let ?P2 = "?P1\<lparr>sp_data := (sp_data ?P1)\<lparr>rs_status := int st\<rparr>, sp_parser := (sp_parser ?P1)\<lparr>hc_status := int st, hc_mark := ?q\<rparr>\<rparr>"
  let ?P3 = "?P2\<lparr>sp_data := (sp_data ?P2)\<lparr>rs_reason := reason\<rparr>\<rparr>"
  have first: "schar rc \<in> set reason_codes" using assms(4) r by simp
  have at9: "drop 9 b = dec st @ ?tail" using b by (simp add: numeral_eq_Suc)
  have atq: "drop ?q b = reason @ CRLF @ rest" using arg_cong [OF at9, of "drop (1 + ?l)"] by (simp add: add.commute)
  have st: "strtol (dec st @ ?tail) 10 = int st" "c_int (int st) = int st" using strtol_dec [of st ?tail] digit_value_blank assms(2) by (simp_all add: c_int_id)
  have val: "std_string (reason @ CRLF @ rest) (LEN (?q + length reason) ?q) = Inr reason"
    using std_string_segment [OF atq _ assms(6)] atq b by simp
  have ver: "parse_version b 8 = Some v" using assms(1) b by (auto simp: parse_version_def strncmp_eq c_str_def numeral_eq_Suc)
  have L8: "LEN 8 0 = 8" by (simp add: LEN_le)
  have "rs_run b 1 0 b (Inr P) = rs_run b 17 10 (t @ ?tail) (Inr ?P1)"
    unfolding arg_cong2 [OF b refl, of "\<lambda>x y. rs_run b 1 0 x (Inr P) = y"]
    using ct(1) dd c ver L8 by (simp add: status_steps rs_act_def Let_def on_response_version_def numeral_eq_Suc)
  also have "\<dots> = rs_run b 17 (9 + ?l) ?tail (Inr ?P1)"
    using run_loop [of t rs_step 17 "\<lambda>p a st. bindE st (rs_act b p a)" "\<lambda>a. a = CDone" 10 ?tail "Inr ?P1"] ct(2) c status_steps by simp
  also have "\<dots> = rs_run b 19 (?q + 1) (rt @ CRLF @ rest) (Inr ?P2)"
    using r first st at9 by (simp add: status_steps rs_act_def Let_def on_response_status_def)
  also have "\<dots> = rs_run b 19 (?q + length reason) (CRLF @ rest) (Inr ?P2)"
    using run_loop [of rt rs_step 19 "\<lambda>p a st. bindE st (rs_act b p a)" "\<lambda>a. a = CDone" "?q + 1" "CRLF @ rest" "Inr ?P2"] assms(4) r status_steps by (simp add: add.assoc)
  also have "\<dots> = rs_run b 20 (?q + length reason + 2) rest (Inr ?P3)"
    using val atq by (simp add: status_steps rs_act_def Let_def on_response_reason_def)
  also have "?q + length reason + 2 = length b - length rest" using b by simp
  finally show ?thesis using b by (intro exI [of _ "sp_parser ?P3"]) simp
qed

section \<open>A whole response\<close>

definition reply_head :: "char \<Rightarrow> nat \<Rightarrow> string \<Rightarrow> (string \<times> string) list \<Rightarrow> string" where
  "reply_head d st reason hs = ''HTTP/1.'' @ d # '' '' @ dec st @ '' '' @ reason @ CRLF @ concat (map field_line hs) @ CRLF"

lemma parse_reply:
  assumes d: "d = CHR ''0'' \<and> v = 0x10 \<or> d = CHR ''1'' \<and> v = 0x11" and st: "st < 2 ^ 31" and reason: "reason \<noteq> []" "\<forall>c \<in> set reason. schar c \<in> set reason_codes"
    and hs: "\<forall>kv \<in> set hs. reply_field t kv" and len: "length (reply_head d st reason hs @ body) < 2 ^ 31"
  shows "\<exists>P. sp_execute (reply_head d st reason hs @ body) False (HttpResponseParser g) = Inr (length (reply_head d st reason hs), body, P)
    \<and> sp_isFinished P = 1 \<and> \<not> sp_hasError P \<and> (t \<or> \<not> hc_chunked (sp_parser P))
    \<and> sp_data P = set_reply_fields hs ((HttpResponse 0x11 True)\<lparr>rs_version := v, rs_status := int st, rs_reason := reason\<rparr>)"
proof -
  let ?b = "reply_head d st reason hs @ body" let ?P = "HttpResponseParser g" let ?n = "length (reply_head d st reason hs)"
  let ?Q = "?P\<lparr>sp_parser := (sp_parser ?P)\<lparr>hc_nread := 0, hc_mark := 0, hc_field_len := 0, hc_field_start := 0\<rparr>\<rparr>"
  let ?rest = "concat (map field_line hs) @ CRLF @ body"
  let ?D = "(HttpResponse 0x11 True)\<lparr>rs_version := v, rs_status := int st, rs_reason := reason\<rparr>"
  have b: "?b = ''HTTP/1.'' @ d # '' '' @ dec st @ '' '' @ reason @ CRLF @ ?rest" by (simp add: reply_head_def)
  have Q: "hc_cs (sp_parser ?Q) = 1" "hc_nread (sp_parser ?Q) = 0" "\<not> hc_chunked (sp_parser ?Q)" "sp_data ?Q = HttpResponse 0x11 True" "sp_error ?Q = 0"
    by (simp_all add: HttpResponseParser_def httpclient_parser_init_def httpclient_parser_start_def)
  from run_status [OF d st reason b len, of ?Q] obtain hc1 where
    r1: "rs_run ?b 1 0 ?b (Inr ?Q) = rs_run ?b 20 (length ?b - length ?rest) ?rest (Inr (?Q\<lparr>sp_parser := hc1, sp_data := ?D\<rparr>))"
    and hc1: "hc_nread hc1 = 0" "hc_field_start hc1 = 0" "hc_field_len hc1 = 0" "hc_mark hc1 < length ?b" "\<not> hc_chunked hc1"
    using Q by auto
  let ?p = "length ?b - length ?rest"
  have suffix: "drop (length (x @ y) - length y) (x @ y) = y" for x y :: string by simp
  have "?b = (''HTTP/1.'' @ d # '' '' @ dec st @ '' '' @ reason @ CRLF) @ ?rest" by (simp add: reply_head_def)
  then have at: "drop ?p ?b = ?rest" using suffix by metis
  define P1 where "P1 = ?Q\<lparr>sp_parser := hc1, sp_data := ?D\<rparr>"
  have P1: "sp_data P1 = ?D" "sp_parser P1 = hc1" "sp_error P1 = 0" using Q(5) by (simp_all add: P1_def)
  have inv: "reply_parser (length ?b) hc1 (sp_parser P1)"
    using hc1 by (auto simp: reply_parser_def reply_head_def P1)
  have "20 \<in> {20, 43 :: int}" "?p \<le> length ?b" by simp_all
  from run_reply_fields [OF hs this(1) at this(2) len inv, unfolded P1] obtain m hc2 where
    r2: "m \<in> {20, 43}" "rs_run ?b 20 ?p ?rest (Inr P1)
      = rs_run ?b m (?p + length (concat (map field_line hs))) (CRLF @ body) (Inr (P1\<lparr>sp_parser := hc2, sp_data := set_reply_fields hs ?D\<rparr>))"
    and hc2: "reply_parser (length ?b) hc1 hc2" "t \<or> hc_chunked hc2 = hc_chunked hc1"
    by blast
  have pos: "?p + length (concat (map field_line hs)) = ?n - 2" by (simp add: reply_head_def)
  obtain as where e: "rs_step m (CHR 0x0D) = (3, as)" "as = [] \<or> as = [Write_connection_close]"
    using rs_goes_step [OF goes_end, of m "CHR 0x0D"] r2(1) by auto
  have n: "2 \<le> ?n" by (simp add: reply_head_def)
  obtain hc3 where hc3: "rs_run ?b m (?n - 2) (CRLF @ body) (Inr (P1\<lparr>sp_parser := hc2, sp_data := set_reply_fields hs ?D\<rparr>))
      = (120, ?n, Inr (P1\<lparr>sp_parser := hc3, sp_data := set_reply_fields hs ?D\<rparr>))"
    "reply_parser (length ?b) hc1 hc3" "hc_body_start hc3 = ?n" "hc_chunked hc3 = hc_chunked hc2"
  proof
    let ?hc = "(if as = [] then hc2 else hc2\<lparr>hc_close := True\<rparr>)\<lparr>hc_body_start := ?n\<rparr>"
    show "rs_run ?b m (?n - 2) (CRLF @ body) (Inr (P1\<lparr>sp_parser := hc2, sp_data := set_reply_fields hs ?D\<rparr>))
      = (120, ?n, Inr (P1\<lparr>sp_parser := ?hc, sp_data := set_reply_fields hs ?D\<rparr>))"
      using e n by (auto simp: status_steps rs_act_def Let_def)
    show "reply_parser (length ?b) hc1 ?hc" "hc_body_start ?hc = ?n" "hc_chunked ?hc = hc_chunked hc2"
      using hc2(1) by (auto simp: reply_parser_def)
  qed
  have run: "rs_run ?b 1 0 ?b (Inr ?Q) = (120, ?n, Inr (P1\<lparr>sp_parser := hc3, sp_data := set_reply_fields hs ?D\<rparr>))"
    using r1 r2(2) hc3(1) unfolding pos P1_def by simp
  define P where "P = P1\<lparr>sp_parser := hc3\<lparr>hc_cs := 120, hc_nread := ?n\<rparr>, sp_data := set_reply_fields hs ?D\<rparr>"
  have small: "?n < 2 ^ 31" using len by simp
  have "httpclient_parser_execute ?b ?P = Inr (c_int (int ?n), P)"
    using run Q(1) hc3(2,3) hc1(1) len unfolding httpclient_parser_execute_def Let_def c_int_nat by (simp add: reply_parser_def P_def)
  moreover have "c_int (int ?n) = int ?n" "nat (int ?n mod 2 ^ 64) = ?n" "\<not> ?n > length ?b"
    using small c_int_nat [of ?n] by (simp_all add: mod_pos_pos_trivial)
  ultimately have "sp_execute ?b False ?P = Inr (?n, body, P)" unfolding sp_execute_def by (simp del: of_nat_add)
  then show ?thesis using hc2(2) hc3(4) hc1(5) P1(3)
    by (intro exI [of _ P]) (simp add: P_def sp_isFinished_def sp_hasError_def httpclient_parser_finish_def httpclient_parser_has_error_def
        httpclient_parser_is_finished_def httpclient_parser_first_final_def)
qed

section \<open>Responses on the wire\<close>

text \<open>The reason and the header lines \<open>rs_dump\<close> sends.\<close>

definition sent_reason :: "http_response \<Rightarrow> string" where
  "sent_reason r = (if rs_reason r = [] then HttpStatusToString (rs_status r) else rs_reason r)"

definition reply_fields :: "http_response \<Rightarrow> (string \<times> string) list" where
  "reply_fields r = filter (\<lambda>(k, v). rs_websocket r \<or> fold_case k \<noteq> fold_case ''connection'') (rs_headers r)
     @ map (\<lambda>c. (''Set-Cookie'', c)) (rs_cookies r)
     @ (if rs_websocket r then [] else [(''connection'', if rs_close r then ''close'' else ''keep-alive'')])
     @ (if rs_body r = [] then [] else [(''content-length'', dec (length (rs_body r)))])"

text \<open>What a client can read back.\<close>

definition reply_ok :: "bool \<Rightarrow> http_response \<Rightarrow> bool" where
  "reply_ok t r \<longleftrightarrow> 0 \<le> rs_status r \<and> rs_status r < 2 ^ 31 \<and> (rs_version r = 0x10 \<or> rs_version r = 0x11)
     \<and> (\<forall>c \<in> set (rs_reason r). schar c \<in> set reason_codes) \<and> hdr_ok (rs_headers r)
     \<and> (\<forall>kv \<in> set (rs_headers r). reply_field t kv) \<and> (\<forall>c \<in> set (rs_cookies r). reply_field t (''Set-Cookie'', c))"

lemma reason_ranges: "x \<in> set reason_codes \<longleftrightarrow> in_ranges text_ranges x"
  by (auto simp: reason_codes_def in_ranges_def text_ranges_def simp del: upto_rec_numeral)

lemma status_texts: "list_all (\<lambda>e. snd e \<noteq> [] \<and> list_all (\<lambda>c. in_ranges text_ranges (schar c)) (snd e)) HTTP_STATUS_MAP"
  by code_simp

lemma sent_reason_ok:
  assumes "reply_ok t r"
  shows "sent_reason r \<noteq> [] \<and> (\<forall>c \<in> set (sent_reason r). schar c \<in> set reason_codes)"
proof -
  have "list_all (\<lambda>c. in_ranges text_ranges (schar c)) ''<unknown>''" by code_simp
  moreover have "x \<noteq> [] \<and> (\<forall>c \<in> set x. in_ranges text_ranges (schar c))" if "map_of HTTP_STATUS_MAP st = Some x" for st x
    using status_texts map_of_SomeD [OF that] by (fastforce simp: list_all_iff)
  ultimately have "HttpStatusToString st \<noteq> [] \<and> (\<forall>c \<in> set (HttpStatusToString st). in_ranges text_ranges (schar c))" for st
    unfolding HttpStatusToString_def by (cases "map_of HTTP_STATUS_MAP st") auto
  then show ?thesis using assms by (auto simp: sent_reason_def reply_ok_def reason_ranges)
qed

lemma reply_field_dec: "reply_field t (''content-length'', dec n)"
proof -
  have d: "code c \<in> {48..57} \<and> schar c = code c" if "c \<in> set (dec n)" for c using dec_digits [OF that] by (auto simp: isdigit_def schar_def)
  have k: "list_all (\<lambda>c. schar c \<in> set token_codes) ''content-length''" "schar (hd ''content-length'') \<in> set not_t_codes" by code_simp+
  have v: "in_ranges first_ranges (schar c)" "in_ranges text_ranges (schar c)" if "c \<in> set (dec n)" for c
    using d [OF that] by (auto simp: in_ranges_def first_ranges_def text_ranges_def)
  have "in_ranges first_ranges (schar (hd (dec n)))" by (rule v(1)) simp
  moreover have "in_ranges text_ranges (schar c)" if "c \<in> set (tl (dec n))" for c by (rule v(2)) (rule list.set_sel(2) [OF dec_not_Nil that])
  ultimately show ?thesis using k by (simp add: reply_field_def list_all_iff)
qed

lemma reply_field_connection: "reply_field t (''connection'', if b then ''close'' else ''keep-alive'')"
  by (cases t; cases b; simp only: if_True if_False; code_simp)

lemma reply_fields_ok: "reply_ok t r \<Longrightarrow> \<forall>kv \<in> set (reply_fields r). reply_field t kv"
  using reply_field_dec reply_field_connection by (auto simp: reply_fields_def reply_ok_def)

lemma rs_dump_head:
  assumes "reply_ok t r" and "rs_version r = 0x10 \<and> d = CHR ''0'' \<or> rs_version r = 0x11 \<and> d = CHR ''1''"
  shows "rs_dump r = reply_head d (nat (rs_status r)) (sent_reason r) (reply_fields r) @ rs_body r"
proof -
  have v: "version_text (rs_version r) = ''HTTP/1.'' @ [d]"
  proof -
    have one: "dec n = [digit n]" if "n < 10" for n using that by (subst dec.simps) simp
    have "digit 0 = CHR ''0''" "digit 1 = CHR ''1''" by code_simp+
    then show ?thesis using assms(2) by (auto simp: version_text_def one)
  qed
  have h: "dump_headers w hs = concat (map field_line (filter (\<lambda>(k, v). w \<or> fold_case k \<noteq> fold_case ''connection'') hs))" for w hs
    by (induction hs) (auto simp: dump_headers_def field_line_def strcasecmp_order)
  have st: "nat (rs_status r mod 2 ^ 32) = nat (rs_status r)" using assms(1) by (simp add: reply_ok_def)
  have c: "concat (map (\<lambda>c. ''Set-Cookie: '' @ c @ CRLF) cs) = concat (map field_line (map (\<lambda>c. (''Set-Cookie'', c)) cs))" for cs
    by (induction cs) (auto simp: field_line_def)
  have "(if \<not> rs_websocket r then connection_line (rs_close r) else [])
      = concat (map field_line (if rs_websocket r then [] else [(''connection'', if rs_close r then ''close'' else ''keep-alive'')]))"
    by (simp add: field_line_def connection_line_def)
  moreover have "dump_body (rs_body r) = concat (map field_line (if rs_body r = [] then [] else [(''content-length'', dec (length (rs_body r)))])) @ CRLF @ rs_body r"
    by (simp add: field_line_def dump_body_def)
  ultimately show ?thesis unfolding rs_dump_def v h c st reply_head_def reply_fields_def sent_reason_def
    by (simp only: append_assoc append.simps map_append concat_append)
qed

text \<open>Setting the headers one after the other: the last value of a name counts.\<close>

lemma set_reply_fields_simps:
  "rs_status (set_reply_fields hs r) = rs_status r" "rs_version (set_reply_fields hs r) = rs_version r"
  "rs_reason (set_reply_fields hs r) = rs_reason r" "rs_body (set_reply_fields hs r) = rs_body r"
  "rs_cookies (set_reply_fields hs r) = rs_cookies r"
  by (induction hs arbitrary: r) (auto simp: set_reply_fields_def rs_setHeader_def)

lemma set_reply_fields_abs:
  assumes "hdr_ok (rs_headers r)"
  shows "hdr_ok (rs_headers (set_reply_fields hs r)) \<and> hdr_abs (rs_headers (set_reply_fields hs r)) =
    hdr_abs (rs_headers r) ++ map_of (rev (map (\<lambda>(k, v). (fold_case k, v)) hs))"
  using assms
proof (induction hs arbitrary: r)
  case (Cons kv hs)
  obtain k v where kv: "kv = (k, v)" by fastforce
  have "hdr_ok (rs_headers (rs_setHeader k v r))" using Cons.prems by (simp add: rs_setHeader_def hdr_ok_ops)
  from Cons.IH [OF this] show ?case using kv hdr_abs_assign [OF Cons.prems, of k v]
    by (auto simp: set_reply_fields_def rs_setHeader_def map_add_def fun_eq_iff split: option.splits)
qed (simp add: set_reply_fields_def)

lemma reply_names: "distinct [fold_case ''connection'', fold_case ''content-length'', fold_case ''Set-Cookie'']"
  by code_simp

lemma map_of_cookies:
  "map_of (rev (map (\<lambda>(k, v). (fold_case k, v)) (map (\<lambda>c. (k, c)) cs))) n = (if n = fold_case k \<and> cs \<noteq> [] then Some (last cs) else None)"
  by (induction cs rule: rev_induct) auto

lemma map_of_reply_fields:
  assumes "hdr_ok (rs_headers r)"
  shows "map_of (rev (map (\<lambda>(k, v). (fold_case k, v)) (reply_fields r))) n =
    (if n = fold_case ''content-length'' \<and> rs_body r \<noteq> [] then Some (dec (length (rs_body r)))
     else if n = fold_case ''connection'' \<and> \<not> rs_websocket r then Some (if rs_close r then ''close'' else ''keep-alive'')
     else if n = fold_case ''Set-Cookie'' \<and> rs_cookies r \<noteq> [] then Some (last (rs_cookies r))
     else hdr_abs (rs_headers r) n)"
proof -
  let ?f = "\<lambda>(k, v :: string). (fold_case k, v)" let ?h = "rs_headers r"
  let ?P = "\<lambda>(k, v :: string). rs_websocket r \<or> fold_case k \<noteq> fold_case ''connection''"
  have d: "distinct (map fst (map ?f ?h))" using assms hdr_distinct by simp
  have "distinct (map fst (map ?f (filter ?P ?h)))" using d unfolding map_map by (rule distinct_map_filter)
  then have a: "map_of (rev (map ?f (filter ?P ?h))) n = map_of (map ?f (filter ?P ?h)) n" by (simp only: map_of_rev_distinct)
  have "map_of (map ?f (filter ?P hs)) n = (if n = fold_case ''connection'' \<and> \<not> rs_websocket r then None else map_of (map ?f hs) n)" for hs
    by (induction hs) auto
  from this [of ?h] a have h: "map_of (rev (map ?f (filter ?P ?h))) n = (if n = fold_case ''connection'' \<and> \<not> rs_websocket r then None else hdr_abs ?h n)"
    by (simp only: hdr_abs_def)
  show ?thesis
    unfolding reply_fields_def map_append rev_append map_of_append map_add_def map_of_cookies h
    using reply_names by (cases "rs_cookies r = []"; cases "rs_body r = []"; cases "rs_websocket r") auto
qed

text \<open>The text of a response up to its body, and what reading it leaves behind: \<open>D\<close> is the parsed response.\<close>

definition rs_head :: "http_response \<Rightarrow> string" where
  "rs_head r = take (length (rs_dump r) - length (rs_body r)) (rs_dump r)"

definition reply_data :: "http_response \<Rightarrow> http_response \<Rightarrow> bool" where
  "reply_data r D \<longleftrightarrow> rs_version D = rs_version r \<and> rs_status D = rs_status r \<and> rs_reason D = sent_reason r \<and> rs_cookies D = []
     \<and> rs_body D = [] \<and> hdr_ok (rs_headers D) \<and> hdr_abs (rs_headers D) = map_of (rev (map (\<lambda>(k, v). (fold_case k, v)) (reply_fields r)))"

lemma reply_parsed:
  assumes "reply_ok t r"
  shows "rs_dump r = rs_head r @ rs_body r" "rs_head r \<noteq> []"
    and "length (rs_head r @ rest) < 2 ^ 31 \<Longrightarrow> \<exists>P. sp_execute (rs_head r @ rest) False (HttpResponseParser g) = Inr (length (rs_head r), rest, P)
      \<and> sp_isFinished P = 1 \<and> \<not> sp_hasError P \<and> (t \<or> \<not> hc_chunked (sp_parser P)) \<and> reply_data r (sp_data P)"
proof -
  obtain d where d: "rs_version r = 0x10 \<and> d = CHR ''0'' \<or> rs_version r = 0x11 \<and> d = CHR ''1''" using assms by (auto simp: reply_ok_def)
  note dump = rs_dump_head [OF assms d]
  let ?h = "reply_head d (nat (rs_status r)) (sent_reason r) (reply_fields r)"
  let ?D = "(HttpResponse 0x11 True)\<lparr>rs_version := rs_version r, rs_status := rs_status r, rs_reason := sent_reason r\<rparr>"
  have h: "rs_head r = ?h" by (simp add: rs_head_def dump)
  show "rs_dump r = rs_head r @ rs_body r" by (simp add: h dump)
  show "rs_head r \<noteq> []" by (simp add: h reply_head_def)
  have st: "nat (rs_status r) < 2 ^ 31" "int (nat (rs_status r)) = rs_status r" using assms by (auto simp: reply_ok_def)
  have d': "d = CHR ''0'' \<and> rs_version r = 0x10 \<or> d = CHR ''1'' \<and> rs_version r = 0x11" using d by blast
  have D: "reply_data r (set_reply_fields (reply_fields r) ?D)"
    using set_reply_fields_abs [of ?D "reply_fields r"]
    by (simp add: reply_data_def set_reply_fields_simps HttpResponse_def hdr_ok_ops hdr_abs_def)
  show "\<exists>P. sp_execute (rs_head r @ rest) False (HttpResponseParser g) = Inr (length (rs_head r), rest, P)
      \<and> sp_isFinished P = 1 \<and> \<not> sp_hasError P \<and> (t \<or> \<not> hc_chunked (sp_parser P)) \<and> reply_data r (sp_data P)"
    if "length (rs_head r @ rest) < 2 ^ 31"
    using parse_reply [OF d' st(1) _ _ reply_fields_ok [OF assms] that [unfolded h], of g] sent_reason_ok [OF assms] st(2) D
    by (fastforce simp: h)
qed

lemma reply_header:
  assumes "hdr_ok (rs_headers r)" and "reply_data r D"
  shows "rs_getHeader k x D =
        (if fold_case k = fold_case ''content-length'' \<and> rs_body r \<noteq> [] then dec (length (rs_body r))
         else if fold_case k = fold_case ''connection'' \<and> \<not> rs_websocket r then if rs_close r then ''close'' else ''keep-alive''
         else if fold_case k = fold_case ''Set-Cookie'' \<and> rs_cookies r \<noteq> [] then last (rs_cookies r)
         else rs_getHeader k x r)"
proof -
  have h: "hdr_ok (rs_headers D)" "hdr_abs (rs_headers D) = map_of (rev (map (\<lambda>(k, v). (fold_case k, v)) (reply_fields r)))"
    using assms(2) by (auto simp: reply_data_def)
  show ?thesis
    unfolding rs_getHeader_def mt_get_abs [OF h(1)] mt_get_abs [OF assms(1)] h(2) map_of_reply_fields [OF assms(1)]
    by (simp only: if_distrib [of "\<lambda>y. case y of None \<Rightarrow> x | Some v \<Rightarrow> v"] option.case)
qed

text \<open>
  C25: what \<open>HttpResponse::dump\<close> sends is what the response parser reads. For a response whose parts are legal
  text, and a buffer of fewer than \<open>2 ^ 31\<close> bytes, the parser, from any state of its memory, consumes exactly the head of the dumped text, ends finished
  and without error, leaves the body and whatever follows in the buffer, and has the version, status, reason
  and headers of the response, and the headers computed for the wire. Of several cookies only the last
  survives: they become one header \<open>Set-Cookie\<close>, and the list of cookies stays empty.
\<close>

theorem response_wire_roundtrip:
  assumes "reply_ok t r" and "length (rs_dump r @ extra) < 2 ^ 31"
  shows "\<exists>P. sp_execute (rs_dump r @ extra) False (HttpResponseParser g) = Inr (length (rs_dump r) - length (rs_body r), rs_body r @ extra, P)
    \<and> sp_isFinished P = 1 \<and> \<not> sp_hasError P
    \<and> rs_version (sp_data P) = rs_version r \<and> rs_status (sp_data P) = rs_status r
    \<and> rs_reason (sp_data P) = (if rs_reason r = [] then HttpStatusToString (rs_status r) else rs_reason r)
    \<and> rs_cookies (sp_data P) = []
    \<and> (\<forall>k x. rs_getHeader k x (sp_data P) =
        (if fold_case k = fold_case ''content-length'' \<and> rs_body r \<noteq> [] then dec (length (rs_body r))
         else if fold_case k = fold_case ''connection'' \<and> \<not> rs_websocket r then if rs_close r then ''close'' else ''keep-alive''
         else if fold_case k = fold_case ''Set-Cookie'' \<and> rs_cookies r \<noteq> [] then last (rs_cookies r)
         else rs_getHeader k x r))"
proof -
  note h = reply_parsed [OF assms(1)]
  from h(3) [of "rs_body r @ extra" g] assms(2) obtain P where
    P: "sp_execute (rs_dump r @ extra) False (HttpResponseParser g) = Inr (length (rs_head r), rs_body r @ extra, P)"
      "sp_isFinished P = 1" "\<not> sp_hasError P" "reply_data r (sp_data P)" by (auto simp: h(1))
  moreover have "length (rs_dump r) - length (rs_body r) = length (rs_head r)" by (simp add: h(1))
  moreover have "hdr_ok (rs_headers r)" using assms(1) by (auto simp: reply_ok_def)
  ultimately show ?thesis using reply_header [of r "sp_data P"] by (intro exI [of _ P]) (simp add: reply_data_def sent_reason_def)
qed

definition sample_reply :: http_response where
  "sample_reply = (HttpResponse 0x11 True)\<lparr>rs_body := ''hi'', rs_headers := [(''Server'', ''sylar'')]\<rparr>"

lemma sample_reply_ok: "reply_ok False sample_reply" "length (rs_dump sample_reply) = 74"
  by code_simp+

theorem response_wire_roundtrip_witness:
  "\<exists>P. sp_isFinished P = 1 \<and> rs_status (sp_data P) = 200 \<and> rs_reason (sp_data P) = ''OK'' \<and> rs_getHeader ''content-length'' [] (sp_data P) = ''2''
    \<and> sp_execute (rs_dump sample_reply @ ''HTTP'') False (HttpResponseParser blank_client) = Inr (length (rs_dump sample_reply) - 2, ''hiHTTP'', P)"
proof -
  have "length (rs_dump sample_reply @ ''HTTP'') < 2 ^ 31" using sample_reply_ok(2) by simp
  from response_wire_roundtrip [OF sample_reply_ok(1) this, of blank_client] obtain P where
    P: "sp_execute (rs_dump sample_reply @ ''HTTP'') False (HttpResponseParser blank_client)
        = Inr (length (rs_dump sample_reply) - length (rs_body sample_reply), rs_body sample_reply @ ''HTTP'', P)"
      "sp_isFinished P = 1" "rs_status (sp_data P) = rs_status sample_reply"
      "rs_reason (sp_data P) = (if rs_reason sample_reply = [] then HttpStatusToString (rs_status sample_reply) else rs_reason sample_reply)"
      "rs_getHeader ''content-length'' [] (sp_data P) = (if rs_body sample_reply \<noteq> [] then dec (length (rs_body sample_reply))
         else rs_getHeader ''content-length'' [] (sp_data P))"
    by fastforce
  have "rs_status sample_reply = 200" "rs_body sample_reply = ''hi''" "rs_reason sample_reply = []" "HttpStatusToString 200 = ''OK''" "dec 2 = ''2''" by code_simp+
  with P show ?thesis by (intro exI [of _ P]) (simp add: numeral_2_eq_2)
qed

section \<open>Receiving a response\<close>

lemma recv_response_first:
  assumes "reply_ok False r" and "ss_isConnected s" and "ss_in s = rs_dump r @ extra" and "ss_rplan s = k # ks" and "n = first_read buff k s"
    and "length (rs_head r) \<le> n" and "buff < 2 ^ 31"
  shows "\<exists>data P. recv_response_head buff [] (HttpResponseParser g) s = (Inr (Some (data, P)), s\<lparr>ss_rplan := ks, ss_in := drop n (ss_in s)\<rparr>)
    \<and> data @ drop n (ss_in s) = rs_body r @ extra \<and> length data + length (rs_head r) = n \<and> \<not> hc_chunked (sp_parser P) \<and> reply_data r (sp_data P)"
proof -
  note h = reply_parsed [OF assms(1)]
  have pos: "0 < n" using h(2) assms(6) by (cases "rs_head r") auto
  have k: "0 < k" using pos by (simp add: assms(5) first_read_def split: if_splits)
  have n: "n \<le> buff" "n \<le> length (ss_in s)" by (simp_all add: assms(5) first_read_def)
  have rd: "ss_read buff s = ((int n, take n (ss_in s)), s\<lparr>ss_rplan := ks, ss_in := drop n (ss_in s)\<rparr>)"
    using assms(2,4) k by (simp add: ss_read_def sock_recv_def Let_def assms(5) first_read_def)
  define tail where "tail = rs_body r @ extra"
  have inp: "ss_in s = rs_head r @ tail" using assms(3) by (simp add: h(1) tail_def)
  let ?rest = "take (n - length (rs_head r)) tail"
  have data: "take n (ss_in s) = rs_head r @ ?rest" using assms(6) by (simp add: inp)
  have len: "length (rs_head r @ ?rest) < 2 ^ 31" using n(1) assms(7) by (simp add: data [symmetric])
  from h(3) [OF len, of g] obtain P where
    P: "sp_execute (rs_head r @ ?rest) False (HttpResponseParser g) = Inr (length (rs_head r), ?rest, P)" "sp_isFinished P = 1" "\<not> sp_hasError P"
      "\<not> hc_chunked (sp_parser P)" "reply_data r (sp_data P)" by blast
  have "length ?rest < buff" using n h(2) inp assms(6) by (cases "rs_head r") auto
  then have "int (length ?rest) \<noteq> c_int (int buff)" using c_int_id [of "int buff"] assms(7) by simp
  moreover have "?rest @ drop n (ss_in s) = rs_body r @ extra" "length ?rest + length (rs_head r) = n"
    using assms(6) n(2) by (simp_all add: inp flip: tail_def)
  ultimately show ?thesis using P pos
    by (intro exI [of _ ?rest] exI [of _ P]) (simp add: recv_response_head.simps [of buff "[]"] rd data)
qed

text \<open>The length the response announces, when it announces the length of its body or nothing.\<close>

definition plain_reply :: "http_response \<Rightarrow> bool" where
  "plain_reply r \<longleftrightarrow> reply_ok False r \<and> (rs_body r \<noteq> [] \<or> mt_find ''content-length'' (rs_headers r) = None) \<and> length (rs_body r) < 2 ^ 31"

lemma mt_find_None: "hdr_ok m \<Longrightarrow> mt_find k m = None \<longleftrightarrow> hdr_abs m (fold_case k) = None"
  using mt_find_abs [of m k] by (auto simp: option.map_sel split: option.splits)

lemma mt_find_Some: "hdr_ok m \<Longrightarrow> hdr_abs m (fold_case k) = Some v \<Longrightarrow> \<exists>j. mt_find k m = Some (j, v)"
  using mt_find_abs [of m k] by (auto split: option.splits)

lemma reply_length:
  assumes "plain_reply r" and "reply_data r (sp_data P)" and "reads_dec lc"
  shows "sint (sp_getContentLength lc P) = int (length (rs_body r))"
proof -
  have ok: "hdr_ok (rs_headers r)" "hdr_ok (rs_headers (sp_data P))"
    "hdr_abs (rs_headers (sp_data P)) = map_of (rev (map (\<lambda>(k, v). (fold_case k, v)) (reply_fields r)))"
    using assms(1,2) by (auto simp: plain_reply_def reply_ok_def reply_data_def)
  have small: "length (rs_body r) < 2 ^ 63" using assms(1) by (simp add: plain_reply_def)
  show ?thesis
  proof (cases "rs_body r = []")
    case True
    then have "hdr_abs (rs_headers r) (fold_case ''content-length'') = None" using assms(1) mt_find_None [OF ok(1)] by (simp add: plain_reply_def)
    then have "mt_find ''content-length'' (rs_headers (sp_data P)) = None"
      using True reply_names unfolding mt_find_None [OF ok(2)] ok(3) map_of_reply_fields [OF ok(1)] by auto
    then show ?thesis using True by (simp add: sp_getContentLength_def rs_getHeaderAs_def getAs_def)
  next
    case False
    then have "hdr_abs (rs_headers (sp_data P)) (fold_case ''content-length'') = Some (dec (length (rs_body r)))"
      unfolding ok(3) map_of_reply_fields [OF ok(1)] by simp
    from mt_find_Some [OF ok(2) this] have "sp_getContentLength lc P = word_of_nat (length (rs_body r))"
      using assms(3) small by (auto simp: sp_getContentLength_def rs_getHeaderAs_def getAs_def reads_dec_def)
    then show ?thesis using small c_int64_id [of "int (length (rs_body r))"] by (simp add: c_int64_def)
  qed
qed

lemma recv_plain_body_spec:
  assumes len: "sint (sp_getContentLength lc P) = int (length body)" and small: "length body < 2 ^ 31" and conn: "ss_isConnected s"
    and data: "data @ ss_in s = body @ extra"
    and plan: "\<forall>j \<in> set (ss_rplan s). 0 < j" "length body \<le> length data + length (ss_rplan s)"
  shows "\<exists>s'. recv_plain_body lc data P s = (Inr (Some body), s') \<and> ss_isConnected s' \<and> (length data \<le> length body \<longrightarrow> ss_in s' = extra)"
proof (cases "length data < length body")
  case False
  then have "take (length body) data = body" using arg_cong [OF data, of "take (length body)"] by simp
  moreover have "ss_in s = extra" "data = body" if "length data = length body" using that data by (simp_all add: append_eq_append_conv)
  ultimately show ?thesis using False len small conn
    by (cases "body = []") (auto simp: recv_plain_body_def Let_def)
next
  case True
  from fix_read_rest [OF small conn data True] plan obtain r bs s1 where
    rd: "readFixSize ss_read (length body - length data) s = ((r, bs), s1)" "0 < r" "data @ bs = body" "ss_in s1 = extra" "ss_isConnected s1"
    by (auto split: if_splits)
  moreover have "nat (int (length body) - int (length data)) = length body - length data" "0 < int (length body)" using True by (simp, linarith)
  ultimately show ?thesis using True len small by (auto simp: recv_plain_body_def Let_def)
qed

lemma recv_reply:
  assumes "plain_reply r" and "reads_dec lc" and "ss_isConnected s" and "ss_in s = rs_dump r @ extra" and "ss_rplan s = k # ks" and "buff < 2 ^ 31"
    and "length (rs_dump r) - length (rs_body r) \<le> first_read buff k s" and "\<forall>j \<in> set ks. 0 < j" and "length (rs_dump r) \<le> first_read buff k s + length ks"
  shows "\<exists>D s'. recvResponse lc buff g s = (Inr (Some D), s') \<and> ss_isConnected s' \<and> (first_read buff k s \<le> length (rs_dump r) \<longrightarrow> ss_in s' = extra) \<and> reply_data r D"
proof -
  let ?n = "first_read buff k s"
  have ok: "reply_ok False r" "hdr_ok (rs_headers r)" "length (rs_body r) < 2 ^ 31" using assms(1) by (auto simp: plain_reply_def reply_ok_def)
  note h = reply_parsed(1) [OF ok(1)]
  have "length (rs_head r) \<le> ?n" using assms(7) by (simp add: h)
  from recv_response_first [OF ok(1) assms(3-5) refl this assms(6), of "g s"] obtain data P where
    P: "recv_response_head buff [] (HttpResponseParser (g s)) s = (Inr (Some (data, P)), s\<lparr>ss_rplan := ks, ss_in := drop ?n (ss_in s)\<rparr>)"
      "data @ drop ?n (ss_in s) = rs_body r @ extra" "length data + length (rs_head r) = ?n" "\<not> hc_chunked (sp_parser P)" "reply_data r (sp_data P)" by blast
  let ?s = "s\<lparr>ss_rplan := ks, ss_in := drop ?n (ss_in s)\<rparr>"
  have "ss_isConnected ?s" "data @ ss_in ?s = rs_body r @ extra" "\<forall>j \<in> set (ss_rplan ?s). 0 < j" "length (rs_body r) \<le> length data + length (ss_rplan ?s)"
    using assms(3,8,9) P(2,3) by (simp_all add: ss_isConnected_def h)
  from recv_plain_body_spec [OF reply_length [OF assms(1) P(5) assms(2)] ok(3) this] obtain s' where
    s': "recv_plain_body lc data P ?s = (Inr (Some (rs_body r)), s')" "ss_isConnected s'" "length data \<le> length (rs_body r) \<longrightarrow> ss_in s' = extra" by blast
  have "recvResponse lc buff g s = (Inr (Some (sp_data P)), s')" using P(1,4) s'(1) by (simp add: recvResponse_def)
  moreover have "?n \<le> length (rs_dump r) \<longrightarrow> ss_in s' = extra" using s'(3) P(3) by (simp add: h)
  ultimately show ?thesis using s'(2) P(5) by blast
qed

text \<open>
  C31: a response that \<open>sendResponse\<close> wrote is received by \<open>recvResponse\<close>: when its head comes with the first read and the
  socket delivers the rest, in reads of any sizes, the client returns the version, status, reason and headers
  that were sent, reads exactly up to the end of the body, and leaves the session open. The body is read but is
  not in the result.
\<close>

theorem send_recv_response:
  assumes "plain_reply r" and "reads_dec lc" and "ss_isConnected s" and "ss_in s = rs_dump r @ extra" and "ss_rplan s = k # ks" and "buff < 2 ^ 31"
    and "length (rs_dump r) - length (rs_body r) \<le> first_read buff k s" and "\<forall>j \<in> set ks. 0 < j" and "length (rs_dump r) \<le> first_read buff k s + length ks"
  shows "\<exists>D s'. recvResponse lc buff g s = (Inr (Some D), s') \<and> ss_isConnected s' \<and> (first_read buff k s \<le> length (rs_dump r) \<longrightarrow> ss_in s' = extra)
    \<and> rs_version D = rs_version r \<and> rs_status D = rs_status r
    \<and> rs_reason D = (if rs_reason r = [] then HttpStatusToString (rs_status r) else rs_reason r) \<and> rs_body D = []
    \<and> (\<forall>j x. fold_case j \<notin> {fold_case ''connection'', fold_case ''content-length'', fold_case ''Set-Cookie''} \<longrightarrow> rs_getHeader j x D = rs_getHeader j x r)"
  using recv_reply [OF assms, of g] reply_header [of r] assms(1)
  by (fastforce simp: reply_data_def sent_reason_def plain_reply_def reply_ok_def)

definition reply_session :: session where
  "reply_session = SocketStream True True (rs_dump sample_reply) [73, 1] []"

lemma reply_session_ok:
  "plain_reply sample_reply" "ss_isConnected reply_session" "ss_in reply_session = rs_dump sample_reply @ []" "ss_rplan reply_session = 73 # [1]"
  "first_read 4096 73 reply_session = 73" "length (rs_body sample_reply) = 2"
  using sample_reply_ok by (simp_all add: plain_reply_def sample_reply_def HttpResponse_def reply_session_def SocketStream_def ss_isConnected_def first_read_def)

theorem send_recv_response_witness:
  "\<exists>D s'. recvResponse cast_u64 4096 (\<lambda>_. blank_client) reply_session = (Inr (Some D), s') \<and> ss_in s' = [] \<and> rs_status D = 200 \<and> rs_body D = []
    \<and> rs_getHeader ''server'' [] D = ''sylar''"
proof -
  have "rs_status sample_reply = 200" "rs_getHeader ''server'' [] sample_reply = ''sylar''"
    "fold_case ''server'' \<notin> {fold_case ''connection'', fold_case ''content-length'', fold_case ''Set-Cookie''}" by code_simp+
  then show ?thesis
    using send_recv_response [OF reply_session_ok(1) reads_dec_cast reply_session_ok(2-4), of 4096 "\<lambda>_. blank_client"] reply_session_ok(5,6) sample_reply_ok(2)
    by fastforce
qed

text \<open>
  A client never sees the body of a response. Whatever arrives, in chunks or with a length, the body is read
  into a local buffer and dropped: the response that \<open>recvResponse\<close> returns has an empty body.
\<close>

theorem response_body_lost:
  assumes "recvResponse lc buff g s = (Inr (Some rsp), s')"
  shows "rs_body rsp = []"
proof -
  have "rs_body (sp_data (HttpResponseParser (g s))) = []" by (simp add: HttpResponseParser_def HttpResponse_def)
  then show ?thesis using assms
    by (auto simp: recvResponse_def split: prod.splits sum.splits option.splits if_splits dest!: head_bodyless chunks_bodyless)
qed

theorem response_body_lost_witness:
  "\<exists>rsp s'. recvResponse cast_u64 4096 (\<lambda>_. blank_client) reply_session = (Inr (Some rsp), s') \<and> rs_body sample_reply = ''hi'' \<and> rs_body rsp = []"
proof -
  have b: "rs_body sample_reply = ''hi''" by (simp add: sample_reply_def)
  from recv_reply [OF reply_session_ok(1) reads_dec_cast reply_session_ok(2-4), of 4096 "\<lambda>_. blank_client"] reply_session_ok(5,6) sample_reply_ok(2)
  obtain rsp s' where r: "recvResponse cast_u64 4096 (\<lambda>_. blank_client) reply_session = (Inr (Some rsp), s')" by auto
  from r b response_body_lost [OF r] show ?thesis by blast
qed

end
