(* ===== verification/Http_Exchange.thy ===== *)
theory Http_Exchange
  imports Http_Server Http_Reply
begin

text \<open>
  A whole exchange: what a client sends with \<open>HttpConnection::sendRequest\<close> is served by \<open>HttpServer::handleClient\<close>,
  and the client receives the answer with \<open>HttpConnection::recvResponse\<close>.
\<close>

section \<open>The answer of a server without servlets\<close>

definition not_found_reply :: "u8 \<Rightarrow> http_response" where
  "not_found_reply v = (HttpResponse v True)\<lparr>rs_status := 404, rs_body := not_found_page,
     rs_headers := [(''Content-Type'', ''text/html''), (''Server'', ''sylar/1.0.0'')]\<rparr>"

lemma not_found_reply_ok:
  assumes "v = 0x10 \<or> v = 0x11"
  shows "plain_reply (not_found_reply v)"
proof -
  have "hdr_ok (rs_headers (not_found_reply 0))" "list_all (reply_field False) (rs_headers (not_found_reply 0))" "length not_found_page = 139" by code_simp+
  moreover have "rs_headers (not_found_reply v) = rs_headers (not_found_reply 0)" by (simp add: not_found_reply_def)
  ultimately have "hdr_ok (rs_headers (not_found_reply v))" "\<forall>kv \<in> set (rs_headers (not_found_reply v)). reply_field False kv" "length not_found_page = 139"
    by (simp_all add: list_all_iff)
  then show ?thesis using assms by (auto simp: plain_reply_def reply_ok_def not_found_reply_def HttpResponse_def)
qed

lemma not_found_reply_dump: "rs_dump (not_found_reply v) = not_found_text v"
proof -
  have d: "dec 404 = ''404''" "dec 139 = ''139''" "length not_found_page = 139" "not_found_page \<noteq> []" "HttpStatusToString 404 = ''Not Found''" by code_simp+
  have c: "strcasecmp ''Content-Type'' ''connection'' \<noteq> 0" "strcasecmp ''Server'' ''connection'' \<noteq> 0" by code_simp+
  show ?thesis
    by (simp add: not_found_reply_def HttpResponse_def rs_dump_def d dump_body_def dump_headers_def c connection_line_def not_found_text_def)
qed

text \<open>A session of a client to which the socket delivers exactly the bytes \<open>t\<close>, the first \<open>h\<close> of them with the first read.\<close>

definition brings :: "nat \<Rightarrow> nat \<Rightarrow> string \<Rightarrow> session \<Rightarrow> bool" where
  "brings buff h t c \<longleftrightarrow> ss_isConnected c \<and> ss_in c = t \<and> buff < 2 ^ 31
     \<and> (case ss_rplan c of [] \<Rightarrow> False | k # ks \<Rightarrow> h \<le> first_read buff k c \<and> (\<forall>j \<in> set ks. 0 < j) \<and> length t \<le> first_read buff k c + length ks)"

section \<open>Properties\<close>

text \<open>
  C30: a request and its answer. A client sends a request whose parts are legal text to a server without servlets
  that does not keep connections alive; the kernel may split the transfers, but takes the answer in one call. Then
  the server closes the session after one answer, and the client that receives the bytes the server wrote gets
  the status 404 with its reason and the type of the page, and consumes every byte.
\<close>

theorem exchange_not_found:
  assumes "plain_request r" and "delivers env r s" and "hs_dispatch srv = ServletDispatch" and "\<not> hs_isKeepalive srv"
    and "ss_wplan s = w # ws" and "int (length (not_found_text (rq_version r))) \<le> w"
    and "brings buff (length (not_found_text (rq_version r)) - 139) (not_found_text (rq_version r)) c" and "reads_dec lc"
  shows "\<exists>s' D c'. handleClient env srv s = Some (Inr (), s') \<and> \<not> ss_isConnected s' \<and> ss_out s' = ss_out s @ ss_in c
    \<and> recvResponse lc buff g c = (Inr (Some D), c') \<and> ss_in c' = [] \<and> rs_version D = rq_version r \<and> rs_status D = 404 \<and> rs_reason D = ''Not Found''
    \<and> rs_getHeader ''content-type'' [] D = ''text/html''"
proof -
  let ?R = "not_found_reply (rq_version r)"
  from unknown_path_404 [OF assms(1-4)] assms(5,6) obtain s' where
    s': "handleClient env srv s = Some (Inr (), s')" "\<not> ss_isConnected s'" "ss_out s' = ss_out s @ not_found_text (rq_version r)" by blast
  have "rq_version r = 0x10 \<or> rq_version r = 0x11" using assms(1) by (auto simp: plain_request_def wire_ok_def)
  note ok = not_found_reply_ok [OF this]
  obtain k ks where plan: "ss_rplan c = k # ks" using assms(7) by (auto simp: brings_def split: list.splits)
  have page: "length (rs_body ?R) = 139" by (simp add: not_found_reply_def) code_simp
  have c: "ss_isConnected c" "ss_in c = rs_dump ?R @ []" "buff < 2 ^ 31" "length (rs_dump ?R) - length (rs_body ?R) \<le> first_read buff k c"
    "\<forall>j \<in> set ks. 0 < j" "length (rs_dump ?R) \<le> first_read buff k c + length ks"
    using assms(7) plan by (simp_all add: brings_def not_found_reply_dump page)
  from recv_reply [OF ok assms(8) c(1,2) plan c(3-6), of g] obtain D c' where
    D: "recvResponse lc buff g c = (Inr (Some D), c')" "first_read buff k c \<le> length (rs_dump ?R) \<longrightarrow> ss_in c' = []" "reply_data ?R D" by blast
  have "first_read buff k c \<le> length (rs_dump ?R)" using c(2) by (simp add: first_read_def)
  moreover have "HttpStatusToString 404 = ''Not Found''" "rs_getHeader ''content-type'' [] (not_found_reply 0) = ''text/html''"
    "fold_case ''content-type'' \<notin> {fold_case ''connection'', fold_case ''content-length'', fold_case ''Set-Cookie''}" by code_simp+
  moreover have "rs_getHeader ''content-type'' [] ?R = rs_getHeader ''content-type'' [] (not_found_reply 0)" by (simp add: rs_getHeader_def not_found_reply_def)
  moreover have "hdr_ok (rs_headers ?R)" using ok by (auto simp: plain_reply_def reply_ok_def)
  moreover have "rs_version ?R = rq_version r" "rs_status ?R = 404" "rs_reason ?R = []" by (simp_all add: not_found_reply_def HttpResponse_def)
  ultimately show ?thesis using s' D reply_header [of ?R D "''content-type''" "[]"] c(2)
    by (intro exI [of _ s'] exI [of _ D] exI [of _ c']) (simp add: not_found_reply_dump reply_data_def sent_reason_def)
qed

theorem exchange_not_found_witness:
  "\<exists>s' D c'. handleClient sample_env (HttpServer False) sample_session = Some (Inr (), s') \<and> ss_out s' = not_found_text 0x11
    \<and> recvResponse cast_u64 4096 (\<lambda>_. blank_client) (SocketStream True True (not_found_text 0x11) [1000] []) = (Inr (Some D), c') \<and> rs_status D = 404"
proof -
  have v: "rq_version sample_request = 0x11" by (simp add: sample_request_def HttpRequest_def)
  have len: "length (not_found_text 0x11) = 251" by code_simp
  have "brings 4096 (length (not_found_text (rq_version sample_request)) - 139) (not_found_text (rq_version sample_request)) (SocketStream True True (not_found_text 0x11) [1000] [])"
    by (simp add: v len brings_def SocketStream_def ss_isConnected_def first_read_def)
  from exchange_not_found [OF sample_delivered _ _ _ _ this reads_dec_cast, of "HttpServer False" 1000 "[]" "\<lambda>_. blank_client"] show ?thesis
    by (auto simp: HttpServer_def SocketStream_def v len)
qed

end
