(* ===== verification/Uri_Table.thy ===== *)
theory Uri_Table
  imports Ragel_Machine
begin

text \<open>
  The state machine of URIs, block by block as in \<open>uri.rl.cc\<close>. Consecutive cases that jump to the same label are ranges;
  the actions are those of \<open>uri.rl\<close>. The actions \<open>save_segment\<close> and \<open>clear_segments\<close> of the grammar occur nowhere.
\<close>


datatype uri_action =
    Marku | Markh | Save_scheme | Save_port | Save_userinfo | Save_host | Save_path | Save_query | Save_fragment

definition uri_1 :: "uri_action block list" where
  "uri_1 = [
     Case 451 False [(34, 34, St 0), (35, 35, St 453), (37, 37, St 3), (47, 47, St 458), (58, 58, St 0), (60, 60, St 0),
       (62, 62, St 0), (63, 63, St 456), (96, 96, St 0), (127, 127, St 0), (0, 32, St 0), (65, 90, Tr 461),
       (91, 94, St 0), (97, 122, Tr 461), (123, 125, St 0)] (St 452),
     Case 452 False [(34, 34, St 0), (35, 35, St 453), (37, 37, St 3), (47, 47, St 455), (58, 58, St 0), (60, 60, St 0),
       (62, 62, St 0), (63, 63, St 456), (96, 96, St 0), (127, 127, St 0), (0, 32, St 0), (91, 94, St 0),
       (123, 125, St 0)] (St 452),
     Block 467 [Marku, Save_query] 453,
     Block 469 [Save_query] 453,
     Block 474 [Markh, Save_host] 453,
     Block 485 [Save_host] 453,
     Block 489 [Markh, Save_port] 453,
     Block 493 [Save_port] 453,
     Block 548 [Markh, Save_host, Save_path] 453,
     Block 559 [Save_host, Markh, Save_path] 453]"

definition uri_2 :: "uri_action block list" where
  "uri_2 = [
     Block 563 [Save_path] 453,
     Block 566 [Markh, Save_port, Save_path] 453,
     Block 570 [Save_port, Markh, Save_path] 453,
     Case 453 False [(37, 37, Tr 463), (60, 60, St 0), (62, 62, St 0), (96, 96, St 0), (127, 127, St 0), (0, 32, St 0),
       (34, 35, St 0), (91, 94, St 0), (123, 125, St 0)] (Tr 462),
     Block 462 [Marku] 454,
     Case 454 False [(37, 37, St 1), (60, 60, St 0), (62, 62, St 0), (96, 96, St 0), (127, 127, St 0), (0, 32, St 0),
       (34, 35, St 0), (91, 94, St 0), (123, 125, St 0)] (St 454),
     Block 463 [Marku] 1,
     Case 1 False [(48, 57, St 2), (65, 70, St 2), (97, 102, St 2)] (St 0),
     Case 2 False [(48, 57, St 454), (65, 70, St 454), (97, 102, St 454)] (St 0),
     Case 3 False [(48, 57, St 4), (65, 70, St 4), (97, 102, St 4)] (St 0)]"

definition uri_3 :: "uri_action block list" where
  "uri_3 = [
     Case 4 False [(48, 57, St 452), (65, 70, St 452), (97, 102, St 452)] (St 0),
     Block 476 [Markh, Save_host] 455,
     Block 486 [Save_host] 455,
     Block 490 [Markh, Save_port] 455,
     Block 494 [Save_port] 455,
     Case 455 False [(34, 34, St 0), (35, 35, St 453), (37, 37, St 5), (60, 60, St 0), (62, 62, St 0), (63, 63, St 456),
       (96, 96, St 0), (127, 127, St 0), (0, 32, St 0), (91, 94, St 0), (123, 125, St 0)] (St 455),
     Case 5 False [(48, 57, St 6), (65, 70, St 6), (97, 102, St 6)] (St 0),
     Case 6 False [(48, 57, St 455), (65, 70, St 455), (97, 102, St 455)] (St 0),
     Block 482 [Markh, Save_host] 456,
     Block 488 [Save_host] 456,
     Block 492 [Markh, Save_port] 456,
     Block 496 [Save_port] 456]"

definition uri_4 :: "uri_action block list" where
  "uri_4 = [
     Block 556 [Markh, Save_host, Save_path] 456,
     Block 562 [Save_host, Markh, Save_path] 456,
     Block 565 [Save_path] 456,
     Block 569 [Markh, Save_port, Save_path] 456,
     Block 573 [Save_port, Markh, Save_path] 456,
     Case 456 False [(34, 34, St 0), (35, 35, Tr 467), (37, 37, Tr 468), (60, 60, St 0), (62, 62, St 0), (96, 96, St 0),
       (127, 127, St 0), (0, 32, St 0), (91, 94, St 0), (123, 125, St 0)] (Tr 466),
     Block 466 [Marku] 457,
     Case 457 False [(34, 34, St 0), (35, 35, Tr 469), (37, 37, St 7), (60, 60, St 0), (62, 62, St 0), (96, 96, St 0),
       (127, 127, St 0), (0, 32, St 0), (91, 94, St 0), (123, 125, St 0)] (St 457),
     Block 468 [Marku] 7,
     Case 7 False [(48, 57, St 8), (65, 70, St 8), (97, 102, St 8)] (St 0)]"

definition uri_5 :: "uri_action block list" where
  "uri_5 = [
     Case 8 False [(48, 57, St 457), (65, 70, St 457), (97, 102, St 457)] (St 0),
     Case 458 False [(34, 34, St 0), (35, 35, St 453), (37, 37, St 5), (47, 47, St 459), (60, 60, St 0), (62, 62, St 0),
       (63, 63, St 456), (96, 96, St 0), (127, 127, St 0), (0, 32, St 0), (91, 94, St 0), (123, 125, St 0)] (St 455),
     Case 459 False [(2, 2, Tr 472), (33, 33, Tr 473), (35, 35, Tr 474), (37, 37, Tr 475), (47, 47, Tr 476),
       (48, 48, Tr 477), (49, 49, Tr 478), (50, 50, Tr 479), (58, 58, Tr 481), (59, 59, Tr 473), (61, 61, Tr 473),
       (63, 63, Tr 482), (64, 64, Tr 483), (91, 91, Tr 484), (95, 95, Tr 473), (126, 126, Tr 473), (36, 46, Tr 473),
       (51, 57, Tr 480), (65, 90, Tr 473), (97, 122, Tr 473)] (St 0),
     Block 472 [Markh] 9,
     Case 9 False [(48, 52, St 10)] (St 0),
     Case 10 False [(48, 57, St 11)] (St 0),
     Case 11 False [(46, 46, St 12)] (St 0),
     Case 12 False [(2, 2, St 13), (48, 48, St 15), (49, 49, St 27), (50, 50, St 29), (51, 57, St 28)] (St 0),
     Case 13 False [(48, 52, St 14)] (St 0),
     Case 14 False [(48, 57, St 15)] (St 0),
     Case 15 False [(46, 46, St 16)] (St 0),
     Case 16 False [(2, 2, St 17), (48, 48, St 19), (49, 49, St 23), (50, 50, St 25), (51, 57, St 24)] (St 0),
     Case 17 False [(48, 52, St 18)] (St 0)]"

definition uri_6 :: "uri_action block list" where
  "uri_6 = [
     Case 18 False [(48, 57, St 19)] (St 0),
     Case 19 False [(46, 46, St 20)] (St 0),
     Case 20 False [(2, 2, St 21), (48, 48, St 460), (49, 49, St 463), (50, 50, St 465), (51, 57, St 464)] (St 0),
     Case 21 False [(48, 52, St 22)] (St 0),
     Case 22 False [(48, 57, St 460)] (St 0),
     Case 460 False [(35, 35, Tr 485), (47, 47, Tr 486), (58, 58, Tr 487), (63, 63, Tr 488)] (St 0),
     Block 507 [Markh, Save_host] 461,
     Block 487 [Save_host] 461,
     Case 461 False [(35, 35, Tr 489), (47, 47, Tr 490), (63, 63, Tr 492), (48, 57, Tr 491)] (St 0),
     Block 491 [Markh] 462,
     Case 462 False [(35, 35, Tr 493), (47, 47, Tr 494), (63, 63, Tr 496), (48, 57, St 462)] (St 0),
     Case 463 False [(35, 35, Tr 485), (47, 47, Tr 486), (58, 58, Tr 487), (63, 63, Tr 488), (48, 57, St 464)] (St 0),
     Case 464 False [(35, 35, Tr 485), (47, 47, Tr 486), (58, 58, Tr 487), (63, 63, Tr 488), (48, 57, St 460)] (St 0),
     Case 465 False [(35, 35, Tr 485), (47, 47, Tr 486), (53, 53, St 466), (58, 58, Tr 487), (63, 63, Tr 488),
       (48, 57, St 460)] (St 0)]"

definition uri_7 :: "uri_action block list" where
  "uri_7 = [
     Case 466 False [(35, 35, Tr 485), (47, 47, Tr 486), (58, 58, Tr 487), (63, 63, Tr 488), (48, 53, St 460)] (St 0),
     Case 23 False [(46, 46, St 20), (48, 57, St 24)] (St 0),
     Case 24 False [(46, 46, St 20), (48, 57, St 19)] (St 0),
     Case 25 False [(46, 46, St 20), (53, 53, St 26), (48, 57, St 19)] (St 0),
     Case 26 False [(46, 46, St 20), (48, 53, St 19)] (St 0),
     Case 27 False [(46, 46, St 16), (48, 57, St 28)] (St 0),
     Case 28 False [(46, 46, St 16), (48, 57, St 15)] (St 0),
     Case 29 False [(46, 46, St 16), (53, 53, St 30), (48, 57, St 15)] (St 0),
     Case 30 False [(46, 46, St 16), (48, 53, St 15)] (St 0),
     Block 473 [Markh] 467,
     Case 467 False [(33, 33, St 467), (35, 35, Tr 485), (37, 37, St 31), (47, 47, Tr 486), (58, 58, Tr 499),
       (61, 61, St 467), (63, 63, Tr 488), (64, 64, Tr 38), (95, 95, St 467), (126, 126, St 467), (36, 59, St 467),
       (65, 90, St 467), (97, 122, St 467)] (St 0),
     Block 475 [Markh] 31,
     Case 31 False [(48, 57, St 32), (65, 70, St 32), (97, 102, St 32)] (St 0),
     Case 32 False [(48, 57, St 467), (65, 70, St 467), (97, 102, St 467)] (St 0)]"

definition uri_8 :: "uri_action block list" where
  "uri_8 = [
     Block 481 [Markh, Save_host] 468,
     Block 499 [Save_host] 468,
     Case 468 False [(33, 33, St 33), (35, 35, Tr 489), (37, 37, St 34), (47, 47, Tr 490), (61, 61, St 33),
       (63, 63, Tr 492), (64, 64, Tr 38), (95, 95, St 33), (126, 126, St 33), (36, 46, St 33), (48, 57, Tr 500),
       (58, 59, St 33), (65, 90, St 33), (97, 122, St 33)] (St 0),
     Case 33 False [(33, 33, St 33), (37, 37, St 34), (61, 61, St 33), (64, 64, Tr 38), (95, 95, St 33),
       (126, 126, St 33), (36, 46, St 33), (48, 59, St 33), (65, 90, St 33), (97, 122, St 33)] (St 0),
     Case 34 False [(48, 57, St 35), (65, 70, St 35), (97, 102, St 35)] (St 0),
     Case 35 False [(48, 57, St 33), (65, 70, St 33), (97, 102, St 33)] (St 0),
     Block 38 [Save_userinfo] 469,
     Block 483 [Markh, Save_userinfo] 469]"

definition uri_9 :: "uri_action block list" where
  "uri_9 = [
     Case 469 False [(2, 2, Tr 472), (33, 33, Tr 501), (35, 35, Tr 474), (37, 37, Tr 502), (47, 47, Tr 476),
       (48, 48, Tr 503), (49, 49, Tr 504), (50, 50, Tr 505), (58, 58, Tr 507), (59, 59, Tr 501), (61, 61, Tr 501),
       (63, 63, Tr 482), (91, 91, Tr 484), (95, 95, Tr 501), (126, 126, Tr 501), (36, 46, Tr 501), (51, 57, Tr 506),
       (65, 90, Tr 501), (97, 122, Tr 501)] (St 0),
     Block 501 [Markh] 470,
     Case 470 False [(33, 33, St 470), (35, 35, Tr 485), (37, 37, St 36), (47, 47, Tr 486), (58, 58, Tr 487),
       (61, 61, St 470), (63, 63, Tr 488), (95, 95, St 470), (126, 126, St 470), (36, 59, St 470), (65, 90, St 470),
       (97, 122, St 470)] (St 0),
     Block 502 [Markh] 36,
     Case 36 False [(48, 57, St 37), (65, 70, St 37), (97, 102, St 37)] (St 0),
     Case 37 False [(48, 57, St 470), (65, 70, St 470), (97, 102, St 470)] (St 0),
     Block 503 [Markh] 471,
     Case 471 False [(33, 33, St 470), (35, 35, Tr 485), (37, 37, St 36), (46, 46, St 472), (47, 47, Tr 486),
       (58, 58, Tr 487), (61, 61, St 470), (63, 63, Tr 488), (95, 95, St 470), (126, 126, St 470), (36, 59, St 470),
       (65, 90, St 470), (97, 122, St 470)] (St 0)]"

definition uri_10 :: "uri_action block list" where
  "uri_10 = [
     Case 472 False [(2, 2, St 13), (33, 33, St 470), (35, 35, Tr 485), (37, 37, St 36), (47, 47, Tr 486),
       (48, 48, St 473), (49, 49, St 481), (50, 50, St 483), (58, 58, Tr 487), (59, 59, St 470), (61, 61, St 470),
       (63, 63, Tr 488), (95, 95, St 470), (126, 126, St 470), (36, 46, St 470), (51, 57, St 482), (65, 90, St 470),
       (97, 122, St 470)] (St 0),
     Case 473 False [(33, 33, St 470), (35, 35, Tr 485), (37, 37, St 36), (46, 46, St 474), (47, 47, Tr 486),
       (58, 58, Tr 487), (61, 61, St 470), (63, 63, Tr 488), (95, 95, St 470), (126, 126, St 470), (36, 59, St 470),
       (65, 90, St 470), (97, 122, St 470)] (St 0),
     Case 474 False [(2, 2, St 17), (33, 33, St 470), (35, 35, Tr 485), (37, 37, St 36), (47, 47, Tr 486),
       (48, 48, St 475), (49, 49, St 477), (50, 50, St 479), (58, 58, Tr 487), (59, 59, St 470), (61, 61, St 470),
       (63, 63, Tr 488), (95, 95, St 470), (126, 126, St 470), (36, 46, St 470), (51, 57, St 478), (65, 90, St 470),
       (97, 122, St 470)] (St 0),
     Case 475 False [(33, 33, St 470), (35, 35, Tr 485), (37, 37, St 36), (46, 46, St 476), (47, 47, Tr 486),
       (58, 58, Tr 487), (61, 61, St 470), (63, 63, Tr 488), (95, 95, St 470), (126, 126, St 470), (36, 59, St 470),
       (65, 90, St 470), (97, 122, St 470)] (St 0),
     Case 476 False [(2, 2, St 21), (33, 33, St 470), (35, 35, Tr 485), (37, 37, St 36), (47, 47, Tr 486),
       (58, 58, Tr 487), (61, 61, St 470), (63, 63, Tr 488), (95, 95, St 470), (126, 126, St 470), (36, 59, St 470),
       (65, 90, St 470), (97, 122, St 470)] (St 0)]"

definition uri_11 :: "uri_action block list" where
  "uri_11 = [
     Case 477 False [(33, 33, St 470), (35, 35, Tr 485), (37, 37, St 36), (46, 46, St 476), (47, 47, Tr 486),
       (58, 58, Tr 487), (59, 59, St 470), (61, 61, St 470), (63, 63, Tr 488), (95, 95, St 470), (126, 126, St 470),
       (36, 45, St 470), (48, 57, St 478), (65, 90, St 470), (97, 122, St 470)] (St 0),
     Case 478 False [(33, 33, St 470), (35, 35, Tr 485), (37, 37, St 36), (46, 46, St 476), (47, 47, Tr 486),
       (58, 58, Tr 487), (59, 59, St 470), (61, 61, St 470), (63, 63, Tr 488), (95, 95, St 470), (126, 126, St 470),
       (36, 45, St 470), (48, 57, St 475), (65, 90, St 470), (97, 122, St 470)] (St 0),
     Case 479 False [(33, 33, St 470), (35, 35, Tr 485), (37, 37, St 36), (46, 46, St 476), (47, 47, Tr 486),
       (53, 53, St 480), (58, 58, Tr 487), (59, 59, St 470), (61, 61, St 470), (63, 63, Tr 488), (95, 95, St 470),
       (126, 126, St 470), (36, 45, St 470), (48, 57, St 475), (65, 90, St 470), (97, 122, St 470)] (St 0),
     Case 480 False [(33, 33, St 470), (35, 35, Tr 485), (37, 37, St 36), (46, 46, St 476), (47, 47, Tr 486),
       (58, 58, Tr 487), (61, 61, St 470), (63, 63, Tr 488), (95, 95, St 470), (126, 126, St 470), (36, 45, St 470),
       (48, 53, St 475), (54, 59, St 470), (65, 90, St 470), (97, 122, St 470)] (St 0),
     Case 481 False [(33, 33, St 470), (35, 35, Tr 485), (37, 37, St 36), (46, 46, St 474), (47, 47, Tr 486),
       (58, 58, Tr 487), (59, 59, St 470), (61, 61, St 470), (63, 63, Tr 488), (95, 95, St 470), (126, 126, St 470),
       (36, 45, St 470), (48, 57, St 482), (65, 90, St 470), (97, 122, St 470)] (St 0)]"

definition uri_12 :: "uri_action block list" where
  "uri_12 = [
     Case 482 False [(33, 33, St 470), (35, 35, Tr 485), (37, 37, St 36), (46, 46, St 474), (47, 47, Tr 486),
       (58, 58, Tr 487), (59, 59, St 470), (61, 61, St 470), (63, 63, Tr 488), (95, 95, St 470), (126, 126, St 470),
       (36, 45, St 470), (48, 57, St 473), (65, 90, St 470), (97, 122, St 470)] (St 0),
     Case 483 False [(33, 33, St 470), (35, 35, Tr 485), (37, 37, St 36), (46, 46, St 474), (47, 47, Tr 486),
       (53, 53, St 484), (58, 58, Tr 487), (59, 59, St 470), (61, 61, St 470), (63, 63, Tr 488), (95, 95, St 470),
       (126, 126, St 470), (36, 45, St 470), (48, 57, St 473), (65, 90, St 470), (97, 122, St 470)] (St 0),
     Case 484 False [(33, 33, St 470), (35, 35, Tr 485), (37, 37, St 36), (46, 46, St 474), (47, 47, Tr 486),
       (58, 58, Tr 487), (61, 61, St 470), (63, 63, Tr 488), (95, 95, St 470), (126, 126, St 470), (36, 45, St 470),
       (48, 53, St 473), (54, 59, St 470), (65, 90, St 470), (97, 122, St 470)] (St 0),
     Block 504 [Markh] 485,
     Case 485 False [(33, 33, St 470), (35, 35, Tr 485), (37, 37, St 36), (46, 46, St 472), (47, 47, Tr 486),
       (58, 58, Tr 487), (59, 59, St 470), (61, 61, St 470), (63, 63, Tr 488), (95, 95, St 470), (126, 126, St 470),
       (36, 45, St 470), (48, 57, St 486), (65, 90, St 470), (97, 122, St 470)] (St 0),
     Block 506 [Markh] 486]"

definition uri_13 :: "uri_action block list" where
  "uri_13 = [
     Case 486 False [(33, 33, St 470), (35, 35, Tr 485), (37, 37, St 36), (46, 46, St 472), (47, 47, Tr 486),
       (58, 58, Tr 487), (59, 59, St 470), (61, 61, St 470), (63, 63, Tr 488), (95, 95, St 470), (126, 126, St 470),
       (36, 45, St 470), (48, 57, St 471), (65, 90, St 470), (97, 122, St 470)] (St 0),
     Block 505 [Markh] 487,
     Case 487 False [(33, 33, St 470), (35, 35, Tr 485), (37, 37, St 36), (46, 46, St 472), (47, 47, Tr 486),
       (53, 53, St 488), (58, 58, Tr 487), (59, 59, St 470), (61, 61, St 470), (63, 63, Tr 488), (95, 95, St 470),
       (126, 126, St 470), (36, 45, St 470), (48, 57, St 471), (65, 90, St 470), (97, 122, St 470)] (St 0),
     Case 488 False [(33, 33, St 470), (35, 35, Tr 485), (37, 37, St 36), (46, 46, St 472), (47, 47, Tr 486),
       (58, 58, Tr 487), (61, 61, St 470), (63, 63, Tr 488), (95, 95, St 470), (126, 126, St 470), (36, 45, St 470),
       (48, 53, St 471), (54, 59, St 470), (65, 90, St 470), (97, 122, St 470)] (St 0),
     Block 484 [Markh] 38,
     Case 38 False [(58, 58, St 146), (118, 118, St 225), (48, 57, St 39), (65, 70, St 39), (97, 102, St 39)] (St 0),
     Case 39 False [(48, 57, St 40), (58, 58, St 43), (65, 70, St 40), (97, 102, St 40)] (St 0),
     Case 40 False [(48, 57, St 41), (58, 58, St 43), (65, 70, St 41), (97, 102, St 41)] (St 0)]"

definition uri_14 :: "uri_action block list" where
  "uri_14 = [
     Case 41 False [(48, 57, St 42), (58, 58, St 43), (65, 70, St 42), (97, 102, St 42)] (St 0),
     Case 42 False [(58, 58, St 43)] (St 0),
     Case 43 False [(48, 57, St 44), (58, 58, St 141), (65, 70, St 44), (97, 102, St 44)] (St 0),
     Case 44 False [(48, 57, St 45), (58, 58, St 48), (65, 70, St 45), (97, 102, St 45)] (St 0),
     Case 45 False [(48, 57, St 46), (58, 58, St 48), (65, 70, St 46), (97, 102, St 46)] (St 0),
     Case 46 False [(48, 57, St 47), (58, 58, St 48), (65, 70, St 47), (97, 102, St 47)] (St 0),
     Case 47 False [(58, 58, St 48)] (St 0),
     Case 48 False [(48, 57, St 49), (58, 58, St 136), (65, 70, St 49), (97, 102, St 49)] (St 0),
     Case 49 False [(48, 57, St 50), (58, 58, St 53), (65, 70, St 50), (97, 102, St 50)] (St 0),
     Case 50 False [(48, 57, St 51), (58, 58, St 53), (65, 70, St 51), (97, 102, St 51)] (St 0),
     Case 51 False [(48, 57, St 52), (58, 58, St 53), (65, 70, St 52), (97, 102, St 52)] (St 0)]"

definition uri_15 :: "uri_action block list" where
  "uri_15 = [
     Case 52 False [(58, 58, St 53)] (St 0),
     Case 53 False [(48, 57, St 54), (58, 58, St 131), (65, 70, St 54), (97, 102, St 54)] (St 0),
     Case 54 False [(48, 57, St 55), (58, 58, St 58), (65, 70, St 55), (97, 102, St 55)] (St 0),
     Case 55 False [(48, 57, St 56), (58, 58, St 58), (65, 70, St 56), (97, 102, St 56)] (St 0),
     Case 56 False [(48, 57, St 57), (58, 58, St 58), (65, 70, St 57), (97, 102, St 57)] (St 0),
     Case 57 False [(58, 58, St 58)] (St 0),
     Case 58 False [(48, 57, St 59), (58, 58, St 126), (65, 70, St 59), (97, 102, St 59)] (St 0),
     Case 59 False [(48, 57, St 60), (58, 58, St 63), (65, 70, St 60), (97, 102, St 60)] (St 0),
     Case 60 False [(48, 57, St 61), (58, 58, St 63), (65, 70, St 61), (97, 102, St 61)] (St 0),
     Case 61 False [(48, 57, St 62), (58, 58, St 63), (65, 70, St 62), (97, 102, St 62)] (St 0),
     Case 62 False [(58, 58, St 63)] (St 0)]"

definition uri_16 :: "uri_action block list" where
  "uri_16 = [
     Case 63 False [(48, 57, St 64), (58, 58, St 113), (65, 70, St 64), (97, 102, St 64)] (St 0),
     Case 64 False [(48, 57, St 65), (58, 58, St 68), (65, 70, St 65), (97, 102, St 65)] (St 0),
     Case 65 False [(48, 57, St 66), (58, 58, St 68), (65, 70, St 66), (97, 102, St 66)] (St 0),
     Case 66 False [(48, 57, St 67), (58, 58, St 68), (65, 70, St 67), (97, 102, St 67)] (St 0),
     Case 67 False [(58, 58, St 68)] (St 0),
     Case 68 False [(2, 2, St 69), (48, 48, St 96), (49, 49, St 104), (50, 50, St 107), (58, 58, St 111),
       (51, 57, St 110), (65, 70, St 112), (97, 102, St 112)] (St 0),
     Case 69 False [(48, 52, St 70)] (St 0),
     Case 70 False [(48, 57, St 71)] (St 0),
     Case 71 False [(46, 46, St 72)] (St 0),
     Case 72 False [(2, 2, St 73), (48, 48, St 75), (49, 49, St 92), (50, 50, St 94), (51, 57, St 93)] (St 0),
     Case 73 False [(48, 52, St 74)] (St 0),
     Case 74 False [(48, 57, St 75)] (St 0),
     Case 75 False [(46, 46, St 76)] (St 0)]"

definition uri_17 :: "uri_action block list" where
  "uri_17 = [
     Case 76 False [(2, 2, St 77), (48, 48, St 79), (49, 49, St 88), (50, 50, St 90), (51, 57, St 89)] (St 0),
     Case 77 False [(48, 52, St 78)] (St 0),
     Case 78 False [(48, 57, St 79)] (St 0),
     Case 79 False [(46, 46, St 80)] (St 0),
     Case 80 False [(2, 2, St 81), (48, 48, St 83), (49, 49, St 84), (50, 50, St 86), (51, 57, St 85)] (St 0),
     Case 81 False [(48, 52, St 82)] (St 0),
     Case 82 False [(48, 57, St 83)] (St 0),
     Case 83 False [(93, 93, St 460)] (St 0),
     Case 84 False [(48, 57, St 85), (93, 93, St 460)] (St 0),
     Case 85 False [(48, 57, St 83), (93, 93, St 460)] (St 0),
     Case 86 False [(53, 53, St 87), (93, 93, St 460), (48, 57, St 83)] (St 0),
     Case 87 False [(48, 53, St 83), (93, 93, St 460)] (St 0),
     Case 88 False [(46, 46, St 80), (48, 57, St 89)] (St 0),
     Case 89 False [(46, 46, St 80), (48, 57, St 79)] (St 0),
     Case 90 False [(46, 46, St 80), (53, 53, St 91), (48, 57, St 79)] (St 0),
     Case 91 False [(46, 46, St 80), (48, 53, St 79)] (St 0),
     Case 92 False [(46, 46, St 76), (48, 57, St 93)] (St 0)]"

definition uri_18 :: "uri_action block list" where
  "uri_18 = [
     Case 93 False [(46, 46, St 76), (48, 57, St 75)] (St 0),
     Case 94 False [(46, 46, St 76), (53, 53, St 95), (48, 57, St 75)] (St 0),
     Case 95 False [(46, 46, St 76), (48, 53, St 75)] (St 0),
     Case 96 False [(46, 46, St 72), (58, 58, St 100), (48, 57, St 97), (65, 70, St 97), (97, 102, St 97)] (St 0),
     Case 97 False [(48, 57, St 98), (58, 58, St 100), (65, 70, St 98), (97, 102, St 98)] (St 0),
     Case 98 False [(48, 57, St 99), (58, 58, St 100), (65, 70, St 99), (97, 102, St 99)] (St 0),
     Case 99 False [(58, 58, St 100)] (St 0),
     Case 100 False [(48, 57, St 101), (58, 58, St 83), (65, 70, St 101), (97, 102, St 101)] (St 0),
     Case 101 False [(48, 57, St 102), (65, 70, St 102), (93, 93, St 460), (97, 102, St 102)] (St 0),
     Case 102 False [(48, 57, St 103), (65, 70, St 103), (93, 93, St 460), (97, 102, St 103)] (St 0),
     Case 103 False [(48, 57, St 83), (65, 70, St 83), (93, 93, St 460), (97, 102, St 83)] (St 0)]"

definition uri_19 :: "uri_action block list" where
  "uri_19 = [
     Case 104 False [(46, 46, St 72), (58, 58, St 100), (48, 57, St 105), (65, 70, St 97), (97, 102, St 97)] (St 0),
     Case 105 False [(46, 46, St 72), (58, 58, St 100), (48, 57, St 106), (65, 70, St 98), (97, 102, St 98)] (St 0),
     Case 106 False [(46, 46, St 72), (58, 58, St 100), (48, 57, St 99), (65, 70, St 99), (97, 102, St 99)] (St 0),
     Case 107 False [(46, 46, St 72), (53, 53, St 109), (58, 58, St 100), (48, 57, St 108), (65, 70, St 97),
       (97, 102, St 97)] (St 0),
     Case 108 False [(46, 46, St 72), (58, 58, St 100), (48, 57, St 98), (65, 70, St 98), (97, 102, St 98)] (St 0),
     Case 109 False [(46, 46, St 72), (58, 58, St 100), (48, 53, St 106), (54, 57, St 98), (65, 70, St 98),
       (97, 102, St 98)] (St 0),
     Case 110 False [(46, 46, St 72), (58, 58, St 100), (48, 57, St 108), (65, 70, St 97), (97, 102, St 97)] (St 0),
     Case 111 False [(48, 57, St 101), (65, 70, St 101), (97, 102, St 101)] (St 0),
     Case 112 False [(48, 57, St 97), (58, 58, St 100), (65, 70, St 97), (97, 102, St 97)] (St 0)]"

definition uri_20 :: "uri_action block list" where
  "uri_20 = [
     Case 113 False [(2, 2, St 69), (48, 48, St 114), (49, 49, St 118), (50, 50, St 121), (51, 57, St 124),
       (65, 70, St 125), (97, 102, St 125)] (St 0),
     Case 114 False [(46, 46, St 72), (58, 58, St 111), (48, 57, St 115), (65, 70, St 115), (97, 102, St 115)] (St 0),
     Case 115 False [(48, 57, St 116), (58, 58, St 111), (65, 70, St 116), (97, 102, St 116)] (St 0),
     Case 116 False [(48, 57, St 117), (58, 58, St 111), (65, 70, St 117), (97, 102, St 117)] (St 0),
     Case 117 False [(58, 58, St 111)] (St 0),
     Case 118 False [(46, 46, St 72), (58, 58, St 111), (48, 57, St 119), (65, 70, St 115), (97, 102, St 115)] (St 0),
     Case 119 False [(46, 46, St 72), (58, 58, St 111), (48, 57, St 120), (65, 70, St 116), (97, 102, St 116)] (St 0),
     Case 120 False [(46, 46, St 72), (58, 58, St 111), (48, 57, St 117), (65, 70, St 117), (97, 102, St 117)] (St 0),
     Case 121 False [(46, 46, St 72), (53, 53, St 123), (58, 58, St 111), (48, 57, St 122), (65, 70, St 115),
       (97, 102, St 115)] (St 0)]"

definition uri_21 :: "uri_action block list" where
  "uri_21 = [
     Case 122 False [(46, 46, St 72), (58, 58, St 111), (48, 57, St 116), (65, 70, St 116), (97, 102, St 116)] (St 0),
     Case 123 False [(46, 46, St 72), (58, 58, St 111), (48, 53, St 120), (54, 57, St 116), (65, 70, St 116),
       (97, 102, St 116)] (St 0),
     Case 124 False [(46, 46, St 72), (58, 58, St 111), (48, 57, St 122), (65, 70, St 115), (97, 102, St 115)] (St 0),
     Case 125 False [(48, 57, St 115), (58, 58, St 111), (65, 70, St 115), (97, 102, St 115)] (St 0),
     Case 126 False [(48, 57, St 127), (65, 70, St 127), (97, 102, St 127)] (St 0),
     Case 127 False [(48, 57, St 128), (58, 58, St 113), (65, 70, St 128), (97, 102, St 128)] (St 0),
     Case 128 False [(48, 57, St 129), (58, 58, St 113), (65, 70, St 129), (97, 102, St 129)] (St 0),
     Case 129 False [(48, 57, St 130), (58, 58, St 113), (65, 70, St 130), (97, 102, St 130)] (St 0),
     Case 130 False [(58, 58, St 113)] (St 0),
     Case 131 False [(48, 57, St 132), (65, 70, St 132), (97, 102, St 132)] (St 0)]"

definition uri_22 :: "uri_action block list" where
  "uri_22 = [
     Case 132 False [(48, 57, St 133), (58, 58, St 126), (65, 70, St 133), (97, 102, St 133)] (St 0),
     Case 133 False [(48, 57, St 134), (58, 58, St 126), (65, 70, St 134), (97, 102, St 134)] (St 0),
     Case 134 False [(48, 57, St 135), (58, 58, St 126), (65, 70, St 135), (97, 102, St 135)] (St 0),
     Case 135 False [(58, 58, St 126)] (St 0),
     Case 136 False [(48, 57, St 137), (65, 70, St 137), (97, 102, St 137)] (St 0),
     Case 137 False [(48, 57, St 138), (58, 58, St 131), (65, 70, St 138), (97, 102, St 138)] (St 0),
     Case 138 False [(48, 57, St 139), (58, 58, St 131), (65, 70, St 139), (97, 102, St 139)] (St 0),
     Case 139 False [(48, 57, St 140), (58, 58, St 131), (65, 70, St 140), (97, 102, St 140)] (St 0),
     Case 140 False [(58, 58, St 131)] (St 0),
     Case 141 False [(48, 57, St 142), (65, 70, St 142), (97, 102, St 142)] (St 0),
     Case 142 False [(48, 57, St 143), (58, 58, St 136), (65, 70, St 143), (97, 102, St 143)] (St 0)]"

definition uri_23 :: "uri_action block list" where
  "uri_23 = [
     Case 143 False [(48, 57, St 144), (58, 58, St 136), (65, 70, St 144), (97, 102, St 144)] (St 0),
     Case 144 False [(48, 57, St 145), (58, 58, St 136), (65, 70, St 145), (97, 102, St 145)] (St 0),
     Case 145 False [(58, 58, St 136)] (St 0),
     Case 146 False [(58, 58, St 147)] (St 0),
     Case 147 False [(2, 2, St 69), (48, 48, St 148), (49, 49, St 217), (50, 50, St 220), (93, 93, St 460),
       (51, 57, St 223), (65, 70, St 224), (97, 102, St 224)] (St 0),
     Case 148 False [(46, 46, St 72), (58, 58, St 152), (93, 93, St 460), (48, 57, St 149), (65, 70, St 149),
       (97, 102, St 149)] (St 0),
     Case 149 False [(58, 58, St 152), (93, 93, St 460), (48, 57, St 150), (65, 70, St 150), (97, 102, St 150)] (St 0),
     Case 150 False [(58, 58, St 152), (93, 93, St 460), (48, 57, St 151), (65, 70, St 151), (97, 102, St 151)] (St 0),
     Case 151 False [(58, 58, St 152), (93, 93, St 460)] (St 0),
     Case 152 False [(2, 2, St 69), (48, 48, St 153), (49, 49, St 209), (50, 50, St 212), (51, 57, St 215),
       (65, 70, St 216), (97, 102, St 216)] (St 0)]"

definition uri_24 :: "uri_action block list" where
  "uri_24 = [
     Case 153 False [(46, 46, St 72), (58, 58, St 157), (93, 93, St 460), (48, 57, St 154), (65, 70, St 154),
       (97, 102, St 154)] (St 0),
     Case 154 False [(58, 58, St 157), (93, 93, St 460), (48, 57, St 155), (65, 70, St 155), (97, 102, St 155)] (St 0),
     Case 155 False [(58, 58, St 157), (93, 93, St 460), (48, 57, St 156), (65, 70, St 156), (97, 102, St 156)] (St 0),
     Case 156 False [(58, 58, St 157), (93, 93, St 460)] (St 0),
     Case 157 False [(2, 2, St 69), (48, 48, St 158), (49, 49, St 201), (50, 50, St 204), (51, 57, St 207),
       (65, 70, St 208), (97, 102, St 208)] (St 0),
     Case 158 False [(46, 46, St 72), (58, 58, St 162), (93, 93, St 460), (48, 57, St 159), (65, 70, St 159),
       (97, 102, St 159)] (St 0),
     Case 159 False [(58, 58, St 162), (93, 93, St 460), (48, 57, St 160), (65, 70, St 160), (97, 102, St 160)] (St 0),
     Case 160 False [(58, 58, St 162), (93, 93, St 460), (48, 57, St 161), (65, 70, St 161), (97, 102, St 161)] (St 0),
     Case 161 False [(58, 58, St 162), (93, 93, St 460)] (St 0)]"

definition uri_25 :: "uri_action block list" where
  "uri_25 = [
     Case 162 False [(2, 2, St 69), (48, 48, St 163), (49, 49, St 193), (50, 50, St 196), (51, 57, St 199),
       (65, 70, St 200), (97, 102, St 200)] (St 0),
     Case 163 False [(46, 46, St 72), (58, 58, St 167), (93, 93, St 460), (48, 57, St 164), (65, 70, St 164),
       (97, 102, St 164)] (St 0),
     Case 164 False [(58, 58, St 167), (93, 93, St 460), (48, 57, St 165), (65, 70, St 165), (97, 102, St 165)] (St 0),
     Case 165 False [(58, 58, St 167), (93, 93, St 460), (48, 57, St 166), (65, 70, St 166), (97, 102, St 166)] (St 0),
     Case 166 False [(58, 58, St 167), (93, 93, St 460)] (St 0),
     Case 167 False [(2, 2, St 69), (48, 48, St 168), (49, 49, St 185), (50, 50, St 188), (51, 57, St 191),
       (65, 70, St 192), (97, 102, St 192)] (St 0),
     Case 168 False [(46, 46, St 72), (58, 58, St 172), (93, 93, St 460), (48, 57, St 169), (65, 70, St 169),
       (97, 102, St 169)] (St 0),
     Case 169 False [(58, 58, St 172), (93, 93, St 460), (48, 57, St 170), (65, 70, St 170), (97, 102, St 170)] (St 0),
     Case 170 False [(58, 58, St 172), (93, 93, St 460), (48, 57, St 171), (65, 70, St 171), (97, 102, St 171)] (St 0)]"

definition uri_26 :: "uri_action block list" where
  "uri_26 = [
     Case 171 False [(58, 58, St 172), (93, 93, St 460)] (St 0),
     Case 172 False [(2, 2, St 69), (48, 48, St 173), (49, 49, St 177), (50, 50, St 180), (51, 57, St 183),
       (65, 70, St 184), (97, 102, St 184)] (St 0),
     Case 173 False [(46, 46, St 72), (58, 58, St 111), (93, 93, St 460), (48, 57, St 174), (65, 70, St 174),
       (97, 102, St 174)] (St 0),
     Case 174 False [(58, 58, St 111), (93, 93, St 460), (48, 57, St 175), (65, 70, St 175), (97, 102, St 175)] (St 0),
     Case 175 False [(58, 58, St 111), (93, 93, St 460), (48, 57, St 176), (65, 70, St 176), (97, 102, St 176)] (St 0),
     Case 176 False [(58, 58, St 111), (93, 93, St 460)] (St 0),
     Case 177 False [(46, 46, St 72), (58, 58, St 111), (93, 93, St 460), (48, 57, St 178), (65, 70, St 174),
       (97, 102, St 174)] (St 0),
     Case 178 False [(46, 46, St 72), (58, 58, St 111), (93, 93, St 460), (48, 57, St 179), (65, 70, St 175),
       (97, 102, St 175)] (St 0),
     Case 179 False [(46, 46, St 72), (58, 58, St 111), (93, 93, St 460), (48, 57, St 176), (65, 70, St 176),
       (97, 102, St 176)] (St 0)]"

definition uri_27 :: "uri_action block list" where
  "uri_27 = [
     Case 180 False [(46, 46, St 72), (53, 53, St 182), (58, 58, St 111), (93, 93, St 460), (48, 57, St 181),
       (65, 70, St 174), (97, 102, St 174)] (St 0),
     Case 181 False [(46, 46, St 72), (58, 58, St 111), (93, 93, St 460), (48, 57, St 175), (65, 70, St 175),
       (97, 102, St 175)] (St 0),
     Case 182 False [(46, 46, St 72), (58, 58, St 111), (93, 93, St 460), (48, 53, St 179), (54, 57, St 175),
       (65, 70, St 175), (97, 102, St 175)] (St 0),
     Case 183 False [(46, 46, St 72), (58, 58, St 111), (93, 93, St 460), (48, 57, St 181), (65, 70, St 174),
       (97, 102, St 174)] (St 0),
     Case 184 False [(58, 58, St 111), (93, 93, St 460), (48, 57, St 174), (65, 70, St 174), (97, 102, St 174)] (St 0),
     Case 185 False [(46, 46, St 72), (58, 58, St 172), (93, 93, St 460), (48, 57, St 186), (65, 70, St 169),
       (97, 102, St 169)] (St 0),
     Case 186 False [(46, 46, St 72), (58, 58, St 172), (93, 93, St 460), (48, 57, St 187), (65, 70, St 170),
       (97, 102, St 170)] (St 0),
     Case 187 False [(46, 46, St 72), (58, 58, St 172), (93, 93, St 460), (48, 57, St 171), (65, 70, St 171),
       (97, 102, St 171)] (St 0)]"

definition uri_28 :: "uri_action block list" where
  "uri_28 = [
     Case 188 False [(46, 46, St 72), (53, 53, St 190), (58, 58, St 172), (93, 93, St 460), (48, 57, St 189),
       (65, 70, St 169), (97, 102, St 169)] (St 0),
     Case 189 False [(46, 46, St 72), (58, 58, St 172), (93, 93, St 460), (48, 57, St 170), (65, 70, St 170),
       (97, 102, St 170)] (St 0),
     Case 190 False [(46, 46, St 72), (58, 58, St 172), (93, 93, St 460), (48, 53, St 187), (54, 57, St 170),
       (65, 70, St 170), (97, 102, St 170)] (St 0),
     Case 191 False [(46, 46, St 72), (58, 58, St 172), (93, 93, St 460), (48, 57, St 189), (65, 70, St 169),
       (97, 102, St 169)] (St 0),
     Case 192 False [(58, 58, St 172), (93, 93, St 460), (48, 57, St 169), (65, 70, St 169), (97, 102, St 169)] (St 0),
     Case 193 False [(46, 46, St 72), (58, 58, St 167), (93, 93, St 460), (48, 57, St 194), (65, 70, St 164),
       (97, 102, St 164)] (St 0),
     Case 194 False [(46, 46, St 72), (58, 58, St 167), (93, 93, St 460), (48, 57, St 195), (65, 70, St 165),
       (97, 102, St 165)] (St 0),
     Case 195 False [(46, 46, St 72), (58, 58, St 167), (93, 93, St 460), (48, 57, St 166), (65, 70, St 166),
       (97, 102, St 166)] (St 0)]"

definition uri_29 :: "uri_action block list" where
  "uri_29 = [
     Case 196 False [(46, 46, St 72), (53, 53, St 198), (58, 58, St 167), (93, 93, St 460), (48, 57, St 197),
       (65, 70, St 164), (97, 102, St 164)] (St 0),
     Case 197 False [(46, 46, St 72), (58, 58, St 167), (93, 93, St 460), (48, 57, St 165), (65, 70, St 165),
       (97, 102, St 165)] (St 0),
     Case 198 False [(46, 46, St 72), (58, 58, St 167), (93, 93, St 460), (48, 53, St 195), (54, 57, St 165),
       (65, 70, St 165), (97, 102, St 165)] (St 0),
     Case 199 False [(46, 46, St 72), (58, 58, St 167), (93, 93, St 460), (48, 57, St 197), (65, 70, St 164),
       (97, 102, St 164)] (St 0),
     Case 200 False [(58, 58, St 167), (93, 93, St 460), (48, 57, St 164), (65, 70, St 164), (97, 102, St 164)] (St 0),
     Case 201 False [(46, 46, St 72), (58, 58, St 162), (93, 93, St 460), (48, 57, St 202), (65, 70, St 159),
       (97, 102, St 159)] (St 0),
     Case 202 False [(46, 46, St 72), (58, 58, St 162), (93, 93, St 460), (48, 57, St 203), (65, 70, St 160),
       (97, 102, St 160)] (St 0),
     Case 203 False [(46, 46, St 72), (58, 58, St 162), (93, 93, St 460), (48, 57, St 161), (65, 70, St 161),
       (97, 102, St 161)] (St 0)]"

definition uri_30 :: "uri_action block list" where
  "uri_30 = [
     Case 204 False [(46, 46, St 72), (53, 53, St 206), (58, 58, St 162), (93, 93, St 460), (48, 57, St 205),
       (65, 70, St 159), (97, 102, St 159)] (St 0),
     Case 205 False [(46, 46, St 72), (58, 58, St 162), (93, 93, St 460), (48, 57, St 160), (65, 70, St 160),
       (97, 102, St 160)] (St 0),
     Case 206 False [(46, 46, St 72), (58, 58, St 162), (93, 93, St 460), (48, 53, St 203), (54, 57, St 160),
       (65, 70, St 160), (97, 102, St 160)] (St 0),
     Case 207 False [(46, 46, St 72), (58, 58, St 162), (93, 93, St 460), (48, 57, St 205), (65, 70, St 159),
       (97, 102, St 159)] (St 0),
     Case 208 False [(58, 58, St 162), (93, 93, St 460), (48, 57, St 159), (65, 70, St 159), (97, 102, St 159)] (St 0),
     Case 209 False [(46, 46, St 72), (58, 58, St 157), (93, 93, St 460), (48, 57, St 210), (65, 70, St 154),
       (97, 102, St 154)] (St 0),
     Case 210 False [(46, 46, St 72), (58, 58, St 157), (93, 93, St 460), (48, 57, St 211), (65, 70, St 155),
       (97, 102, St 155)] (St 0),
     Case 211 False [(46, 46, St 72), (58, 58, St 157), (93, 93, St 460), (48, 57, St 156), (65, 70, St 156),
       (97, 102, St 156)] (St 0)]"

definition uri_31 :: "uri_action block list" where
  "uri_31 = [
     Case 212 False [(46, 46, St 72), (53, 53, St 214), (58, 58, St 157), (93, 93, St 460), (48, 57, St 213),
       (65, 70, St 154), (97, 102, St 154)] (St 0),
     Case 213 False [(46, 46, St 72), (58, 58, St 157), (93, 93, St 460), (48, 57, St 155), (65, 70, St 155),
       (97, 102, St 155)] (St 0),
     Case 214 False [(46, 46, St 72), (58, 58, St 157), (93, 93, St 460), (48, 53, St 211), (54, 57, St 155),
       (65, 70, St 155), (97, 102, St 155)] (St 0),
     Case 215 False [(46, 46, St 72), (58, 58, St 157), (93, 93, St 460), (48, 57, St 213), (65, 70, St 154),
       (97, 102, St 154)] (St 0),
     Case 216 False [(58, 58, St 157), (93, 93, St 460), (48, 57, St 154), (65, 70, St 154), (97, 102, St 154)] (St 0),
     Case 217 False [(46, 46, St 72), (58, 58, St 152), (93, 93, St 460), (48, 57, St 218), (65, 70, St 149),
       (97, 102, St 149)] (St 0),
     Case 218 False [(46, 46, St 72), (58, 58, St 152), (93, 93, St 460), (48, 57, St 219), (65, 70, St 150),
       (97, 102, St 150)] (St 0),
     Case 219 False [(46, 46, St 72), (58, 58, St 152), (93, 93, St 460), (48, 57, St 151), (65, 70, St 151),
       (97, 102, St 151)] (St 0)]"

definition uri_32 :: "uri_action block list" where
  "uri_32 = [
     Case 220 False [(46, 46, St 72), (53, 53, St 222), (58, 58, St 152), (93, 93, St 460), (48, 57, St 221),
       (65, 70, St 149), (97, 102, St 149)] (St 0),
     Case 221 False [(46, 46, St 72), (58, 58, St 152), (93, 93, St 460), (48, 57, St 150), (65, 70, St 150),
       (97, 102, St 150)] (St 0),
     Case 222 False [(46, 46, St 72), (58, 58, St 152), (93, 93, St 460), (48, 53, St 219), (54, 57, St 150),
       (65, 70, St 150), (97, 102, St 150)] (St 0),
     Case 223 False [(46, 46, St 72), (58, 58, St 152), (93, 93, St 460), (48, 57, St 221), (65, 70, St 149),
       (97, 102, St 149)] (St 0),
     Case 224 False [(58, 58, St 152), (93, 93, St 460), (48, 57, St 149), (65, 70, St 149), (97, 102, St 149)] (St 0),
     Case 225 False [(48, 57, St 226), (65, 70, St 226), (97, 102, St 226)] (St 0),
     Case 226 False [(46, 46, St 227), (48, 57, St 226), (65, 70, St 226), (97, 102, St 226)] (St 0),
     Case 227 False [(33, 33, St 228), (36, 36, St 228), (61, 61, St 228), (95, 95, St 228), (126, 126, St 228),
       (38, 46, St 228), (48, 59, St 228), (65, 90, St 228), (97, 122, St 228)] (St 0)]"

definition uri_33 :: "uri_action block list" where
  "uri_33 = [
     Case 228 False [(33, 33, St 228), (36, 36, St 228), (61, 61, St 228), (93, 93, St 460), (95, 95, St 228),
       (126, 126, St 228), (38, 46, St 228), (48, 59, St 228), (65, 90, St 228), (97, 122, St 228)] (St 0),
     Block 500 [Markh] 489,
     Case 489 False [(33, 33, St 33), (35, 35, Tr 493), (37, 37, St 34), (47, 47, Tr 494), (61, 61, St 33),
       (63, 63, Tr 496), (64, 64, Tr 38), (95, 95, St 33), (126, 126, St 33), (36, 46, St 33), (48, 57, St 489),
       (58, 59, St 33), (65, 90, St 33), (97, 122, St 33)] (St 0),
     Block 477 [Markh] 490,
     Case 490 False [(33, 33, St 467), (35, 35, Tr 485), (37, 37, St 31), (46, 46, St 491), (47, 47, Tr 486),
       (58, 58, Tr 499), (61, 61, St 467), (63, 63, Tr 488), (64, 64, Tr 38), (95, 95, St 467), (126, 126, St 467),
       (36, 59, St 467), (65, 90, St 467), (97, 122, St 467)] (St 0),
     Case 491 False [(2, 2, St 13), (33, 33, St 467), (35, 35, Tr 485), (37, 37, St 31), (47, 47, Tr 486),
       (48, 48, St 492), (49, 49, St 500), (50, 50, St 502), (58, 58, Tr 499), (59, 59, St 467), (61, 61, St 467),
       (63, 63, Tr 488), (64, 64, Tr 38), (95, 95, St 467), (126, 126, St 467), (36, 46, St 467), (51, 57, St 501),
       (65, 90, St 467), (97, 122, St 467)] (St 0),
     Case 492 False [(33, 33, St 467), (35, 35, Tr 485), (37, 37, St 31), (46, 46, St 493), (47, 47, Tr 486),
       (58, 58, Tr 499), (61, 61, St 467), (63, 63, Tr 488), (64, 64, Tr 38), (95, 95, St 467), (126, 126, St 467),
       (36, 59, St 467), (65, 90, St 467), (97, 122, St 467)] (St 0)]"

definition uri_34 :: "uri_action block list" where
  "uri_34 = [
     Case 493 False [(2, 2, St 17), (33, 33, St 467), (35, 35, Tr 485), (37, 37, St 31), (47, 47, Tr 486),
       (48, 48, St 494), (49, 49, St 496), (50, 50, St 498), (58, 58, Tr 499), (59, 59, St 467), (61, 61, St 467),
       (63, 63, Tr 488), (64, 64, Tr 38), (95, 95, St 467), (126, 126, St 467), (36, 46, St 467), (51, 57, St 497),
       (65, 90, St 467), (97, 122, St 467)] (St 0),
     Case 494 False [(33, 33, St 467), (35, 35, Tr 485), (37, 37, St 31), (46, 46, St 495), (47, 47, Tr 486),
       (58, 58, Tr 499), (61, 61, St 467), (63, 63, Tr 488), (64, 64, Tr 38), (95, 95, St 467), (126, 126, St 467),
       (36, 59, St 467), (65, 90, St 467), (97, 122, St 467)] (St 0),
     Case 495 False [(2, 2, St 21), (33, 33, St 467), (35, 35, Tr 485), (37, 37, St 31), (47, 47, Tr 486),
       (58, 58, Tr 499), (61, 61, St 467), (63, 63, Tr 488), (64, 64, Tr 38), (95, 95, St 467), (126, 126, St 467),
       (36, 59, St 467), (65, 90, St 467), (97, 122, St 467)] (St 0),
     Case 496 False [(33, 33, St 467), (35, 35, Tr 485), (37, 37, St 31), (46, 46, St 495), (47, 47, Tr 486),
       (58, 58, Tr 499), (59, 59, St 467), (61, 61, St 467), (63, 63, Tr 488), (64, 64, Tr 38), (95, 95, St 467),
       (126, 126, St 467), (36, 45, St 467), (48, 57, St 497), (65, 90, St 467), (97, 122, St 467)] (St 0),
     Case 497 False [(33, 33, St 467), (35, 35, Tr 485), (37, 37, St 31), (46, 46, St 495), (47, 47, Tr 486),
       (58, 58, Tr 499), (59, 59, St 467), (61, 61, St 467), (63, 63, Tr 488), (64, 64, Tr 38), (95, 95, St 467),
       (126, 126, St 467), (36, 45, St 467), (48, 57, St 494), (65, 90, St 467), (97, 122, St 467)] (St 0)]"

definition uri_35 :: "uri_action block list" where
  "uri_35 = [
     Case 498 False [(33, 33, St 467), (35, 35, Tr 485), (37, 37, St 31), (46, 46, St 495), (47, 47, Tr 486),
       (53, 53, St 499), (58, 58, Tr 499), (59, 59, St 467), (61, 61, St 467), (63, 63, Tr 488), (64, 64, Tr 38),
       (95, 95, St 467), (126, 126, St 467), (36, 45, St 467), (48, 57, St 494), (65, 90, St 467),
       (97, 122, St 467)] (St 0),
     Case 499 False [(33, 33, St 467), (35, 35, Tr 485), (37, 37, St 31), (46, 46, St 495), (47, 47, Tr 486),
       (58, 58, Tr 499), (61, 61, St 467), (63, 63, Tr 488), (64, 64, Tr 38), (95, 95, St 467), (126, 126, St 467),
       (36, 45, St 467), (48, 53, St 494), (54, 59, St 467), (65, 90, St 467), (97, 122, St 467)] (St 0),
     Case 500 False [(33, 33, St 467), (35, 35, Tr 485), (37, 37, St 31), (46, 46, St 493), (47, 47, Tr 486),
       (58, 58, Tr 499), (59, 59, St 467), (61, 61, St 467), (63, 63, Tr 488), (64, 64, Tr 38), (95, 95, St 467),
       (126, 126, St 467), (36, 45, St 467), (48, 57, St 501), (65, 90, St 467), (97, 122, St 467)] (St 0),
     Case 501 False [(33, 33, St 467), (35, 35, Tr 485), (37, 37, St 31), (46, 46, St 493), (47, 47, Tr 486),
       (58, 58, Tr 499), (59, 59, St 467), (61, 61, St 467), (63, 63, Tr 488), (64, 64, Tr 38), (95, 95, St 467),
       (126, 126, St 467), (36, 45, St 467), (48, 57, St 492), (65, 90, St 467), (97, 122, St 467)] (St 0)]"

definition uri_36 :: "uri_action block list" where
  "uri_36 = [
     Case 502 False [(33, 33, St 467), (35, 35, Tr 485), (37, 37, St 31), (46, 46, St 493), (47, 47, Tr 486),
       (53, 53, St 503), (58, 58, Tr 499), (59, 59, St 467), (61, 61, St 467), (63, 63, Tr 488), (64, 64, Tr 38),
       (95, 95, St 467), (126, 126, St 467), (36, 45, St 467), (48, 57, St 492), (65, 90, St 467),
       (97, 122, St 467)] (St 0),
     Case 503 False [(33, 33, St 467), (35, 35, Tr 485), (37, 37, St 31), (46, 46, St 493), (47, 47, Tr 486),
       (58, 58, Tr 499), (61, 61, St 467), (63, 63, Tr 488), (64, 64, Tr 38), (95, 95, St 467), (126, 126, St 467),
       (36, 45, St 467), (48, 53, St 492), (54, 59, St 467), (65, 90, St 467), (97, 122, St 467)] (St 0),
     Block 478 [Markh] 504,
     Case 504 False [(33, 33, St 467), (35, 35, Tr 485), (37, 37, St 31), (46, 46, St 491), (47, 47, Tr 486),
       (58, 58, Tr 499), (59, 59, St 467), (61, 61, St 467), (63, 63, Tr 488), (64, 64, Tr 38), (95, 95, St 467),
       (126, 126, St 467), (36, 45, St 467), (48, 57, St 505), (65, 90, St 467), (97, 122, St 467)] (St 0),
     Block 480 [Markh] 505,
     Case 505 False [(33, 33, St 467), (35, 35, Tr 485), (37, 37, St 31), (46, 46, St 491), (47, 47, Tr 486),
       (58, 58, Tr 499), (59, 59, St 467), (61, 61, St 467), (63, 63, Tr 488), (64, 64, Tr 38), (95, 95, St 467),
       (126, 126, St 467), (36, 45, St 467), (48, 57, St 490), (65, 90, St 467), (97, 122, St 467)] (St 0),
     Block 479 [Markh] 506]"

definition uri_37 :: "uri_action block list" where
  "uri_37 = [
     Case 506 False [(33, 33, St 467), (35, 35, Tr 485), (37, 37, St 31), (46, 46, St 491), (47, 47, Tr 486),
       (53, 53, St 507), (58, 58, Tr 499), (59, 59, St 467), (61, 61, St 467), (63, 63, Tr 488), (64, 64, Tr 38),
       (95, 95, St 467), (126, 126, St 467), (36, 45, St 467), (48, 57, St 490), (65, 90, St 467),
       (97, 122, St 467)] (St 0),
     Case 507 False [(33, 33, St 467), (35, 35, Tr 485), (37, 37, St 31), (46, 46, St 491), (47, 47, Tr 486),
       (58, 58, Tr 499), (61, 61, St 467), (63, 63, Tr 488), (64, 64, Tr 38), (95, 95, St 467), (126, 126, St 467),
       (36, 45, St 467), (48, 53, St 490), (54, 59, St 467), (65, 90, St 467), (97, 122, St 467)] (St 0),
     Block 461 [Marku] 508,
     Case 508 False [(34, 34, St 0), (35, 35, St 453), (37, 37, St 3), (43, 43, St 508), (47, 47, St 455),
       (58, 58, Tr 543), (60, 60, St 0), (62, 62, St 0), (63, 63, St 456), (96, 96, St 0), (127, 127, St 0),
       (0, 32, St 0), (45, 57, St 508), (65, 90, St 508), (91, 94, St 0), (97, 122, St 508), (123, 125, St 0)] (St 452),
     Block 543 [Save_scheme] 509,
     Case 509 False [(34, 34, St 0), (35, 35, St 453), (37, 37, St 5), (47, 47, St 510), (60, 60, St 0), (62, 62, St 0),
       (63, 63, St 456), (96, 96, St 0), (127, 127, St 0), (0, 32, St 0), (91, 94, St 0), (123, 125, St 0)] (St 455)]"

definition uri_38 :: "uri_action block list" where
  "uri_38 = [
     Case 510 False [(34, 34, St 0), (35, 35, St 453), (37, 37, St 5), (47, 47, St 511), (60, 60, St 0), (62, 62, St 0),
       (63, 63, St 456), (96, 96, St 0), (127, 127, St 0), (0, 32, St 0), (91, 94, St 0), (123, 125, St 0)] (St 455),
     Case 511 False [(2, 2, Tr 546), (33, 33, Tr 547), (35, 35, Tr 548), (37, 37, Tr 549), (47, 47, Tr 550),
       (48, 48, Tr 551), (49, 49, Tr 552), (50, 50, Tr 553), (58, 58, Tr 555), (59, 59, Tr 547), (61, 61, Tr 547),
       (63, 63, Tr 556), (64, 64, Tr 557), (91, 91, Tr 558), (95, 95, Tr 547), (126, 126, Tr 547), (36, 46, Tr 547),
       (51, 57, Tr 554), (65, 90, Tr 547), (97, 122, Tr 547)] (St 0),
     Block 546 [Markh] 229,
     Case 229 False [(48, 52, St 230)] (St 0),
     Case 230 False [(48, 57, St 231)] (St 0),
     Case 231 False [(46, 46, St 232)] (St 0),
     Case 232 False [(2, 2, St 233), (48, 48, St 235), (49, 49, St 249), (50, 50, St 251), (51, 57, St 250)] (St 0),
     Case 233 False [(48, 52, St 234)] (St 0),
     Case 234 False [(48, 57, St 235)] (St 0),
     Case 235 False [(46, 46, St 236)] (St 0),
     Case 236 False [(2, 2, St 237), (48, 48, St 239), (49, 49, St 245), (50, 50, St 247), (51, 57, St 246)] (St 0),
     Case 237 False [(48, 52, St 238)] (St 0),
     Case 238 False [(48, 57, St 239)] (St 0),
     Case 239 False [(46, 46, St 240)] (St 0)]"

definition uri_39 :: "uri_action block list" where
  "uri_39 = [
     Case 240 False [(2, 2, St 241), (48, 48, St 512), (49, 49, St 516), (50, 50, St 518), (51, 57, St 517)] (St 0),
     Case 241 False [(48, 52, St 242)] (St 0),
     Case 242 False [(48, 57, St 512)] (St 0),
     Case 512 False [(35, 35, Tr 559), (47, 47, Tr 560), (58, 58, Tr 561), (63, 63, Tr 562)] (St 0),
     Block 550 [Markh, Save_host] 513,
     Block 567 [Markh, Save_port] 513,
     Block 560 [Save_host, Markh] 513,
     Block 571 [Save_port, Markh] 513,
     Case 513 False [(34, 34, St 0), (35, 35, Tr 563), (37, 37, St 243), (60, 60, St 0), (62, 62, St 0),
       (63, 63, Tr 565), (96, 96, St 0), (127, 127, St 0), (0, 32, St 0), (91, 94, St 0), (123, 125, St 0)] (St 513),
     Case 243 False [(48, 57, St 244), (65, 70, St 244), (97, 102, St 244)] (St 0),
     Case 244 False [(48, 57, St 513), (65, 70, St 513), (97, 102, St 513)] (St 0),
     Block 584 [Markh, Save_host] 514]"

definition uri_40 :: "uri_action block list" where
  "uri_40 = [
     Block 561 [Save_host] 514,
     Case 514 False [(35, 35, Tr 566), (47, 47, Tr 567), (63, 63, Tr 569), (48, 57, Tr 568)] (St 0),
     Block 568 [Markh] 515,
     Case 515 False [(35, 35, Tr 570), (47, 47, Tr 571), (63, 63, Tr 573), (48, 57, St 515)] (St 0),
     Case 516 False [(35, 35, Tr 559), (47, 47, Tr 560), (58, 58, Tr 561), (63, 63, Tr 562), (48, 57, St 517)] (St 0),
     Case 517 False [(35, 35, Tr 559), (47, 47, Tr 560), (58, 58, Tr 561), (63, 63, Tr 562), (48, 57, St 512)] (St 0),
     Case 518 False [(35, 35, Tr 559), (47, 47, Tr 560), (53, 53, St 519), (58, 58, Tr 561), (63, 63, Tr 562),
       (48, 57, St 512)] (St 0),
     Case 519 False [(35, 35, Tr 559), (47, 47, Tr 560), (58, 58, Tr 561), (63, 63, Tr 562), (48, 53, St 512)] (St 0),
     Case 245 False [(46, 46, St 240), (48, 57, St 246)] (St 0),
     Case 246 False [(46, 46, St 240), (48, 57, St 239)] (St 0),
     Case 247 False [(46, 46, St 240), (53, 53, St 248), (48, 57, St 239)] (St 0),
     Case 248 False [(46, 46, St 240), (48, 53, St 239)] (St 0),
     Case 249 False [(46, 46, St 236), (48, 57, St 250)] (St 0),
     Case 250 False [(46, 46, St 236), (48, 57, St 235)] (St 0)]"

definition uri_41 :: "uri_action block list" where
  "uri_41 = [
     Case 251 False [(46, 46, St 236), (53, 53, St 252), (48, 57, St 235)] (St 0),
     Case 252 False [(46, 46, St 236), (48, 53, St 235)] (St 0),
     Block 547 [Markh] 520,
     Case 520 False [(33, 33, St 520), (35, 35, Tr 559), (37, 37, St 253), (47, 47, Tr 560), (58, 58, Tr 576),
       (61, 61, St 520), (63, 63, Tr 562), (64, 64, Tr 263), (95, 95, St 520), (126, 126, St 520), (36, 59, St 520),
       (65, 90, St 520), (97, 122, St 520)] (St 0),
     Block 549 [Markh] 253,
     Case 253 False [(48, 57, St 254), (65, 70, St 254), (97, 102, St 254)] (St 0),
     Case 254 False [(48, 57, St 520), (65, 70, St 520), (97, 102, St 520)] (St 0),
     Block 555 [Markh, Save_host] 521,
     Block 576 [Save_host] 521,
     Case 521 False [(33, 33, St 255), (35, 35, Tr 566), (37, 37, St 256), (47, 47, Tr 567), (61, 61, St 255),
       (63, 63, Tr 569), (64, 64, Tr 263), (95, 95, St 255), (126, 126, St 255), (36, 46, St 255), (48, 57, Tr 577),
       (58, 59, St 255), (65, 90, St 255), (97, 122, St 255)] (St 0)]"

definition uri_42 :: "uri_action block list" where
  "uri_42 = [
     Case 255 False [(33, 33, St 255), (37, 37, St 256), (61, 61, St 255), (64, 64, Tr 263), (95, 95, St 255),
       (126, 126, St 255), (36, 46, St 255), (48, 59, St 255), (65, 90, St 255), (97, 122, St 255)] (St 0),
     Case 256 False [(48, 57, St 257), (65, 70, St 257), (97, 102, St 257)] (St 0),
     Case 257 False [(48, 57, St 255), (65, 70, St 255), (97, 102, St 255)] (St 0),
     Block 263 [Save_userinfo] 522,
     Block 557 [Markh, Save_userinfo] 522,
     Case 522 False [(2, 2, Tr 546), (33, 33, Tr 578), (35, 35, Tr 548), (37, 37, Tr 579), (47, 47, Tr 550),
       (48, 48, Tr 580), (49, 49, Tr 581), (50, 50, Tr 582), (58, 58, Tr 584), (59, 59, Tr 578), (61, 61, Tr 578),
       (63, 63, Tr 556), (91, 91, Tr 558), (95, 95, Tr 578), (126, 126, Tr 578), (36, 46, Tr 578), (51, 57, Tr 583),
       (65, 90, Tr 578), (97, 122, Tr 578)] (St 0),
     Block 578 [Markh] 523,
     Case 523 False [(33, 33, St 523), (35, 35, Tr 559), (37, 37, St 258), (47, 47, Tr 560), (58, 58, Tr 561),
       (61, 61, St 523), (63, 63, Tr 562), (95, 95, St 523), (126, 126, St 523), (36, 59, St 523), (65, 90, St 523),
       (97, 122, St 523)] (St 0),
     Block 579 [Markh] 258,
     Case 258 False [(48, 57, St 259), (65, 70, St 259), (97, 102, St 259)] (St 0)]"

definition uri_43 :: "uri_action block list" where
  "uri_43 = [
     Case 259 False [(48, 57, St 523), (65, 70, St 523), (97, 102, St 523)] (St 0),
     Block 580 [Markh] 524,
     Case 524 False [(33, 33, St 523), (35, 35, Tr 559), (37, 37, St 258), (46, 46, St 525), (47, 47, Tr 560),
       (58, 58, Tr 561), (61, 61, St 523), (63, 63, Tr 562), (95, 95, St 523), (126, 126, St 523), (36, 59, St 523),
       (65, 90, St 523), (97, 122, St 523)] (St 0),
     Case 525 False [(2, 2, St 233), (33, 33, St 523), (35, 35, Tr 559), (37, 37, St 258), (47, 47, Tr 560),
       (48, 48, St 526), (49, 49, St 534), (50, 50, St 536), (58, 58, Tr 561), (59, 59, St 523), (61, 61, St 523),
       (63, 63, Tr 562), (95, 95, St 523), (126, 126, St 523), (36, 46, St 523), (51, 57, St 535), (65, 90, St 523),
       (97, 122, St 523)] (St 0),
     Case 526 False [(33, 33, St 523), (35, 35, Tr 559), (37, 37, St 258), (46, 46, St 527), (47, 47, Tr 560),
       (58, 58, Tr 561), (61, 61, St 523), (63, 63, Tr 562), (95, 95, St 523), (126, 126, St 523), (36, 59, St 523),
       (65, 90, St 523), (97, 122, St 523)] (St 0),
     Case 527 False [(2, 2, St 237), (33, 33, St 523), (35, 35, Tr 559), (37, 37, St 258), (47, 47, Tr 560),
       (48, 48, St 528), (49, 49, St 530), (50, 50, St 532), (58, 58, Tr 561), (59, 59, St 523), (61, 61, St 523),
       (63, 63, Tr 562), (95, 95, St 523), (126, 126, St 523), (36, 46, St 523), (51, 57, St 531), (65, 90, St 523),
       (97, 122, St 523)] (St 0)]"

definition uri_44 :: "uri_action block list" where
  "uri_44 = [
     Case 528 False [(33, 33, St 523), (35, 35, Tr 559), (37, 37, St 258), (46, 46, St 529), (47, 47, Tr 560),
       (58, 58, Tr 561), (61, 61, St 523), (63, 63, Tr 562), (95, 95, St 523), (126, 126, St 523), (36, 59, St 523),
       (65, 90, St 523), (97, 122, St 523)] (St 0),
     Case 529 False [(2, 2, St 241), (33, 33, St 523), (35, 35, Tr 559), (37, 37, St 258), (47, 47, Tr 560),
       (58, 58, Tr 561), (61, 61, St 523), (63, 63, Tr 562), (95, 95, St 523), (126, 126, St 523), (36, 59, St 523),
       (65, 90, St 523), (97, 122, St 523)] (St 0),
     Case 530 False [(33, 33, St 523), (35, 35, Tr 559), (37, 37, St 258), (46, 46, St 529), (47, 47, Tr 560),
       (58, 58, Tr 561), (59, 59, St 523), (61, 61, St 523), (63, 63, Tr 562), (95, 95, St 523), (126, 126, St 523),
       (36, 45, St 523), (48, 57, St 531), (65, 90, St 523), (97, 122, St 523)] (St 0),
     Case 531 False [(33, 33, St 523), (35, 35, Tr 559), (37, 37, St 258), (46, 46, St 529), (47, 47, Tr 560),
       (58, 58, Tr 561), (59, 59, St 523), (61, 61, St 523), (63, 63, Tr 562), (95, 95, St 523), (126, 126, St 523),
       (36, 45, St 523), (48, 57, St 528), (65, 90, St 523), (97, 122, St 523)] (St 0),
     Case 532 False [(33, 33, St 523), (35, 35, Tr 559), (37, 37, St 258), (46, 46, St 529), (47, 47, Tr 560),
       (53, 53, St 533), (58, 58, Tr 561), (59, 59, St 523), (61, 61, St 523), (63, 63, Tr 562), (95, 95, St 523),
       (126, 126, St 523), (36, 45, St 523), (48, 57, St 528), (65, 90, St 523), (97, 122, St 523)] (St 0)]"

definition uri_45 :: "uri_action block list" where
  "uri_45 = [
     Case 533 False [(33, 33, St 523), (35, 35, Tr 559), (37, 37, St 258), (46, 46, St 529), (47, 47, Tr 560),
       (58, 58, Tr 561), (61, 61, St 523), (63, 63, Tr 562), (95, 95, St 523), (126, 126, St 523), (36, 45, St 523),
       (48, 53, St 528), (54, 59, St 523), (65, 90, St 523), (97, 122, St 523)] (St 0),
     Case 534 False [(33, 33, St 523), (35, 35, Tr 559), (37, 37, St 258), (46, 46, St 527), (47, 47, Tr 560),
       (58, 58, Tr 561), (59, 59, St 523), (61, 61, St 523), (63, 63, Tr 562), (95, 95, St 523), (126, 126, St 523),
       (36, 45, St 523), (48, 57, St 535), (65, 90, St 523), (97, 122, St 523)] (St 0),
     Case 535 False [(33, 33, St 523), (35, 35, Tr 559), (37, 37, St 258), (46, 46, St 527), (47, 47, Tr 560),
       (58, 58, Tr 561), (59, 59, St 523), (61, 61, St 523), (63, 63, Tr 562), (95, 95, St 523), (126, 126, St 523),
       (36, 45, St 523), (48, 57, St 526), (65, 90, St 523), (97, 122, St 523)] (St 0),
     Case 536 False [(33, 33, St 523), (35, 35, Tr 559), (37, 37, St 258), (46, 46, St 527), (47, 47, Tr 560),
       (53, 53, St 537), (58, 58, Tr 561), (59, 59, St 523), (61, 61, St 523), (63, 63, Tr 562), (95, 95, St 523),
       (126, 126, St 523), (36, 45, St 523), (48, 57, St 526), (65, 90, St 523), (97, 122, St 523)] (St 0),
     Case 537 False [(33, 33, St 523), (35, 35, Tr 559), (37, 37, St 258), (46, 46, St 527), (47, 47, Tr 560),
       (58, 58, Tr 561), (61, 61, St 523), (63, 63, Tr 562), (95, 95, St 523), (126, 126, St 523), (36, 45, St 523),
       (48, 53, St 526), (54, 59, St 523), (65, 90, St 523), (97, 122, St 523)] (St 0)]"

definition uri_46 :: "uri_action block list" where
  "uri_46 = [
     Block 581 [Markh] 538,
     Case 538 False [(33, 33, St 523), (35, 35, Tr 559), (37, 37, St 258), (46, 46, St 525), (47, 47, Tr 560),
       (58, 58, Tr 561), (59, 59, St 523), (61, 61, St 523), (63, 63, Tr 562), (95, 95, St 523), (126, 126, St 523),
       (36, 45, St 523), (48, 57, St 539), (65, 90, St 523), (97, 122, St 523)] (St 0),
     Block 583 [Markh] 539,
     Case 539 False [(33, 33, St 523), (35, 35, Tr 559), (37, 37, St 258), (46, 46, St 525), (47, 47, Tr 560),
       (58, 58, Tr 561), (59, 59, St 523), (61, 61, St 523), (63, 63, Tr 562), (95, 95, St 523), (126, 126, St 523),
       (36, 45, St 523), (48, 57, St 524), (65, 90, St 523), (97, 122, St 523)] (St 0),
     Block 582 [Markh] 540,
     Case 540 False [(33, 33, St 523), (35, 35, Tr 559), (37, 37, St 258), (46, 46, St 525), (47, 47, Tr 560),
       (53, 53, St 541), (58, 58, Tr 561), (59, 59, St 523), (61, 61, St 523), (63, 63, Tr 562), (95, 95, St 523),
       (126, 126, St 523), (36, 45, St 523), (48, 57, St 524), (65, 90, St 523), (97, 122, St 523)] (St 0),
     Case 541 False [(33, 33, St 523), (35, 35, Tr 559), (37, 37, St 258), (46, 46, St 525), (47, 47, Tr 560),
       (58, 58, Tr 561), (61, 61, St 523), (63, 63, Tr 562), (95, 95, St 523), (126, 126, St 523), (36, 45, St 523),
       (48, 53, St 524), (54, 59, St 523), (65, 90, St 523), (97, 122, St 523)] (St 0),
     Block 558 [Markh] 260]"

definition uri_47 :: "uri_action block list" where
  "uri_47 = [
     Case 260 False [(58, 58, St 368), (118, 118, St 447), (48, 57, St 261), (65, 70, St 261), (97, 102, St 261)] (St 0),
     Case 261 False [(48, 57, St 262), (58, 58, St 265), (65, 70, St 262), (97, 102, St 262)] (St 0),
     Case 262 False [(48, 57, St 263), (58, 58, St 265), (65, 70, St 263), (97, 102, St 263)] (St 0),
     Case 263 False [(48, 57, St 264), (58, 58, St 265), (65, 70, St 264), (97, 102, St 264)] (St 0),
     Case 264 False [(58, 58, St 265)] (St 0),
     Case 265 False [(48, 57, St 266), (58, 58, St 363), (65, 70, St 266), (97, 102, St 266)] (St 0),
     Case 266 False [(48, 57, St 267), (58, 58, St 270), (65, 70, St 267), (97, 102, St 267)] (St 0),
     Case 267 False [(48, 57, St 268), (58, 58, St 270), (65, 70, St 268), (97, 102, St 268)] (St 0),
     Case 268 False [(48, 57, St 269), (58, 58, St 270), (65, 70, St 269), (97, 102, St 269)] (St 0),
     Case 269 False [(58, 58, St 270)] (St 0),
     Case 270 False [(48, 57, St 271), (58, 58, St 358), (65, 70, St 271), (97, 102, St 271)] (St 0)]"

definition uri_48 :: "uri_action block list" where
  "uri_48 = [
     Case 271 False [(48, 57, St 272), (58, 58, St 275), (65, 70, St 272), (97, 102, St 272)] (St 0),
     Case 272 False [(48, 57, St 273), (58, 58, St 275), (65, 70, St 273), (97, 102, St 273)] (St 0),
     Case 273 False [(48, 57, St 274), (58, 58, St 275), (65, 70, St 274), (97, 102, St 274)] (St 0),
     Case 274 False [(58, 58, St 275)] (St 0),
     Case 275 False [(48, 57, St 276), (58, 58, St 353), (65, 70, St 276), (97, 102, St 276)] (St 0),
     Case 276 False [(48, 57, St 277), (58, 58, St 280), (65, 70, St 277), (97, 102, St 277)] (St 0),
     Case 277 False [(48, 57, St 278), (58, 58, St 280), (65, 70, St 278), (97, 102, St 278)] (St 0),
     Case 278 False [(48, 57, St 279), (58, 58, St 280), (65, 70, St 279), (97, 102, St 279)] (St 0),
     Case 279 False [(58, 58, St 280)] (St 0),
     Case 280 False [(48, 57, St 281), (58, 58, St 348), (65, 70, St 281), (97, 102, St 281)] (St 0),
     Case 281 False [(48, 57, St 282), (58, 58, St 285), (65, 70, St 282), (97, 102, St 282)] (St 0)]"

definition uri_49 :: "uri_action block list" where
  "uri_49 = [
     Case 282 False [(48, 57, St 283), (58, 58, St 285), (65, 70, St 283), (97, 102, St 283)] (St 0),
     Case 283 False [(48, 57, St 284), (58, 58, St 285), (65, 70, St 284), (97, 102, St 284)] (St 0),
     Case 284 False [(58, 58, St 285)] (St 0),
     Case 285 False [(48, 57, St 286), (58, 58, St 335), (65, 70, St 286), (97, 102, St 286)] (St 0),
     Case 286 False [(48, 57, St 287), (58, 58, St 290), (65, 70, St 287), (97, 102, St 287)] (St 0),
     Case 287 False [(48, 57, St 288), (58, 58, St 290), (65, 70, St 288), (97, 102, St 288)] (St 0),
     Case 288 False [(48, 57, St 289), (58, 58, St 290), (65, 70, St 289), (97, 102, St 289)] (St 0),
     Case 289 False [(58, 58, St 290)] (St 0),
     Case 290 False [(2, 2, St 291), (48, 48, St 318), (49, 49, St 326), (50, 50, St 329), (58, 58, St 333),
       (51, 57, St 332), (65, 70, St 334), (97, 102, St 334)] (St 0),
     Case 291 False [(48, 52, St 292)] (St 0),
     Case 292 False [(48, 57, St 293)] (St 0),
     Case 293 False [(46, 46, St 294)] (St 0)]"

definition uri_50 :: "uri_action block list" where
  "uri_50 = [
     Case 294 False [(2, 2, St 295), (48, 48, St 297), (49, 49, St 314), (50, 50, St 316), (51, 57, St 315)] (St 0),
     Case 295 False [(48, 52, St 296)] (St 0),
     Case 296 False [(48, 57, St 297)] (St 0),
     Case 297 False [(46, 46, St 298)] (St 0),
     Case 298 False [(2, 2, St 299), (48, 48, St 301), (49, 49, St 310), (50, 50, St 312), (51, 57, St 311)] (St 0),
     Case 299 False [(48, 52, St 300)] (St 0),
     Case 300 False [(48, 57, St 301)] (St 0),
     Case 301 False [(46, 46, St 302)] (St 0),
     Case 302 False [(2, 2, St 303), (48, 48, St 305), (49, 49, St 306), (50, 50, St 308), (51, 57, St 307)] (St 0),
     Case 303 False [(48, 52, St 304)] (St 0),
     Case 304 False [(48, 57, St 305)] (St 0),
     Case 305 False [(93, 93, St 512)] (St 0),
     Case 306 False [(48, 57, St 307), (93, 93, St 512)] (St 0),
     Case 307 False [(48, 57, St 305), (93, 93, St 512)] (St 0),
     Case 308 False [(53, 53, St 309), (93, 93, St 512), (48, 57, St 305)] (St 0),
     Case 309 False [(48, 53, St 305), (93, 93, St 512)] (St 0),
     Case 310 False [(46, 46, St 302), (48, 57, St 311)] (St 0)]"

definition uri_51 :: "uri_action block list" where
  "uri_51 = [
     Case 311 False [(46, 46, St 302), (48, 57, St 301)] (St 0),
     Case 312 False [(46, 46, St 302), (53, 53, St 313), (48, 57, St 301)] (St 0),
     Case 313 False [(46, 46, St 302), (48, 53, St 301)] (St 0),
     Case 314 False [(46, 46, St 298), (48, 57, St 315)] (St 0),
     Case 315 False [(46, 46, St 298), (48, 57, St 297)] (St 0),
     Case 316 False [(46, 46, St 298), (53, 53, St 317), (48, 57, St 297)] (St 0),
     Case 317 False [(46, 46, St 298), (48, 53, St 297)] (St 0),
     Case 318 False [(46, 46, St 294), (58, 58, St 322), (48, 57, St 319), (65, 70, St 319), (97, 102, St 319)] (St 0),
     Case 319 False [(48, 57, St 320), (58, 58, St 322), (65, 70, St 320), (97, 102, St 320)] (St 0),
     Case 320 False [(48, 57, St 321), (58, 58, St 322), (65, 70, St 321), (97, 102, St 321)] (St 0),
     Case 321 False [(58, 58, St 322)] (St 0),
     Case 322 False [(48, 57, St 323), (58, 58, St 305), (65, 70, St 323), (97, 102, St 323)] (St 0),
     Case 323 False [(48, 57, St 324), (65, 70, St 324), (93, 93, St 512), (97, 102, St 324)] (St 0)]"

definition uri_52 :: "uri_action block list" where
  "uri_52 = [
     Case 324 False [(48, 57, St 325), (65, 70, St 325), (93, 93, St 512), (97, 102, St 325)] (St 0),
     Case 325 False [(48, 57, St 305), (65, 70, St 305), (93, 93, St 512), (97, 102, St 305)] (St 0),
     Case 326 False [(46, 46, St 294), (58, 58, St 322), (48, 57, St 327), (65, 70, St 319), (97, 102, St 319)] (St 0),
     Case 327 False [(46, 46, St 294), (58, 58, St 322), (48, 57, St 328), (65, 70, St 320), (97, 102, St 320)] (St 0),
     Case 328 False [(46, 46, St 294), (58, 58, St 322), (48, 57, St 321), (65, 70, St 321), (97, 102, St 321)] (St 0),
     Case 329 False [(46, 46, St 294), (53, 53, St 331), (58, 58, St 322), (48, 57, St 330), (65, 70, St 319),
       (97, 102, St 319)] (St 0),
     Case 330 False [(46, 46, St 294), (58, 58, St 322), (48, 57, St 320), (65, 70, St 320), (97, 102, St 320)] (St 0),
     Case 331 False [(46, 46, St 294), (58, 58, St 322), (48, 53, St 328), (54, 57, St 320), (65, 70, St 320),
       (97, 102, St 320)] (St 0)]"

definition uri_53 :: "uri_action block list" where
  "uri_53 = [
     Case 332 False [(46, 46, St 294), (58, 58, St 322), (48, 57, St 330), (65, 70, St 319), (97, 102, St 319)] (St 0),
     Case 333 False [(48, 57, St 323), (65, 70, St 323), (97, 102, St 323)] (St 0),
     Case 334 False [(48, 57, St 319), (58, 58, St 322), (65, 70, St 319), (97, 102, St 319)] (St 0),
     Case 335 False [(2, 2, St 291), (48, 48, St 336), (49, 49, St 340), (50, 50, St 343), (51, 57, St 346),
       (65, 70, St 347), (97, 102, St 347)] (St 0),
     Case 336 False [(46, 46, St 294), (58, 58, St 333), (48, 57, St 337), (65, 70, St 337), (97, 102, St 337)] (St 0),
     Case 337 False [(48, 57, St 338), (58, 58, St 333), (65, 70, St 338), (97, 102, St 338)] (St 0),
     Case 338 False [(48, 57, St 339), (58, 58, St 333), (65, 70, St 339), (97, 102, St 339)] (St 0),
     Case 339 False [(58, 58, St 333)] (St 0),
     Case 340 False [(46, 46, St 294), (58, 58, St 333), (48, 57, St 341), (65, 70, St 337), (97, 102, St 337)] (St 0),
     Case 341 False [(46, 46, St 294), (58, 58, St 333), (48, 57, St 342), (65, 70, St 338), (97, 102, St 338)] (St 0)]"

definition uri_54 :: "uri_action block list" where
  "uri_54 = [
     Case 342 False [(46, 46, St 294), (58, 58, St 333), (48, 57, St 339), (65, 70, St 339), (97, 102, St 339)] (St 0),
     Case 343 False [(46, 46, St 294), (53, 53, St 345), (58, 58, St 333), (48, 57, St 344), (65, 70, St 337),
       (97, 102, St 337)] (St 0),
     Case 344 False [(46, 46, St 294), (58, 58, St 333), (48, 57, St 338), (65, 70, St 338), (97, 102, St 338)] (St 0),
     Case 345 False [(46, 46, St 294), (58, 58, St 333), (48, 53, St 342), (54, 57, St 338), (65, 70, St 338),
       (97, 102, St 338)] (St 0),
     Case 346 False [(46, 46, St 294), (58, 58, St 333), (48, 57, St 344), (65, 70, St 337), (97, 102, St 337)] (St 0),
     Case 347 False [(48, 57, St 337), (58, 58, St 333), (65, 70, St 337), (97, 102, St 337)] (St 0),
     Case 348 False [(48, 57, St 349), (65, 70, St 349), (97, 102, St 349)] (St 0),
     Case 349 False [(48, 57, St 350), (58, 58, St 335), (65, 70, St 350), (97, 102, St 350)] (St 0),
     Case 350 False [(48, 57, St 351), (58, 58, St 335), (65, 70, St 351), (97, 102, St 351)] (St 0)]"

definition uri_55 :: "uri_action block list" where
  "uri_55 = [
     Case 351 False [(48, 57, St 352), (58, 58, St 335), (65, 70, St 352), (97, 102, St 352)] (St 0),
     Case 352 False [(58, 58, St 335)] (St 0),
     Case 353 False [(48, 57, St 354), (65, 70, St 354), (97, 102, St 354)] (St 0),
     Case 354 False [(48, 57, St 355), (58, 58, St 348), (65, 70, St 355), (97, 102, St 355)] (St 0),
     Case 355 False [(48, 57, St 356), (58, 58, St 348), (65, 70, St 356), (97, 102, St 356)] (St 0),
     Case 356 False [(48, 57, St 357), (58, 58, St 348), (65, 70, St 357), (97, 102, St 357)] (St 0),
     Case 357 False [(58, 58, St 348)] (St 0),
     Case 358 False [(48, 57, St 359), (65, 70, St 359), (97, 102, St 359)] (St 0),
     Case 359 False [(48, 57, St 360), (58, 58, St 353), (65, 70, St 360), (97, 102, St 360)] (St 0),
     Case 360 False [(48, 57, St 361), (58, 58, St 353), (65, 70, St 361), (97, 102, St 361)] (St 0),
     Case 361 False [(48, 57, St 362), (58, 58, St 353), (65, 70, St 362), (97, 102, St 362)] (St 0),
     Case 362 False [(58, 58, St 353)] (St 0)]"

definition uri_56 :: "uri_action block list" where
  "uri_56 = [
     Case 363 False [(48, 57, St 364), (65, 70, St 364), (97, 102, St 364)] (St 0),
     Case 364 False [(48, 57, St 365), (58, 58, St 358), (65, 70, St 365), (97, 102, St 365)] (St 0),
     Case 365 False [(48, 57, St 366), (58, 58, St 358), (65, 70, St 366), (97, 102, St 366)] (St 0),
     Case 366 False [(48, 57, St 367), (58, 58, St 358), (65, 70, St 367), (97, 102, St 367)] (St 0),
     Case 367 False [(58, 58, St 358)] (St 0),
     Case 368 False [(58, 58, St 369)] (St 0),
     Case 369 False [(2, 2, St 291), (48, 48, St 370), (49, 49, St 439), (50, 50, St 442), (93, 93, St 512),
       (51, 57, St 445), (65, 70, St 446), (97, 102, St 446)] (St 0),
     Case 370 False [(46, 46, St 294), (58, 58, St 374), (93, 93, St 512), (48, 57, St 371), (65, 70, St 371),
       (97, 102, St 371)] (St 0),
     Case 371 False [(58, 58, St 374), (93, 93, St 512), (48, 57, St 372), (65, 70, St 372), (97, 102, St 372)] (St 0),
     Case 372 False [(58, 58, St 374), (93, 93, St 512), (48, 57, St 373), (65, 70, St 373), (97, 102, St 373)] (St 0)]"

definition uri_57 :: "uri_action block list" where
  "uri_57 = [
     Case 373 False [(58, 58, St 374), (93, 93, St 512)] (St 0),
     Case 374 False [(2, 2, St 291), (48, 48, St 375), (49, 49, St 431), (50, 50, St 434), (51, 57, St 437),
       (65, 70, St 438), (97, 102, St 438)] (St 0),
     Case 375 False [(46, 46, St 294), (58, 58, St 379), (93, 93, St 512), (48, 57, St 376), (65, 70, St 376),
       (97, 102, St 376)] (St 0),
     Case 376 False [(58, 58, St 379), (93, 93, St 512), (48, 57, St 377), (65, 70, St 377), (97, 102, St 377)] (St 0),
     Case 377 False [(58, 58, St 379), (93, 93, St 512), (48, 57, St 378), (65, 70, St 378), (97, 102, St 378)] (St 0),
     Case 378 False [(58, 58, St 379), (93, 93, St 512)] (St 0),
     Case 379 False [(2, 2, St 291), (48, 48, St 380), (49, 49, St 423), (50, 50, St 426), (51, 57, St 429),
       (65, 70, St 430), (97, 102, St 430)] (St 0),
     Case 380 False [(46, 46, St 294), (58, 58, St 384), (93, 93, St 512), (48, 57, St 381), (65, 70, St 381),
       (97, 102, St 381)] (St 0),
     Case 381 False [(58, 58, St 384), (93, 93, St 512), (48, 57, St 382), (65, 70, St 382), (97, 102, St 382)] (St 0)]"

definition uri_58 :: "uri_action block list" where
  "uri_58 = [
     Case 382 False [(58, 58, St 384), (93, 93, St 512), (48, 57, St 383), (65, 70, St 383), (97, 102, St 383)] (St 0),
     Case 383 False [(58, 58, St 384), (93, 93, St 512)] (St 0),
     Case 384 False [(2, 2, St 291), (48, 48, St 385), (49, 49, St 415), (50, 50, St 418), (51, 57, St 421),
       (65, 70, St 422), (97, 102, St 422)] (St 0),
     Case 385 False [(46, 46, St 294), (58, 58, St 389), (93, 93, St 512), (48, 57, St 386), (65, 70, St 386),
       (97, 102, St 386)] (St 0),
     Case 386 False [(58, 58, St 389), (93, 93, St 512), (48, 57, St 387), (65, 70, St 387), (97, 102, St 387)] (St 0),
     Case 387 False [(58, 58, St 389), (93, 93, St 512), (48, 57, St 388), (65, 70, St 388), (97, 102, St 388)] (St 0),
     Case 388 False [(58, 58, St 389), (93, 93, St 512)] (St 0),
     Case 389 False [(2, 2, St 291), (48, 48, St 390), (49, 49, St 407), (50, 50, St 410), (51, 57, St 413),
       (65, 70, St 414), (97, 102, St 414)] (St 0),
     Case 390 False [(46, 46, St 294), (58, 58, St 394), (93, 93, St 512), (48, 57, St 391), (65, 70, St 391),
       (97, 102, St 391)] (St 0)]"

definition uri_59 :: "uri_action block list" where
  "uri_59 = [
     Case 391 False [(58, 58, St 394), (93, 93, St 512), (48, 57, St 392), (65, 70, St 392), (97, 102, St 392)] (St 0),
     Case 392 False [(58, 58, St 394), (93, 93, St 512), (48, 57, St 393), (65, 70, St 393), (97, 102, St 393)] (St 0),
     Case 393 False [(58, 58, St 394), (93, 93, St 512)] (St 0),
     Case 394 False [(2, 2, St 291), (48, 48, St 395), (49, 49, St 399), (50, 50, St 402), (51, 57, St 405),
       (65, 70, St 406), (97, 102, St 406)] (St 0),
     Case 395 False [(46, 46, St 294), (58, 58, St 333), (93, 93, St 512), (48, 57, St 396), (65, 70, St 396),
       (97, 102, St 396)] (St 0),
     Case 396 False [(58, 58, St 333), (93, 93, St 512), (48, 57, St 397), (65, 70, St 397), (97, 102, St 397)] (St 0),
     Case 397 False [(58, 58, St 333), (93, 93, St 512), (48, 57, St 398), (65, 70, St 398), (97, 102, St 398)] (St 0),
     Case 398 False [(58, 58, St 333), (93, 93, St 512)] (St 0),
     Case 399 False [(46, 46, St 294), (58, 58, St 333), (93, 93, St 512), (48, 57, St 400), (65, 70, St 396),
       (97, 102, St 396)] (St 0)]"

definition uri_60 :: "uri_action block list" where
  "uri_60 = [
     Case 400 False [(46, 46, St 294), (58, 58, St 333), (93, 93, St 512), (48, 57, St 401), (65, 70, St 397),
       (97, 102, St 397)] (St 0),
     Case 401 False [(46, 46, St 294), (58, 58, St 333), (93, 93, St 512), (48, 57, St 398), (65, 70, St 398),
       (97, 102, St 398)] (St 0),
     Case 402 False [(46, 46, St 294), (53, 53, St 404), (58, 58, St 333), (93, 93, St 512), (48, 57, St 403),
       (65, 70, St 396), (97, 102, St 396)] (St 0),
     Case 403 False [(46, 46, St 294), (58, 58, St 333), (93, 93, St 512), (48, 57, St 397), (65, 70, St 397),
       (97, 102, St 397)] (St 0),
     Case 404 False [(46, 46, St 294), (58, 58, St 333), (93, 93, St 512), (48, 53, St 401), (54, 57, St 397),
       (65, 70, St 397), (97, 102, St 397)] (St 0),
     Case 405 False [(46, 46, St 294), (58, 58, St 333), (93, 93, St 512), (48, 57, St 403), (65, 70, St 396),
       (97, 102, St 396)] (St 0),
     Case 406 False [(58, 58, St 333), (93, 93, St 512), (48, 57, St 396), (65, 70, St 396), (97, 102, St 396)] (St 0),
     Case 407 False [(46, 46, St 294), (58, 58, St 394), (93, 93, St 512), (48, 57, St 408), (65, 70, St 391),
       (97, 102, St 391)] (St 0)]"

definition uri_61 :: "uri_action block list" where
  "uri_61 = [
     Case 408 False [(46, 46, St 294), (58, 58, St 394), (93, 93, St 512), (48, 57, St 409), (65, 70, St 392),
       (97, 102, St 392)] (St 0),
     Case 409 False [(46, 46, St 294), (58, 58, St 394), (93, 93, St 512), (48, 57, St 393), (65, 70, St 393),
       (97, 102, St 393)] (St 0),
     Case 410 False [(46, 46, St 294), (53, 53, St 412), (58, 58, St 394), (93, 93, St 512), (48, 57, St 411),
       (65, 70, St 391), (97, 102, St 391)] (St 0),
     Case 411 False [(46, 46, St 294), (58, 58, St 394), (93, 93, St 512), (48, 57, St 392), (65, 70, St 392),
       (97, 102, St 392)] (St 0),
     Case 412 False [(46, 46, St 294), (58, 58, St 394), (93, 93, St 512), (48, 53, St 409), (54, 57, St 392),
       (65, 70, St 392), (97, 102, St 392)] (St 0),
     Case 413 False [(46, 46, St 294), (58, 58, St 394), (93, 93, St 512), (48, 57, St 411), (65, 70, St 391),
       (97, 102, St 391)] (St 0),
     Case 414 False [(58, 58, St 394), (93, 93, St 512), (48, 57, St 391), (65, 70, St 391), (97, 102, St 391)] (St 0),
     Case 415 False [(46, 46, St 294), (58, 58, St 389), (93, 93, St 512), (48, 57, St 416), (65, 70, St 386),
       (97, 102, St 386)] (St 0)]"

definition uri_62 :: "uri_action block list" where
  "uri_62 = [
     Case 416 False [(46, 46, St 294), (58, 58, St 389), (93, 93, St 512), (48, 57, St 417), (65, 70, St 387),
       (97, 102, St 387)] (St 0),
     Case 417 False [(46, 46, St 294), (58, 58, St 389), (93, 93, St 512), (48, 57, St 388), (65, 70, St 388),
       (97, 102, St 388)] (St 0),
     Case 418 False [(46, 46, St 294), (53, 53, St 420), (58, 58, St 389), (93, 93, St 512), (48, 57, St 419),
       (65, 70, St 386), (97, 102, St 386)] (St 0),
     Case 419 False [(46, 46, St 294), (58, 58, St 389), (93, 93, St 512), (48, 57, St 387), (65, 70, St 387),
       (97, 102, St 387)] (St 0),
     Case 420 False [(46, 46, St 294), (58, 58, St 389), (93, 93, St 512), (48, 53, St 417), (54, 57, St 387),
       (65, 70, St 387), (97, 102, St 387)] (St 0),
     Case 421 False [(46, 46, St 294), (58, 58, St 389), (93, 93, St 512), (48, 57, St 419), (65, 70, St 386),
       (97, 102, St 386)] (St 0),
     Case 422 False [(58, 58, St 389), (93, 93, St 512), (48, 57, St 386), (65, 70, St 386), (97, 102, St 386)] (St 0),
     Case 423 False [(46, 46, St 294), (58, 58, St 384), (93, 93, St 512), (48, 57, St 424), (65, 70, St 381),
       (97, 102, St 381)] (St 0)]"

definition uri_63 :: "uri_action block list" where
  "uri_63 = [
     Case 424 False [(46, 46, St 294), (58, 58, St 384), (93, 93, St 512), (48, 57, St 425), (65, 70, St 382),
       (97, 102, St 382)] (St 0),
     Case 425 False [(46, 46, St 294), (58, 58, St 384), (93, 93, St 512), (48, 57, St 383), (65, 70, St 383),
       (97, 102, St 383)] (St 0),
     Case 426 False [(46, 46, St 294), (53, 53, St 428), (58, 58, St 384), (93, 93, St 512), (48, 57, St 427),
       (65, 70, St 381), (97, 102, St 381)] (St 0),
     Case 427 False [(46, 46, St 294), (58, 58, St 384), (93, 93, St 512), (48, 57, St 382), (65, 70, St 382),
       (97, 102, St 382)] (St 0),
     Case 428 False [(46, 46, St 294), (58, 58, St 384), (93, 93, St 512), (48, 53, St 425), (54, 57, St 382),
       (65, 70, St 382), (97, 102, St 382)] (St 0),
     Case 429 False [(46, 46, St 294), (58, 58, St 384), (93, 93, St 512), (48, 57, St 427), (65, 70, St 381),
       (97, 102, St 381)] (St 0),
     Case 430 False [(58, 58, St 384), (93, 93, St 512), (48, 57, St 381), (65, 70, St 381), (97, 102, St 381)] (St 0),
     Case 431 False [(46, 46, St 294), (58, 58, St 379), (93, 93, St 512), (48, 57, St 432), (65, 70, St 376),
       (97, 102, St 376)] (St 0)]"

definition uri_64 :: "uri_action block list" where
  "uri_64 = [
     Case 432 False [(46, 46, St 294), (58, 58, St 379), (93, 93, St 512), (48, 57, St 433), (65, 70, St 377),
       (97, 102, St 377)] (St 0),
     Case 433 False [(46, 46, St 294), (58, 58, St 379), (93, 93, St 512), (48, 57, St 378), (65, 70, St 378),
       (97, 102, St 378)] (St 0),
     Case 434 False [(46, 46, St 294), (53, 53, St 436), (58, 58, St 379), (93, 93, St 512), (48, 57, St 435),
       (65, 70, St 376), (97, 102, St 376)] (St 0),
     Case 435 False [(46, 46, St 294), (58, 58, St 379), (93, 93, St 512), (48, 57, St 377), (65, 70, St 377),
       (97, 102, St 377)] (St 0),
     Case 436 False [(46, 46, St 294), (58, 58, St 379), (93, 93, St 512), (48, 53, St 433), (54, 57, St 377),
       (65, 70, St 377), (97, 102, St 377)] (St 0),
     Case 437 False [(46, 46, St 294), (58, 58, St 379), (93, 93, St 512), (48, 57, St 435), (65, 70, St 376),
       (97, 102, St 376)] (St 0),
     Case 438 False [(58, 58, St 379), (93, 93, St 512), (48, 57, St 376), (65, 70, St 376), (97, 102, St 376)] (St 0),
     Case 439 False [(46, 46, St 294), (58, 58, St 374), (93, 93, St 512), (48, 57, St 440), (65, 70, St 371),
       (97, 102, St 371)] (St 0)]"

definition uri_65 :: "uri_action block list" where
  "uri_65 = [
     Case 440 False [(46, 46, St 294), (58, 58, St 374), (93, 93, St 512), (48, 57, St 441), (65, 70, St 372),
       (97, 102, St 372)] (St 0),
     Case 441 False [(46, 46, St 294), (58, 58, St 374), (93, 93, St 512), (48, 57, St 373), (65, 70, St 373),
       (97, 102, St 373)] (St 0),
     Case 442 False [(46, 46, St 294), (53, 53, St 444), (58, 58, St 374), (93, 93, St 512), (48, 57, St 443),
       (65, 70, St 371), (97, 102, St 371)] (St 0),
     Case 443 False [(46, 46, St 294), (58, 58, St 374), (93, 93, St 512), (48, 57, St 372), (65, 70, St 372),
       (97, 102, St 372)] (St 0),
     Case 444 False [(46, 46, St 294), (58, 58, St 374), (93, 93, St 512), (48, 53, St 441), (54, 57, St 372),
       (65, 70, St 372), (97, 102, St 372)] (St 0),
     Case 445 False [(46, 46, St 294), (58, 58, St 374), (93, 93, St 512), (48, 57, St 443), (65, 70, St 371),
       (97, 102, St 371)] (St 0),
     Case 446 False [(58, 58, St 374), (93, 93, St 512), (48, 57, St 371), (65, 70, St 371), (97, 102, St 371)] (St 0),
     Case 447 False [(48, 57, St 448), (65, 70, St 448), (97, 102, St 448)] (St 0)]"

definition uri_66 :: "uri_action block list" where
  "uri_66 = [
     Case 448 False [(46, 46, St 449), (48, 57, St 448), (65, 70, St 448), (97, 102, St 448)] (St 0),
     Case 449 False [(33, 33, St 450), (36, 36, St 450), (61, 61, St 450), (95, 95, St 450), (126, 126, St 450),
       (38, 46, St 450), (48, 59, St 450), (65, 90, St 450), (97, 122, St 450)] (St 0),
     Case 450 False [(33, 33, St 450), (36, 36, St 450), (61, 61, St 450), (93, 93, St 512), (95, 95, St 450),
       (126, 126, St 450), (38, 46, St 450), (48, 59, St 450), (65, 90, St 450), (97, 122, St 450)] (St 0),
     Block 577 [Markh] 542,
     Case 542 False [(33, 33, St 255), (35, 35, Tr 570), (37, 37, St 256), (47, 47, Tr 571), (61, 61, St 255),
       (63, 63, Tr 573), (64, 64, Tr 263), (95, 95, St 255), (126, 126, St 255), (36, 46, St 255), (48, 57, St 542),
       (58, 59, St 255), (65, 90, St 255), (97, 122, St 255)] (St 0),
     Block 551 [Markh] 543,
     Case 543 False [(33, 33, St 520), (35, 35, Tr 559), (37, 37, St 253), (46, 46, St 544), (47, 47, Tr 560),
       (58, 58, Tr 576), (61, 61, St 520), (63, 63, Tr 562), (64, 64, Tr 263), (95, 95, St 520), (126, 126, St 520),
       (36, 59, St 520), (65, 90, St 520), (97, 122, St 520)] (St 0)]"

definition uri_67 :: "uri_action block list" where
  "uri_67 = [
     Case 544 False [(2, 2, St 233), (33, 33, St 520), (35, 35, Tr 559), (37, 37, St 253), (47, 47, Tr 560),
       (48, 48, St 545), (49, 49, St 553), (50, 50, St 555), (58, 58, Tr 576), (59, 59, St 520), (61, 61, St 520),
       (63, 63, Tr 562), (64, 64, Tr 263), (95, 95, St 520), (126, 126, St 520), (36, 46, St 520), (51, 57, St 554),
       (65, 90, St 520), (97, 122, St 520)] (St 0),
     Case 545 False [(33, 33, St 520), (35, 35, Tr 559), (37, 37, St 253), (46, 46, St 546), (47, 47, Tr 560),
       (58, 58, Tr 576), (61, 61, St 520), (63, 63, Tr 562), (64, 64, Tr 263), (95, 95, St 520), (126, 126, St 520),
       (36, 59, St 520), (65, 90, St 520), (97, 122, St 520)] (St 0),
     Case 546 False [(2, 2, St 237), (33, 33, St 520), (35, 35, Tr 559), (37, 37, St 253), (47, 47, Tr 560),
       (48, 48, St 547), (49, 49, St 549), (50, 50, St 551), (58, 58, Tr 576), (59, 59, St 520), (61, 61, St 520),
       (63, 63, Tr 562), (64, 64, Tr 263), (95, 95, St 520), (126, 126, St 520), (36, 46, St 520), (51, 57, St 550),
       (65, 90, St 520), (97, 122, St 520)] (St 0),
     Case 547 False [(33, 33, St 520), (35, 35, Tr 559), (37, 37, St 253), (46, 46, St 548), (47, 47, Tr 560),
       (58, 58, Tr 576), (61, 61, St 520), (63, 63, Tr 562), (64, 64, Tr 263), (95, 95, St 520), (126, 126, St 520),
       (36, 59, St 520), (65, 90, St 520), (97, 122, St 520)] (St 0),
     Case 548 False [(2, 2, St 241), (33, 33, St 520), (35, 35, Tr 559), (37, 37, St 253), (47, 47, Tr 560),
       (58, 58, Tr 576), (61, 61, St 520), (63, 63, Tr 562), (64, 64, Tr 263), (95, 95, St 520), (126, 126, St 520),
       (36, 59, St 520), (65, 90, St 520), (97, 122, St 520)] (St 0)]"

definition uri_68 :: "uri_action block list" where
  "uri_68 = [
     Case 549 False [(33, 33, St 520), (35, 35, Tr 559), (37, 37, St 253), (46, 46, St 548), (47, 47, Tr 560),
       (58, 58, Tr 576), (59, 59, St 520), (61, 61, St 520), (63, 63, Tr 562), (64, 64, Tr 263), (95, 95, St 520),
       (126, 126, St 520), (36, 45, St 520), (48, 57, St 550), (65, 90, St 520), (97, 122, St 520)] (St 0),
     Case 550 False [(33, 33, St 520), (35, 35, Tr 559), (37, 37, St 253), (46, 46, St 548), (47, 47, Tr 560),
       (58, 58, Tr 576), (59, 59, St 520), (61, 61, St 520), (63, 63, Tr 562), (64, 64, Tr 263), (95, 95, St 520),
       (126, 126, St 520), (36, 45, St 520), (48, 57, St 547), (65, 90, St 520), (97, 122, St 520)] (St 0),
     Case 551 False [(33, 33, St 520), (35, 35, Tr 559), (37, 37, St 253), (46, 46, St 548), (47, 47, Tr 560),
       (53, 53, St 552), (58, 58, Tr 576), (59, 59, St 520), (61, 61, St 520), (63, 63, Tr 562), (64, 64, Tr 263),
       (95, 95, St 520), (126, 126, St 520), (36, 45, St 520), (48, 57, St 547), (65, 90, St 520),
       (97, 122, St 520)] (St 0),
     Case 552 False [(33, 33, St 520), (35, 35, Tr 559), (37, 37, St 253), (46, 46, St 548), (47, 47, Tr 560),
       (58, 58, Tr 576), (61, 61, St 520), (63, 63, Tr 562), (64, 64, Tr 263), (95, 95, St 520), (126, 126, St 520),
       (36, 45, St 520), (48, 53, St 547), (54, 59, St 520), (65, 90, St 520), (97, 122, St 520)] (St 0),
     Case 553 False [(33, 33, St 520), (35, 35, Tr 559), (37, 37, St 253), (46, 46, St 546), (47, 47, Tr 560),
       (58, 58, Tr 576), (59, 59, St 520), (61, 61, St 520), (63, 63, Tr 562), (64, 64, Tr 263), (95, 95, St 520),
       (126, 126, St 520), (36, 45, St 520), (48, 57, St 554), (65, 90, St 520), (97, 122, St 520)] (St 0)]"

definition uri_69 :: "uri_action block list" where
  "uri_69 = [
     Case 554 False [(33, 33, St 520), (35, 35, Tr 559), (37, 37, St 253), (46, 46, St 546), (47, 47, Tr 560),
       (58, 58, Tr 576), (59, 59, St 520), (61, 61, St 520), (63, 63, Tr 562), (64, 64, Tr 263), (95, 95, St 520),
       (126, 126, St 520), (36, 45, St 520), (48, 57, St 545), (65, 90, St 520), (97, 122, St 520)] (St 0),
     Case 555 False [(33, 33, St 520), (35, 35, Tr 559), (37, 37, St 253), (46, 46, St 546), (47, 47, Tr 560),
       (53, 53, St 556), (58, 58, Tr 576), (59, 59, St 520), (61, 61, St 520), (63, 63, Tr 562), (64, 64, Tr 263),
       (95, 95, St 520), (126, 126, St 520), (36, 45, St 520), (48, 57, St 545), (65, 90, St 520),
       (97, 122, St 520)] (St 0),
     Case 556 False [(33, 33, St 520), (35, 35, Tr 559), (37, 37, St 253), (46, 46, St 546), (47, 47, Tr 560),
       (58, 58, Tr 576), (61, 61, St 520), (63, 63, Tr 562), (64, 64, Tr 263), (95, 95, St 520), (126, 126, St 520),
       (36, 45, St 520), (48, 53, St 545), (54, 59, St 520), (65, 90, St 520), (97, 122, St 520)] (St 0),
     Block 552 [Markh] 557,
     Case 557 False [(33, 33, St 520), (35, 35, Tr 559), (37, 37, St 253), (46, 46, St 544), (47, 47, Tr 560),
       (58, 58, Tr 576), (59, 59, St 520), (61, 61, St 520), (63, 63, Tr 562), (64, 64, Tr 263), (95, 95, St 520),
       (126, 126, St 520), (36, 45, St 520), (48, 57, St 558), (65, 90, St 520), (97, 122, St 520)] (St 0),
     Block 554 [Markh] 558]"

definition uri_70 :: "uri_action block list" where
  "uri_70 = [
     Case 558 False [(33, 33, St 520), (35, 35, Tr 559), (37, 37, St 253), (46, 46, St 544), (47, 47, Tr 560),
       (58, 58, Tr 576), (59, 59, St 520), (61, 61, St 520), (63, 63, Tr 562), (64, 64, Tr 263), (95, 95, St 520),
       (126, 126, St 520), (36, 45, St 520), (48, 57, St 543), (65, 90, St 520), (97, 122, St 520)] (St 0),
     Block 553 [Markh] 559,
     Case 559 False [(33, 33, St 520), (35, 35, Tr 559), (37, 37, St 253), (46, 46, St 544), (47, 47, Tr 560),
       (53, 53, St 560), (58, 58, Tr 576), (59, 59, St 520), (61, 61, St 520), (63, 63, Tr 562), (64, 64, Tr 263),
       (95, 95, St 520), (126, 126, St 520), (36, 45, St 520), (48, 57, St 543), (65, 90, St 520),
       (97, 122, St 520)] (St 0),
     Case 560 False [(33, 33, St 520), (35, 35, Tr 559), (37, 37, St 253), (46, 46, St 544), (47, 47, Tr 560),
       (58, 58, Tr 576), (61, 61, St 520), (63, 63, Tr 562), (64, 64, Tr 263), (95, 95, St 520), (126, 126, St 520),
       (36, 45, St 520), (48, 53, St 543), (54, 59, St 520), (65, 90, St 520), (97, 122, St 520)] (St 0)]"

definition uri_eof_1 :: "(int list \<times> uri_action list) list" where
  "uri_eof_1 = [
     ([462, 489], [Save_port]),
     ([460, 463, 464, 465, 466, 467, 470, 471, 472, 473, 474, 475, 476, 477, 478, 479, 480, 481, 482, 483,
       484, 485, 486, 487, 488, 490, 491, 492, 493, 494, 495, 496, 497, 498, 499, 500, 501, 502, 503, 504,
       505, 506, 507], [Save_host]),
     ([513], [Save_path]),
     ([457], [Save_query]),
     ([454], [Save_fragment]),
     ([456], [Marku, Save_query]),
     ([453], [Marku, Save_fragment]),
     ([461, 468], [Markh, Save_port]),
     ([459, 469], [Markh, Save_host])]"

definition uri_eof_2 :: "(int list \<times> uri_action list) list" where
  "uri_eof_2 = [
     ([514, 521], [Markh, Save_port, Save_path]),
     ([511, 522], [Markh, Save_host, Save_path]),
     ([515, 542], [Save_port, Markh, Save_path]),
     ([512, 516, 517, 518, 519, 520, 523, 524, 525, 526, 527, 528, 529, 530, 531, 532, 533, 534, 535, 536,
       537, 538, 539, 540, 541, 543, 544, 545, 546, 547, 548, 549, 550, 551, 552, 553, 554, 555, 556, 557,
       558, 559, 560], [Save_host, Markh, Save_path])]"

text \<open>The actions at the end of the text, by the state it ends in.\<close>

definition uri_eof :: "(int list \<times> uri_action list) list" where
  "uri_eof = uri_eof_1 @ uri_eof_2"

definition uri_machine :: "uri_action block list" where
  "uri_machine =
     uri_1 @ uri_2 @ uri_3 @ uri_4 @ uri_5 @ uri_6 @ uri_7 @ uri_8 @
     uri_9 @ uri_10 @ uri_11 @ uri_12 @ uri_13 @ uri_14 @ uri_15 @ uri_16 @
     uri_17 @ uri_18 @ uri_19 @ uri_20 @ uri_21 @ uri_22 @ uri_23 @ uri_24 @
     uri_25 @ uri_26 @ uri_27 @ uri_28 @ uri_29 @ uri_30 @ uri_31 @ uri_32 @
     uri_33 @ uri_34 @ uri_35 @ uri_36 @ uri_37 @ uri_38 @ uri_39 @ uri_40 @
     uri_41 @ uri_42 @ uri_43 @ uri_44 @ uri_45 @ uri_46 @ uri_47 @ uri_48 @
     uri_49 @ uri_50 @ uri_51 @ uri_52 @ uri_53 @ uri_54 @ uri_55 @ uri_56 @
     uri_57 @ uri_58 @ uri_59 @ uri_60 @ uri_61 @ uri_62 @ uri_63 @ uri_64 @
     uri_65 @ uri_66 @ uri_67 @ uri_68 @ uri_69 @ uri_70"

lemmas uri_defs = uri_machine_def
  uri_1_def uri_2_def uri_3_def uri_4_def uri_5_def uri_6_def uri_7_def uri_8_def
  uri_9_def uri_10_def uri_11_def uri_12_def uri_13_def uri_14_def uri_15_def uri_16_def
  uri_17_def uri_18_def uri_19_def uri_20_def uri_21_def uri_22_def uri_23_def uri_24_def
  uri_25_def uri_26_def uri_27_def uri_28_def uri_29_def uri_30_def uri_31_def uri_32_def
  uri_33_def uri_34_def uri_35_def uri_36_def uri_37_def uri_38_def uri_39_def uri_40_def
  uri_41_def uri_42_def uri_43_def uri_44_def uri_45_def uri_46_def uri_47_def uri_48_def
  uri_49_def uri_50_def uri_51_def uri_52_def uri_53_def uri_54_def uri_55_def uri_56_def
  uri_57_def uri_58_def uri_59_def uri_60_def uri_61_def uri_62_def uri_63_def uri_64_def
  uri_65_def uri_66_def uri_67_def uri_68_def uri_69_def uri_70_def

end
