(* ===== verification/Net_Address.thy ===== *)
theory Net_Address
  imports Byte_Codec C_Strings Ordered_Container
begin

text \<open>
  Network addresses (\<open>address.h\<close>, \<open>address.cc\<close>): the socket address structures with their fields in
  network byte order, masks and prefixes, printing, comparison, and the lookup of host names. The
  answers of \<open>getaddrinfo\<close>, \<open>getifaddrs\<close> and \<open>inet_pton\<close> are arguments.
\<close>

abbreviation AF_UNSPEC :: int where "AF_UNSPEC \<equiv> 0"
abbreviation AF_UNIX :: int where "AF_UNIX \<equiv> 1"
abbreviation AF_INET :: int where "AF_INET \<equiv> 2"
abbreviation AF_INET6 :: int where "AF_INET6 \<equiv> 10"

section \<open>Masks\<close>

text \<open>
  Shifting an \<open>int\<close> by its width or more is undefined; the subtraction wraps. The two instances of
  the template are for 32 and for 8 bits.
\<close>

definition CreateMask32 :: "nat \<Rightarrow> fault + u32" where
  "CreateMask32 bits = (if bits = 0 \<or> bits > 32 then Inl Bad_Shift else Inr (push_bit (32 - bits) 1 - 1))"

definition CreateMask8 :: "nat \<Rightarrow> u8" where
  "CreateMask8 bits = ucast (push_bit (8 - bits) 1 - 1 :: u32)"

function CountBytes :: "'a::len word \<Rightarrow> nat" where
  "CountBytes value = (if value = 0 then 0 else Suc (CountBytes (value AND (value - 1))))"
  by pat_completeness auto
termination
proof (relation "measure unat")
  fix v :: "'a word"
  assume "v \<noteq> 0"
  have "v AND (v - 1) \<le> v - 1" by (rule word_and_le1)
  moreover have "v - 1 < v" using \<open>v \<noteq> 0\<close> by (simp add: measure_unat word_less_nat_alt)
  ultimately show "(v AND (v - 1), v) \<in> measure unat" by (simp add: word_less_nat_alt [symmetric])
qed simp

declare CountBytes.simps [simp del]

section \<open>Address structures\<close>

text \<open>The fields hold what the memory of the structure holds: ports and addresses are byte-swapped on a little-endian host.\<close>

record sockaddr_in =
  sin_family :: u16
  sin_port :: u16
  s_addr :: u32

record sockaddr_in6 =
  sin6_family :: u16
  sin6_port :: u16
  sin6_flowinfo :: u32
  s6_addr :: "u8 list"
  sin6_scope_id :: u32

text \<open>\<open>sun_path\<close> has 108 bytes. The sizes of the structures are 16, 28 and 110 bytes, the path starts at byte 2.\<close>

record sockaddr_un =
  sun_family :: u16
  sun_path :: string

datatype address =
    IPv4Address sockaddr_in
  | IPv6Address sockaddr_in6
  | UnixAddress sockaddr_un nat
  | UnknownAddress u16 "u8 list"

abbreviation MAX_PATH_LEN :: nat where "MAX_PATH_LEN \<equiv> 107"

definition new_IPv4Address :: "byte_order \<Rightarrow> u32 \<Rightarrow> u16 \<Rightarrow> sockaddr_in" where
  "new_IPv4Address host addr port =
     \<lparr>sin_family = 2, sin_port = byteswapOnLittleEndian host port, s_addr = byteswapOnLittleEndian host addr\<rparr>"

definition new_IPv6Address :: sockaddr_in6 where
  "new_IPv6Address = \<lparr>sin6_family = 10, sin6_port = 0, sin6_flowinfo = 0, s6_addr = replicate 16 0, sin6_scope_id = 0\<rparr>"

definition new_IPv6Address_of :: "byte_order \<Rightarrow> u8 list \<Rightarrow> u16 \<Rightarrow> sockaddr_in6" where
  "new_IPv6Address_of host bytes port =
     new_IPv6Address\<lparr>sin6_port := byteswapOnLittleEndian host port, s6_addr := bytes\<rparr>"

text \<open>\<open>inet_pton\<close> gives the bytes of the address or nothing.\<close>

definition IPv4Address_Create :: "byte_order \<Rightarrow> (string \<Rightarrow> u32 option) \<Rightarrow> string \<Rightarrow> u16 \<Rightarrow> sockaddr_in option" where
  "IPv4Address_Create host pton text port =
     map_option (\<lambda>a. (new_IPv4Address host 0 0)\<lparr>sin_port := byteswapOnLittleEndian host port, s_addr := a\<rparr>) (pton text)"

definition IPv6Address_Create :: "byte_order \<Rightarrow> (string \<Rightarrow> u8 list option) \<Rightarrow> string \<Rightarrow> u16 \<Rightarrow> sockaddr_in6 option" where
  "IPv6Address_Create host pton text port =
     map_option (\<lambda>a. new_IPv6Address\<lparr>sin6_port := byteswapOnLittleEndian host port, s6_addr := a\<rparr>) (pton text)"

definition new_UnixAddress :: address where
  "new_UnixAddress = UnixAddress \<lparr>sun_family = 1, sun_path = replicate 108 (CHR 0x00)\<rparr> (2 + MAX_PATH_LEN)"

definition new_UnixAddress_of :: "string \<Rightarrow> fault + address" where
  "new_UnixAddress_of path =
     (let m_length = length path + 1;
          m_length = (if path \<noteq> [] \<and> hd path = CHR 0x00 then m_length - 1 else m_length) in
      if m_length > 108 then Inl Logic_Error
      else Inr (UnixAddress \<lparr>sun_family = 1, sun_path = overwrite 0 (take m_length (path @ [CHR 0x00])) (replicate 108 (CHR 0x00))\<rparr>
             (m_length + 2)))"

definition setAddrLen :: "nat \<Rightarrow> address \<Rightarrow> address" where
  "setAddrLen v a = (case a of UnixAddress u _ \<Rightarrow> UnixAddress u v | _ \<Rightarrow> a)"

definition getAddrLen :: "address \<Rightarrow> nat" where
  "getAddrLen a = (case a of IPv4Address _ \<Rightarrow> 16 | IPv6Address _ \<Rightarrow> 28 | UnixAddress _ n \<Rightarrow> n | UnknownAddress _ _ \<Rightarrow> 16)"

definition getFamily :: "address \<Rightarrow> int" where
  "getFamily a = (case a of IPv4Address s \<Rightarrow> uint (sin_family s) | IPv6Address s \<Rightarrow> uint (sin6_family s)
     | UnixAddress s _ \<Rightarrow> uint (sun_family s) | UnknownAddress f _ \<Rightarrow> uint f)"

text \<open>The memory \<open>getAddr\<close> points to.\<close>

definition addr_mem :: "byte_order \<Rightarrow> address \<Rightarrow> u8 list" where
  "addr_mem host a =
     (case a of
        IPv4Address s \<Rightarrow> mem_of host (sin_family s) @ mem_of host (sin_port s) @ mem_of host (s_addr s) @ replicate 8 0
      | IPv6Address s \<Rightarrow> mem_of host (sin6_family s) @ mem_of host (sin6_port s) @ mem_of host (sin6_flowinfo s)
          @ s6_addr s @ mem_of host (sin6_scope_id s)
      | UnixAddress s _ \<Rightarrow> mem_of host (sun_family s) @ map of_char (sun_path s)
      | UnknownAddress f d \<Rightarrow> mem_of host f @ d)"

text \<open>\<open>memcmp\<close> on blocks of equal length: the sign of the first difference.\<close>

fun memcmp :: "u8 list \<Rightarrow> u8 list \<Rightarrow> int" where
  "memcmp (x # xs) (y # ys) = (if x = y then memcmp xs ys else uint x - uint y)"
| "memcmp _ _ = 0"

definition addr_less :: "byte_order \<Rightarrow> address \<Rightarrow> address \<Rightarrow> bool" where
  "addr_less host lhs rhs =
     (let minlen = min (getAddrLen lhs) (getAddrLen rhs);
          result = memcmp (take minlen (addr_mem host lhs)) (take minlen (addr_mem host rhs)) in
      if result < 0 then True else if result > 0 then False
      else if getAddrLen lhs < getAddrLen rhs then True else False)"

definition addr_equal :: "byte_order \<Rightarrow> address \<Rightarrow> address \<Rightarrow> bool" where
  "addr_equal host lhs rhs =
     (getAddrLen lhs = getAddrLen rhs
      \<and> memcmp (take (getAddrLen lhs) (addr_mem host lhs)) (take (getAddrLen lhs) (addr_mem host rhs)) = 0)"

section \<open>Ports, masks and printing\<close>

definition getPort :: "byte_order \<Rightarrow> sockaddr_in \<Rightarrow> u16" where
  "getPort host a = byteswapOnLittleEndian host (sin_port a)"

definition setPort :: "byte_order \<Rightarrow> u16 \<Rightarrow> sockaddr_in \<Rightarrow> sockaddr_in" where
  "setPort host v a = a\<lparr>sin_port := byteswapOnLittleEndian host v\<rparr>"

definition getPort6 :: "byte_order \<Rightarrow> sockaddr_in6 \<Rightarrow> u16" where
  "getPort6 host a = byteswapOnLittleEndian host (sin6_port a)"

definition setPort6 :: "byte_order \<Rightarrow> u16 \<Rightarrow> sockaddr_in6 \<Rightarrow> sockaddr_in6" where
  "setPort6 host v a = a\<lparr>sin6_port := byteswapOnLittleEndian host v\<rparr>"

definition broadcastAddress :: "byte_order \<Rightarrow> nat \<Rightarrow> sockaddr_in \<Rightarrow> fault + sockaddr_in option" where
  "broadcastAddress host prefix_len a =
     (if prefix_len > 32 then Inr None
      else bindE (CreateMask32 prefix_len) (\<lambda>mask. Inr (Some (a\<lparr>s_addr := s_addr a OR byteswapOnLittleEndian host mask\<rparr>))))"

definition networdAddress :: "byte_order \<Rightarrow> nat \<Rightarrow> sockaddr_in \<Rightarrow> fault + sockaddr_in option" where
  "networdAddress host prefix_len a =
     (if prefix_len > 32 then Inr None
      else bindE (CreateMask32 prefix_len) (\<lambda>mask. Inr (Some (a\<lparr>s_addr := s_addr a AND byteswapOnLittleEndian host mask\<rparr>))))"

definition subnetMask :: "byte_order \<Rightarrow> nat \<Rightarrow> fault + sockaddr_in" where
  "subnetMask host prefix_len =
     bindE (CreateMask32 prefix_len) (\<lambda>mask. Inr \<lparr>sin_family = 2, sin_port = 0, s_addr = NOT (byteswapOnLittleEndian host mask)\<rparr>)"

text \<open>The byte array of an IPv6 address has 16 entries; writing outside is undefined.\<close>

definition broadcastAddress6 :: "nat \<Rightarrow> sockaddr_in6 \<Rightarrow> fault + sockaddr_in6" where
  "broadcastAddress6 prefix_len a =
     (let i = prefix_len div 8 in
      if i \<ge> 16 then Inl Buffer_Overflow
      else Inr (a\<lparr>s6_addr := take i (s6_addr a) @ [s6_addr a ! i OR CreateMask8 (prefix_len mod 8)] @ replicate (15 - i) 255\<rparr>))"

definition networdAddress6 :: "nat \<Rightarrow> sockaddr_in6 \<Rightarrow> fault + sockaddr_in6" where
  "networdAddress6 prefix_len a =
     (let i = prefix_len div 8 in
      if i \<ge> 16 then Inl Buffer_Overflow
      else Inr (a\<lparr>s6_addr := take i (s6_addr a) @ [s6_addr a ! i AND CreateMask8 (prefix_len mod 8)] @ replicate (15 - i) 0\<rparr>))"

definition subnetMask6 :: "nat \<Rightarrow> fault + sockaddr_in6" where
  "subnetMask6 prefix_len =
     (let i = prefix_len div 8 in
      if i \<ge> 16 then Inl Buffer_Overflow
      else Inr (new_IPv6Address\<lparr>s6_addr := replicate i 255 @ [NOT (CreateMask8 (prefix_len mod 8))] @ replicate (15 - i) 0\<rparr>))"

definition insert4 :: "byte_order \<Rightarrow> sockaddr_in \<Rightarrow> string" where
  "insert4 host a =
     (let addr = byteswapOnLittleEndian host (s_addr a) in
      dec (unat (drop_bit 24 addr AND 255)) @ ''.'' @ dec (unat (drop_bit 16 addr AND 255)) @ ''.''
      @ dec (unat (drop_bit 8 addr AND 255)) @ ''.'' @ dec (unat (addr AND 255))
      @ '':'' @ dec (unat (byteswapOnLittleEndian host (sin_port a))))"

definition hexdigit :: "nat \<Rightarrow> char" where
  "hexdigit d = (if d < 10 then digit d else char_of (87 + d))"

fun hex :: "nat \<Rightarrow> string" where
  "hex n = (if n < 16 then [hexdigit n] else hex (n div 16) @ [hexdigit (n mod 16)])"

declare hex.simps [simp del]

text \<open>
  The loop over the eight groups, which are in network order: \<open>i\<close> counts, \<open>prev\<close> is the group before,
  \<open>used\<close> says whether \<open>::\<close> has been printed.
\<close>

fun insert6_loop :: "nat \<Rightarrow> nat \<Rightarrow> bool \<Rightarrow> nat list \<Rightarrow> string \<times> bool" where
  "insert6_loop i prev used [] = ([], used)"
| "insert6_loop i prev used (g # gs) =
     (if g = 0 \<and> \<not> used then insert6_loop (Suc i) g used gs
      else let gap = (i \<noteq> 0 \<and> prev = 0 \<and> \<not> used);
               (rest, used') = insert6_loop (Suc i) g (used \<or> gap) gs in
           ((if gap then '':'' else []) @ (if i \<noteq> 0 then '':'' else []) @ hex g @ rest, used'))"

fun groups :: "u8 list \<Rightarrow> nat list" where
  "groups (h # l # bs) = (unat h * 256 + unat l) # groups bs"
| "groups _ = []"

definition insert6 :: "byte_order \<Rightarrow> sockaddr_in6 \<Rightarrow> string" where
  "insert6 host a =
     (let gs = groups (s6_addr a);
          (text, used_zeros) = insert6_loop 0 0 False gs in
      ''['' @ text @ (if \<not> used_zeros \<and> last gs = 0 then ''::'' else []) @ '']:''
      @ dec (unat (byteswapOnLittleEndian host (sin6_port a))))"

definition unix_text :: "sockaddr_un \<Rightarrow> nat \<Rightarrow> string" where
  "unix_text s m_length =
     (if m_length > 2 \<and> hd (sun_path s) = CHR 0x00 then [CHR 0x5C, CHR ''0''] @ take (m_length - 2 - 1) (drop 1 (sun_path s))
      else c_str (sun_path s))"

definition addr_toString :: "byte_order \<Rightarrow> address \<Rightarrow> string" where
  "addr_toString host a =
     (case a of IPv4Address s \<Rightarrow> insert4 host s | IPv6Address s \<Rightarrow> insert6 host s | UnixAddress s n \<Rightarrow> unix_text s n
      | UnknownAddress f _ \<Rightarrow> ''[UnknownAddress family='' @ dec (unat f) @ '']'')"

section \<open>Lookup\<close>

text \<open>What the system's lists hold for one entry: the structure, by its family.\<close>

datatype sockaddr = SA_in sockaddr_in | SA_in6 sockaddr_in6 | SA_other u16 "u8 list"

definition Address_Create :: "sockaddr option \<Rightarrow> address option" where
  "Address_Create addr =
     (case addr of None \<Rightarrow> None | Some (SA_in s) \<Rightarrow> Some (IPv4Address s) | Some (SA_in6 s) \<Rightarrow> Some (IPv6Address s)
      | Some (SA_other f d) \<Rightarrow> Some (UnknownAddress f d))"

text \<open>The host and service parts of \<open>host\<close>, service being a pointer into the text or null.\<close>

definition lookup_split :: "string \<Rightarrow> string \<times> string option" where
  "lookup_split host =
     (let rb = CHR '']''; col = CHR '':'';
          (node, service) =
            (if host \<noteq> [] \<and> hd host = CHR ''['' \<and> rb \<in> set (tl host) then
               let rest = tl (dropWhile (\<lambda>c. c \<noteq> rb) (tl host)) in
               (takeWhile (\<lambda>c. c \<noteq> rb) (tl host), if rest \<noteq> [] \<and> hd rest = col then Some (tl rest) else None)
             else ([], None));
          (node, service) =
            (if node = [] then
               let service = (if col \<in> set host then Some (dropWhile (\<lambda>c. c \<noteq> col) host) else None) in
               (case service of None \<Rightarrow> (node, None)
                | Some s \<Rightarrow> if col \<notin> set (tl s) then (takeWhile (\<lambda>c. c \<noteq> col) host, Some (tl s)) else (node, Some s))
             else (node, service)) in
      (if node = [] then host else node, service))"

definition Lookup :: "(string \<Rightarrow> string option \<Rightarrow> sockaddr list option) \<Rightarrow> string \<Rightarrow> address list option" where
  "Lookup getaddrinfo host =
     (case lookup_split host of (node, service) \<Rightarrow>
        case getaddrinfo (c_str node) (map_option c_str service) of None \<Rightarrow> None
        | Some rs \<Rightarrow> let result = map (\<lambda>r. the (Address_Create (Some r))) rs in if result \<noteq> [] then Some result else None)"

definition LookupAny :: "(string \<Rightarrow> string option \<Rightarrow> sockaddr list option) \<Rightarrow> string \<Rightarrow> address option" where
  "LookupAny getaddrinfo host = map_option hd (Lookup getaddrinfo host)"

definition is_ip :: "address \<Rightarrow> bool" where
  "is_ip a = (case a of IPv4Address _ \<Rightarrow> True | IPv6Address _ \<Rightarrow> True | _ \<Rightarrow> False)"

definition LookupAnyIPAddress :: "(string \<Rightarrow> string option \<Rightarrow> sockaddr list option) \<Rightarrow> string \<Rightarrow> address option" where
  "LookupAnyIPAddress getaddrinfo host =
     (case Lookup getaddrinfo host of None \<Rightarrow> None | Some result \<Rightarrow> find is_ip result)"

definition IPAddress_Create :: "byte_order \<Rightarrow> (string \<Rightarrow> sockaddr list option) \<Rightarrow> string \<Rightarrow> u16 \<Rightarrow> address option" where
  "IPAddress_Create host numeric text port =
     (case numeric text of None \<Rightarrow> None
      | Some rs \<Rightarrow> (case Address_Create (Some (hd rs)) of
           Some (IPv4Address s) \<Rightarrow> Some (IPv4Address (setPort host port s))
         | Some (IPv6Address s) \<Rightarrow> Some (IPv6Address (setPort6 host port s))
         | _ \<Rightarrow> None))"

text \<open>The interfaces: name, address (which may be missing, and is dereferenced either way) and netmask.\<close>

definition interface_prefix :: "sockaddr \<Rightarrow> sockaddr \<Rightarrow> nat" where
  "interface_prefix addr netmask =
     (case (addr, netmask) of (SA_in _, SA_in n) \<Rightarrow> CountBytes (s_addr n)
      | (SA_in6 _, SA_in6 n) \<Rightarrow> sum_list (map CountBytes (s6_addr n))
      | _ \<Rightarrow> 0)"

definition sa_family :: "sockaddr \<Rightarrow> int" where
  "sa_family s = (case s of SA_in x \<Rightarrow> uint (sin_family x) | SA_in6 x \<Rightarrow> uint (sin6_family x) | SA_other f _ \<Rightarrow> uint f)"

fun GetInterfaceAddresses :: "int \<Rightarrow> (string \<times> sockaddr option \<times> sockaddr) list \<Rightarrow> fault + (string \<times> address \<times> nat) list" where
  "GetInterfaceAddresses family [] = Inr []"
| "GetInterfaceAddresses family ((name, None, nm) # rest) = Inl Null_Deref"
| "GetInterfaceAddresses family ((name, Some a, nm) # rest) =
     bindE (GetInterfaceAddresses family rest) (\<lambda>rs.
       Inr ((if family \<noteq> AF_UNSPEC \<and> family \<noteq> sa_family a then []
             else case a of SA_in s \<Rightarrow> [(name, IPv4Address s, interface_prefix a nm)]
                  | SA_in6 s \<Rightarrow> [(name, IPv6Address s, interface_prefix a nm)]
                  | SA_other _ _ \<Rightarrow> []) @ rs))"

definition GetInterfaceAddresses_of ::
  "byte_order \<Rightarrow> (string \<times> sockaddr option \<times> sockaddr) list option \<Rightarrow> string \<Rightarrow> int \<Rightarrow> fault + (address \<times> nat) list option" where
  "GetInterfaceAddresses_of host getifaddrs iface family =
     (if iface = [] \<or> iface = ''*'' then
        Inr (Some ((if family = AF_INET \<or> family = AF_UNSPEC then [(IPv4Address (new_IPv4Address host 0 0), 0)] else [])
                   @ (if family = AF_INET6 \<or> family = AF_UNSPEC then [(IPv6Address new_IPv6Address, 0)] else [])))
      else case getifaddrs of None \<Rightarrow> Inr None
      | Some ifs \<Rightarrow> bindE (GetInterfaceAddresses family ifs) (\<lambda>rs.
          let result = map snd (filter (\<lambda>r. fst r = iface) rs) in
          Inr (if rs \<noteq> [] \<and> result \<noteq> [] then Some result else None)))"

section \<open>Counting bits\<close>

text \<open>\<open>m AND (m - 1)\<close> clears the lowest set bit.\<close>

lemma clear_lowest_nat:
  "0 < m \<Longrightarrow> \<exists>k. bit m k \<and> (\<forall>n. bit (m AND (m - 1)) n \<longleftrightarrow> bit m n \<and> n \<noteq> k)" for m :: nat
proof (induction m rule: less_induct)
  case (less m)
  show ?case
  proof (cases "even m")
    case True
    then have half: "0 < m div 2" "m div 2 < m" "(m - 1) div 2 = m div 2 - 1" using less.prems by (auto elim!: evenE)
    from less.IH [OF half(2,1)] obtain k where k: "bit (m div 2) k" "\<And>n. bit (m div 2 AND (m div 2 - 1)) n \<longleftrightarrow> bit (m div 2) n \<and> n \<noteq> k" by blast
    have "bit (m AND (m - 1)) n \<longleftrightarrow> bit m n \<and> n \<noteq> Suc k" for n
    proof (cases n)
      case (Suc j)
      have "bit m (Suc j) = bit (m div 2) j" "bit (m - 1) (Suc j) = bit (m div 2 - 1) j"
        by (simp_all only: bit_Suc half(3))
      then show ?thesis using k(2) [of j] unfolding Suc bit_and_iff by blast
    qed (use True in \<open>simp add: even_and_iff bit_0\<close>)
    moreover have "bit m (Suc k)" using k(1) by (simp add: bit_Suc)
    ultimately show ?thesis by blast
  next
    case False
    then have half: "(m - 1) div 2 = m div 2" "even (m - 1)" by (auto elim!: oddE)
    have "bit (m AND (m - 1)) n \<longleftrightarrow> bit m n \<and> n \<noteq> 0" for n
    proof (cases n)
      case (Suc j)
      have "bit m (Suc j) = bit (m div 2) j" "bit (m - 1) (Suc j) = bit (m div 2) j" by (simp_all only: bit_Suc half(1))
      then show ?thesis unfolding Suc bit_and_iff by blast
    qed (use half(2) False in \<open>simp add: even_and_iff bit_0\<close>)
    moreover have "bit m 0" using False by (simp add: bit_0)
    ultimately show ?thesis by blast
  qed
qed

lemma bit_unat: "bit (unat v) n \<longleftrightarrow> bit v n" for v :: "'a::len word"
  by (simp add: bit_unsigned_iff bit_imp_le_length possible_bit_def)

lemma finite_bits: "finite {n. bit v n}" for v :: "'a::len word"
  by (rule finite_subset [of _ "{..< LENGTH('a)}"]) (auto dest: bit_imp_le_length)

lemma CountBytes_card: "CountBytes v = card {n. bit v n}" for v :: "'a::len word"
proof (induction v rule: CountBytes.induct)
  case (1 v)
  show ?case
  proof (cases "v = 0")
    case False
    then have pos: "0 < unat v" by (simp add: unat_gt_0)
    have "unat (v AND (v - 1)) = unat v AND (unat v - 1)" using False by (simp add: unsigned_and_eq unat_minus_one)
    with clear_lowest_nat [OF pos] obtain k where k: "bit v k" "\<And>n. bit (v AND (v - 1)) n \<longleftrightarrow> bit v n \<and> n \<noteq> k"
      by (metis bit_unat)
    then have "{n. bit v n} = insert k {n. bit (v AND (v - 1)) n}" "k \<notin> {n. bit (v AND (v - 1)) n}" by auto
    then show ?thesis using 1 False finite_bits [of "v AND (v - 1)"] by (subst CountBytes.simps) simp
  next
    case True
    have "CountBytes v = 0" using True by (subst CountBytes.simps) simp
    moreover have "{n. bit v n} = {}" using True by simp
    ultimately show ?thesis by (simp only: card.empty)
  qed
qed

section \<open>Byte order\<close>

lemma bit_byteswap:
  fixes v :: "'a::len word"
  assumes "8 dvd LENGTH('a)"
  shows "bit (byteswap v) n \<longleftrightarrow> n < LENGTH('a) \<and> bit v (8 * (LENGTH('a) div 8 - 1 - n div 8) + n mod 8)"
proof (cases "n < LENGTH('a)")
  case True
  then have d: "n div 8 < LENGTH('a) div 8" using assms by (auto elim!: dvdE)
  have "bit (byteswap v) n \<longleftrightarrow> bit (rev (le_bytes v) ! (n div 8)) (n mod 8)"
    using True d by (simp add: byteswap_def bit_of_le_bytes)
  also have "rev (le_bytes v) ! (n div 8) = le_bytes v ! (LENGTH('a) div 8 - 1 - n div 8)"
    using d by (simp add: rev_nth)
  finally show ?thesis using True d le_bytes_nth_bit [of "LENGTH('a) div 8 - 1 - n div 8" "n mod 8" v] by simp
qed (use bit_imp_le_length in blast)

lemma byteswap_bitwise:
  fixes v w :: u32
  shows "byteswap (v AND w) = byteswap v AND byteswap w" "byteswap (v OR w) = byteswap v OR byteswap w"
    "byteswap (NOT v) = NOT (byteswap v)"
  by (rule bit_eqI; auto simp: bit_byteswap bit_and_iff bit_or_iff bit_not_iff possible_bit_def)+

lemma bswap_bitwise:
  fixes v w :: u32
  shows "byteswapOnLittleEndian host (v AND w) = byteswapOnLittleEndian host v AND byteswapOnLittleEndian host w"
    "byteswapOnLittleEndian host (v OR w) = byteswapOnLittleEndian host v OR byteswapOnLittleEndian host w"
    "byteswapOnLittleEndian host (NOT v) = NOT (byteswapOnLittleEndian host v)"
    "byteswapOnLittleEndian host (byteswapOnLittleEndian host v) = v"
  by (simp_all add: byteswapOnLittleEndian_def byteswap_bitwise byteswap_byteswap)

lemma bswap16 [simp]: "byteswapOnLittleEndian host (byteswapOnLittleEndian host p) = (p :: u16)"
  by (simp add: byteswapOnLittleEndian_def byteswap_byteswap)

text \<open>Swapping bytes permutes the bits.\<close>

lemma card_bits_bswap: "card {n. bit (byteswapOnLittleEndian host v) n} = card {n. bit (v :: u32) n}"
proof (cases "host = SYLAR_BIG_ENDIAN")
  case False
  define p :: "nat \<Rightarrow> nat" where "p n = 8 * (3 - n div 8) + n mod 8" for n
  have inv: "p (p n) = n" "p n < 32" if "n < 32" for n using that by (auto simp: p_def)
  have bs: "bit (byteswap v) n \<longleftrightarrow> n < 32 \<and> bit v (p n)" for n by (simp add: bit_byteswap p_def)
  have len: "n < 32" if "bit v n" for n using bit_imp_le_length [OF that] by simp
  have "{n. bit (byteswap v) n} = p ` {n. bit v n}"
  proof
    show "{n. bit (byteswap v) n} \<subseteq> p ` {n. bit v n}" using inv(1) bs by (metis (mono_tags) imageI mem_Collect_eq subsetI)
    show "p ` {n. bit v n} \<subseteq> {n. bit (byteswap v) n}" using inv len bs by auto
  qed
  moreover have "inj_on p {n. bit v n}" by (rule inj_on_inverseI [of _ p]) (use inv(1) len in simp)
  ultimately show ?thesis using False by (simp add: byteswapOnLittleEndian_def card_image)
qed (simp add: byteswapOnLittleEndian_def)

section \<open>Reading an address back\<close>

lemma CreateMask32_mask: "1 \<le> p \<Longrightarrow> p \<le> 32 \<Longrightarrow> CreateMask32 p = Inr (mask (32 - p))"
  by (simp add: CreateMask32_def mask_eq_exp_minus_1 push_bit_of_1)

text \<open>A reference reader: \<open>k\<close> decimal numbers, each followed by one separator.\<close>

primrec read_nums :: "nat \<Rightarrow> string \<Rightarrow> nat list" where
  "read_nums 0 s = []"
| "read_nums (Suc k) s = nat (atoi s) # read_nums k (tl (dropWhile isdigit s))"

lemma read_nums_dec:
  assumes "\<not> isdigit c"
  shows "read_nums (Suc k) (dec n @ c # rest) = n # read_nums k rest" "read_nums (Suc 0) (dec n) = [n]"
proof -
  have "dropWhile isdigit (dec n @ c # rest) = c # rest" using dec_digits assms by (simp add: dropWhile_append)
  then show "read_nums (Suc k) (dec n @ c # rest) = n # read_nums k rest" using atoi_dec [of "c # rest" n] assms by simp
  show "read_nums (Suc 0) (dec n) = [n]" using atoi_dec [of "[]" n] by simp
qed

definition read4 :: "byte_order \<Rightarrow> string \<Rightarrow> sockaddr_in" where
  "read4 host s =
     (case read_nums 5 s of [a, b, c, d, p] \<Rightarrow> new_IPv4Address host (of_nat (((a * 256 + b) * 256 + c) * 256 + d)) (of_nat p)
      | _ \<Rightarrow> new_IPv4Address host 0 0)"

lemma octets:
  fixes w :: u32
  shows "((unat (drop_bit 24 w AND 255) * 256 + unat (drop_bit 16 w AND 255)) * 256 + unat (drop_bit 8 w AND 255)) * 256
    + unat (w AND 255) = unat w"
proof -
  have b: "unat (drop_bit k w AND 255) = unat w div 2 ^ k mod 256" for k
  proof -
    have "(255 :: u32) = mask 8" by (simp add: mask_eq_exp_minus_1)
    then have "drop_bit k w AND 255 = take_bit 8 (drop_bit k w)" by (simp only: take_bit_eq_mask)
    then have "unat (drop_bit k w AND 255) = take_bit 8 (drop_bit k (take_bit LENGTH(32) (unat w)))"
      by (simp only: unsigned_take_bit_eq unsigned_drop_bit_eq)
    then show ?thesis using unsigned_less [of w, where 'a = nat] by (simp add: take_bit_eq_mod drop_bit_eq_div)
  qed
  have lt: "unat w < 4294967296" using unsigned_less [of w, where 'a = nat] by simp
  have base: "n div 256 * 256 + n mod 256 = n" for n :: nat by simp
  have d: "unat w div 2 ^ 16 = unat w div 2 ^ 8 div 256" "unat w div 2 ^ 24 = unat w div 2 ^ 16 div 256"
    by (simp_all add: div_mult2_eq [symmetric])
  have "unat w div 2 ^ 24 mod 256 = unat w div 2 ^ 24" using lt by (simp add: mod_less less_mult_imp_div_less)
  then have "((unat w div 2 ^ 24 mod 256 * 256 + unat w div 2 ^ 16 mod 256) * 256 + unat w div 2 ^ 8 mod 256) * 256 + unat w mod 256 = unat w"
    using base [of "unat w div 2 ^ 16"] base [of "unat w div 2 ^ 8"] base [of "unat w"] d by simp
  then show ?thesis using b [of 24] b [of 16] b [of 8] b [of 0] by simp
qed

section \<open>Comparison\<close>

lemma memcmp_lex:
  "length xs = length ys \<Longrightarrow> memcmp xs ys < 0 \<longleftrightarrow> xs < ys" "length xs = length ys \<Longrightarrow> memcmp xs ys = 0 \<longleftrightarrow> xs = ys"
  by (induction xs ys rule: memcmp.induct) (auto simp: word_less_def word_uint_eq_iff)

lemma lex_append_less:
  fixes xs ys :: "'a::linorder list"
  assumes "length xs = length ys"
  shows "xs @ us < ys @ vs \<longleftrightarrow> xs < ys \<or> xs = ys \<and> us < vs"
  using assms by (induction xs ys rule: list_induct2) auto

text \<open>The bytes an address consists of; its length never exceeds its structure.\<close>

definition addr_bytes :: "byte_order \<Rightarrow> address \<Rightarrow> u8 list" where
  "addr_bytes host a = take (getAddrLen a) (addr_mem host a)"

definition addr_ok :: "byte_order \<Rightarrow> address \<Rightarrow> bool" where
  "addr_ok host a \<longleftrightarrow> getAddrLen a \<le> length (addr_mem host a)"

lemma addr_less_bytes:
  assumes "addr_ok host a" "addr_ok host b"
  shows "addr_less host a b \<longleftrightarrow> addr_bytes host a < addr_bytes host b"
proof -
  define n where "n = min (getAddrLen a) (getAddrLen b)"
  let ?x = "take n (addr_bytes host a)" and ?y = "take n (addr_bytes host b)"
  have len: "length (addr_bytes host a) = getAddrLen a" "length (addr_bytes host b) = getAddrLen b"
    using assms by (simp_all add: addr_bytes_def addr_ok_def)
  have eq: "length ?x = length ?y" using len by (simp add: n_def)
  have t: "take n (addr_mem host a) = ?x" "take n (addr_mem host b) = ?y" by (simp_all add: addr_bytes_def n_def min_def)
  have rest: "drop n (addr_bytes host a) < drop n (addr_bytes host b) \<longleftrightarrow> getAddrLen a < getAddrLen b"
  proof -
    have nil: "([] < zs) \<longleftrightarrow> zs \<noteq> []" for zs :: "u8 list" by (cases zs) auto
    show ?thesis using len by (auto simp: n_def min_def nil)
  qed
  have "addr_bytes host a < addr_bytes host b \<longleftrightarrow> ?x < ?y \<or> ?x = ?y \<and> getAddrLen a < getAddrLen b"
    using lex_append_less [OF eq, of "drop n (addr_bytes host a)" "drop n (addr_bytes host b)"] rest by simp
  then show ?thesis
    using memcmp_lex [OF eq] by (auto simp: addr_less_def Let_def n_def [symmetric] t)
qed

lemma addr_equal_bytes:
  assumes "addr_ok host a" "addr_ok host b"
  shows "addr_equal host a b \<longleftrightarrow> addr_bytes host a = addr_bytes host b"
proof (cases "getAddrLen a = getAddrLen b")
  case True
  then show ?thesis
    using memcmp_lex(2) [of "addr_bytes host a" "addr_bytes host b"] assms
    by (simp add: addr_equal_def addr_bytes_def addr_ok_def)
next
  case False
  have "length (addr_bytes host a) \<noteq> length (addr_bytes host b)" using False assms by (simp add: addr_bytes_def addr_ok_def)
  then show ?thesis using False by (auto simp: addr_equal_def)
qed

section \<open>Properties\<close>

text \<open>
  C19: prefix arithmetic on IPv4 addresses, in host order and on either byte order: for a prefix of 1
  to 32 bits the broadcast address sets exactly the host bits, the subnet mask has exactly the
  network bits, and counting its bits, as the listing of interfaces does, gives the prefix back;
  \<open>networdAddress\<close> keeps the host bits and clears the network bits, so it is the network address
  only for 0.0.0.0. A prefix of 0 shifts by the width of the type.
\<close>

theorem subnet_arithmetic:
  fixes host :: byte_order and a :: sockaddr_in
  defines "A \<equiv> byteswapOnLittleEndian host (s_addr a)"
  assumes "1 \<le> p" and "p \<le> 32"
  shows "(\<exists>b. broadcastAddress host p a = Inr (Some b) \<and> byteswapOnLittleEndian host (s_addr b) = A OR mask (32 - p) \<and> sin_port b = sin_port a)
    \<and> (\<exists>b. subnetMask host p = Inr b \<and> byteswapOnLittleEndian host (s_addr b) = NOT (mask (32 - p)) \<and> CountBytes (s_addr b) = p)
    \<and> (\<exists>b. networdAddress host p a = Inr (Some b) \<and> byteswapOnLittleEndian host (s_addr b) = A AND mask (32 - p)
         \<and> (byteswapOnLittleEndian host (s_addr b) = A AND NOT (mask (32 - p)) \<longleftrightarrow> A = 0))
    \<and> broadcastAddress host 0 a = Inl Bad_Shift \<and> subnetMask host 0 = Inl Bad_Shift"
proof -
  note m = CreateMask32_mask [OF assms(2,3)] and sw = bswap_bitwise
  have "\<exists>b. broadcastAddress host p a = Inr (Some b) \<and> byteswapOnLittleEndian host (s_addr b) = A OR mask (32 - p) \<and> sin_port b = sin_port a"
    using assms(3) by (simp add: broadcastAddress_def m sw A_def)
  moreover have "CountBytes (NOT (byteswapOnLittleEndian host (mask (32 - p) :: u32))) = p"
  proof -
    have "{n. bit (NOT (mask (32 - p)) :: u32) n} = {32 - p..<32}" by (auto simp: bit_not_iff bit_mask_iff possible_bit_def)
    then have "card {n. bit (NOT (mask (32 - p)) :: u32) n} = p" using assms(3) by simp
    then show ?thesis using card_bits_bswap [of host "NOT (mask (32 - p))"] by (simp add: CountBytes_card sw(3))
  qed
  then have "\<exists>b. subnetMask host p = Inr b \<and> byteswapOnLittleEndian host (s_addr b) = NOT (mask (32 - p)) \<and> CountBytes (s_addr b) = p"
    by (simp add: subnetMask_def m sw)
  moreover have "(A AND mask (32 - p) = A AND NOT (mask (32 - p))) \<longleftrightarrow> A = 0"
  proof
    assume eq: "A AND mask (32 - p) = A AND NOT (mask (32 - p))"
    show "A = 0"
    proof (rule bit_eqI)
      fix n
      assume "possible_bit TYPE(u32) n"
      have "bit (A AND mask (32 - p)) n = bit (A AND NOT (mask (32 - p))) n" using eq by simp
      then show "bit A n = bit (0 :: u32) n" using bit_imp_le_length [of A n] by (auto simp: bit_and_iff bit_not_iff)
    qed
  qed simp
  then have "\<exists>b. networdAddress host p a = Inr (Some b) \<and> byteswapOnLittleEndian host (s_addr b) = A AND mask (32 - p)
      \<and> (byteswapOnLittleEndian host (s_addr b) = A AND NOT (mask (32 - p)) \<longleftrightarrow> A = 0)"
    using assms(3) by (simp add: networdAddress_def m sw A_def)
  ultimately show ?thesis by (simp add: broadcastAddress_def subnetMask_def CreateMask32_def)
qed

theorem subnet_arithmetic_witness:
  "\<exists>b. networdAddress SYLAR_LITTLE_ENDIAN 24 (new_IPv4Address SYLAR_LITTLE_ENDIAN 0xC0A80105 80) = Inr (Some b)
     \<and> byteswapOnLittleEndian SYLAR_LITTLE_ENDIAN (s_addr b) = 5"
  using subnet_arithmetic [of 24 SYLAR_LITTLE_ENDIAN "new_IPv4Address SYLAR_LITTLE_ENDIAN 0xC0A80105 80"]
  by (auto simp: new_IPv4Address_def bswap_bitwise mask_eq_exp_minus_1)

text \<open>
  C20: printing an IPv4 address and reading the dotted text with its port back gives the address, on
  either byte order.
\<close>

theorem ipv4_text_roundtrip:
  assumes "sin_family a = 2"
  shows "read4 host (addr_toString host (IPv4Address a)) = a"
proof -
  have nd: "\<not> isdigit (CHR ''.'')" "\<not> isdigit (CHR '':'')" by (simp_all add: isdigit_def code_def)
  let ?A = "byteswapOnLittleEndian host (s_addr a)"
  have five: "5 = Suc (Suc (Suc (Suc (Suc 0))))" by simp
  have "read_nums 5 (addr_toString host (IPv4Address a)) = [unat (drop_bit 24 ?A AND 255), unat (drop_bit 16 ?A AND 255),
      unat (drop_bit 8 ?A AND 255), unat (?A AND 255), unat (byteswapOnLittleEndian host (sin_port a))]"
    unfolding five by (simp add: addr_toString_def insert4_def Let_def read_nums_dec nd del: read_nums.simps)
       (use atoi_dec [of "[]"] in simp)
  then have "read4 host (addr_toString host (IPv4Address a)) = new_IPv4Address host ?A (byteswapOnLittleEndian host (sin_port a))"
    by (simp only: read4_def list.case octets) simp
  then show ?thesis using assms by (simp add: new_IPv4Address_def bswap_bitwise)
qed

theorem ipv4_text_roundtrip_witness:
  "read4 SYLAR_LITTLE_ENDIAN (addr_toString SYLAR_LITTLE_ENDIAN (IPv4Address (new_IPv4Address SYLAR_LITTLE_ENDIAN 0x7F000001 8080)))
     = new_IPv4Address SYLAR_LITTLE_ENDIAN 0x7F000001 8080"
  by (rule ipv4_text_roundtrip) (simp add: new_IPv4Address_def)

text \<open>
  The comparison operators of addresses are the lexicographic order and equality of their bytes,
  hence a strict total order that agrees with equality, as the containers need.
\<close>

theorem address_order:
  assumes "addr_ok host a" "addr_ok host b"
  shows "(addr_less host a b \<longleftrightarrow> addr_bytes host a < addr_bytes host b)
    \<and> (addr_equal host a b \<longleftrightarrow> addr_bytes host a = addr_bytes host b)
    \<and> (addr_less host a b \<or> addr_equal host a b \<or> addr_less host b a) \<and> \<not> (addr_less host a b \<and> addr_less host b a)"
  using addr_less_bytes [OF assms] addr_less_bytes [OF assms(2,1)] addr_equal_bytes [OF assms]
    linorder_less_linear [of "addr_bytes host a" "addr_bytes host b"] less_not_sym [of "addr_bytes host a" "addr_bytes host b"]
  by auto

theorem address_order_witness:
  "\<not> addr_less SYLAR_BIG_ENDIAN (IPv4Address (new_IPv4Address SYLAR_BIG_ENDIAN 7 80)) (IPv4Address (new_IPv4Address SYLAR_BIG_ENDIAN 7 80))"
proof -
  have "addr_ok SYLAR_BIG_ENDIAN (IPv4Address (new_IPv4Address SYLAR_BIG_ENDIAN 7 80))"
    by (simp add: addr_ok_def getAddrLen_def addr_mem_def mem_of_def)
  from address_order [OF this this] show ?thesis by auto
qed

text \<open>
  How a host text is split for \<open>getaddrinfo\<close>: a name alone has no service; \<open>name:service\<close> and
  \<open>[address]:service\<close> are split; but a bare IPv6 address, with at least two colons and no brackets, is
  passed on with the text from its first colon as service, which is no service name or number.
\<close>

theorem lookup_split_cases:
  assumes "CHR '':'' \<notin> set n" and "n \<noteq> []" and "hd n \<noteq> CHR ''[''" and "CHR '':'' \<notin> set sv"
    and "CHR '']'' \<notin> set v6" and "v6 \<noteq> []"
  shows "lookup_split n = (n, None) \<and> lookup_split (n @ '':'' @ sv) = (n, Some sv)
    \<and> lookup_split (''['' @ v6 @ '']:'' @ sv) = (v6, Some sv) \<and> lookup_split (''['' @ v6 @ '']'') = (v6, None)
    \<and> lookup_split (n @ '':'' @ x @ '':'' @ y) = (n @ '':'' @ x @ '':'' @ y, Some ('':'' @ x @ '':'' @ y))"
proof -
  have tw: "takeWhile (\<lambda>c. c \<noteq> CHR '':'') (n @ CHR '':'' # z) = n" "dropWhile (\<lambda>c. c \<noteq> CHR '':'') (n @ CHR '':'' # z) = CHR '':'' # z" for z
    using assms(1) by (simp_all add: takeWhile_append dropWhile_append) 
  have tb: "takeWhile (\<lambda>c. c \<noteq> CHR '']'') (v6 @ CHR '']'' # z) = v6" "dropWhile (\<lambda>c. c \<noteq> CHR '']'') (v6 @ CHR '']'' # z) = CHR '']'' # z" for z
    using assms(5) by (simp_all add: takeWhile_append dropWhile_append)
  show ?thesis
    using assms by (simp add: lookup_split_def Let_def tw tb)
qed

theorem lookup_split_cases_witness:
  "lookup_split ''fe80::1'' = (''fe80::1'', Some ''::1'')"
  using lookup_split_cases [of "''fe80''" "''80''" "''x''" "[]" "''1''"] by simp

end
