(* ===== verification/Uri.thy ===== *)
theory Uri
  imports Uri_Table Net_Address
begin

text \<open>
  URIs (\<open>uri.h\<close>, \<open>uri.rl\<close> and the code Ragel generates from it, \<open>uri.rl.cc\<close>): parsing, the defaults of path and
  port, and printing.
\<close>

section \<open>The data\<close>

record uri =
  u_scheme :: string
  u_userinfo :: string
  u_host :: string
  u_path :: string
  u_query :: string
  u_fragment :: string
  u_port :: int

definition Uri :: uri where
  "Uri = \<lparr>u_scheme = [], u_userinfo = [], u_host = [], u_path = [], u_query = [], u_fragment = [], u_port = 0\<rparr>"

definition isDefaultPort :: "uri \<Rightarrow> bool" where
  "isDefaultPort u \<longleftrightarrow>
     (if u_port u = 0 then True
      else if u_scheme u = ''http'' \<or> u_scheme u = ''ws'' then u_port u = 80
      else if u_scheme u = ''https'' \<or> u_scheme u = ''wss'' then u_port u = 443
      else False)"

definition u_getPath :: "uri \<Rightarrow> string" where
  "u_getPath u = (if u_path u = [] then ''/'' else u_path u)"

definition u_getPort :: "uri \<Rightarrow> int" where
  "u_getPort u =
     (if u_port u \<noteq> 0 then u_port u
      else if u_scheme u = ''http'' \<or> u_scheme u = ''ws'' then 80
      else if u_scheme u = ''https'' \<or> u_scheme u = ''wss'' then 443
      else u_port u)"

text \<open>\<open>std::to_string\<close> of an \<open>int\<close>.\<close>

definition to_string :: "int \<Rightarrow> string" where
  "to_string n = (if n < 0 then CHR ''-'' # dec (nat (- n)) else dec (nat n))"

definition u_toString :: "uri \<Rightarrow> string" where
  "u_toString u =
     u_scheme u @ ''://'' @ u_userinfo u @ (if u_userinfo u = [] then [] else ''@'') @ u_host u
     @ (if isDefaultPort u then [] else '':'' @ to_string (u_port u)) @ u_getPath u
     @ (if u_query u = [] then [] else ''?'') @ u_query u @ (if u_fragment u = [] then [] else ''#'') @ u_fragment u"

section \<open>Parsing\<close>

text \<open>
  The state of the actions: the mark, \<open>None\<close> for a null pointer, and the URI. A string that is built from a null
  pointer throws; \<open>atoi\<close> of a null pointer crashes. The text ends in a zero byte, at which \<open>atoi\<close> stops.
\<close>

type_synonym uri_state = "nat option \<times> uri"

definition marked :: "string \<Rightarrow> nat option \<Rightarrow> nat \<Rightarrow> fault + string" where
  "marked text mark p = (case mark of None \<Rightarrow> Inl Logic_Error | Some m \<Rightarrow> Inr (take (p - m) (drop m text)))"

primrec uri_act :: "string \<Rightarrow> nat \<Rightarrow> uri_action \<Rightarrow> uri_state \<Rightarrow> fault + uri_state" where
  "uri_act text p Marku st = Inr (Some p, snd st)"
| "uri_act text p Markh st = Inr (Some p, snd st)"
| "uri_act text p Save_scheme st = bindE (marked text (fst st) p) (\<lambda>v. Inr (None, (snd st)\<lparr>u_scheme := v\<rparr>))"
| "uri_act text p Save_port st =
     (if fst st = Some p then Inr (None, snd st)
      else case fst st of None \<Rightarrow> Inl Null_Deref
      | Some m \<Rightarrow> Inr (None, (snd st)\<lparr>u_port := c_int (strtol (drop m text) 10)\<rparr>))"
| "uri_act text p Save_userinfo st =
     (if fst st = None then Inr (None, snd st)
      else bindE (marked text (fst st) p) (\<lambda>v. Inr (None, (snd st)\<lparr>u_userinfo := v\<rparr>)))"
| "uri_act text p Save_host st =
     (if fst st = None then Inr st
      else bindE (marked text (fst st) p) (\<lambda>v. Inr (fst st, (snd st)\<lparr>u_host := v\<rparr>)))"
| "uri_act text p Save_path st = bindE (marked text (fst st) p) (\<lambda>v. Inr (None, (snd st)\<lparr>u_path := v\<rparr>))"
| "uri_act text p Save_query st = bindE (marked text (fst st) p) (\<lambda>v. Inr (None, (snd st)\<lparr>u_query := v\<rparr>))"
| "uri_act text p Save_fragment st = bindE (marked text (fst st) p) (\<lambda>v. Inr (None, (snd st)\<lparr>u_fragment := v\<rparr>))"

definition uri_step :: "int \<Rightarrow> char \<Rightarrow> int \<times> uri_action list" where
  "uri_step = machine_step uri_machine (\<lambda>x. x)"

definition uri_acts :: "string \<Rightarrow> nat \<Rightarrow> uri_action list \<Rightarrow> fault + uri_state \<Rightarrow> fault + uri_state" where
  "uri_acts text p as st = fold (\<lambda>a st. bindE st (uri_act text p a)) as st"

definition uri_run :: "string \<Rightarrow> int \<Rightarrow> nat \<Rightarrow> string \<Rightarrow> fault + uri_state \<Rightarrow> int \<times> nat \<times> (fault + uri_state)" where
  "uri_run text = run (\<lambda>p a st. bindE st (uri_act text p a)) (\<lambda>_. False) uri_step"

text \<open>The switch over the states at the end of the text.\<close>

primrec eof_actions :: "(int list \<times> uri_action list) list \<Rightarrow> int \<Rightarrow> uri_action list" where
  "eof_actions [] cs = []"
| "eof_actions (e # es) cs = (if List.member (fst e) cs then snd e else eof_actions es cs)"

definition uri_start :: int where "uri_start = 451"
definition uri_first_final :: int where "uri_first_final = 451"

text \<open>What \<open>Uri::Create\<close> makes of the end of a run: the actions at the end, and the test of the state.\<close>

definition uri_finish :: "string \<Rightarrow> int \<times> nat \<times> (fault + uri_state) \<Rightarrow> fault + uri option" where
  "uri_finish text r =
     (case r of (cs, p, st) \<Rightarrow>
        bindE (if cs = 0 then st else uri_acts text p (eof_actions uri_eof cs) st) (\<lambda>st.
          Inr (if cs = 0 then None else if uri_first_final \<le> cs then Some (snd st) else None)))"

definition uri_Create :: "string \<Rightarrow> fault + uri option" where
  "uri_Create text = uri_finish text (uri_run text uri_start 0 text (Inr (None, Uri)))"

end
