(* ===== verification/Http_Client.thy ===== *)
theory Http_Client
  imports Http_Connection Uri
begin

text \<open>
  The client (\<open>http/http_connection.h\<close>, \<open>http/http_connection.cc\<close>): requests built from URIs, the results with their
  error codes, and the pool of connections. The resolver, the kernel (whether a connection can be made, and the session over
  it), the clock and the error texts of the C library are arguments. A receive timeout is one of the
  answers in the plan of the session, so setting it is not modelled.
\<close>

section \<open>Addresses of URIs\<close>

definition address_setPort :: "byte_order \<Rightarrow> u16 \<Rightarrow> address \<Rightarrow> address" where
  "address_setPort host port a =
     (case a of IPv4Address s \<Rightarrow> IPv4Address (setPort host port s) | IPv6Address s \<Rightarrow> IPv6Address (setPort6 host port s) | _ \<Rightarrow> a)"

definition u_createAddress :: "byte_order \<Rightarrow> (string \<Rightarrow> string option \<Rightarrow> sockaddr list option) \<Rightarrow> uri \<Rightarrow> address option" where
  "u_createAddress host getaddrinfo u =
     map_option (address_setPort host (word_of_int (u_getPort u))) (LookupAnyIPAddress getaddrinfo (u_host u))"

section \<open>Results\<close>

datatype http_error =
    ERR_OK | INVALID_URL | INVALID_HOST | CONNECT_FAIL | SEND_CLOSE_BY_PEER | SEND_SOCKET_ERROR | TIMEOUT
  | CREATE_SOCKET_ERROR | POOL_GET_CONNECTION | POOL_INVALID_CONNECTION

primrec error_code :: "http_error \<Rightarrow> int" where
  "error_code ERR_OK = 0"
| "error_code INVALID_URL = 1"
| "error_code INVALID_HOST = 2"
| "error_code CONNECT_FAIL = 3"
| "error_code SEND_CLOSE_BY_PEER = 4"
| "error_code SEND_SOCKET_ERROR = 5"
| "error_code TIMEOUT = 6"
| "error_code CREATE_SOCKET_ERROR = 7"
| "error_code POOL_GET_CONNECTION = 8"
| "error_code POOL_INVALID_CONNECTION = 9"

record http_result =
  hr_result :: int
  hr_response :: "http_response option"
  hr_error :: string

definition HttpResult :: "http_error \<Rightarrow> http_response option \<Rightarrow> string \<Rightarrow> http_result" where
  "HttpResult e rsp text = \<lparr>hr_result = error_code e, hr_response = rsp, hr_error = text\<rparr>"

definition hr_toString :: "http_result \<Rightarrow> string" where
  "hr_toString r =
     ''[HttpResult result='' @ to_string (hr_result r) @ '' error='' @ hr_error r
     @ '' response='' @ (case hr_response r of Some rsp \<Rightarrow> rs_dump rsp | None \<Rightarrow> ''nullptr'') @ '']''"

text \<open>What the kernel makes of a new socket that is connected to an address.\<close>

datatype dial = No_Socket | Refused | Connected session

record client_env =
  ce_order :: byte_order
  ce_getaddrinfo :: "string \<Rightarrow> string option \<Rightarrow> sockaddr list option"
  ce_dial :: "address \<Rightarrow> dial"
  ce_cast :: "string \<Rightarrow> u64 option"
  ce_buffer_size :: nat
  ce_garbage :: "session \<Rightarrow> httpclient_parser"
  ce_errno :: int
  ce_strerror :: "int \<Rightarrow> string"
  ce_remote :: "session \<Rightarrow> string"

definition errno_text :: "client_env \<Rightarrow> string" where
  "errno_text env = '' errno='' @ to_string (ce_errno env) @ '' errstr='' @ ce_strerror env (ce_errno env)"

definition timeout_text :: "u64 \<Rightarrow> string" where
  "timeout_text timeout_ms = '' timeout_ms:'' @ dec (unat timeout_ms)"

section \<open>Requests\<close>

text \<open>The loop over the headers, a map in the order of its keys: whether there was a host, and the request.\<close>

fun add_headers :: "bool \<Rightarrow> (string \<times> string) list \<Rightarrow> http_request \<Rightarrow> bool \<times> http_request" where
  "add_headers has_host [] req = (has_host, req)"
| "add_headers has_host ((k, v) # hs) req =
     (if strcasecmp k ''connection'' = 0 then
        add_headers has_host hs (if strcasecmp v ''keep-alive'' = 0 then req\<lparr>rq_close := False\<rparr> else req)
      else
        add_headers (if \<not> has_host \<and> strcasecmp k ''host'' = 0 then v \<noteq> [] else has_host) hs (rq_setHeader k v req))"

definition uri_request :: "HttpMethod \<Rightarrow> uri \<Rightarrow> (string \<times> string) list \<Rightarrow> string \<Rightarrow> http_request" where
  "uri_request method u headers body =
     (let req = (HttpRequest 0x11 True)\<lparr>rq_path := u_getPath u, rq_query := u_query u, rq_fragment := u_fragment u, rq_method := method\<rparr>;
          (has_host, req) = add_headers False headers req;
          req = (if has_host then req else rq_setHeader ''Host'' (u_host u) req) in
      req\<lparr>rq_body := body\<rparr>)"

text \<open>Sending a request on a connection and receiving the response; the texts name the peer.\<close>

definition exchange :: "client_env \<Rightarrow> string \<Rightarrow> u64 \<Rightarrow> http_request \<Rightarrow> session \<Rightarrow> (fault + http_result) \<times> session" where
  "exchange env peer timeout_ms req s =
     (case sendRequest req s of (rt, s) \<Rightarrow>
        if rt = 0 then (Inr (HttpResult SEND_CLOSE_BY_PEER None (''send request closed by peer: '' @ peer)), s)
        else if rt < 0 then (Inr (HttpResult SEND_SOCKET_ERROR None (''send request socket error'' @ errno_text env)), s)
        else case recvResponse (ce_cast env) (ce_buffer_size env) (ce_garbage env) s of
            (Inl e, s) \<Rightarrow> (Inl e, s)
          | (Inr None, s) \<Rightarrow> (Inr (HttpResult TIMEOUT None (''recv response timeout: '' @ peer @ timeout_text timeout_ms)), s)
          | (Inr (Some rsp), s) \<Rightarrow> (Inr (HttpResult ERR_OK (Some rsp) ''ok''), s))"

text \<open>The connection, when there was one, is destroyed in the end.\<close>

definition DoRequest :: "client_env \<Rightarrow> http_request \<Rightarrow> uri \<Rightarrow> u64 \<Rightarrow> (fault + http_result) \<times> session option" where
  "DoRequest env req u timeout_ms =
     (case u_createAddress (ce_order env) (ce_getaddrinfo env) u of
        None \<Rightarrow> (Inr (HttpResult INVALID_HOST None (''invalid host: '' @ u_host u)), None)
      | Some addr \<Rightarrow>
          (case ce_dial env addr of
             No_Socket \<Rightarrow> (Inr (HttpResult CREATE_SOCKET_ERROR None
               (''create socket fail: '' @ addr_toString (ce_order env) addr @ errno_text env)), None)
           | Refused \<Rightarrow> (Inr (HttpResult CONNECT_FAIL None (''connect fail: '' @ addr_toString (ce_order env) addr)), None)
           | Connected s \<Rightarrow>
               (case exchange env (addr_toString (ce_order env) addr) timeout_ms req s of (r, s) \<Rightarrow> (r, Some (ss_destroy s)))))"

definition DoRequest_uri :: "client_env \<Rightarrow> HttpMethod \<Rightarrow> uri \<Rightarrow> u64 \<Rightarrow> (string \<times> string) list \<Rightarrow> string \<Rightarrow> (fault + http_result) \<times> session option" where
  "DoRequest_uri env method u timeout_ms headers body = DoRequest env (uri_request method u headers body) u timeout_ms"

definition DoRequest_url :: "client_env \<Rightarrow> HttpMethod \<Rightarrow> string \<Rightarrow> u64 \<Rightarrow> (string \<times> string) list \<Rightarrow> string \<Rightarrow> (fault + http_result) \<times> session option" where
  "DoRequest_url env method url timeout_ms headers body =
     (case uri_Create url of
        Inl e \<Rightarrow> (Inl e, None)
      | Inr None \<Rightarrow> (Inr (HttpResult INVALID_URL None (''invalid url: '' @ url)), None)
      | Inr (Some u) \<Rightarrow> DoRequest_uri env method u timeout_ms headers body)"

definition DoGet_uri :: "client_env \<Rightarrow> uri \<Rightarrow> u64 \<Rightarrow> (string \<times> string) list \<Rightarrow> string \<Rightarrow> (fault + http_result) \<times> session option" where
  "DoGet_uri env u timeout_ms headers body = DoRequest_uri env GET u timeout_ms headers body"

definition DoPost_uri :: "client_env \<Rightarrow> uri \<Rightarrow> u64 \<Rightarrow> (string \<times> string) list \<Rightarrow> string \<Rightarrow> (fault + http_result) \<times> session option" where
  "DoPost_uri env u timeout_ms headers body = DoRequest_uri env POST u timeout_ms headers body"

definition DoGet :: "client_env \<Rightarrow> string \<Rightarrow> u64 \<Rightarrow> (string \<times> string) list \<Rightarrow> string \<Rightarrow> (fault + http_result) \<times> session option" where
  "DoGet env url timeout_ms headers body =
     (case uri_Create url of
        Inl e \<Rightarrow> (Inl e, None)
      | Inr None \<Rightarrow> (Inr (HttpResult INVALID_URL None (''invalid url: '' @ url)), None)
      | Inr (Some u) \<Rightarrow> DoGet_uri env u timeout_ms headers body)"

definition DoPost :: "client_env \<Rightarrow> string \<Rightarrow> u64 \<Rightarrow> (string \<times> string) list \<Rightarrow> string \<Rightarrow> (fault + http_result) \<times> session option" where
  "DoPost env url timeout_ms headers body =
     (case uri_Create url of
        Inl e \<Rightarrow> (Inl e, None)
      | Inr None \<Rightarrow> (Inr (HttpResult INVALID_URL None (''invalid url: '' @ url)), None)
      | Inr (Some u) \<Rightarrow> DoPost_uri env u timeout_ms headers body)"

section \<open>The pool\<close>

record pool_conn =
  pc_session :: session
  pc_createTime :: u64
  pc_request :: u64

text \<open>A new connection: the time of its creation is never set.\<close>

definition HttpConnection :: "session \<Rightarrow> pool_conn" where
  "HttpConnection s = \<lparr>pc_session = s, pc_createTime = 0, pc_request = 0\<rparr>"

record conn_pool =
  hp_host :: string
  hp_vhost :: string
  hp_port :: u32
  hp_maxSize :: u32
  hp_maxAliveTime :: u32
  hp_maxRequest :: u32
  hp_isHttps :: bool
  hp_conns :: "pool_conn list"
  hp_total :: int

definition HttpConnectionPool :: "string \<Rightarrow> string \<Rightarrow> u32 \<Rightarrow> bool \<Rightarrow> u32 \<Rightarrow> u32 \<Rightarrow> u32 \<Rightarrow> conn_pool" where
  "HttpConnectionPool host vhost port is_https max_size max_alive_time max_request =
     \<lparr>hp_host = host, hp_vhost = vhost, hp_port = (if port \<noteq> 0 then port else if is_https then 443 else 80), hp_maxSize = max_size,
      hp_maxAliveTime = max_alive_time, hp_maxRequest = max_request, hp_isHttps = is_https, hp_conns = [], hp_total = 0\<rparr>"

text \<open>An invalid URI is logged, and then the null pointer is used.\<close>

definition pool_Create :: "string \<Rightarrow> string \<Rightarrow> u32 \<Rightarrow> u32 \<Rightarrow> u32 \<Rightarrow> fault + conn_pool" where
  "pool_Create url vhost max_size max_alive_time max_request =
     bindE (uri_Create url) (\<lambda>turi.
       (case turi of None \<Rightarrow> Inl Null_Deref
        | Some u \<Rightarrow> Inr (HttpConnectionPool (u_host u) vhost (word_of_int (u_getPort u)) (u_scheme u = ''https'') max_size max_alive_time max_request)))"

text \<open>The loop of \<open>getConnection\<close>: the connections found invalid, the one found good, and the rest of the list.\<close>

fun take_conn :: "u64 \<Rightarrow> u32 \<Rightarrow> pool_conn list \<Rightarrow> pool_conn list \<times> pool_conn option \<times> pool_conn list" where
  "take_conn now_ms max_alive [] = ([], None, [])"
| "take_conn now_ms max_alive (c # cs) =
     (if \<not> ss_isConnected (pc_session c) \<or> pc_createTime c + ucast max_alive > now_ms then
        (case take_conn now_ms max_alive cs of (invalid, r, rest) \<Rightarrow> (c # invalid, r, rest))
      else ([], Some c, cs))"

definition getConnection :: "client_env \<Rightarrow> u64 \<Rightarrow> conn_pool \<Rightarrow> pool_conn option \<times> conn_pool" where
  "getConnection env now_ms pool =
     (case take_conn now_ms (hp_maxAliveTime pool) (hp_conns pool) of (invalid, r, rest) \<Rightarrow>
        let pool = pool\<lparr>hp_conns := rest, hp_total := c_int (hp_total pool - int (length invalid))\<rparr> in
        case r of Some c \<Rightarrow> (Some c, pool)
        | None \<Rightarrow>
          (case LookupAnyIPAddress (ce_getaddrinfo env) (hp_host pool) of
             None \<Rightarrow> (None, pool)
           | Some addr \<Rightarrow>
               (case ce_dial env (address_setPort (ce_order env) (ucast (hp_port pool)) addr) of
                  Connected s \<Rightarrow> (Some (HttpConnection s), pool\<lparr>hp_total := c_int (hp_total pool + 1)\<rparr>)
                | _ \<Rightarrow> (None, pool))))"

definition ReleasePtr :: "u64 \<Rightarrow> pool_conn \<Rightarrow> conn_pool \<Rightarrow> conn_pool" where
  "ReleasePtr now_ms c pool =
     (let c = c\<lparr>pc_request := pc_request c + 1\<rparr> in
      if \<not> ss_isConnected (pc_session c) \<or> pc_createTime c + ucast (hp_maxAliveTime pool) \<ge> now_ms \<or> pc_request c \<ge> ucast (hp_maxRequest pool)
      then pool\<lparr>hp_total := c_int (hp_total pool - 1)\<rparr>
      else pool\<lparr>hp_conns := hp_conns pool @ [c]\<rparr>)"

text \<open>A request over the pool. The connection is released when the function returns or throws, at a later time.\<close>

definition pool_text :: "conn_pool \<Rightarrow> string" where
  "pool_text pool = ''pool host:'' @ hp_host pool @ '' port:'' @ dec (unat (hp_port pool))"

definition pool_doRequest :: "client_env \<Rightarrow> u64 \<Rightarrow> u64 \<Rightarrow> http_request \<Rightarrow> u64 \<Rightarrow> conn_pool \<Rightarrow> (fault + http_result) \<times> conn_pool" where
  "pool_doRequest env now_ms later_ms req timeout_ms pool =
     (case getConnection env now_ms pool of
        (None, pool) \<Rightarrow> (Inr (HttpResult POOL_GET_CONNECTION None (pool_text pool)), pool)
      | (Some c, pool) \<Rightarrow>
          if \<not> ss_sock (pc_session c) then
            (Inr (HttpResult POOL_INVALID_CONNECTION None (pool_text pool)), ReleasePtr later_ms c pool)
          else case exchange env (ce_remote env (pc_session c)) timeout_ms req (pc_session c) of
            (r, s) \<Rightarrow> (r, ReleasePtr later_ms (c\<lparr>pc_session := s\<rparr>) pool))"

definition pool_request :: "conn_pool \<Rightarrow> HttpMethod \<Rightarrow> string \<Rightarrow> (string \<times> string) list \<Rightarrow> string \<Rightarrow> http_request" where
  "pool_request pool method url headers body =
     (let req = (HttpRequest 0x11 True)\<lparr>rq_path := url, rq_method := method, rq_close := False\<rparr>;
          (has_host, req) = add_headers False headers req;
          req = (if has_host then req else rq_setHeader ''Host'' (if hp_vhost pool = [] then hp_host pool else hp_vhost pool) req) in
      req\<lparr>rq_body := body\<rparr>)"

definition pool_doRequest_url :: "client_env \<Rightarrow> u64 \<Rightarrow> u64 \<Rightarrow> HttpMethod \<Rightarrow> string \<Rightarrow> u64 \<Rightarrow> (string \<times> string) list \<Rightarrow> string \<Rightarrow> conn_pool
    \<Rightarrow> (fault + http_result) \<times> conn_pool" where
  "pool_doRequest_url env now_ms later_ms method url timeout_ms headers body pool =
     pool_doRequest env now_ms later_ms (pool_request pool method url headers body) timeout_ms pool"

definition pool_target :: "uri \<Rightarrow> string" where
  "pool_target u = u_getPath u @ (if u_query u = [] then [] else ''?'') @ u_query u @ (if u_fragment u = [] then [] else ''#'') @ u_fragment u"

definition pool_doRequest_uri :: "client_env \<Rightarrow> u64 \<Rightarrow> u64 \<Rightarrow> HttpMethod \<Rightarrow> uri \<Rightarrow> u64 \<Rightarrow> (string \<times> string) list \<Rightarrow> string \<Rightarrow> conn_pool
    \<Rightarrow> (fault + http_result) \<times> conn_pool" where
  "pool_doRequest_uri env now_ms later_ms method u timeout_ms headers body pool =
     pool_doRequest_url env now_ms later_ms method (pool_target u) timeout_ms headers body pool"

definition pool_doGet :: "client_env \<Rightarrow> u64 \<Rightarrow> u64 \<Rightarrow> string \<Rightarrow> u64 \<Rightarrow> (string \<times> string) list \<Rightarrow> string \<Rightarrow> conn_pool \<Rightarrow> (fault + http_result) \<times> conn_pool" where
  "pool_doGet env now_ms later_ms url timeout_ms headers body pool = pool_doRequest_url env now_ms later_ms GET url timeout_ms headers body pool"

definition pool_doGet_uri :: "client_env \<Rightarrow> u64 \<Rightarrow> u64 \<Rightarrow> uri \<Rightarrow> u64 \<Rightarrow> (string \<times> string) list \<Rightarrow> string \<Rightarrow> conn_pool \<Rightarrow> (fault + http_result) \<times> conn_pool" where
  "pool_doGet_uri env now_ms later_ms u timeout_ms headers body pool = pool_doGet env now_ms later_ms (pool_target u) timeout_ms headers body pool"

definition pool_doPost :: "client_env \<Rightarrow> u64 \<Rightarrow> u64 \<Rightarrow> string \<Rightarrow> u64 \<Rightarrow> (string \<times> string) list \<Rightarrow> string \<Rightarrow> conn_pool \<Rightarrow> (fault + http_result) \<times> conn_pool" where
  "pool_doPost env now_ms later_ms url timeout_ms headers body pool = pool_doRequest_url env now_ms later_ms POST url timeout_ms headers body pool"

definition pool_doPost_uri :: "client_env \<Rightarrow> u64 \<Rightarrow> u64 \<Rightarrow> uri \<Rightarrow> u64 \<Rightarrow> (string \<times> string) list \<Rightarrow> string \<Rightarrow> conn_pool \<Rightarrow> (fault + http_result) \<times> conn_pool" where
  "pool_doPost_uri env now_ms later_ms u timeout_ms headers body pool = pool_doPost env now_ms later_ms (pool_target u) timeout_ms headers body pool"

section \<open>What the pool counts\<close>

text \<open>
  The life of a pool: the connections that are handed out, in any order. While a connection is out, its session may
  change in any way.
\<close>

inductive pool_reach :: "client_env \<Rightarrow> conn_pool \<Rightarrow> pool_conn list \<Rightarrow> bool" for env :: client_env where
  new: "pool_reach env (HttpConnectionPool host vhost port is_https max_size max_alive_time max_request) []"
| get: "pool_reach env pool out \<Longrightarrow> getConnection env now_ms pool = (r, pool') \<Longrightarrow> pool_reach env pool' (case r of None \<Rightarrow> out | Some c \<Rightarrow> c # out)"
| release: "pool_reach env pool (out1 @ c # out2) \<Longrightarrow> pool_reach env (ReleasePtr now_ms (c\<lparr>pc_session := s\<rparr>) pool) (out1 @ out2)"

lemma c_int_arith: "c_int (c_int a + b) = c_int (a + b)" "c_int (b + c_int a) = c_int (b + a)" "c_int (c_int a - b) = c_int (a - b)"
  by (simp_all add: c_int_def)

lemma take_conn_spec:
  "take_conn now_ms m cs = (invalid, r, rest) \<Longrightarrow>
    (case r of None \<Rightarrow> cs = invalid \<and> rest = []
     | Some c \<Rightarrow> cs = invalid @ c # rest \<and> ss_isConnected (pc_session c) \<and> \<not> pc_createTime c + ucast m > now_ms)
    \<and> (\<forall>c \<in> set invalid. \<not> ss_isConnected (pc_session c) \<or> pc_createTime c + ucast m > now_ms)"
  by (induction now_ms m cs arbitrary: invalid r rest rule: take_conn.induct) (auto split: if_splits prod.splits option.splits)

definition pool_inv :: "conn_pool \<Rightarrow> pool_conn list \<Rightarrow> bool" where
  "pool_inv pool out \<longleftrightarrow> hp_total pool = c_int (int (length (hp_conns pool) + length out))
     \<and> (\<forall>c \<in> set (hp_conns pool) \<union> set out. pc_createTime c = 0)"

lemma get_inv:
  assumes "pool_inv pool out" and "getConnection env now_ms pool = (r, pool')"
  shows "pool_inv pool' (case r of None \<Rightarrow> out | Some c \<Rightarrow> c # out)"
proof -
  obtain invalid k rest where t: "take_conn now_ms (hp_maxAliveTime pool) (hp_conns pool) = (invalid, k, rest)" by (metis prod.exhaust)
  note spec = take_conn_spec [OF t]
  show ?thesis
  proof (cases k)
    case None
    then have p: "hp_conns pool = invalid" "rest = []" using spec by auto
    then have "pool_inv (pool\<lparr>hp_conns := [], hp_total := c_int (hp_total pool - int (length invalid))\<rparr>) out"
      using assms(1) by (auto simp: pool_inv_def c_int_arith)
    then show ?thesis using assms(2) None p t
      by (auto simp: getConnection_def Let_def pool_inv_def HttpConnection_def c_int_arith add.commute split: option.splits dial.splits)
  next
    case (Some c)
    then show ?thesis using assms spec t by (auto simp: getConnection_def pool_inv_def c_int_arith algebra_simps)
  qed
qed

lemma release_inv:
  assumes "pool_inv pool (out1 @ c # out2)"
  shows "pool_inv (ReleasePtr now_ms (c\<lparr>pc_session := s\<rparr>) pool) (out1 @ out2)"
  using assms by (auto simp: ReleasePtr_def Let_def pool_inv_def c_int_arith algebra_simps)

lemma pool_reach_inv: "pool_reach env pool out \<Longrightarrow> pool_inv pool out"
proof (induction rule: pool_reach.induct)
  case (new host vhost port is_https max_size max_alive_time max_request)
  have "c_int 0 = 0" by (simp add: c_int_def)
  then show ?case by (simp add: pool_inv_def HttpConnectionPool_def)
qed (auto intro: get_inv release_inv)

section \<open>Properties\<close>

definition sample_client :: client_env where
  "sample_client = \<lparr>ce_order = SYLAR_LITTLE_ENDIAN,
     ce_getaddrinfo = (\<lambda>_ _. Some [SA_in \<lparr>sin_family = 2, sin_port = 0, s_addr = 0x0100007F\<rparr>]),
     ce_dial = (\<lambda>_. Connected (SocketStream True True [] [] [100])), ce_cast = (\<lambda>_. None), ce_buffer_size = 4096, ce_garbage = (\<lambda>_. blank_client),
     ce_errno = 0, ce_strerror = (\<lambda>_. []), ce_remote = (\<lambda>_. [])\<rparr>"

definition sample_pool :: conn_pool where
  "sample_pool = HttpConnectionPool ''h'' [] 80 False 1 30 5"

definition sample_conn :: pool_conn where
  "sample_conn = HttpConnection (SocketStream True True [] [] [100])"

lemma sample_pool_reach: "pool_reach sample_client sample_pool []" "pool_reach sample_client (sample_pool\<lparr>hp_total := 1\<rparr>) [sample_conn]"
proof -
  show new: "pool_reach sample_client sample_pool []" unfolding sample_pool_def by (rule pool_reach.new)
  have "getConnection sample_client 50 sample_pool = (Some sample_conn, sample_pool\<lparr>hp_total := 1\<rparr>)"
    by (simp add: getConnection_def sample_pool_def HttpConnectionPool_def sample_client_def LookupAnyIPAddress_def Lookup_def Address_Create_def is_ip_def
        sample_conn_def c_int_id split: prod.splits)
  from pool_reach.get [OF new this] show "pool_reach sample_client (sample_pool\<lparr>hp_total := 1\<rparr>) [sample_conn]" by simp
qed

text \<open>
  C39: the counter of a pool is exact: whatever connections are taken and given back, in any order and state, it is the
  number of connections in the list and of those handed out, as an \<open>int32_t\<close>.
\<close>

theorem pool_total_exact:
  assumes "pool_reach env pool out"
  shows "hp_total pool = c_int (int (length (hp_conns pool) + length out))"
  using pool_reach_inv [OF assms] by (simp add: pool_inv_def)

theorem pool_total_exact_witness:
  "hp_total (sample_pool\<lparr>hp_total := 1\<rparr>) = c_int (int (length (hp_conns sample_pool) + length [sample_conn]))"
  using pool_total_exact [OF sample_pool_reach(2)] by simp

lemma pool_age:
  assumes "pool_reach env pool out"
  shows "ucast (hp_maxAliveTime pool) < now_ms \<Longrightarrow> hp_conns pool = dead @ c # rest \<Longrightarrow> \<forall>d \<in> set dead. \<not> ss_isConnected (pc_session d)
      \<Longrightarrow> ss_isConnected (pc_session c)
      \<Longrightarrow> getConnection env now_ms pool = (Some c, pool\<lparr>hp_conns := rest, hp_total := c_int (hp_total pool - int (length dead))\<rparr>)"
    and "ucast (hp_maxAliveTime pool) < now_ms \<Longrightarrow> c \<in> set out \<Longrightarrow> ss_isConnected s \<Longrightarrow> pc_request c + 1 < ucast (hp_maxRequest pool)
      \<Longrightarrow> ReleasePtr now_ms (c\<lparr>pc_session := s\<rparr>) pool = pool\<lparr>hp_conns := hp_conns pool @ [c\<lparr>pc_session := s, pc_request := pc_request c + 1\<rparr>]\<rparr>"
    and "now_ms \<le> ucast (hp_maxAliveTime pool) \<Longrightarrow> c \<in> set out
      \<Longrightarrow> ReleasePtr now_ms (c\<lparr>pc_session := s\<rparr>) pool = pool\<lparr>hp_total := c_int (hp_total pool - 1)\<rparr>"
proof -
  have zero: "\<forall>c \<in> set (hp_conns pool) \<union> set out. pc_createTime c = 0" using pool_reach_inv [OF assms] by (simp add: pool_inv_def)
  show "getConnection env now_ms pool = (Some c, pool\<lparr>hp_conns := rest, hp_total := c_int (hp_total pool - int (length dead))\<rparr>)"
    if "ucast (hp_maxAliveTime pool) < now_ms" "hp_conns pool = dead @ c # rest" "\<forall>d \<in> set dead. \<not> ss_isConnected (pc_session d)"
      "ss_isConnected (pc_session c)"
  proof -
    have c: "pc_createTime c = 0" using zero that(2) by simp
    have "take_conn now_ms (hp_maxAliveTime pool) (dead @ c # rest) = (dead, Some c, rest)"
      using that(1,3,4) c by (induction dead) auto
    then show ?thesis by (simp add: getConnection_def that(2))
  qed
  show "ReleasePtr now_ms (c\<lparr>pc_session := s\<rparr>) pool = pool\<lparr>hp_conns := hp_conns pool @ [c\<lparr>pc_session := s, pc_request := pc_request c + 1\<rparr>]\<rparr>"
    if "ucast (hp_maxAliveTime pool) < now_ms" "c \<in> set out" "ss_isConnected s" "pc_request c + 1 < ucast (hp_maxRequest pool)"
  proof -
    have "pc_createTime c = 0" using zero that(2) by simp
    then show ?thesis using that(1,3,4) by (simp add: ReleasePtr_def Let_def not_le)
  qed
  show "ReleasePtr now_ms (c\<lparr>pc_session := s\<rparr>) pool = pool\<lparr>hp_total := c_int (hp_total pool - 1)\<rparr>"
    if "now_ms \<le> ucast (hp_maxAliveTime pool)" "c \<in> set out"
  proof -
    have "pc_createTime c = 0" using zero that(2) by simp
    then show ?thesis using that(1) by (simp add: ReleasePtr_def Let_def)
  qed
qed

text \<open>
  C40: the age of a connection never counts, once the clock is past the maximal age: the time of creation is always 0, and it is compared
  the wrong way round. In every reachable pool the first connection of the list that is still connected is handed out,
  whenever it was made, and a connected one that comes back is kept for further use until it has served its number of requests, however
  many connections the pool holds already: the maximal size is never looked at. Before the clock reaches
  the maximal age every connection that comes back is closed.
\<close>

theorem pool_never_expires:
  assumes "pool_reach env pool out"
  shows "(ucast (hp_maxAliveTime pool) < now_ms \<longrightarrow>
      (\<forall>dead c rest. hp_conns pool = dead @ c # rest \<and> (\<forall>d \<in> set dead. \<not> ss_isConnected (pc_session d)) \<and> ss_isConnected (pc_session c) \<longrightarrow>
         getConnection env now_ms pool = (Some c, pool\<lparr>hp_conns := rest, hp_total := c_int (hp_total pool - int (length dead))\<rparr>))
      \<and> (\<forall>c \<in> set out. \<forall>s. ss_isConnected s \<and> pc_request c + 1 < ucast (hp_maxRequest pool) \<longrightarrow>
         ReleasePtr now_ms (c\<lparr>pc_session := s\<rparr>) pool = pool\<lparr>hp_conns := hp_conns pool @ [c\<lparr>pc_session := s, pc_request := pc_request c + 1\<rparr>]\<rparr>))
    \<and> (now_ms \<le> ucast (hp_maxAliveTime pool) \<longrightarrow>
      (\<forall>c \<in> set out. \<forall>s. ReleasePtr now_ms (c\<lparr>pc_session := s\<rparr>) pool = pool\<lparr>hp_total := c_int (hp_total pool - 1)\<rparr>))"
  by (intro conjI impI allI ballI; (elim conjE)?; rule pool_age [OF assms]; assumption)

theorem pool_never_expires_witness:
  "hp_conns (ReleasePtr 1000000 (sample_conn\<lparr>pc_session := SocketStream True True [] [] []\<rparr>) (sample_pool\<lparr>hp_total := 1\<rparr>)) \<noteq> []
   \<and> hp_conns (ReleasePtr 30 (sample_conn\<lparr>pc_session := SocketStream True True [] [] []\<rparr>) (sample_pool\<lparr>hp_total := 1\<rparr>)) = []"
  using pool_never_expires [OF sample_pool_reach(2), of 1000000] pool_never_expires [OF sample_pool_reach(2), of 30]
  by (simp add: sample_pool_def sample_conn_def HttpConnectionPool_def HttpConnection_def SocketStream_def ss_isConnected_def)

end
