(* ===== verification/Uri_Text.thy ===== *)
theory Uri_Text
  imports Uri Http_Reply
begin

text \<open>
  The texts of URIs through the machine: what \<open>Uri::toString\<close> prints is read back by \<open>Uri::Create\<close>, and where
  the parser fails or reads something else. The states inside a host, with or without user information
  before it, are two classes: the machine also follows the beginnings of addresses there.
\<close>

section \<open>Steps of the machine\<close>

definition alpha_codes :: "int list" where "alpha_codes = [65..90] @ [97..122]"
definition num_codes :: "int list" where "num_codes = [48..57]"
definition scheme_codes :: "int list" where "scheme_codes = alpha_codes @ num_codes @ [43, 45, 46]"
definition host_codes :: "int list" where "host_codes = alpha_codes @ num_codes @ [33, 36] @ [38..46] @ [59, 61, 95, 126]"
definition upath_codes :: "int list" where "upath_codes = [- 128..- 1] @ host_codes @ [47, 58, 64]"
definition text_codes :: "int list" where "text_codes = upath_codes @ [63]"

definition host_states :: "int list" where "host_states = [520] @ [543..560]"
definition host2_states :: "int list" where "host2_states = [523, 524] @ [525..541]"
definition single_states :: "int list" where "single_states = [451, 508, 509, 510, 511, 521, 522, 514, 542, 515]"
definition text_states :: "int list" where "text_states = [513, 456, 457, 453, 454, 243, 244, 1, 2, 7, 8]"

definition goes_all :: "'a block list \<Rightarrow> 'a block list \<Rightarrow> (int list \<times> int list \<times> int list \<times> 'a list list) list \<Rightarrow> bool" where
  "goes_all cases blocks l = list_all (\<lambda>(S, codes, T, acts). class_goes cases blocks S codes T acts) l"

lemma goes_single: "goes_all (filter (in_states single_states) uri_machine) (filter is_Block uri_machine) [
    ([451], alpha_codes, [508], [[Marku]]),
    ([508], scheme_codes, [508], [[]]),
    ([508], [58], [509], [[Save_scheme]]),
    ([509], [47], [510], [[]]),
    ([510], [47], [511], [[]]),
    ([521], num_codes, [542], [[Markh]]),
    ([514], num_codes, [515], [[Markh]]),
    ([542], num_codes, [542], [[]]),
    ([515], num_codes, [515], [[]]),
    ([542], [64], [522], [[Save_userinfo]]),
    ([542, 515], [47], [513], [[Save_port, Markh]]),
    ([521, 514], [47], [513], [[Markh, Save_port]]),
    ([511], host_codes, host_states, [[Markh]]),
    ([522], host_codes, host2_states, [[Markh]])]"
  by (simp only: uri_machine_def filter_append) code_simp

lemma goes_text: "goes_all (filter (in_states text_states) uri_machine) (filter is_Block uri_machine) [
    ([513], [63], [456], [[Save_path]]),
    ([513], [35], [453], [[Save_path]]),
    ([457], [35], [453], [[Save_query]]),
    ([513], [37], [243], [[]]),
    ([243], hex_codes, [244], [[]]),
    ([244], hex_codes, [513], [[]]),
    ([456], [37], [7], [[Marku]]),
    ([457], [37], [7], [[]]),
    ([7], hex_codes, [8], [[]]),
    ([8], hex_codes, [457], [[]]),
    ([453], [37], [1], [[Marku]]),
    ([454], [37], [1], [[]]),
    ([1], hex_codes, [2], [[]]),
    ([2], hex_codes, [454], [[]]),
    ([513], upath_codes, [513], [[]]),
    ([456], text_codes, [457], [[Marku]]),
    ([457], text_codes, [457], [[]]),
    ([453], text_codes, [454], [[Marku]]),
    ([454], text_codes, [454], [[]])]"
  by (simp only: uri_machine_def filter_append) code_simp

lemma goes_host: "goes_all (filter (in_states host_states) uri_machine) (filter is_Block uri_machine) [
    (host_states, [64], [522], [[Save_userinfo]]),
    (host_states, [58], [521], [[Save_host]]),
    (host_states, host_codes, host_states, [[]]),
    (host_states, [47], [513], [[Save_host, Markh]])]"
  by (simp only: uri_machine_def filter_append) code_simp

lemma goes_host2: "goes_all (filter (in_states host2_states) uri_machine) (filter is_Block uri_machine) [
    (host2_states, [58], [514], [[Save_host]]),
    (host2_states, host_codes, host2_states, [[]]),
    (host2_states, [47], [513], [[Save_host, Markh]])]"
  by (simp only: uri_machine_def filter_append) code_simp

lemma goes_all_step:
  assumes "goes_all (filter (in_states S') bs) (filter is_Block bs) l"
  shows "list_all (\<lambda>(S, codes, T, acts). \<forall>n \<in> set S. \<forall>c. schar c \<in> set codes \<longrightarrow>
    (\<exists>m as. machine_step bs (\<lambda>x. x) n c = (m, as) \<and> m \<in> set T \<and> as \<in> set acts)) l"
  using assms by (auto simp: goes_all_def list_all_iff class_goes_step)

lemmas single_steps = goes_all_step [OF goes_single, folded uri_step_def, simplified]
lemmas text_steps = goes_all_step [OF goes_text, folded uri_step_def, simplified]
lemmas host_steps = goes_all_step [OF goes_host, folded uri_step_def, simplified]
lemmas host2_steps = goes_all_step [OF goes_host2, folded uri_step_def, simplified]

section \<open>Runs\<close>

lemma uri_run_simps [simp]:
  "uri_run text n p [] st = (n, p, st)"
  "uri_run text n p (c # s) st = (case uri_step n c of (m, as) \<Rightarrow> if m = 0 then (0, p, st) else uri_run text m (p + 1) s (uri_acts text p as st))"
  by (simp_all add: uri_run_def uri_acts_def Let_def list_ex_iff split: prod.splits)

lemma uri_acts_simps [simp]:
  "uri_acts text p [] st = st"
  "uri_acts text p (a # as) (Inr x) = uri_acts text p as (uri_act text p a x)"
  by (simp_all add: uri_acts_def)

lemma uri_acts_fault [simp]: "uri_acts text p as (Inl e) = Inl e"
  by (induction as) (simp_all add: uri_acts_def)

lemma uri_run_fault: "\<exists>cs q. uri_run text n p s (Inl e) = (cs, q, Inl e)"
  by (induction s arbitrary: n p) (auto split: prod.splits)

lemma uri_finish_fault [simp]: "uri_finish text (cs, p, Inl e) = Inl e"
  by (simp add: uri_finish_def)

lemma drop_at: "drop k text = x @ y \<Longrightarrow> drop (k + length x) text = y"
  by (metis add.commute append_eq_conv_conj drop_drop)

lemma drop_next: "drop k text = c # y \<Longrightarrow> drop (k + 1) text = y"
  using drop_at [of k "text" "[c]"] by simp

lemma marked_segment: "drop m text = x @ rest \<Longrightarrow> p = m + length x \<Longrightarrow> marked text (Some m) p = Inr x"
  by (simp add: marked_def)

lemma uri_finish_states: "eof_actions uri_eof 513 = [Save_path]" "eof_actions uri_eof 457 = [Save_query]" "eof_actions uri_eof 454 = [Save_fragment]"
    "eof_actions uri_eof 521 = [Markh, Save_port, Save_path]" "eof_actions uri_eof 514 = [Markh, Save_port, Save_path]"
  by code_simp+

lemma schar_more [simp]: "schar (CHR ''@'') = 64"
  by (simp add: schar_def code_def)

text \<open>The path, the query and the fragment of a URI are texts with escapes.\<close>

lemma reads_text:
  "reads_escaped uri_step upath_codes 513 243 244" "reads_escaped uri_step text_codes 457 7 8" "reads_escaped uri_step text_codes 454 1 2"
  using text_steps by (simp_all add: reads_escaped_def)

lemma run_upath: "escaped upath_codes s \<Longrightarrow> uri_run text 513 p (s @ rest) st = uri_run text 513 (p + length s) rest st"
  unfolding uri_run_def by (rule run_escaped [OF reads_text(1)])

lemma run_text:
  assumes "escaped text_codes s" and "s \<noteq> []"
  shows "uri_run text 456 p (s @ rest) (Inr st) = uri_run text 457 (p + length s) rest (Inr (Some p, snd st))"
    and "uri_run text 453 p (s @ rest) (Inr st) = uri_run text 454 (p + length s) rest (Inr (Some p, snd st))"
proof -
  have h: "schar (hd s) \<in> set text_codes \<or> hd s = CHR ''%''" using assms by (cases s) (auto split: if_splits)
  have f: "fold (\<lambda>a st. bindE st (uri_act text p a)) [Marku] (Inr st) = Inr (Some p, snd st)" by simp
  show "uri_run text 456 p (s @ rest) (Inr st) = uri_run text 457 (p + length s) rest (Inr (Some p, snd st))"
    unfolding uri_run_def f [symmetric] using text_steps by (intro run_escaped_entry [OF reads_text(2) assms _ _ _ h]) simp_all
  show "uri_run text 453 p (s @ rest) (Inr st) = uri_run text 454 (p + length s) rest (Inr (Some p, snd st))"
    unfolding uri_run_def f [symmetric] using text_steps by (intro run_escaped_entry [OF reads_text(3) assms _ _ _ h]) simp_all
qed

definition tail_text :: "string \<Rightarrow> string \<Rightarrow> string" where
  "tail_text q f = (if q = [] then [] else ''?'') @ q @ (if f = [] then [] else ''#'') @ f"

text \<open>Behind the authority: the path began at \<open>m\<close>, and a part of it is read.\<close>

lemma finish_path:
  assumes "drop m text = path @ pt @ tail_text q f" and "p = m + length path" and "escaped upath_codes pt" and "escaped text_codes q" and "escaped text_codes f"
    and "u_query u = []" and "u_fragment u = []"
  shows "uri_finish text (uri_run text 513 p (pt @ tail_text q f) (Inr (Some m, u)))
    = Inr (Some (u\<lparr>u_path := path @ pt, u_query := q, u_fragment := f\<rparr>))"
proof -
  let ?l = "m + length (path @ pt)" let ?u = "u\<lparr>u_path := path @ pt\<rparr>"
  have run: "uri_run text 513 p (pt @ tail_text q f) (Inr (Some m, u)) = uri_run text 513 ?l (tail_text q f) (Inr (Some m, u))"
    using run_upath [OF assms(3)] assms(2) by (simp add: add.assoc)
  have path: "marked text (Some m) ?l = Inr (path @ pt)" using assms(1) by (intro marked_segment) auto
  have at: "drop ?l text = tail_text q f" by (rule drop_at) (use assms(1) in simp)
  have frag: "uri_finish text (uri_run text 453 k f (Inr (None, v))) = Inr (Some (v\<lparr>u_fragment := f\<rparr>))"
    if "drop k text = f" "f \<noteq> []" for k v
  proof -
    have "marked text (Some k) (k + length f) = Inr f" by (rule marked_segment [of _ _ _ "[]"]) (simp_all add: that(1))
    then show ?thesis using run_text(2) [OF assms(5) that(2), of "text" k "[]"] by (simp add: uri_finish_def uri_finish_states uri_first_final_def)
  qed
  have u: "u\<lparr>u_query := []\<rparr> = u" "u\<lparr>u_fragment := []\<rparr> = u" using assms(6,7) by simp_all
  show ?thesis
  proof (cases "q = []")
    case True
    show ?thesis
    proof (cases "f = []")
      case True
      then show ?thesis using run path \<open>q = []\<close> assms(6,7) by (simp add: tail_text_def uri_finish_def uri_finish_states uri_first_final_def)
    next
      case False
      have "drop (?l + 1) text = f" by (rule drop_next) (use at True False in \<open>simp add: tail_text_def\<close>)
      from frag [OF this False] show ?thesis using run path True False text_steps assms(6) by (simp add: tail_text_def)
    qed
  next
    case False
    let ?k = "?l + 1"
    have atq: "drop ?k text = q @ (if f = [] then [] else ''#'') @ f" by (rule drop_next) (use at False in \<open>simp add: tail_text_def\<close>)
    have "uri_run text 513 ?l (tail_text q f) (Inr (Some m, u)) = uri_run text 457 (?k + length q) ((if f = [] then [] else ''#'') @ f) (Inr (Some ?k, ?u))"
      using run_text(1) [OF assms(4) False, of "text" ?k] False text_steps path by (simp add: tail_text_def)
    moreover have "marked text (Some ?k) (?k + length q) = Inr q" using atq by (rule marked_segment) simp
    moreover have "uri_finish text (uri_run text 453 (?k + length q + 1) f (Inr (None, ?u\<lparr>u_query := q\<rparr>))) = Inr (Some (?u\<lparr>u_query := q, u_fragment := f\<rparr>))" if "f \<noteq> []"
    proof (rule frag [OF _ that])
      show "drop (?k + length q + 1) text = f" by (rule drop_next, rule drop_at) (use atq that in simp)
    qed
    ultimately show ?thesis using run text_steps assms(7)
      by (cases "f = []") (simp_all add: uri_finish_def uri_finish_states uri_first_final_def)
  qed
qed

section \<open>The authority\<close>

definition scheme_text :: "string \<Rightarrow> bool" where
  "scheme_text s = (case s of [] \<Rightarrow> False | c # t \<Rightarrow> schar c \<in> set alpha_codes \<and> (\<forall>x \<in> set t. schar x \<in> set scheme_codes))"

definition host_text :: "string \<Rightarrow> bool" where
  "host_text h \<longleftrightarrow> h \<noteq> [] \<and> (\<forall>c \<in> set h. schar c \<in> set host_codes)"

lemma run_states:
  assumes "\<forall>n \<in> S. \<forall>c \<in> set s. \<exists>m. uri_step n c = (m, []) \<and> m \<in> S" and "0 \<notin> S" and "n \<in> S"
  shows "\<exists>m \<in> S. uri_run text n p (s @ rest) st = uri_run text m (p + length s) rest st"
  unfolding uri_run_def by (rule run_class_loop [OF assms])

lemma run_scheme:
  assumes "scheme_text s"
  shows "uri_run (s @ ''://'' @ rest) 451 0 (s @ ''://'' @ rest) (Inr (None, u))
    = uri_run (s @ ''://'' @ rest) 511 (length s + 3) rest (Inr (None, u\<lparr>u_scheme := s\<rparr>))"
proof -
  let ?text = "s @ ''://'' @ rest"
  obtain c t where s: "s = c # t" "schar c \<in> set alpha_codes" "\<forall>x \<in> set t. schar x \<in> set scheme_codes"
    using assms by (cases s) (auto simp: scheme_text_def)
  have "\<forall>n \<in> {508}. \<forall>c \<in> set t. \<exists>m. uri_step n c = (m, []) \<and> m \<in> {508}" using s(3) single_steps by simp
  from run_states [OF this, of 508 ?text 1 "''://'' @ rest" "Inr (Some 0, u)"]
  have "uri_run ?text 508 1 (t @ ''://'' @ rest) (Inr (Some 0, u)) = uri_run ?text 508 (length s) (''://'' @ rest) (Inr (Some 0, u))"
    using s(1) by simp
  moreover have "marked ?text (Some 0) (length s) = Inr s" by (simp add: marked_def)
  ultimately show ?thesis using s(1,2) single_steps by (simp add: numeral_3_eq_3)
qed

text \<open>Both kinds of places where a host is read: the entry, the states inside, the ones behind a colon and inside a port.\<close>

definition host_place :: "int \<Rightarrow> int list \<Rightarrow> int \<Rightarrow> int \<Rightarrow> bool" where
  "host_place e S k d \<longleftrightarrow> e = 511 \<and> S = host_states \<and> k = 521 \<and> d = 542 \<or> e = 522 \<and> S = host2_states \<and> k = 514 \<and> d = 515"

lemma host_zero: "0 \<notin> set host_states" "0 \<notin> set host2_states"
  by (auto simp: host_states_def host2_states_def)

lemma place_steps:
  assumes "host_place e S k d"
  shows "0 \<notin> set S" "k \<noteq> 0" "d \<noteq> 0"
    "schar c \<in> set host_codes \<Longrightarrow> \<exists>m. uri_step e c = (m, [Markh]) \<and> m \<in> set S"
    "schar c \<in> set host_codes \<Longrightarrow> n \<in> set S \<Longrightarrow> \<exists>m. uri_step n c = (m, []) \<and> m \<in> set S"
    "n \<in> set S \<Longrightarrow> uri_step n (CHR '':'') = (k, [Save_host])"
    "n \<in> set S \<Longrightarrow> uri_step n (CHR ''/'') = (513, [Save_host, Markh])"
    "schar c \<in> set num_codes \<Longrightarrow> uri_step k c = (d, [Markh])" "schar c \<in> set num_codes \<Longrightarrow> uri_step d c = (d, [])"
    "uri_step k (CHR ''/'') = (513, [Markh, Save_port])" "uri_step d (CHR ''/'') = (513, [Save_port, Markh])"
proof -
  have place: "e = 511 \<and> S = host_states \<and> k = 521 \<and> d = 542 \<or> e = 522 \<and> S = host2_states \<and> k = 514 \<and> d = 515"
    using assms by (simp add: host_place_def)
  then show "0 \<notin> set S" "k \<noteq> 0" "d \<noteq> 0" using host_zero by auto
  show "schar c \<in> set host_codes \<Longrightarrow> \<exists>m. uri_step e c = (m, [Markh]) \<and> m \<in> set S" using place single_steps by metis
  show "schar c \<in> set host_codes \<Longrightarrow> n \<in> set S \<Longrightarrow> \<exists>m. uri_step n c = (m, []) \<and> m \<in> set S" using place host_steps host2_steps by metis
  show "n \<in> set S \<Longrightarrow> uri_step n (CHR '':'') = (k, [Save_host])" using place host_steps host2_steps schar_simps by metis
  show "n \<in> set S \<Longrightarrow> uri_step n (CHR ''/'') = (513, [Save_host, Markh])" using place host_steps host2_steps schar_simps by metis
  show "schar c \<in> set num_codes \<Longrightarrow> uri_step k c = (d, [Markh])" "schar c \<in> set num_codes \<Longrightarrow> uri_step d c = (d, [])"
    "uri_step k (CHR ''/'') = (513, [Markh, Save_port])" "uri_step d (CHR ''/'') = (513, [Save_port, Markh])"
    using place single_steps schar_simps by metis+
qed

lemma run_host:
  assumes "host_place e S k d" and "host_text h"
  shows "\<exists>m \<in> set S. uri_run text e p (h @ rest) (Inr st) = uri_run text m (p + length h) rest (Inr (Some p, snd st))"
proof -
  obtain c t where h: "h = c # t" "schar c \<in> set host_codes" "\<forall>x \<in> set t. schar x \<in> set host_codes"
    using assms(2) by (cases h) (auto simp: host_text_def)
  obtain m where m: "uri_step e c = (m, [Markh])" "m \<in> set S" using place_steps(4) [OF assms(1) h(2)] by blast
  have "\<forall>n \<in> set S. \<forall>c \<in> set t. \<exists>m. uri_step n c = (m, []) \<and> m \<in> set S" using place_steps(5) [OF assms(1)] h(3) by blast
  from run_states [OF this place_steps(1) [OF assms(1)] m(2), of "text" "p + 1" rest "Inr (Some p, snd st)"]
  show ?thesis using h(1) m place_steps(1) [OF assms(1)] by fastforce
qed

definition port_text :: "nat option \<Rightarrow> string" where
  "port_text port = (case port of None \<Rightarrow> [] | Some n \<Rightarrow> '':'' @ dec n)"

lemma run_hostport:
  assumes "host_place e S k d" and "host_text h" and "\<And>n. port = Some n \<Longrightarrow> n < 2 ^ 31" and "drop p text = h @ port_text port @ ''/'' @ rest"
    and "q = p + length (h @ port_text port)"
  shows "uri_run text e p (h @ port_text port @ ''/'' @ rest) (Inr st)
    = uri_run text 513 (q + 1) rest (Inr (Some q, (snd st)\<lparr>u_host := h, u_port := (case port of None \<Rightarrow> u_port (snd st) | Some n \<Rightarrow> int n)\<rparr>))"
proof -
  note steps = place_steps [OF assms(1)]
  obtain m where m: "m \<in> set S"
    "uri_run text e p (h @ port_text port @ ''/'' @ rest) (Inr st) = uri_run text m (p + length h) (port_text port @ ''/'' @ rest) (Inr (Some p, snd st))"
    using run_host [OF assms(1,2)] by blast
  have host: "marked text (Some p) (p + length h) = Inr h" using assms(4) by (rule marked_segment) simp
  show ?thesis
  proof (cases port)
    case None
    then show ?thesis using m host steps(7) [OF m(1)] assms(5) by (simp add: port_text_def)
  next
    case (Some n)
    obtain c t where n: "dec n = c # t" by (cases "dec n") auto
    have num: "schar x \<in> set num_codes" if "x \<in> set (dec n)" for x
      using dec_digits [OF that] by (auto simp: isdigit_def num_codes_def schar_def simp del: upto_rec_numeral)
    let ?k = "p + length h + 1" let ?u = "(snd st)\<lparr>u_host := h\<rparr>"
    have "\<forall>n \<in> {d}. \<forall>c \<in> set t. \<exists>m. uri_step n c = (m, []) \<and> m \<in> {d}" using num n steps(9) by simp
    from run_states [OF this, of d "text" "?k + 1" "''/'' @ rest" "Inr (Some ?k, ?u)"] steps(3)
    have loop: "uri_run text d (?k + 1) (t @ ''/'' @ rest) (Inr (Some ?k, ?u)) = uri_run text d q (''/'' @ rest) (Inr (Some ?k, ?u))"
      using n Some assms(5) by (simp add: port_text_def add.assoc)
    have "drop ?k text = dec n @ ''/'' @ rest" by (rule drop_next, rule drop_at) (use assms(4) Some in \<open>simp add: port_text_def\<close>)
    moreover have "digit_value (CHR ''/'') = 99" by code_simp
    ultimately have "c_int (strtol (drop ?k text) 10) = int n"
      using strtol_dec [of n "''/'' @ rest"] assms(3) [OF Some] by (simp add: c_int_id)
    moreover have "q \<noteq> ?k" using Some n assms(5) by (simp add: port_text_def)
    ultimately show ?thesis
      using m host steps(2,3,11) steps(6) [OF m(1)] steps(8) [OF num, of c] n Some loop by (simp add: port_text_def)
  qed
qed

section \<open>Whole URIs\<close>

definition user_text :: "string \<Rightarrow> string" where
  "user_text ui = (if ui = [] then [] else ui @ ''@'')"

lemma run_user:
  assumes "ui = [] \<or> host_text ui" and "drop p text = user_text ui @ rest" and "u_userinfo u = []"
  shows "\<exists>e S k d. host_place e S k d \<and> uri_run text 511 p (user_text ui @ rest) (Inr (None, u))
    = uri_run text e (p + length (user_text ui)) rest (Inr (None, u\<lparr>u_userinfo := ui\<rparr>))"
proof (cases "ui = []")
  case True
  have "host_place 511 host_states 521 542" by (simp add: host_place_def)
  moreover have "u\<lparr>u_userinfo := ui\<rparr> = u" using True assms(3) by simp
  ultimately show ?thesis using True by (intro exI [of _ 511] exI [of _ host_states] exI [of _ 521] exI [of _ 542]) (simp add: user_text_def)
next
  case False
  have place: "host_place 511 host_states 521 542" "host_place 522 host2_states 514 515" by (simp_all add: host_place_def)
  have ui: "host_text ui" using assms(1) False by simp
  obtain m where m: "m \<in> set host_states"
    "uri_run text 511 p (ui @ ''@'' @ rest) (Inr (None, u)) = uri_run text m (p + length ui) (''@'' @ rest) (Inr (Some p, u))"
    using run_host [OF place(1) ui, of "text" p "''@'' @ rest" "(None, u)"] by auto
  have "marked text (Some p) (p + length ui) = Inr ui" by (rule marked_segment) (use assms(2) False in \<open>simp_all add: user_text_def\<close>)
  then have "uri_run text 511 p (user_text ui @ rest) (Inr (None, u)) = uri_run text 522 (p + length (user_text ui)) rest (Inr (None, u\<lparr>u_userinfo := ui\<rparr>))"
    using m host_steps False by (simp add: user_text_def)
  then show ?thesis using place(2) by blast
qed

lemma finish_place:
  assumes "host_place e S k d" and "host_text h" and "\<And>n. port = Some n \<Longrightarrow> n < 2 ^ 31" and "escaped upath_codes pt" and "escaped text_codes q" and "escaped text_codes f"
    and "drop p text = h @ port_text port @ ''/'' @ pt @ tail_text q f" and "u_query v = []" and "u_fragment v = []" and "u_port v = 0"
  shows "uri_finish text (uri_run text e p (h @ port_text port @ ''/'' @ pt @ tail_text q f) (Inr (mk, v)))
    = Inr (Some (v\<lparr>u_host := h, u_port := (case port of None \<Rightarrow> 0 | Some n \<Rightarrow> int n), u_path := ''/'' @ pt, u_query := q, u_fragment := f\<rparr>))"
proof -
  let ?q = "p + length (h @ port_text port)" let ?w = "v\<lparr>u_host := h, u_port := (case port of None \<Rightarrow> 0 | Some n \<Rightarrow> int n)\<rparr>"
  have at: "drop ?q text = ''/'' @ pt @ tail_text q f" using drop_at [of p "text" "h @ port_text port"] assms(7) by simp
  have "uri_run text e p (h @ port_text port @ ''/'' @ pt @ tail_text q f) (Inr (mk, v)) = uri_run text 513 (?q + 1) (pt @ tail_text q f) (Inr (Some ?q, ?w))"
    using run_hostport [OF assms(1-3,7) refl, of "(mk, v)"] assms(10) by (simp cong: option.case_cong)
  moreover have "?q + 1 = ?q + length ''/''" by simp
  from finish_path [OF at this assms(4-6), of ?w] have
    "uri_finish text (uri_run text 513 (?q + 1) (pt @ tail_text q f) (Inr (Some ?q, ?w))) = Inr (Some (?w\<lparr>u_path := ''/'' @ pt, u_query := q, u_fragment := f\<rparr>))"
    using assms(8,9) by simp
  ultimately show ?thesis by simp
qed

lemma create_parts:
  assumes "scheme_text sc" and "ui = [] \<or> host_text ui" and "host_text h" and "\<And>n. port = Some n \<Longrightarrow> n < 2 ^ 31"
    and "escaped upath_codes pt" and "escaped text_codes q" and "escaped text_codes f"
  shows "uri_Create (sc @ ''://'' @ user_text ui @ h @ port_text port @ ''/'' @ pt @ tail_text q f)
    = Inr (Some \<lparr>u_scheme = sc, u_userinfo = ui, u_host = h, u_path = ''/'' @ pt, u_query = q, u_fragment = f,
        u_port = (case port of None \<Rightarrow> 0 | Some n \<Rightarrow> int n)\<rparr>)"
proof -
  let ?rest = "h @ port_text port @ ''/'' @ pt @ tail_text q f" let ?auth = "user_text ui @ ?rest"
  define buf where "buf = sc @ ''://'' @ ?auth"
  let ?p = "length sc + 3" let ?u = "Uri\<lparr>u_scheme := sc\<rparr>" let ?v = "?u\<lparr>u_userinfo := ui\<rparr>"
  have at: "drop ?p buf = ?auth" using drop_at [of 0 buf "sc @ ''://''" ?auth] by (simp add: buf_def numeral_3_eq_3)
  have "u_userinfo ?u = []" by (simp add: Uri_def)
  from run_user [OF assms(2) at this] obtain e S k d where
    e: "host_place e S k d" "uri_run buf 511 ?p ?auth (Inr (None, ?u)) = uri_run buf e (?p + length (user_text ui)) ?rest (Inr (None, ?v))" by auto
  have "uri_Create buf = uri_finish buf (uri_run buf e (?p + length (user_text ui)) ?rest (Inr (None, ?v)))"
    using run_scheme [OF assms(1), of ?auth Uri] e(2) by (simp add: uri_Create_def uri_start_def buf_def)
  then show ?thesis using finish_place [OF e(1) assms(3-7) drop_at [OF at], of ?v None] by (simp add: buf_def Uri_def)
qed

lemma default_port:
  assumes "u_scheme v = u_scheme u" and "u_port v = (if isDefaultPort u then 0 else u_port u)"
  shows "u_getPort v = u_getPort u" "isDefaultPort v = isDefaultPort u"
proof -
  define a b where "a = (u_scheme u = ''http'' \<or> u_scheme u = ''ws'')" and "b = (u_scheme u = ''https'' \<or> u_scheme u = ''wss'')"
  note fold = isDefaultPort_def u_getPort_def assms(1) a_def [symmetric] b_def [symmetric]
  have d: "isDefaultPort u = (if u_port u = 0 then True else if a then u_port u = 80 else if b then u_port u = 443 else False)"
    unfolding fold by simp
  show "u_getPort v = u_getPort u" "isDefaultPort v = isDefaultPort u"
    unfolding fold using assms(2) d by (auto split: if_splits)
qed

text \<open>The URIs that are printed as such texts.\<close>

definition uri_ok :: "uri \<Rightarrow> bool" where
  "uri_ok u \<longleftrightarrow> scheme_text (u_scheme u) \<and> (u_userinfo u = [] \<or> host_text (u_userinfo u)) \<and> host_text (u_host u)
     \<and> (case u_path u of [] \<Rightarrow> True | c # t \<Rightarrow> c = CHR ''/'' \<and> escaped upath_codes t)
     \<and> escaped text_codes (u_query u) \<and> escaped text_codes (u_fragment u) \<and> 0 \<le> u_port u \<and> u_port u < 2 ^ 31"

lemma uri_read:
  assumes "uri_ok u"
  shows "\<exists>v. uri_Create (u_toString u) = Inr (Some v) \<and> u_scheme v = u_scheme u \<and> u_userinfo v = u_userinfo u \<and> u_host v = u_host u
    \<and> u_query v = u_query u \<and> u_fragment v = u_fragment u \<and> u_getPath v = u_getPath u \<and> u_getPort v = u_getPort u \<and> u_toString v = u_toString u"
proof -
  define port where "port = (if isDefaultPort u then None else Some (nat (u_port u)))"
  obtain pt where pt: "u_getPath u = ''/'' @ pt" "escaped upath_codes pt" using assms by (cases "u_path u") (auto simp: uri_ok_def u_getPath_def)
  let ?v = "\<lparr>u_scheme = u_scheme u, u_userinfo = u_userinfo u, u_host = u_host u, u_path = ''/'' @ pt, u_query = u_query u, u_fragment = u_fragment u,
        u_port = (case port of None \<Rightarrow> 0 | Some n \<Rightarrow> int n)\<rparr>"
  have print: "u_toString u = u_scheme u @ ''://'' @ user_text (u_userinfo u) @ u_host u @ port_text port @ ''/'' @ pt @ tail_text (u_query u) (u_fragment u)"
    using assms pt(1) by (simp add: u_toString_def user_text_def tail_text_def port_text_def port_def to_string_def uri_ok_def)
  have "n < 2 ^ 31" if "port = Some n" for n using that assms by (auto simp: port_def uri_ok_def split: if_splits)
  then have "uri_Create (u_toString u) = Inr (Some ?v)"
    unfolding print using assms pt(2) by (intro create_parts) (auto simp: uri_ok_def)
  moreover have path: "u_getPath ?v = u_getPath u" using pt(1) by (simp add: u_getPath_def)
  moreover have port: "u_port ?v = (if isDefaultPort u then 0 else u_port u)" using assms by (simp add: port_def uri_ok_def)
  moreover have "u_getPort ?v = u_getPort u" "isDefaultPort ?v = isDefaultPort u" by (rule default_port; use port in simp)+
  moreover from this(2) have "u_toString ?v = u_toString u" using port path by (simp add: u_toString_def)
  ultimately show ?thesis by (intro exI [of _ ?v]) simp
qed

text \<open>
  C34: \<open>Uri::Create\<close> reads what \<open>Uri::toString\<close> prints. For a URI of legal parts, with user information without a colon
  and a path that is empty or starts with a slash, escapes allowed in path, query and fragment, the text is accepted,
  scheme, user information, host, query and fragment come back, path and port as their getters return them, and printing
  the result gives the same text.
\<close>

theorem uri_roundtrip:
  assumes "uri_ok u"
  shows "\<exists>v. uri_Create (u_toString u) = Inr (Some v) \<and> u_scheme v = u_scheme u \<and> u_userinfo v = u_userinfo u \<and> u_host v = u_host u
    \<and> u_query v = u_query u \<and> u_fragment v = u_fragment u \<and> u_getPath v = u_getPath u \<and> u_getPort v = u_getPort u \<and> u_toString v = u_toString u"
  using assms by (rule uri_read)

definition sample_uri :: uri where
  "sample_uri = \<lparr>u_scheme = ''http'', u_userinfo = ''me'', u_host = ''a.org'', u_path = ''/x%20y'', u_query = ''q=1'', u_fragment = ''f'', u_port = 81\<rparr>"

theorem uri_roundtrip_witness:
  "u_toString sample_uri = ''http://me@a.org:81/x%20y?q=1#f'' \<and> (\<exists>v. uri_Create (u_toString sample_uri) = Inr (Some v) \<and> u_getPort v = 81 \<and> u_getPath v = ''/x%20y'')"
proof -
  have "scheme_text ''http''" "host_text ''me''" "host_text ''a.org''" "escaped upath_codes ''x%20y''" "escaped text_codes ''q=1''" "escaped text_codes ''f''"
    by code_simp+
  then have "uri_ok sample_uri" by (simp add: uri_ok_def sample_uri_def)
  moreover have "u_getPort sample_uri = 81" "u_getPath sample_uri = ''/x%20y''" "u_toString sample_uri = ''http://me@a.org:81/x%20y?q=1#f''"
    by code_simp+
  ultimately show ?thesis using uri_roundtrip [of sample_uri] by auto
qed

text \<open>
  C36: an authority with an empty port, legal by the grammar (\<open>port = digit*\<close>) and by RFC 3986, makes \<open>Uri::Create\<close> throw: the action
  that saves the port clears the mark of the path, and the path is built from a null pointer. So it is
  for any scheme, user information and host, with or without a path behind it.
\<close>

theorem uri_empty_port_throws:
  assumes "scheme_text sc" and "ui = [] \<or> host_text ui" and "host_text h" and "escaped upath_codes pt"
    and "rest = [] \<or> rest = ''/'' @ pt @ tail_text q f"
  shows "uri_Create (sc @ ''://'' @ user_text ui @ h @ '':'' @ rest) = Inl Logic_Error"
proof -
  let ?auth = "user_text ui @ h @ '':'' @ rest"
  define buf where "buf = sc @ ''://'' @ ?auth"
  let ?p = "length sc + 3" let ?p2 = "?p + length (user_text ui)" let ?k = "?p2 + length h + 1"
  let ?u = "Uri\<lparr>u_scheme := sc\<rparr>" let ?v = "?u\<lparr>u_userinfo := ui\<rparr>"
  have at: "drop ?p buf = ?auth" using drop_at [of 0 buf "sc @ ''://''" ?auth] by (simp add: buf_def numeral_3_eq_3)
  then have at2: "drop ?p2 buf = h @ '':'' @ rest" by (rule drop_at)
  have "u_userinfo ?u = []" by (simp add: Uri_def)
  from run_user [OF assms(2) at this] obtain e S k d where
    e: "host_place e S k d" "uri_run buf 511 ?p ?auth (Inr (None, ?u)) = uri_run buf e ?p2 (h @ '':'' @ rest) (Inr (None, ?v))" by auto
  obtain m where m: "m \<in> set S" "uri_run buf e ?p2 (h @ '':'' @ rest) (Inr (None, ?v)) = uri_run buf m (?p2 + length h) ('':'' @ rest) (Inr (Some ?p2, ?v))"
    using run_host [OF e(1) assms(3), of buf ?p2 "'':'' @ rest" "(None, ?v)"] by auto
  have "marked buf (Some ?p2) (?p2 + length h) = Inr h" using at2 by (rule marked_segment) simp
  then have colon: "uri_run buf m (?p2 + length h) ('':'' @ rest) (Inr (Some ?p2, ?v)) = uri_run buf k ?k rest (Inr (Some ?p2, ?v\<lparr>u_host := h\<rparr>))"
    using place_steps(2,6) [OF e(1)] m(1) by simp
  have start: "uri_Create buf = uri_finish buf (uri_run buf k ?k rest (Inr (Some ?p2, ?v\<lparr>u_host := h\<rparr>)))"
    using run_scheme [OF assms(1), of ?auth Uri] e(2) m(2) colon by (simp add: uri_Create_def uri_start_def buf_def)
  have "k = 521 \<or> k = 514" using e(1) by (auto simp: host_place_def)
  have "uri_finish buf (uri_run buf k ?k rest (Inr (Some ?p2, ?v\<lparr>u_host := h\<rparr>))) = Inl Logic_Error"
  proof (cases "rest = []")
    case True
    then show ?thesis using \<open>k = 521 \<or> k = 514\<close> by (auto simp: uri_finish_def uri_finish_states marked_def)
  next
    case False
    let ?w = "?v\<lparr>u_host := h\<rparr>" let ?l = "?k + 1 + length pt"
    have "uri_run buf k ?k rest (Inr (Some ?p2, ?w)) = uri_run buf 513 ?l (tail_text q f) (Inr (None, ?w))"
      using False assms(5) place_steps(10) [OF e(1)] run_upath [OF assms(4), of buf "?k + 1"] by simp
    moreover have "uri_finish buf (uri_run buf 513 l (tail_text q f) (Inr (None, ?w))) = Inl Logic_Error" for l
    proof -
      have slash: "uri_finish buf (uri_run buf 513 l (c # s) (Inr (None, ?w))) = Inl Logic_Error" if "c = CHR ''?'' \<or> c = CHR ''#''" for c s
        using that text_steps uri_run_fault [of buf _ "l + 1" s Logic_Error] by (auto simp: marked_def) (metis uri_finish_fault)+
      show ?thesis
        using slash [of "CHR ''?''" "q @ (if f = [] then [] else ''#'') @ f"] slash [of "CHR ''#''" f]
        by (auto simp: tail_text_def uri_finish_def [of buf "(513, _)"] uri_finish_states marked_def)
    qed
    ultimately show ?thesis by simp
  qed
  then show ?thesis using start by (simp only: buf_def)
qed

theorem uri_empty_port_throws_witness:
  "uri_Create ''http://h:/p'' = Inl Logic_Error"
proof -
  have "scheme_text ''http''" "host_text ''h''" "escaped upath_codes ''p''" by code_simp+
  from uri_empty_port_throws [OF this(1) _ this(2,3), of "[]" "''/p''" "[]" "[]"] show ?thesis by (simp add: user_text_def tail_text_def)
qed

text \<open>
  A password made of digits replaces the user information: behind the colon the machine also reads a port, whose entry
  moves the mark, and the mark is not moved back when the at sign shows that it was a password. The user name is lost.
\<close>

theorem uri_numeric_password:
  assumes "scheme_text sc" and "host_text name" and "ds \<noteq> []" and "\<forall>c \<in> set ds. schar c \<in> set num_codes" and "host_text h"
    and "\<And>n. port = Some n \<Longrightarrow> n < 2 ^ 31" and "escaped upath_codes pt" and "escaped text_codes q" and "escaped text_codes f"
  shows "\<exists>u. uri_Create (sc @ ''://'' @ name @ '':'' @ ds @ ''@'' @ h @ port_text port @ ''/'' @ pt @ tail_text q f) = Inr (Some u)
    \<and> u_userinfo u = ds \<and> u_host u = h \<and> u_path u = ''/'' @ pt"
proof -
  let ?rest = "h @ port_text port @ ''/'' @ pt @ tail_text q f" let ?auth = "name @ '':'' @ ds @ ''@'' @ ?rest"
  define buf where "buf = sc @ ''://'' @ ?auth"
  let ?p = "length sc + 3" let ?u = "Uri\<lparr>u_scheme := sc\<rparr>" let ?k = "?p + length name + 1" let ?l = "?k + length ds"
  have place: "host_place 511 host_states 521 542" "host_place 522 host2_states 514 515" by (simp_all add: host_place_def)
  have at: "drop ?p buf = ?auth" using drop_at [of 0 buf "sc @ ''://''" ?auth] by (simp add: buf_def numeral_3_eq_3)
  have at2: "drop ?k buf = ds @ ''@'' @ ?rest" by (rule drop_next, rule drop_at) (use at in simp)
  have at3: "drop (?l + 1) buf = ?rest" by (rule drop_next, rule drop_at) (use at2 in simp)
  obtain m where m: "m \<in> set host_states" "uri_run buf 511 ?p ?auth (Inr (None, ?u)) = uri_run buf m (?p + length name) ('':'' @ ds @ ''@'' @ ?rest) (Inr (Some ?p, ?u))"
    using run_host [OF place(1) assms(2), of buf ?p "'':'' @ ds @ ''@'' @ ?rest" "(None, ?u)"] by auto
  have "marked buf (Some ?p) (?p + length name) = Inr name" using at by (rule marked_segment) simp
  then have r1: "uri_run buf m (?p + length name) ('':'' @ ds @ ''@'' @ ?rest) (Inr (Some ?p, ?u)) = uri_run buf 521 ?k (ds @ ''@'' @ ?rest) (Inr (Some ?p, ?u\<lparr>u_host := name\<rparr>))"
    using place_steps(6) [OF place(1) m(1)] by simp
  obtain c t where ds: "ds = c # t" using assms(3) by (cases ds) auto
  have "\<forall>n \<in> {542}. \<forall>c \<in> set t. \<exists>m. uri_step n c = (m, []) \<and> m \<in> {542}" using assms(4) ds single_steps by simp
  from run_states [OF this, of 542 buf "?k + 1" "''@'' @ ?rest" "Inr (Some ?k, ?u\<lparr>u_host := name\<rparr>)"]
  have "uri_run buf 521 ?k (ds @ ''@'' @ ?rest) (Inr (Some ?p, ?u\<lparr>u_host := name\<rparr>)) = uri_run buf 542 ?l (''@'' @ ?rest) (Inr (Some ?k, ?u\<lparr>u_host := name\<rparr>))"
    using assms(4) ds single_steps by (simp add: add.assoc)
  also have "\<dots> = uri_run buf 522 (?l + 1) ?rest (Inr (None, ?u\<lparr>u_host := name, u_userinfo := ds\<rparr>))"
    using marked_segment [OF at2 refl] single_steps by simp
  finally have "uri_Create buf = uri_finish buf (uri_run buf 522 (?l + 1) ?rest (Inr (None, ?u\<lparr>u_host := name, u_userinfo := ds\<rparr>)))"
    using run_scheme [OF assms(1), of ?auth Uri] m(2) r1 by (simp add: uri_Create_def uri_start_def buf_def)
  then show ?thesis using finish_place [OF place(2) assms(5-9) at3, of "?u\<lparr>u_host := name, u_userinfo := ds\<rparr>" None] by (simp add: buf_def Uri_def)
qed

theorem uri_numeric_password_witness:
  "\<exists>u. uri_Create ''http://me:42@h/p'' = Inr (Some u) \<and> u_userinfo u = ''42''"
proof -
  have h: "scheme_text ''http''" "host_text ''me''" "host_text ''h''" "escaped upath_codes ''p''" "list_all (\<lambda>c. schar c \<in> set num_codes) ''42''" by code_simp+
  from uri_numeric_password [OF h(1,2) _ _ h(3) _ h(4), of "''42''" None "[]" "[]"] h(5) show ?thesis
    by (auto simp: port_text_def tail_text_def list_all_iff)
qed

end
