(* ===== verification/Http_Get.thy ===== *)
theory Http_Get
  imports Http_Client Uri_Text
begin

text \<open>
  What a request through the client does, from the text of the URL to the response: the code of the result says how far it got.
\<close>

section \<open>Receiving a response only reads\<close>

lemma consumed_response_head: "recv_response_head n data p s = (r, s') \<Longrightarrow> consumed s s'"
proof (induction n data p s arbitrary: r s' rule: recv_response_head.induct)
  case (1 n data p s)
  obtain len bs s1 where rd: "ss_read (n - length data) s = ((len, bs), s1)" by (metis prod.exhaust)
  note c = conjunct1 [OF consumed_read [OF rd]]
  note step = "1.prems" [unfolded recv_response_head.simps [of n data p s] rd prod.case]
  show ?case using step c consumed_close [OF c] consumed_trans [OF c "1.IH" [OF rd [symmetric] refl]]
    by (auto split: if_splits sum.splits)
qed

lemma consumed_chunk_head: "chunk_head n b data p s = (r, s') \<Longrightarrow> consumed s s'"
proof (induction n b data p s arbitrary: r s' rule: chunk_head.induct)
  case (1 n b data p s)
  obtain rt bs s1 where rd: "(if \<not> b \<or> data = [] then ss_read (n - length data) s else ((1, []), s)) = ((rt, bs), s1)" by (metis prod.exhaust)
  then have c: "consumed s s1" using consumed_read [of "n - length data" s _ s1] consumed_refl by (auto split: if_splits)
  note step = "1.prems" [unfolded chunk_head.simps [of n b data p s] rd prod.case]
  show ?case using step c consumed_close [OF c] consumed_trans [OF c "1.IH" [OF rd [symmetric] refl]]
    by (auto split: if_splits sum.splits)
qed

lemma consumed_chunk_data: "chunk_data n k body data s = (r, s') \<Longrightarrow> consumed s s'"
  by (auto simp: chunk_data_def Let_def consumed_refl split: if_splits prod.splits option.splits dest: consumed_left)

lemma consumed_chunks: "recv_chunks n body data p s = (r, s') \<Longrightarrow> consumed s s'"
proof (induction n body data p s arbitrary: r s' rule: recv_chunks.induct)
  case (1 n body data p s)
  obtain x s1 where h: "chunk_head n True data p s = (x, s1)" by fastforce
  note c = consumed_chunk_head [OF h]
  note step = "1.prems" [unfolded recv_chunks.simps [of n body data p s] h prod.case]
  show ?case
  proof (cases "\<exists>rest q. x = Inr (Some (rest, q))")
    case False
    then show ?thesis using step c by (auto split: sum.splits option.splits)
  next
    case True
    then obtain rest q where x: "x = Inr (Some (rest, q))" by blast
    obtain y s2 where d: "chunk_data n (hc_content_len (sp_parser q)) body rest s1 = (y, s2)" by fastforce
    note c2 = consumed_trans [OF c consumed_chunk_data [OF d]]
    show ?thesis using step c2 consumed_trans [OF c2 "1.IH" [OF h [symmetric] x refl refl d [symmetric]]]
      by (auto simp: x d split: sum.splits option.splits if_splits)
  qed
qed

lemma consumed_plain: "recv_plain_body lc data p s = (r, s') \<Longrightarrow> consumed s s'"
  by (auto simp: recv_plain_body_def Let_def consumed_refl split: prod.splits if_splits dest!: consumed_fix intro: consumed_close)

lemma consumed_response: "recvResponse lc n g s = (r, s') \<Longrightarrow> consumed s s'"
  by (auto simp: recvResponse_def split: prod.splits sum.splits option.splits if_splits
      dest!: consumed_response_head dest: consumed_chunks consumed_plain intro: consumed_trans)

section \<open>Sending a request\<close>

lemma rq_dump_nonempty: "rq_dump r \<noteq> []"
  by (simp add: rq_dump_def)

lemma send_request:
  assumes "sendRequest req s = (q, s')" and "length (rq_dump req) < 2 ^ 31"
  shows "\<exists>n \<le> length (rq_dump req). ss_in s' = ss_in s \<and> ss_out s' = ss_out s @ take n (rq_dump req)
    \<and> (0 < q \<longrightarrow> n = length (rq_dump req)) \<and> (q \<le> 0 \<longrightarrow> n < length (rq_dump req))"
proof -
  obtain x where wl: "fix_write_loop ss_write (rq_dump req) s = (x, s')" and q: "q = c_int (case x of None \<Rightarrow> int (length (rq_dump req)) | Some e \<Rightarrow> e)"
    using assms(1) by (auto simp: sendRequest_def writeFixSize_def split: prod.splits option.splits)
  have "0 < length (rq_dump req)" using rq_dump_nonempty by simp
  then have "0 < q \<longleftrightarrow> x = None" using sock.stream_write_spec [OF wl] assms(2) by (cases x) (auto simp: q c_int_id c_int_small)
  then show ?thesis using sock.stream_write_spec [OF wl] by (cases x) auto
qed

lemma send_keeps: "sendRequest req s = (q, s') \<Longrightarrow> ss_owner s' = ss_owner s \<and> ss_sock s' = ss_sock s"
proof -
  have "ss_owner s' = ss_owner s \<and> ss_sock s' = ss_sock s" if "fix_write_loop ss_write bs s = (x, s')" for bs x s s'
    using that
  proof (induction "length bs" arbitrary: bs s rule: less_induct)
    case less
    obtain len s1 where w: "ss_write bs s = (len, s1)" by fastforce
    then have keep: "ss_owner s1 = ss_owner s \<and> ss_sock s1 = ss_sock s" by (auto simp: ss_write_def sock_send_def Let_def split: if_splits list.splits)
    note step = less.prems [unfolded fix_write_loop.simps [of ss_write bs s] w prod.case]
    show ?case
    proof (cases "bs = [] \<or> len \<le> 0")
      case True
      then show ?thesis using step keep by (auto split: if_splits)
    next
      case False
      then show ?thesis using step keep less.hyps [of "drop (nat len) bs" s1] by (simp add: diff_less)
    qed
  qed
  then show "sendRequest req s = (q, s') \<Longrightarrow> ss_owner s' = ss_owner s \<and> ss_sock s' = ss_sock s"
    by (auto simp: sendRequest_def writeFixSize_def split: prod.splits option.splits)
qed

lemma write_all:
  assumes "ss_isConnected s" and "\<forall>j \<in> set (ss_wplan s). 0 < j" and "length bs \<le> length (ss_wplan s)"
  shows "\<exists>w. fix_write_loop ss_write bs s = (None, s\<lparr>ss_out := ss_out s @ bs, ss_wplan := w\<rparr>)"
  using assms
proof (induction "ss_wplan s" arbitrary: bs s)
  case Nil
  then show ?case by (intro exI [of _ "[]"]) (simp add: fix_write_loop.simps)
next
  case (Cons k ks)
  show ?case
  proof (cases "bs = []")
    case True
    then show ?thesis by (intro exI [of _ "ss_wplan s"]) (simp add: fix_write_loop.simps)
  next
    case False
    note k = Cons.hyps(2) [symmetric]
    define n where "n = min (nat k) (length bs)"
    let ?s = "s\<lparr>ss_out := ss_out s @ take n bs, ss_wplan := ks\<rparr>"
    have pos: "0 < k" using Cons.prems(2) k by simp
    have w: "ss_write bs s = (int n, ?s)" using Cons.prems(1) k pos by (simp add: n_def ss_write_def sock_send_def Let_def)
    have n: "0 < n" using pos False by (simp add: n_def)
    then have step: "fix_write_loop ss_write bs s = fix_write_loop ss_write (drop n bs) ?s"
      using False w n by (simp add: fix_write_loop.simps [of ss_write bs s])
    have "length (drop n bs) \<le> length ks" using Cons.prems(3) k n by simp
    then obtain w where "fix_write_loop ss_write (drop n bs) ?s = (None, ?s\<lparr>ss_out := ss_out ?s @ drop n bs, ss_wplan := w\<rparr>)"
      using Cons.hyps(1) [of ?s "drop n bs"] Cons.prems(1,2) k by (auto simp: ss_isConnected_def)
    then show ?thesis using step by (intro exI [of _ w]) simp
  qed
qed

section \<open>Properties\<close>

text \<open>
  C37: the code of a result says how far a request got. Without an address it is 2, without a socket 7, without a connection 3, and
  nothing is sent. With a connection it is 4 or 5 exactly when only a proper part of the request was written, and 0 or 6 when
  the whole request was; a response comes with code 0 and with no other; and the connection is closed in
  the end, whatever happened, when the peer's response makes the parser throw as well.
\<close>

theorem do_request_result:
  assumes "DoRequest env req u t = (x, c)" and "length (rq_dump req) < 2 ^ 31" and "\<forall>a s. ce_dial env a = Connected s \<longrightarrow> ss_owner s \<and> ss_sock s"
  shows "case u_createAddress (ce_order env) (ce_getaddrinfo env) u of
      None \<Rightarrow> c = None \<and> map_sum id hr_result x = Inr 2
    | Some a \<Rightarrow> (case ce_dial env a of
        No_Socket \<Rightarrow> c = None \<and> map_sum id hr_result x = Inr 7
      | Refused \<Rightarrow> c = None \<and> map_sum id hr_result x = Inr 3
      | Connected s \<Rightarrow> \<exists>s' n. c = Some s' \<and> \<not> ss_isConnected s' \<and> ss_out s' = ss_out s @ take n (rq_dump req) \<and> n \<le> length (rq_dump req)
          \<and> (case x of Inl e \<Rightarrow> n = length (rq_dump req)
             | Inr r \<Rightarrow> (hr_result r \<in> {4, 5} \<and> n < length (rq_dump req) \<or> hr_result r \<in> {0, 6} \<and> n = length (rq_dump req))
                 \<and> (hr_result r = 0 \<longleftrightarrow> hr_response r \<noteq> None)))"
proof (cases "u_createAddress (ce_order env) (ce_getaddrinfo env) u")
  case None
  then show ?thesis using assms(1) by (auto simp: DoRequest_def HttpResult_def)
next
  case (Some a)
  show ?thesis
  proof (cases "ce_dial env a")
    case (Connected s)
    obtain y s1 where e: "exchange env (addr_toString (ce_order env) a) t req s = (y, s1)" by fastforce
    then have c: "x = y" "c = Some (ss_destroy s1)" using assms(1) Some Connected by (simp_all add: DoRequest_def)
    obtain q s0 where q: "sendRequest req s = (q, s0)" by fastforce
    from send_request [OF this assms(2)] obtain n where n: "n \<le> length (rq_dump req)" "ss_out s0 = ss_out s @ take n (rq_dump req)"
      "0 < q \<longrightarrow> n = length (rq_dump req)" "q \<le> 0 \<longrightarrow> n < length (rq_dump req)" by blast
    obtain z s2 where z: "recvResponse (ce_cast env) (ce_buffer_size env) (ce_garbage env) s0 = (z, s2)" by fastforce
    have rest: "consumed s0 s1" using e q consumed_response [OF z] consumed_refl
      by (auto simp: exchange_def z split: if_splits sum.splits option.splits)
    have "ss_owner s0 \<and> ss_sock s0" using assms(3) Connected send_keeps [OF q] by auto
    then have "\<not> ss_isConnected (ss_destroy s1)" "ss_out (ss_destroy s1) = ss_out s0" using rest
      by (auto simp: consumed_def ss_destroy_def ss_isConnected_def)
    moreover have "case y of Inl e \<Rightarrow> n = length (rq_dump req)
        | Inr r \<Rightarrow> (hr_result r \<in> {4, 5} \<and> n < length (rq_dump req) \<or> hr_result r \<in> {0, 6} \<and> n = length (rq_dump req))
            \<and> (hr_result r = 0 \<longleftrightarrow> hr_response r \<noteq> None)"
      using e q n(3,4) by (auto simp: exchange_def HttpResult_def z split: if_splits sum.splits option.splits)
    ultimately show ?thesis using n(1,2) Some Connected by (auto simp: c)
  qed (use assms(1) Some in \<open>auto simp: DoRequest_def HttpResult_def\<close>)
qed


lemma sample_address: "\<exists>a. u_createAddress (ce_order sample_client) (ce_getaddrinfo sample_client) sample_uri = Some a"
  by (simp add: u_createAddress_def sample_client_def LookupAnyIPAddress_def Lookup_def Address_Create_def is_ip_def split: prod.splits)

lemma sample_exchange: "map_sum id hr_result (fst (exchange sample_client p t sample_request (SocketStream True True [] [] [100]))) = Inr 6"
proof -
  let ?s = "SocketStream True True [] [] [100] :: session"
  have "sendRequest sample_request ?s = (68, ?s\<lparr>ss_out := rq_dump sample_request, ss_wplan := []\<rparr>)"
    using sample_ok(4) rq_dump_nonempty [of sample_request]
    by (simp add: sendRequest_def writeFixSize_def fix_write_loop.simps ss_write_def sock_send_def ss_isConnected_def SocketStream_def c_int_id)
  then show ?thesis
    by (simp add: exchange_def recvResponse_def recv_response_head.simps ss_read_def sock_recv_def ss_isConnected_def SocketStream_def HttpResult_def)
qed

theorem do_request_result_witness:
  "\<exists>x s'. DoRequest sample_client sample_request sample_uri 5 = (x, Some s') \<and> ss_out s' = rq_dump sample_request \<and> map_sum id hr_result x = Inr 6"
proof -
  let ?s = "SocketStream True True [] [] [100] :: session"
  obtain a where a: "u_createAddress (ce_order sample_client) (ce_getaddrinfo sample_client) sample_uri = Some a" using sample_address by blast
  obtain x c where x: "DoRequest sample_client sample_request sample_uri 5 = (x, c)" by fastforce
  have dial: "ce_dial sample_client b = Connected ?s" for b by (simp add: sample_client_def)
  have own: "\<forall>b s. ce_dial sample_client b = Connected s \<longrightarrow> ss_owner s \<and> ss_sock s" by (auto simp: dial SocketStream_def)
  have "map_sum id hr_result x = Inr 6"
    using x a dial [of a] sample_exchange [of "addr_toString (ce_order sample_client) a" 5] by (auto simp: DoRequest_def split: prod.splits)
  moreover have len: "length (rq_dump sample_request) < 2 ^ 31" by (simp add: sample_ok)
  ultimately show ?thesis using do_request_result [OF x len own] x a dial [of a]
    by (cases x) (auto simp: SocketStream_def)
qed

text \<open>
  C38: a GET, end to end: the text of a legal URL, given to \<open>DoGet\<close>, makes the client connect to the address of its host and
  port, write the request for its path and query with its host, and return the status, reason, version and
  headers that the server's \<open>sendResponse\<close> wrote, without the body; then the connection is closed.
\<close>

theorem get_over_wire:
  assumes "uri_ok u" and "u_createAddress (ce_order env) (ce_getaddrinfo env) u = Some a" and "ce_dial env a = Connected s"
    and "ss_isConnected s" and "ss_owner s" and "\<forall>j \<in> set (ss_wplan s). 0 < j"
    and "length (rq_dump (uri_request GET u headers body)) \<le> length (ss_wplan s)" and "length (rq_dump (uri_request GET u headers body)) < 2 ^ 31"
    and "plain_reply r" and "reads_dec (ce_cast env)" and "ss_in s = rs_dump r @ extra" and "ss_rplan s = k # ks" and "ce_buffer_size env < 2 ^ 31"
    and "length (rs_dump r) - length (rs_body r) \<le> first_read (ce_buffer_size env) k s" and "\<forall>j \<in> set ks. 0 < j"
    and "length (rs_dump r) \<le> first_read (ce_buffer_size env) k s + length ks"
  shows "\<exists>D s'. DoGet env (u_toString u) timeout_ms headers body = (Inr (HttpResult ERR_OK (Some D) ''ok''), Some s')
    \<and> ss_out s' = ss_out s @ rq_dump (uri_request GET u headers body) \<and> \<not> ss_isConnected s'
    \<and> rs_version D = rs_version r \<and> rs_status D = rs_status r
    \<and> rs_reason D = (if rs_reason r = [] then HttpStatusToString (rs_status r) else rs_reason r) \<and> rs_body D = []"
proof -
  from uri_read [OF assms(1)] obtain v where v: "uri_Create (u_toString u) = Inr (Some v)" "u_host v = u_host u"
    "u_query v = u_query u" "u_fragment v = u_fragment u" "u_getPath v = u_getPath u" "u_getPort v = u_getPort u" by blast
  let ?req = "uri_request GET u headers body"
  have same: "uri_request GET v headers body = ?req" "u_createAddress (ce_order env) (ce_getaddrinfo env) v = Some a"
    using assms(2) by (simp_all only: uri_request_def u_createAddress_def v)
  obtain w where "fix_write_loop ss_write (rq_dump ?req) s = (None, s\<lparr>ss_out := ss_out s @ rq_dump ?req, ss_wplan := w\<rparr>)"
    using write_all [OF assms(4,6,7)] by blast
  then have send: "sendRequest ?req s = (int (length (rq_dump ?req)), s\<lparr>ss_out := ss_out s @ rq_dump ?req, ss_wplan := w\<rparr>)"
    using assms(8) by (simp add: sendRequest_def writeFixSize_def c_int_id)
  let ?s = "s\<lparr>ss_out := ss_out s @ rq_dump ?req, ss_wplan := w\<rparr>"
  have first: "first_read (ce_buffer_size env) k ?s = first_read (ce_buffer_size env) k s" by (simp add: first_read_def)
  have conn: "ss_isConnected ?s" "ss_in ?s = rs_dump r @ extra" "ss_rplan ?s = k # ks" using assms(4,11,12) by (simp_all add: ss_isConnected_def)
  from recv_reply [OF assms(9,10) conn assms(13), unfolded first, OF assms(14-16)] obtain D s' where
    D: "recvResponse (ce_cast env) (ce_buffer_size env) (ce_garbage env) ?s = (Inr (Some D), s')" "reply_data r D" by blast
  have out: "ss_out s' = ss_out s @ rq_dump ?req" "ss_owner s'" "ss_sock s'"
    using consumed_response [OF D(1)] assms(4,5) by (auto simp: consumed_def ss_isConnected_def)
  have "DoGet env (u_toString u) timeout_ms headers body = (Inr (HttpResult ERR_OK (Some D) ''ok''), Some (ss_destroy s'))"
    using same assms(3) send D(1) rq_dump_nonempty
    by (simp add: DoGet_def v(1) DoGet_uri_def DoRequest_uri_def DoRequest_def exchange_def)
  then show ?thesis using out D(2) assms(9)
    by (auto simp: ss_destroy_def ss_isConnected_def reply_data_def sent_reason_def plain_reply_def reply_ok_def)
qed

definition get_client :: client_env where
  "get_client = sample_client\<lparr>ce_dial := (\<lambda>_. Connected (SocketStream True True (rs_dump sample_reply) [73, 1] (replicate 100 1))), ce_cast := cast_u64\<rparr>"

theorem get_over_wire_witness:
  "\<exists>D s'. DoGet get_client ''http://me@a.org:81/x%20y?q=1#f'' 5 [] [] = (Inr (HttpResult ERR_OK (Some D) ''ok''), Some s') \<and> rs_status D = 200"
proof -
  let ?s = "SocketStream True True (rs_dump sample_reply) [73, 1] (replicate 100 1) :: session"
  have "scheme_text ''http''" "host_text ''me''" "host_text ''a.org''" "escaped upath_codes ''x%20y''" "escaped text_codes ''q=1''" "escaped text_codes ''f''"
    by code_simp+
  then have u: "uri_ok sample_uri" by (simp add: uri_ok_def sample_uri_def)
  have print: "u_toString sample_uri = ''http://me@a.org:81/x%20y?q=1#f''" "length (rq_dump (uri_request GET sample_uri [] [])) \<le> 100"
    "rs_status sample_reply = 200" by code_simp+
  obtain a where a: "u_createAddress (ce_order get_client) (ce_getaddrinfo get_client) sample_uri = Some a"
    using sample_address by (auto simp: get_client_def)
  have env: "ce_dial get_client a = Connected ?s" "reads_dec (ce_cast get_client)" "ce_buffer_size get_client = 4096"
    using reads_dec_cast by (simp_all add: get_client_def sample_client_def)
  have f: "first_read 4096 73 ?s = 73" using reply_session_ok(5) by (simp add: first_read_def reply_session_def SocketStream_def)
  have s: "ss_isConnected ?s" "ss_owner ?s" "\<forall>j \<in> set (ss_wplan ?s). 0 < j" "length (ss_wplan ?s) = 100" "ss_in ?s = rs_dump sample_reply @ []" "ss_rplan ?s = 73 # [1]"
    by (simp_all add: SocketStream_def ss_isConnected_def)
  from get_over_wire [OF u a env(1) s(1-3) _ _ reply_session_ok(1) env(2) s(5,6), of "[]" "[]" 5] print s(4) env(3) f sample_reply_ok(2) reply_session_ok(5,6)
  show ?thesis by auto
qed

end
