(* ===== verification/Uri_Safety.thy ===== *)
theory Uri_Safety
  imports Uri
begin

text \<open>
  What the parser of URIs cannot do, on any text: the states of the machine, the mark and the port keep their types, and
  \<open>atoi\<close> never reads through a null pointer. The table is checked once, block by block.
\<close>

section \<open>Null marks\<close>

text \<open>The states in which the mark may be null, and what the actions make of it; \<open>None\<close> is \<open>atoi\<close> of a null pointer.\<close>

definition null_ranges :: "(int \<times> int) list" where
  "null_ranges = [(3, 6), (243, 244), (451, 453), (455, 456), (458, 459), (469, 469), (509, 511), (513, 513), (522, 522)]"

fun null_after :: "uri_action list \<Rightarrow> bool \<Rightarrow> bool option" where
  "null_after [] b = Some b"
| "null_after (a # as) b =
     (case a of Marku \<Rightarrow> null_after as False | Markh \<Rightarrow> null_after as False | Save_host \<Rightarrow> null_after as b
      | Save_port \<Rightarrow> if b then None else null_after as True
      | _ \<Rightarrow> null_after as True)"

definition null_ok :: "uri_action list \<Rightarrow> bool \<Rightarrow> int \<Rightarrow> bool" where
  "null_ok as b m = (case null_after as b of None \<Rightarrow> False | Some b' \<Rightarrow> b' \<longrightarrow> in_ranges null_ranges m)"

definition jump_null_ok :: "uri_action block list \<Rightarrow> bool \<Rightarrow> jump \<Rightarrow> bool" where
  "jump_null_ok blocks n j = (case follow blocks j of (m, as) \<Rightarrow>
     m = 0 \<or> in_ranges [(1, 560)] m \<and> null_ok as False m \<and> (n \<longrightarrow> null_ok as True m))"

primrec block_null_ok :: "uri_action block list \<Rightarrow> uri_action block \<Rightarrow> bool" where
  "block_null_ok blocks (Case n w rows d) =
     (let b = in_ranges null_ranges n in jump_null_ok blocks b d \<and> list_all (\<lambda>(lo, hi, j). jump_null_ok blocks b j) rows)"
| "block_null_ok blocks (Block k as m) = True"

text \<open>The blocks of actions of the machine, collected.\<close>

lemma uri_actions: "filter is_Block uri_machine = [
     Block 467 [Marku, Save_query] 453,
     Block 469 [Save_query] 453,
     Block 474 [Markh, Save_host] 453,
     Block 485 [Save_host] 453,
     Block 489 [Markh, Save_port] 453,
     Block 493 [Save_port] 453,
     Block 548 [Markh, Save_host, Save_path] 453,
     Block 559 [Save_host, Markh, Save_path] 453,
     Block 563 [Save_path] 453,
     Block 566 [Markh, Save_port, Save_path] 453,
     Block 570 [Save_port, Markh, Save_path] 453,
     Block 462 [Marku] 454,
     Block 463 [Marku] 1,
     Block 476 [Markh, Save_host] 455,
     Block 486 [Save_host] 455,
     Block 490 [Markh, Save_port] 455,
     Block 494 [Save_port] 455,
     Block 482 [Markh, Save_host] 456,
     Block 488 [Save_host] 456,
     Block 492 [Markh, Save_port] 456,
     Block 496 [Save_port] 456,
     Block 556 [Markh, Save_host, Save_path] 456,
     Block 562 [Save_host, Markh, Save_path] 456,
     Block 565 [Save_path] 456,
     Block 569 [Markh, Save_port, Save_path] 456,
     Block 573 [Save_port, Markh, Save_path] 456,
     Block 466 [Marku] 457,
     Block 468 [Marku] 7,
     Block 472 [Markh] 9,
     Block 507 [Markh, Save_host] 461,
     Block 487 [Save_host] 461,
     Block 491 [Markh] 462,
     Block 473 [Markh] 467,
     Block 475 [Markh] 31,
     Block 481 [Markh, Save_host] 468,
     Block 499 [Save_host] 468,
     Block 38 [Save_userinfo] 469,
     Block 483 [Markh, Save_userinfo] 469,
     Block 501 [Markh] 470,
     Block 502 [Markh] 36,
     Block 503 [Markh] 471,
     Block 504 [Markh] 485,
     Block 506 [Markh] 486,
     Block 505 [Markh] 487,
     Block 484 [Markh] 38,
     Block 500 [Markh] 489,
     Block 477 [Markh] 490,
     Block 478 [Markh] 504,
     Block 480 [Markh] 505,
     Block 479 [Markh] 506,
     Block 461 [Marku] 508,
     Block 543 [Save_scheme] 509,
     Block 546 [Markh] 229,
     Block 550 [Markh, Save_host] 513,
     Block 567 [Markh, Save_port] 513,
     Block 560 [Save_host, Markh] 513,
     Block 571 [Save_port, Markh] 513,
     Block 584 [Markh, Save_host] 514,
     Block 561 [Save_host] 514,
     Block 568 [Markh] 515,
     Block 547 [Markh] 520,
     Block 549 [Markh] 253,
     Block 555 [Markh, Save_host] 521,
     Block 576 [Save_host] 521,
     Block 263 [Save_userinfo] 522,
     Block 557 [Markh, Save_userinfo] 522,
     Block 578 [Markh] 523,
     Block 579 [Markh] 258,
     Block 580 [Markh] 524,
     Block 581 [Markh] 538,
     Block 583 [Markh] 539,
     Block 582 [Markh] 540,
     Block 558 [Markh] 260,
     Block 577 [Markh] 542,
     Block 551 [Markh] 543,
     Block 552 [Markh] 557,
     Block 554 [Markh] 558,
     Block 553 [Markh] 559]"
  by (simp only: uri_machine_def filter_append) code_simp

lemma null_part1: "list_all (block_null_ok (filter is_Block uri_machine))
    (uri_1 @ uri_2 @ uri_3 @ uri_4 @ uri_5 @ uri_6 @ uri_7 @ uri_8 @ uri_9 @ uri_10)"
  by (simp only: uri_actions) code_simp

lemma null_part2: "list_all (block_null_ok (filter is_Block uri_machine))
    (uri_11 @ uri_12 @ uri_13 @ uri_14 @ uri_15 @ uri_16 @ uri_17 @ uri_18 @ uri_19 @ uri_20)"
  by (simp only: uri_actions) code_simp

lemma null_part3: "list_all (block_null_ok (filter is_Block uri_machine))
    (uri_21 @ uri_22 @ uri_23 @ uri_24 @ uri_25 @ uri_26 @ uri_27 @ uri_28 @ uri_29 @ uri_30)"
  by (simp only: uri_actions) code_simp

lemma null_part4: "list_all (block_null_ok (filter is_Block uri_machine))
    (uri_31 @ uri_32 @ uri_33 @ uri_34 @ uri_35 @ uri_36 @ uri_37 @ uri_38 @ uri_39 @ uri_40)"
  by (simp only: uri_actions) code_simp

lemma null_part5: "list_all (block_null_ok (filter is_Block uri_machine))
    (uri_41 @ uri_42 @ uri_43 @ uri_44 @ uri_45 @ uri_46 @ uri_47 @ uri_48 @ uri_49 @ uri_50)"
  by (simp only: uri_actions) code_simp

lemma null_part6: "list_all (block_null_ok (filter is_Block uri_machine))
    (uri_51 @ uri_52 @ uri_53 @ uri_54 @ uri_55 @ uri_56 @ uri_57 @ uri_58 @ uri_59 @ uri_60)"
  by (simp only: uri_actions) code_simp

lemma null_part7: "list_all (block_null_ok (filter is_Block uri_machine))
    (uri_61 @ uri_62 @ uri_63 @ uri_64 @ uri_65 @ uri_66 @ uri_67 @ uri_68 @ uri_69 @ uri_70)"
  by (simp only: uri_actions) code_simp

lemma machine_null: "list_all (block_null_ok (filter is_Block uri_machine)) uri_machine"
  using null_part1 null_part2 null_part3 null_part4 null_part5 null_part6 null_part7
  by (simp only: uri_machine_def list_all_append)

lemma eof_null: "list_all (\<lambda>(cs, as). null_after as False \<noteq> None \<and> (list_ex (in_ranges null_ranges) cs \<longrightarrow> null_after as True \<noteq> None)) uri_eof"
  by code_simp

text \<open>What always holds: of the state of the machine, of the position of the mark and of the port.\<close>

definition state_typed :: "nat \<Rightarrow> bool \<Rightarrow> fault + uri_state \<Rightarrow> bool" where
  "state_typed p b st = (case st of Inl e \<Rightarrow> e = Logic_Error
     | Inr (mark, u) \<Rightarrow> (mark = None \<longrightarrow> b) \<and> (\<forall>m. mark = Some m \<longrightarrow> m \<le> p) \<and> - (2 ^ 31) \<le> u_port u \<and> u_port u < 2 ^ 31)"

lemma c_int_range: "- (2 ^ 31) \<le> c_int n" "c_int n < 2 ^ 31"
  using sint_range_size [of "word_of_int n :: u32"] by (simp_all add: c_int_def word_size)

lemma acts_typed:
  assumes "null_after as (mark = None) = Some b" and "state_typed p True (Inr (mark, u))"
  shows "state_typed p b (uri_acts text p as (Inr (mark, u)))"
  using assms
proof (induction as arbitrary: mark u)
  case Nil
  then show ?case by (auto simp: state_typed_def uri_acts_def)
next
  case (Cons a as)
  have step: "uri_acts text p (a # as) (Inr (mark, u)) = uri_acts text p as (uri_act text p a (mark, u))" by (simp add: uri_acts_def)
  have fault: "uri_acts text p as (Inl e) = Inl e" for e by (induction as) (simp_all add: uri_acts_def)
  show ?case
  proof (cases "uri_act text p a (mark, u)")
    case (Inl e)
    then have "e = Logic_Error" using Cons.prems by (cases a) (auto simp: marked_def bindE_def split: option.splits sum.splits if_splits)
    then show ?thesis using Inl fault by (simp add: step state_typed_def)
  next
    case (Inr st)
    obtain mark' u' where st: "st = (mark', u')" by fastforce
    have "null_after as (mark' = None) = Some b" "state_typed p True (Inr (mark', u'))"
      using Cons.prems Inr c_int_range unfolding st
      by (cases a; auto simp: state_typed_def marked_def bindE_def split: option.splits sum.splits if_splits)+
    then show ?thesis using Cons.IH Inr st by (simp add: step)
  qed
qed

lemma uri_zero: "find_case uri_machine 0 = None"
proof -
  have "find_case (filter (in_states [0]) uri_machine) 0 = None" by (simp only: uri_machine_def filter_append) code_simp
  then show ?thesis by (simp add: find_case_filter)
qed

lemma step_null:
  assumes "uri_step n c = (m, as)" and "m \<noteq> 0"
  shows "in_ranges [(1, 560)] m \<and> null_ok as False m \<and> (in_ranges null_ranges n \<longrightarrow> null_ok as True m)"
proof -
  from machine_step_jump [OF assms [unfolded uri_step_def]] obtain w rows d j
    where b: "Case n w rows d \<in> set uri_machine" and j: "j \<in> insert d ((\<lambda>r. snd (snd r)) ` set rows)" "follow uri_machine j = (m, as)"
    by blast
  have "block_null_ok (filter is_Block uri_machine) (Case n w rows d)" using machine_null b by (simp only: list_all_iff)
  then have "jump_null_ok (filter is_Block uri_machine) (in_ranges null_ranges n) j" using j(1) by (auto simp: list_all_iff Let_def)
  then show ?thesis using j(2) assms(2) by (auto simp: jump_null_ok_def follow_filter)
qed

definition run_typed :: "string \<Rightarrow> int \<times> nat \<times> (fault + uri_state) \<Rightarrow> bool" where
  "run_typed text r = (case r of (cs, p, st) \<Rightarrow> 0 \<le> cs \<and> cs \<le> 560 \<and> p \<le> length text \<and> state_typed p (cs = 0 \<or> in_ranges null_ranges cs) st)"

lemma run_keeps_typed:
  assumes "run_typed text (cs, p, st)" and "p + length s \<le> length text"
  shows "run_typed text (uri_run text cs p s st)"
  using assms
proof (induction s arbitrary: cs p st)
  case Nil
  then show ?case by (simp add: uri_run_def)
next
  case (Cons c s)
  obtain m as where step: "uri_step cs c = (m, as)" by fastforce
  have run: "uri_run text cs p (c # s) st = (if m = 0 then (0, p, st) else uri_run text m (p + 1) s (uri_acts text p as st))"
    by (simp add: uri_run_def uri_acts_def step Let_def list_ex_iff)
  show ?case
  proof (cases "m = 0")
    case True
    then show ?thesis using Cons.prems by (auto simp: run run_typed_def state_typed_def split: sum.splits)
  next
    case False
    note ok = step_null [OF step False]
    have "state_typed (p + 1) (in_ranges null_ranges m) (uri_acts text p as st)"
    proof (cases st)
      case (Inl e)
      moreover have "uri_acts text p as (Inl e) = Inl e" by (induction as) (simp_all add: uri_acts_def)
      ultimately show ?thesis using Cons.prems(1) by (simp add: run_typed_def state_typed_def)
    next
      case (Inr x)
      obtain mark u where x: "x = (mark, u)" by fastforce
      have cs: "cs \<noteq> 0" using step False by (auto simp: uri_step_def machine_step_def uri_zero split: option.splits)
      then have "mark = None \<longrightarrow> in_ranges null_ranges cs" "state_typed p True (Inr (mark, u))"
        using Cons.prems(1) Inr x by (auto simp: run_typed_def state_typed_def)
      then obtain b where "null_after as (mark = None) = Some b" "b \<longrightarrow> in_ranges null_ranges m"
        using ok by (cases "mark = None") (auto simp: null_ok_def split: option.splits)
      with acts_typed [OF this(1) \<open>state_typed p True (Inr (mark, u))\<close>, of "text"] show ?thesis
        by (auto simp: Inr x state_typed_def split: sum.splits)
    qed
    then have "run_typed text (m, p + 1, uri_acts text p as st)"
      using ok Cons.prems by (auto simp: run_typed_def in_ranges_def state_typed_def split: sum.splits)
    then show ?thesis using Cons.IH Cons.prems(2) False by (simp add: run)
  qed
qed

lemma eof_actions_in: "eof_actions es cs = [] \<or> (\<exists>S. (S, eof_actions es cs) \<in> set es \<and> cs \<in> set S)"
  by (induction es) auto

lemma finish_typed:
  assumes "run_typed text r"
  shows "case uri_finish text r of Inl e \<Rightarrow> e = Logic_Error
    | Inr v \<Rightarrow> (case v of None \<Rightarrow> True | Some u \<Rightarrow> - (2 ^ 31) \<le> u_port u \<and> u_port u < 2 ^ 31)"
proof -
  obtain cs p st where r: "r = (cs, p, st)" by (metis prod.exhaust)
  have fault: "uri_acts text p as (Inl e) = Inl e" for as e by (induction as) (simp_all add: uri_acts_def)
  show ?thesis
  proof (cases st)
    case (Inl e)
    then show ?thesis using assms by (simp add: r uri_finish_def fault run_typed_def state_typed_def bindE_def)
  next
    case (Inr x)
    obtain mark u where x: "x = (mark, u)" by fastforce
    show ?thesis
    proof (cases "cs = 0")
      case True
      then show ?thesis by (simp add: r Inr uri_finish_def)
    next
      case False
      let ?as = "eof_actions uri_eof cs"
      have typed: "mark = None \<longrightarrow> in_ranges null_ranges cs" "state_typed p True (Inr (mark, u))"
        using assms r Inr x False by (auto simp: run_typed_def state_typed_def)
      obtain b where "null_after ?as (mark = None) = Some b"
        using eof_null typed(1) eof_actions_in [of uri_eof cs] by (cases "mark = None") (fastforce simp: list_all_iff list_ex_iff)+
      from acts_typed [OF this typed(2), of "text"] have "state_typed p b (uri_acts text p ?as st)" by (simp add: Inr x)
      then show ?thesis using False by (auto simp: r uri_finish_def state_typed_def bindE_def split: sum.splits)
    qed
  qed
qed

text \<open>
  C35: no text makes the parser of URIs leave its types. After every prefix of the text the machine is in one of
  its states, the mark lies inside the text, and it is null only in the few states that do not use it or build a string
  from it; \<open>atoi\<close> never gets a null pointer. In the end there is a URI with a port that fits an \<open>int\<close>, no URI, or
  the exception of a string built from a null pointer, and nothing else.
\<close>

theorem uri_parser_typed:
  "run_typed text (uri_run text uri_start 0 (take n text) (Inr (None, Uri)))
   \<and> (case uri_Create text of Inl e \<Rightarrow> e = Logic_Error
      | Inr v \<Rightarrow> (case v of None \<Rightarrow> True | Some u \<Rightarrow> - (2 ^ 31) \<le> u_port u \<and> u_port u < 2 ^ 31))"
proof -
  have start: "run_typed text (uri_start, 0, Inr (None, Uri))"
    by (simp add: run_typed_def state_typed_def uri_start_def null_ranges_def in_ranges_def Uri_def)
  have "run_typed text (uri_run text uri_start 0 (take n text) (Inr (None, Uri)))" for n
    using run_keeps_typed [OF start] by simp
  from this [of n] finish_typed [OF this [of "length text"]] show ?thesis by (simp add: uri_Create_def)
qed

end
