(* ===== verification/Spec2Isabelle.thy ===== *)
theory Spec2Isabelle
  imports Byte_Codec Byte_Buffers Hook Http_Exchange Http_Get Uri_Safety Net_Address
begin

text \<open>
  A verification development for the coroutine web server under \<open>webserve/\<close>: a C++ library of stackful coroutines
  with an N:M scheduler, an event loop over \<open>epoll\<close>, system calls that suspend a fiber instead of blocking a
  thread, and an HTTP server and client on top of them.

  \<^bold>\<open>How the parts interact.\<close> Worker threads run the loop of the scheduler (\<open>scheduler.cc\<close>), which takes tasks - fibers
  (\<open>fiber.cc\<close>) or callbacks - from a queue and runs its idle fiber when there are none. The idle fiber of the event loop
  (\<open>iomanager.cc\<close>, a scheduler and a timer manager) waits in \<open>epoll_wait\<close>, and puts the callbacks of expired timers (\<open>timer.cc\<close>)
  and the tasks of ready descriptors into the queue. A hooked call (\<open>hook.cc\<close>) on a socket that the descriptor table
  (\<open>fd_manager.cc\<close>) manages registers the running fiber with the event loop, arms a timer for its timeout and yields. Streams over
  sockets (\<open>stream.cc\<close>, \<open>streams/socket_stream.cc\<close>) read and write through these calls; HTTP sessions and connections feed what they
  read to the generated parsers and print messages (\<open>http/http.cc\<close>) into the stream; the server (\<open>http/http_server.cc\<close>) dispatches requests to
  servlets (\<open>http/servlet.cc\<close>), the client (\<open>http/http_connection.cc\<close>) resolves URIs (\<open>uri.rl.cc\<close>) to addresses (\<open>address.cc\<close>) and
  keeps connections in a pool. \<open>ByteArray\<close> (\<open>bytearray.cc\<close>) is the serialisation buffer beside all this.

  \<^bold>\<open>Theories and sources.\<close> Every operation is a definition with the name it has in the source, with a prefix where two classes share
  a name. Classes are records with the members of the class; objects that are shared live in heaps addressed by numbers.

  \<^item> \<open>Web_Prelude\<close>: the faults a C++ operation can end in (assertions, exceptions, accesses outside memory, null pointers), the
    type of stateful operations \<open>sop\<close> with its sequencing, and lemmas on lists and words. \<open>C_Strings\<close>: the string functions of the C library.
    \<open>Ordered_Container\<close>: \<open>std::set\<close> and \<open>std::map\<close>.
  \<^item> \<open>Byte_Store\<close>, \<open>Byte_Array\<close>, \<open>Byte_Codec\<close>, \<open>Byte_Buffers\<close>: \<open>bytearray.cc\<close> and \<open>endian.h\<close> on the linked list of blocks; the locale
    \<open>byte_store\<close> is the contract of a flat growing buffer, which the block list implements.
  \<^item> \<open>Fiber\<close>, \<open>Scheduler\<close>: \<open>fiber.cc\<close>, \<open>scheduler.cc\<close>. The thread-local pointers and the saved contexts are state; the workers are the
    steps of \<open>n\<close> threads, each one action between two lock operations.
  \<^item> \<open>Timer_Manager\<close>, \<open>Event_Registry\<close>, \<open>IO_Manager\<close>: \<open>timer.cc\<close>, \<open>iomanager.cc\<close>. The locale \<open>event_registry\<close> is what the hooks need of the loop. The
    operations are given whole and as sections under a lock; \<open>sh_reach\<close> interleaves the sections of any number of threads, with the table of
    contexts, the contexts themselves and the pointers threads hold kept apart.
  \<^item> \<open>Fd_Manager\<close>, \<open>Hook\<close>: \<open>fd_manager.cc\<close>, \<open>hook.cc\<close>.
  \<^item> \<open>Net_Address\<close>: \<open>address.cc\<close>, with the fields of the socket addresses as they are in memory, on either byte order.
  \<^item> \<open>Ragel_Machine\<close>, \<open>Http11_Table\<close>, \<open>Httpclient_Table\<close>, \<open>Uri_Table\<close>: the generated state machines, as tables in the order of the generated
    code, and the function that runs them. \<open>Http_Parser\<close>: the actions, the callbacks and the functions around the HTTP machines;
    \<open>Uri\<close>: those of the URI machine.
  \<^item> \<open>Http_Message\<close>, \<open>Http_Grammar\<close>, \<open>Http_Wire\<close>, \<open>Http_Reply\<close>: \<open>http/http.cc\<close>, and what the machines do on whole messages.
  \<^item> \<open>Socket_Stream\<close>, \<open>Http_Session\<close>, \<open>Servlet\<close>, \<open>Http_Server\<close>: streams, \<open>http/http_session.cc\<close>, \<open>http/servlet.cc\<close>, \<open>http/http_server.cc\<close>.
  \<^item> \<open>Http_Connection\<close>, \<open>Http_Client\<close>, \<open>Http_Get\<close>, \<open>Http_Exchange\<close>: \<open>http/http_connection.cc\<close> with the connection pool, and both ends
    of an exchange composed on the bytes between them.
  \<^item> \<open>Uri_Text\<close>, \<open>Uri_Safety\<close>: what the URI parser reads, and what it cannot do on any text.

  \<^bold>\<open>What the lemmas show.\<close> The block list of \<open>ByteArray\<close> refines a flat buffer, and every codec round-trips. Fibers own their contexts
  and a switch forth and back restores them; the counters of the scheduler are exact under every interleaving, and one interleaving ends
  in a failed assertion. Timers fire exactly when due and in order. The pending counter of the event loop counts the registrations
  under every interleaving of its sections, dispatch resumes exactly the tasks asked for, and a race of two resizes loses a
  registration. A hooked call returns the kernel's answer or its timeout, once. The message tables, the parsers and the printers
  fit together: what one end sends, the other reads. Several theorems pin down what goes wrong where it does: a refused
  registration, a header or path cut by a short read, chunk sizes beyond an \<open>int\<close>, the network address of a subnet, an empty port, a pool
  that never expires.

  \<^bold>\<open>Conventions and bounds.\<close> A failed assertion, an uncaught exception and undefined behaviour are values of the type \<open>fault\<close>. Machine integers have
  their width where overflow can happen; signed overflow, undefined in C++, is modelled as the wrap-around the hardware does
  (\<open>EncodeZigzag\<close>, \<open>CreateMask32\<close>). Loops that end by their data are recursive functions with a termination proof; loops that depend
  on the outside run on a finite plan of its answers, and a result says when the plan was too short. No fuel is used. The HTTP machines accept buffers
  below \<open>2 ^ 31\<close> bytes, where the assertion on the length as an \<open>int\<close> holds; beyond it the model fails as the program does. The
  result of one \<open>recv\<close> is not reduced to an \<open>int\<close>, as the kernel never transfers \<open>2 ^ 31\<close> bytes at once. The operations of the connection pool are atomic
  in the model; in the source its total counter, an atomic integer, is changed outside the lock. Schedulers, timers and sockets that belong to
  other parts of the program are changed arbitrarily, within their invariant, between the steps of a component.

  \<^bold>\<open>Not modelled.\<close> The kernel, the dynamic linker, \<open>getaddrinfo\<close>, \<open>fnmatch\<close>, \<open>ucontext\<close>, \<open>boost::lexical_cast\<close>, zlib and yaml-cpp are not under \<open>src/\<close>: their
  answers are arguments. Logging (\<open>log.cc\<close>), configuration (\<open>config.cc\<close>), thread and lock wrappers (\<open>thread.cc\<close>) and small utilities have no influence on what
  is proved; \<open>socket.cc\<close> and \<open>tcp_server.cc\<close> enter through the sessions and dial results they give. \<open>http11_parser.cc\<close> and \<open>httpclient_parser.cc\<close> are
  copies of the generated files that the build does not compile.
\<close>

end
